(* ===== verification/Prelude.thy ===== *)
theory Prelude
  imports Main "HOL-Library.Signed_Division"
begin

text \<open>
  Shared vocabulary of the development: what a C function of the repository can do besides
  returning (leave the process with a status, run into undefined behaviour), C's bounded
  \<open>int\<close> arithmetic, and the facts on lists that the components share.
\<close>

section \<open>Outcomes of a C function\<close>

text \<open>
  The undefined behaviours the modelled code can run into. They are values of the model, so
  that a theorem saying that a call returns \<open>Value\<close> says that none of them happens.
\<close>

datatype ub =
    Null_Deref
  | Dangling
  | Double_Free
  | Int_Overflow
  | Out_Of_Bounds
  | Uninitialised

text \<open>\<open>Exit n\<close> is the call \<open>exit(n)\<close>: nothing after it runs.\<close>

datatype 'a outcome = Value 'a | Exit int | Undefined ub

fun andthen :: "'a outcome \<Rightarrow> ('a \<Rightarrow> 'b outcome) \<Rightarrow> 'b outcome" where
  "andthen (Value a) f = f a"
| "andthen (Exit n) f = Exit n"
| "andthen (Undefined u) f = Undefined u"

abbreviation (input) EXIT_SUCCESS :: int where
  "EXIT_SUCCESS \<equiv> 0"

abbreviation (input) EXIT_FAILURE :: int where
  "EXIT_FAILURE \<equiv> 1"

lemma andthen_assoc:
  "andthen (andthen m f) g = andthen m (\<lambda>x. andthen (f x) g)"
  by (cases m) simp_all

lemma andthen_eq_Value:
  "andthen m f = Value b \<longleftrightarrow> (\<exists>a. m = Value a \<and> f a = Value b)"
  by (cases m) simp_all

lemma andthen_Value_right [simp]: "andthen m Value = m"
  by (cases m) simp_all

text \<open>Running an action for every element of a list, left to right, threading a state.\<close>

fun foldo :: "('a \<Rightarrow> 's \<Rightarrow> 's outcome) \<Rightarrow> 'a list \<Rightarrow> 's \<Rightarrow> 's outcome" where
  "foldo f [] s = Value s"
| "foldo f (x # xs) s = andthen (f x s) (foldo f xs)"

lemma foldo_append: "foldo f (xs @ ys) s = andthen (foldo f xs s) (foldo f ys)"
proof (induction xs arbitrary: s)
  case (Cons x xs)
  then show ?case by (cases "f x s") simp_all
qed simp

section \<open>C integers\<close>

text \<open>
  A C \<open>int\<close> is 32 bits on the target. Signed arithmetic that leaves the range is undefined,
  so the checked operations below make it an outcome.
\<close>

definition INT_MAX :: int where
  "INT_MAX = 2147483647"

definition INT_MIN :: int where
  "INT_MIN = - 2147483648"

definition is_int :: "int \<Rightarrow> bool" where
  "is_int z \<longleftrightarrow> INT_MIN \<le> z \<and> z \<le> INT_MAX"

definition c_int :: "int \<Rightarrow> int outcome" where
  "c_int z = (if is_int z then Value z else Undefined Int_Overflow)"

lemmas int_range_defs = is_int_def INT_MAX_def INT_MIN_def

lemma c_int_Value [simp]: "is_int z \<Longrightarrow> c_int z = Value z"
  by (simp add: c_int_def)

lemma c_int_eq_Value: "c_int z = Value y \<longleftrightarrow> y = z \<and> is_int z"
  by (auto simp: c_int_def)

text \<open>Conversion to an unsigned or signed type of \<open>w\<close> bits, as C converts integers.\<close>

definition to_unsigned :: "nat \<Rightarrow> int \<Rightarrow> int" where
  "to_unsigned w z = z mod 2 ^ w"

definition to_signed :: "nat \<Rightarrow> int \<Rightarrow> int" where
  "to_signed w z = (z + 2 ^ (w - 1)) mod 2 ^ w - 2 ^ (w - 1)"

lemma to_unsigned_id: "0 \<le> z \<Longrightarrow> z < 2 ^ w \<Longrightarrow> to_unsigned w z = z"
  by (simp add: to_unsigned_def)

lemma to_unsigned_range: "0 \<le> to_unsigned w z \<and> to_unsigned w z < 2 ^ w"
  by (simp add: to_unsigned_def)

text \<open>\<open>/\<close> and \<open>%\<close> truncate towards zero; on operands that are not negative that is \<open>div\<close> and \<open>mod\<close>.\<close>

lemma sdiv_pos: "0 \<le> (a :: int) \<Longrightarrow> 0 < b \<Longrightarrow> a sdiv b = a div b"
  by (cases "a = 0") (simp_all add: signed_divide_int_def)

lemma smod_pos: "0 \<le> (a :: int) \<Longrightarrow> 0 < b \<Longrightarrow> a smod b = a mod b"
  by (cases "a = 0") (simp_all add: signed_modulo_int_def)

lemma smod_range:
  fixes r w :: int
  assumes "0 \<le> r" and "0 < w"
  shows "0 \<le> r smod w" "r smod w < w"
  using assms by (simp_all add: smod_pos)

section \<open>Lists\<close>

lemma butlast_Cons_append [simp]: "butlast (a # xs @ [x]) = a # xs"
  by (simp add: butlast_append)

lemma last_Cons_eq: "last (a # xs) = (if xs = [] then a else last xs)"
  by simp

lemma distinct_last_notin_butlast:
  "distinct (a # xs) \<Longrightarrow> last (a # xs) \<notin> set (butlast (a # xs))"
  by (metis append_butlast_last_id distinct_append disjoint_iff list.distinct(1)
      list.set_intros(1))

end
