(* ===== verification/Fifo_Contract.thy ===== *)
theory Fifo_Contract
  imports Prelude
begin

text \<open>
  The contract of a FIFO queue kept in some state, as the clients of \<open>queue.h\<close> rely on it, and
  what follows from it for whole sequences of calls. The provider is the linked list of
  \<open>Request_Queue\<close>, which interprets the locale.
\<close>

section \<open>Scripts of queue calls\<close>

text \<open>
  A script is a sequence of calls by one client: \<open>Enq m x\<close> adds \<open>x\<close>, with \<open>m\<close> what the allocator
  returns for this call, and \<open>Deq\<close> takes the oldest item. \<open>run_script\<close> runs it on an implementation
  and collects what the \<open>Deq\<close> calls return (\<open>None\<close>: nothing there), \<open>list_script\<close> on a list.
\<close>

datatype ('m, 'a) qcall = Enq 'm 'a | Deq

fun run_script ::
    "('m \<Rightarrow> 'a \<Rightarrow> 's \<Rightarrow> 's outcome) \<Rightarrow> ('s \<Rightarrow> ('a option \<times> 's) outcome) \<Rightarrow>
     ('m, 'a) qcall list \<Rightarrow> 's \<Rightarrow> ('a option list \<times> 's) outcome" where
  "run_script enq deq [] s = Value ([], s)"
| "run_script enq deq (Enq m x # cs) s = andthen (enq m x s) (run_script enq deq cs)"
| "run_script enq deq (Deq # cs) s =
     andthen (deq s) (\<lambda>(r, s). andthen (run_script enq deq cs s) (\<lambda>(rs, s). Value (r # rs, s)))"

fun list_script :: "('m, 'a) qcall list \<Rightarrow> 'a list \<Rightarrow> 'a option list \<times> 'a list" where
  "list_script [] xs = ([], xs)"
| "list_script (Enq m x # cs) xs = list_script cs (xs @ [x])"
| "list_script (Deq # cs) [] = (let (rs, ys) = list_script cs [] in (None # rs, ys))"
| "list_script (Deq # cs) (x # xs) = (let (rs, ys) = list_script cs xs in (Some x # rs, ys))"

text \<open>Every \<open>Enq\<close> of the script finds room (memory, a counter that does not overflow).\<close>

fun has_room ::
    "('m \<Rightarrow> 's \<Rightarrow> bool) \<Rightarrow> ('m \<Rightarrow> 'a \<Rightarrow> 's \<Rightarrow> 's outcome) \<Rightarrow>
     ('s \<Rightarrow> ('a option \<times> 's) outcome) \<Rightarrow> ('m, 'a) qcall list \<Rightarrow> 's \<Rightarrow> bool" where
  "has_room room enq deq [] s \<longleftrightarrow> True"
| "has_room room enq deq (Enq m x # cs) s \<longleftrightarrow>
     room m s \<and> (case enq m x s of Value s' \<Rightarrow> has_room room enq deq cs s' | _ \<Rightarrow> True)"
| "has_room room enq deq (Deq # cs) s \<longleftrightarrow>
     (case deq s of Value (r, s') \<Rightarrow> has_room room enq deq cs s' | _ \<Rightarrow> True)"

text \<open>A list queue returns the items in the order in which they came in.\<close>

lemma list_script_enqs:
  "list_script (map (\<lambda>(m, x). Enq m x) mxs @ cs) xs = list_script cs (xs @ map snd mxs)"
  by (induction mxs arbitrary: xs) auto

lemma list_script_deqs: "list_script (replicate (length xs) Deq) xs = (map Some xs, [])"
  by (induction xs) auto

lemma list_script_fifo:
  "list_script (map (\<lambda>(m, x). Enq m x) mxs @ replicate (length mxs) Deq) [] =
     (map Some (map snd mxs), [])"
  using list_script_deqs [of "map snd mxs"] by (simp add: list_script_enqs)

section \<open>The contract\<close>

locale fifo_queue =
  fixes inv :: "'s \<Rightarrow> bool"
    and items :: "'s \<Rightarrow> 'a list"
    and room :: "'m \<Rightarrow> 's \<Rightarrow> bool"
    and enq :: "'m \<Rightarrow> 'a \<Rightarrow> 's \<Rightarrow> 's outcome"
    and deq :: "'s \<Rightarrow> ('a option \<times> 's) outcome"
  assumes enq_ok: "inv s \<Longrightarrow> room m s \<Longrightarrow>
      \<exists>s'. enq m x s = Value s' \<and> inv s' \<and> items s' = items s @ [x]"
    and deq_item: "inv s \<Longrightarrow> items s = x # xs \<Longrightarrow>
      \<exists>s'. deq s = Value (Some x, s') \<and> inv s' \<and> items s' = xs"
    and deq_empty: "inv s \<Longrightarrow> items s = [] \<Longrightarrow> deq s = Value (None, s)"
begin

lemma script_refines:
  assumes "inv s" and "has_room room enq deq cs s"
  shows "\<exists>s'. run_script enq deq cs s = Value (fst (list_script cs (items s)), s') \<and> inv s' \<and>
      items s' = snd (list_script cs (items s))"
  using assms
proof (induction cs arbitrary: s)
  case Nil
  then show ?case by simp
next
  case (Cons c cs)
  show ?case
  proof (cases c)
    case (Enq m x)
    with Cons.prems obtain s1 where
      s1: "enq m x s = Value s1" "inv s1" "items s1 = items s @ [x]"
      using enq_ok [of s m x] by auto
    with Cons.prems Enq have "has_room room enq deq cs s1" by simp
    from Cons.IH [OF s1(2) this] s1 Enq show ?thesis by simp
  next
    case Deq
    show ?thesis
    proof (cases "items s")
      case Nil
      with Cons.prems Deq have "deq s = Value (None, s)" "has_room room enq deq cs s"
        using deq_empty by (auto split: prod.splits)
      with Cons.IH [OF Cons.prems(1)] Nil Deq show ?thesis
        by (auto simp: Let_def split: prod.splits)
    next
      case (Cons x xs)
      then obtain s1 where s1: "deq s = Value (Some x, s1)" "inv s1" "items s1 = xs"
        using deq_item Cons.prems(1) by blast
      with Cons.prems(2) Deq have "has_room room enq deq cs s1" by simp
      from Cons.IH [OF s1(2) this] s1 Cons Deq show ?thesis
        by (auto simp: Let_def split: prod.splits)
    qed
  qed
qed

lemma fifo_order:
  assumes "inv s" and "items s = []"
    and "has_room room enq deq (map (\<lambda>(m, x). Enq m x) mxs @ replicate (length mxs) Deq) s"
  shows "\<exists>s'. run_script enq deq (map (\<lambda>(m, x). Enq m x) mxs @ replicate (length mxs) Deq) s =
      Value (map Some (map snd mxs), s') \<and> inv s' \<and> items s' = []"
  using script_refines [OF assms(1,3)] assms(2) by (simp add: list_script_fifo)

end

end
