(* ===== verification/Request_Queue.thy ===== *)
theory Request_Queue
  imports Fifo_Contract
begin

text \<open>
  The request queue of \<open>M9Lab/M9/queue.c\<close>: a singly linked list with a dummy header node, kept
  in an explicit heap of nodes, so that dangling and null pointers of the C code are visible.
  The theory gives the operations, the representation invariant, the abstraction to a list and
  the proof that the operations implement a FIFO queue without undefined behaviour.
\<close>

section \<open>The heap of queue nodes\<close>

text \<open>
  Addresses are natural numbers, \<open>0\<close> is \<open>NULL\<close>. The payload \<open>void* data\<close> is an address, too.
  \<open>heap p = None\<close>: there is no live node at \<open>p\<close> (never allocated, or freed).
\<close>

type_synonym addr = nat

abbreviation (input) NULL :: addr where
  "NULL \<equiv> 0"

record queue_node =
  n_data :: addr
  n_next :: addr

type_synonym heap = "addr \<rightharpoonup> queue_node"

record queue =
  q_header :: addr
  q_tail :: addr
  q_size :: int
  q_isclosed :: bool
  q_mutex :: addr
  q_cond_var :: addr

type_synonym qstate = "queue \<times> heap"

definition load_node :: "heap \<Rightarrow> addr \<Rightarrow> queue_node outcome" where
  "load_node h p =
     (if p = NULL then Undefined Null_Deref
      else case h p of None \<Rightarrow> Undefined Dangling | Some n \<Rightarrow> Value n)"

definition set_data :: "addr \<Rightarrow> addr \<Rightarrow> heap \<Rightarrow> heap outcome" where
  "set_data p d h = andthen (load_node h p) (\<lambda>n. Value (h(p \<mapsto> n\<lparr>n_data := d\<rparr>)))"

definition set_next :: "addr \<Rightarrow> addr \<Rightarrow> heap \<Rightarrow> heap outcome" where
  "set_next p v h = andthen (load_node h p) (\<lambda>n. Value (h(p \<mapsto> n\<lparr>n_next := v\<rparr>)))"

text \<open>
  \<open>alloc_node p h\<close>: the heap after an allocation that returned \<open>p\<close> (\<open>NULL\<close> when it failed). What
  the allocator returns is an argument of every operation that allocates.
\<close>

definition alloc_node :: "addr \<Rightarrow> heap \<Rightarrow> heap" where
  "alloc_node p h = (if p = NULL then h else h(p \<mapsto> \<lparr>n_data = 0, n_next = 0\<rparr>))"

definition free_node :: "addr \<Rightarrow> heap \<Rightarrow> heap outcome" where
  "free_node p h =
     (if p = NULL then Value h
      else case h p of None \<Rightarrow> Undefined Double_Free | Some n \<Rightarrow> Value (h(p := None)))"

definition fresh :: "addr \<Rightarrow> heap \<Rightarrow> bool" where
  "fresh p h \<longleftrightarrow> p \<noteq> NULL \<and> h p = None"

section \<open>The operations\<close>

text \<open>
  \<open>que_ok\<close> says whether the first \<open>malloc\<close>, of the queue structure, succeeded; \<open>hdr\<close> is what the
  \<open>calloc\<close> of the dummy node returned.
\<close>

definition queue_init :: "bool \<Rightarrow> addr \<Rightarrow> addr \<Rightarrow> addr \<Rightarrow> heap \<Rightarrow> qstate outcome" where
  "queue_init que_ok hdr mutex cond_var h =
     (if \<not> que_ok then Exit EXIT_FAILURE
      else if hdr = NULL then Exit EXIT_FAILURE
      else Value (\<lparr>q_header = hdr, q_tail = hdr, q_size = 0, q_isclosed = False,
                   q_mutex = mutex, q_cond_var = cond_var\<rparr>, alloc_node hdr h))"

text \<open>
  The macros \<open>LOCK_MTX\<close> and \<open>UNLOCK_MTX\<close> of \<open>common.h\<close> leave the process when the pthread
  call returns a non-zero code; that code is the argument.
\<close>

definition LOCK_MTX :: "int \<Rightarrow> unit outcome" where
  "LOCK_MTX ret = (if ret \<noteq> 0 then Exit EXIT_FAILURE else Value ())"

definition UNLOCK_MTX :: "int \<Rightarrow> unit outcome" where
  "UNLOCK_MTX ret = (if ret \<noteq> 0 then Exit EXIT_FAILURE else Value ())"

text \<open>
  The links made by \<open>queue_enqueue\<close> under the lock, statement by statement: the two first
  assignments are made unconditionally, and the \<open>if\<close> repeats them.
\<close>

definition enqueue_links :: "addr \<Rightarrow> qstate \<Rightarrow> qstate outcome" where
  "enqueue_links node s =
     (let (q, h) = s in
      andthen (set_next (q_tail q) node h) (\<lambda>h.
      let q = q\<lparr>q_tail := node\<rparr> in
      andthen
        (if q_size q = 0
         then andthen (set_next (q_header q) node h) (\<lambda>h. Value (q\<lparr>q_tail := node\<rparr>, h))
         else andthen (set_next (q_tail q) node h) (\<lambda>h. Value (q\<lparr>q_tail := node\<rparr>, h)))
      (\<lambda>(q, h).
      andthen (c_int (q_size q + 1)) (\<lambda>n. Value (q\<lparr>q_size := n\<rparr>, h)))))"

definition queue_enqueue ::
    "int \<Rightarrow> int \<Rightarrow> addr \<Rightarrow> addr \<Rightarrow> qstate \<Rightarrow> qstate outcome" where
  "queue_enqueue lock_ret unlock_ret node data s =
     (let (q, h) = s; h = alloc_node node h in
      andthen (set_data node data h) (\<lambda>h.
      andthen (set_next node NULL h) (\<lambda>h.
      andthen (LOCK_MTX lock_ret) (\<lambda>_.
      andthen (enqueue_links node (q, h)) (\<lambda>s.
      andthen (UNLOCK_MTX unlock_ret) (\<lambda>_. Value s))))))"

definition queue_close :: "int \<Rightarrow> int \<Rightarrow> queue \<Rightarrow> queue outcome" where
  "queue_close lock_ret unlock_ret q =
     andthen (LOCK_MTX lock_ret) (\<lambda>_.
     andthen (UNLOCK_MTX unlock_ret) (\<lambda>_. Value (q\<lparr>q_isclosed := True\<rparr>)))"

definition queue_isclose :: "queue \<Rightarrow> bool" where
  "queue_isclose q = (if q_isclosed q = True then True else False)"

text \<open>Both \<open>free\<close> calls; the structure itself is gone afterwards, so only the heap is left.\<close>

definition queue_destroy :: "qstate \<Rightarrow> heap outcome" where
  "queue_destroy s = (let (q, h) = s in free_node (q_header q) h)"

text \<open>
  One pass of \<open>queue_dequeue\<close> from the test of the \<open>while\<close> loop on, with the mutex held. It ends
  with the mutex released: by returning an item, by returning \<open>NULL\<close> on a closed queue
  (\<open>Closed\<close>), or by waiting on the condition variable (\<open>Wait\<close>), from which the thread comes back
  to the test of the loop with the mutex held again.
\<close>

datatype deq_result = Item addr | Closed | Wait

definition dequeue_unlink :: "qstate \<Rightarrow> (addr \<times> qstate) outcome" where
  "dequeue_unlink s =
     (let (q, h) = s in
      andthen (load_node h (q_header q)) (\<lambda>hd.
      let node = n_next hd in
      andthen (load_node h node) (\<lambda>nd.
      andthen (set_next (q_header q) (n_next nd) h) (\<lambda>h.
      andthen (c_int (q_size q - 1)) (\<lambda>n.
      let q = q\<lparr>q_size := n\<rparr>;
          q = (if q_size q = 0 then q\<lparr>q_tail := q_header q\<rparr> else q) in
      andthen (load_node h node) (\<lambda>nd.
      andthen (free_node node h) (\<lambda>h. Value (n_data nd, (q, h)))))))))"

definition dequeue_pass :: "qstate \<Rightarrow> (deq_result \<times> qstate) outcome" where
  "dequeue_pass s =
     (if q_size (fst s) = 0
      then (if queue_isclose (fst s) then Value (Closed, s) else Value (Wait, s))
      else andthen (dequeue_unlink s) (\<lambda>(d, s). Value (Item d, s)))"

text \<open>
  \<open>queue_dequeue\<close> by a thread that never has to wait: \<open>LOCK_MTX\<close>, one pass, \<open>UNLOCK_MTX\<close>. What
  the function returns is \<open>data\<close> or \<open>NULL\<close>; \<open>None\<close> stands for a caller asleep in
  \<open>pthread_cond_wait\<close>.
\<close>

definition queue_dequeue :: "int \<Rightarrow> int \<Rightarrow> qstate \<Rightarrow> (addr option \<times> qstate) outcome" where
  "queue_dequeue lock_ret unlock_ret s =
     andthen (LOCK_MTX lock_ret) (\<lambda>_.
     andthen (dequeue_pass s) (\<lambda>(r, s).
     case r of
       Wait \<Rightarrow> Value (None, s)
     | Closed \<Rightarrow> andthen (UNLOCK_MTX unlock_ret) (\<lambda>_. Value (Some NULL, s))
     | Item d \<Rightarrow> andthen (UNLOCK_MTX unlock_ret) (\<lambda>_. Value (Some d, s))))"

section \<open>Representation invariant and abstraction\<close>

text \<open>\<open>walk h a k\<close>: the next \<open>k\<close> nodes reached from \<open>a\<close> by following \<open>next\<close>.\<close>

fun walk :: "heap \<Rightarrow> addr \<Rightarrow> nat \<Rightarrow> addr list" where
  "walk h a 0 = []"
| "walk h a (Suc k) =
     (case h a of None \<Rightarrow> [] | Some n \<Rightarrow> n_next n # walk h (n_next n) k)"

definition q_nodes :: "qstate \<Rightarrow> addr list" where
  "q_nodes s = walk (snd s) (q_header (fst s)) (nat (q_size (fst s)))"

definition node_data :: "heap \<Rightarrow> addr \<Rightarrow> addr" where
  "node_data h p = (case h p of None \<Rightarrow> NULL | Some n \<Rightarrow> n_data n)"

definition q_contents :: "qstate \<Rightarrow> addr list" where
  "q_contents s = map (node_data (snd s)) (q_nodes s)"

definition is_live :: "heap \<Rightarrow> addr \<Rightarrow> bool" where
  "is_live h p \<longleftrightarrow> p \<noteq> NULL \<and> h p \<noteq> None"

definition queue_wf :: "qstate \<Rightarrow> bool" where
  "queue_wf s \<longleftrightarrow>
     (let q = fst s; h = snd s; ps = q_header q # q_nodes s in
      0 \<le> q_size q \<and> q_size q \<le> INT_MAX \<and> length (q_nodes s) = nat (q_size q) \<and>
      distinct ps \<and> list_all (is_live h) ps \<and> q_tail q = last ps)"


section \<open>Chains of nodes\<close>

text \<open>
  The relational form of \<open>walk\<close>: \<open>chain h a ps\<close> says that the \<open>next\<close> links lead from \<open>a\<close> through
  \<open>ps\<close>. Nothing is said of the link of the last node, which the code leaves in several states.
\<close>

fun chain :: "heap \<Rightarrow> addr \<Rightarrow> addr list \<Rightarrow> bool" where
  "chain h a [] \<longleftrightarrow> True"
| "chain h a (p # ps) \<longleftrightarrow> (\<exists>n. h a = Some n \<and> n_next n = p) \<and> chain h p ps"

lemma walk_chain: "length (walk h a k) = k \<Longrightarrow> chain h a (walk h a k)"
  by (induction k arbitrary: a) (auto split: option.splits)

lemma chain_walk: "chain h a ps \<Longrightarrow> walk h a (length ps) = ps"
  by (induction ps arbitrary: a) auto

lemma chain_upd:
  "a' \<notin> set (butlast (a # ps)) \<Longrightarrow> chain (h(a' := v)) a ps \<longleftrightarrow> chain h a ps"
  by (induction ps arbitrary: a) (auto split: if_splits)

lemma chain_upd_fresh: "a' \<notin> set (a # ps) \<Longrightarrow> chain (h(a' := v)) a ps \<longleftrightarrow> chain h a ps"
  by (induction ps arbitrary: a) auto

lemma chain_upd_last:
  "distinct (a # ps) \<Longrightarrow> chain (h(last (a # ps) := v)) a ps \<longleftrightarrow> chain h a ps"
  by (intro chain_upd distinct_last_notin_butlast)

lemma chain_snoc:
  "chain h a (ps @ [p]) \<longleftrightarrow>
     chain h a ps \<and> (\<exists>n. h (last (a # ps)) = Some n \<and> n_next n = p)"
  by (induction ps arbitrary: a) auto

text \<open>The invariant with its node list made explicit.\<close>

definition rep :: "qstate \<Rightarrow> addr list \<Rightarrow> bool" where
  "rep s ps \<longleftrightarrow>
     chain (snd s) (q_header (fst s)) ps \<and> q_size (fst s) = int (length ps) \<and>
     int (length ps) \<le> INT_MAX \<and> distinct (q_header (fst s) # ps) \<and>
     list_all (is_live (snd s)) (q_header (fst s) # ps) \<and>
     q_tail (fst s) = last (q_header (fst s) # ps)"

lemma rep_nodes: "rep s ps \<Longrightarrow> q_nodes s = ps"
  by (auto simp: rep_def q_nodes_def chain_walk)

lemma rep_contents: "rep s ps \<Longrightarrow> q_contents s = map (node_data (snd s)) ps"
  by (simp add: q_contents_def rep_nodes)

lemma wf_iff_rep: "queue_wf s \<longleftrightarrow> (\<exists>ps. rep s ps)"
proof
  assume wf: "queue_wf s"
  then have len: "length (q_nodes s) = nat (q_size (fst s))"
    by (simp add: queue_wf_def Let_def)
  then have "chain (snd s) (q_header (fst s)) (q_nodes s)"
    by (simp add: q_nodes_def walk_chain)
  with wf len have "rep s (q_nodes s)"
    by (simp add: queue_wf_def rep_def Let_def)
  then show "\<exists>ps. rep s ps" ..
next
  assume "\<exists>ps. rep s ps"
  then obtain ps where r: "rep s ps" ..
  then show "queue_wf s"
    using rep_nodes [OF r] by (simp add: queue_wf_def rep_def Let_def)
qed

lemma rep_tail_live: "rep s ps \<Longrightarrow> is_live (snd s) (q_tail (fst s))"
  using last_in_set [of "q_header (fst s) # ps"] by (auto simp: rep_def list_all_iff)

lemma rep_fresh_notin: "rep s ps \<Longrightarrow> fresh p (snd s) \<Longrightarrow> p \<notin> set (q_header (fst s) # ps)"
  by (auto simp: rep_def fresh_def list_all_iff is_live_def)

section \<open>The operations on well-formed queues\<close>

lemmas heap_defs = set_data_def set_next_def load_node_def alloc_node_def free_node_def

text \<open>
  What \<open>queue_enqueue\<close> does to the heap: the new node ends up linked behind the old tail, and,
  when the queue was not empty, linked to itself.
\<close>

lemma queue_enqueue_eq:
  assumes r: "rep (q, h) ps" and p: "fresh p h" and t: "h (q_tail q) = Some nt"
    and bound: "int (length ps) < INT_MAX"
  shows "queue_enqueue 0 0 p d (q, h) =
    Value (q\<lparr>q_tail := p, q_size := q_size q + 1\<rparr>,
      h(p \<mapsto> \<lparr>n_data = d, n_next = (if ps = [] then NULL else p)\<rparr>,
        q_tail q \<mapsto> nt\<lparr>n_next := p\<rparr>))"
proof -
  have tl: "q_tail q = last (q_header q # ps)" and sz: "q_size q = int (length ps)"
    using r by (simp_all add: rep_def)
  have new: "p \<notin> set (q_header q # ps)"
    using rep_fresh_notin [OF r] p by simp
  then have ne: "q_tail q \<noteq> p" "q_header q \<noteq> p"
    using last_in_set [of "q_header q # ps"] tl by auto
  have live: "q_tail q \<noteq> NULL" "q_header q \<noteq> NULL"
    using rep_tail_live [OF r] r by (simp_all add: rep_def is_live_def)
  have hd: "ps = [] \<Longrightarrow> q_header q = q_tail q"
    using tl by simp
  have ok: "is_int (q_size q + 1)"
    using bound sz by (simp add: int_range_defs)
  have twist: "h(p \<mapsto> a, q_tail q \<mapsto> b, p \<mapsto> c) = h(p \<mapsto> c, q_tail q \<mapsto> b)" for a b c
    using ne by (auto simp: fun_eq_iff)
  show ?thesis
  proof (cases "ps = []")
    case True
    then show ?thesis
      using ne live hd ok p t sz
      by (simp add: queue_enqueue_def enqueue_links_def LOCK_MTX_def UNLOCK_MTX_def Let_def
          heap_defs fresh_def)
  next
    case False
    then show ?thesis
      using ne live ok p t sz
      by (simp add: queue_enqueue_def enqueue_links_def LOCK_MTX_def UNLOCK_MTX_def Let_def
          heap_defs fresh_def twist)
  qed
qed

lemma queue_enqueue_null [simp]: "queue_enqueue l u NULL d s = Undefined Null_Deref"
  by (cases s) (simp add: queue_enqueue_def heap_defs)

lemma rep_enqueue:
  assumes r: "rep (q, h) ps" and p: "fresh p h" and t: "h (q_tail q) = Some nt"
    and bound: "int (length ps) < INT_MAX"
  shows "rep (q\<lparr>q_tail := p, q_size := q_size q + 1\<rparr>,
      h(p \<mapsto> nn, q_tail q \<mapsto> nt\<lparr>n_next := p\<rparr>)) (ps @ [p])" (is "rep (_, ?h) _")
proof -
  have tl: "q_tail q = last (q_header q # ps)"
    using r by (simp add: rep_def)
  have dist: "distinct (q_header q # ps)" and ch: "chain h (q_header q) ps"
    using r by (simp_all add: rep_def)
  have new: "p \<notin> set (q_header q # ps)"
    using rep_fresh_notin [OF r] p by simp
  have ch': "chain ?h (q_header q) ps"
    unfolding tl using ch new by (simp only: chain_upd_last [OF dist] chain_upd_fresh [OF new])
  have live: "list_all (is_live ?h) (q_header q # ps @ [p])"
    using r p by (auto simp: rep_def list_all_iff is_live_def fresh_def)
  show ?thesis
    using r new dist bound ch' live tl
    by (simp add: rep_def chain_snoc del: fun_upd_apply)
       (simp add: p)
qed


lemma node_data_upd: "p \<notin> set ps \<Longrightarrow> map (node_data (h(p := v))) ps = map (node_data h) ps"
  by (induction ps) (auto simp: node_data_def)

lemma node_data_same:
  "h t = Some n \<Longrightarrow> map (node_data (h(t \<mapsto> n\<lparr>n_next := v\<rparr>))) ps = map (node_data h) ps"
  by (auto simp: node_data_def)

text \<open>\<open>queue_dequeue\<close> on a queue whose first node is \<open>p\<close>.\<close>

lemma dequeue_unlink_eq:
  assumes r: "rep (q, h) (p # ps)" and hd: "h (q_header q) = Some nh" and np: "h p = Some np"
  shows "dequeue_unlink (q, h) =
    Value (n_data np,
      (q\<lparr>q_size := q_size q - 1, q_tail := (if ps = [] then q_header q else q_tail q)\<rparr>,
       h(q_header q \<mapsto> nh\<lparr>n_next := n_next np\<rparr>, p := None)))"
proof -
  have nxt: "n_next nh = p" and sz: "q_size q = int (length ps) + 1"
    and live: "q_header q \<noteq> NULL" "p \<noteq> NULL" and ne: "q_header q \<noteq> p"
    using r hd by (auto simp: rep_def is_live_def)
  have ok: "is_int (q_size q - 1)"
    using r sz by (simp add: rep_def int_range_defs)
  show ?thesis
    using nxt live ne ok hd np sz
    by (auto simp add: dequeue_unlink_def Let_def heap_defs)
qed

lemma rep_dequeue:
  assumes r: "rep (q, h) (p # ps)" and hd: "h (q_header q) = Some nh" and np: "h p = Some np"
  shows "rep (q\<lparr>q_size := q_size q - 1, q_tail := (if ps = [] then q_header q else q_tail q)\<rparr>,
       h(q_header q \<mapsto> nh\<lparr>n_next := n_next np\<rparr>, p := None)) ps" (is "rep (?q, ?h) ps")
proof -
  have dist: "distinct (q_header q # p # ps)" and ch: "chain h p ps"
    using r by (simp_all add: rep_def)
  have "chain ?h (q_header q) ps"
  proof (cases ps)
    case (Cons p2 ps2)
    then have "n_next np = p2" "chain h p2 ps2"
      using ch np by auto
    with Cons dist show ?thesis
      by (simp add: chain_upd_fresh del: fun_upd_apply) simp
  qed simp
  moreover have "list_all (is_live ?h) (q_header q # ps)"
    using r dist by (auto simp: rep_def list_all_iff is_live_def)
  ultimately show ?thesis
    using r dist by (simp add: rep_def)
qed

section \<open>Correctness of the operations\<close>

text \<open>
  \<open>owns h0 s\<close>: the queue is well formed, its nodes were allocated since the heap was \<open>h0\<close>, and
  outside them the heap is still \<open>h0\<close>.
\<close>

definition owns :: "heap \<Rightarrow> qstate \<Rightarrow> bool" where
  "owns h0 s \<longleftrightarrow> queue_wf s \<and>
     (\<forall>a. if a \<in> set (q_header (fst s) # q_nodes s) then h0 a = None else snd s a = h0 a)"

definition room :: "addr \<Rightarrow> qstate \<Rightarrow> bool" where
  "room p s \<longleftrightarrow> fresh p (snd s) \<and> q_size (fst s) < INT_MAX"

text \<open>The caller's view of a dequeue that does not wait: an item, or nothing there.\<close>

definition try_dequeue :: "qstate \<Rightarrow> (addr option \<times> qstate) outcome" where
  "try_dequeue s = andthen (dequeue_pass s) (\<lambda>(r, s).
     Value (case r of Item d \<Rightarrow> Some d | Closed \<Rightarrow> None | Wait \<Rightarrow> None, s))"

lemma wf_contents_empty: "queue_wf s \<Longrightarrow> q_contents s = [] \<longleftrightarrow> q_size (fst s) = 0"
  by (auto simp: queue_wf_def Let_def q_contents_def)

lemma owns_rep:
  "rep (q, h) ps \<Longrightarrow> owns h0 (q, h) \<longleftrightarrow>
     (\<forall>a \<in> set (q_header q # ps). h0 a = None) \<and> (\<forall>a. a \<notin> set (q_header q # ps) \<longrightarrow> h a = h0 a)"
  unfolding owns_def by (auto simp: wf_iff_rep rep_nodes)

lemma enqueue_owns:
  assumes o: "owns h0 s" and m: "room p s"
  shows "\<exists>s'. queue_enqueue 0 0 p d s = Value s' \<and> owns h0 s' \<and>
      q_contents s' = q_contents s @ [d] \<and> q_isclosed (fst s') = q_isclosed (fst s)"
proof -
  obtain q h where s: "s = (q, h)" by (cases s)
  from o s obtain ps where r: "rep (q, h) ps"
    by (auto simp: owns_def wf_iff_rep)
  from m s have p: "fresh p h" by (simp add: room_def)
  have bound: "int (length ps) < INT_MAX"
    using m r s by (simp add: room_def rep_def)
  from rep_tail_live [OF r] obtain nt where t: "h (q_tail q) = Some nt"
    by (auto simp: is_live_def)
  have tl: "q_tail q \<in> set (q_header q # ps)"
    using r last_in_set [of "q_header q # ps"] by (simp add: rep_def)
  have new: "p \<notin> set (q_header q # ps)"
    using rep_fresh_notin [OF r] p by simp
  let ?n = "\<lparr>n_data = d, n_next = (if ps = [] then NULL else p)\<rparr>"
  let ?s = "(q\<lparr>q_tail := p, q_size := q_size q + 1\<rparr>,
      h(p \<mapsto> ?n, q_tail q \<mapsto> nt\<lparr>n_next := p\<rparr>))"
  have r': "rep ?s (ps @ [p])"
    using rep_enqueue [OF r p t bound] .
  have "h0 p = None"
    using o s new p by (simp add: owns_rep [OF r] fresh_def)
  with o s new have "owns h0 ?s"
    using tl by (auto simp: owns_rep [OF r] owns_rep [OF r'])
  moreover have "q_contents ?s = q_contents s @ [d]"
    using new t tl
    by (auto simp: s rep_contents [OF r'] rep_contents [OF r] node_data_def)
  ultimately show ?thesis
    using queue_enqueue_eq [OF r p t bound, of d] by (simp add: s)
qed

lemma unlink_owns:
  assumes o: "owns h0 s" and c: "q_contents s = x # xs"
  shows "\<exists>s'. dequeue_unlink s = Value (x, s') \<and> owns h0 s' \<and> q_contents s' = xs \<and>
      q_isclosed (fst s') = q_isclosed (fst s)"
proof -
  obtain q h where s: "s = (q, h)" by (cases s)
  from o s obtain ps where r: "rep (q, h) ps"
    by (auto simp: owns_def wf_iff_rep)
  with c s obtain p ps' where ps: "ps = p # ps'" and xs: "x = node_data h p"
      "xs = map (node_data h) ps'"
    by (auto simp: rep_contents [OF r])
  from r ps have r: "rep (q, h) (p # ps')" by simp
  then obtain nh np where n: "h (q_header q) = Some nh" "h p = Some np"
    by (auto simp: rep_def is_live_def)
  let ?s = "(q\<lparr>q_size := q_size q - 1, q_tail := (if ps' = [] then q_header q else q_tail q)\<rparr>,
       h(q_header q \<mapsto> nh\<lparr>n_next := n_next np\<rparr>, p := None))"
  have r': "rep ?s ps'"
    using rep_dequeue [OF r n] .
  have dist: "distinct (q_header q # p # ps')"
    using r by (simp add: rep_def)
  have "owns h0 ?s"
    using o s dist by (auto simp: owns_rep [OF r] owns_rep [OF r'])
  moreover have "q_contents ?s = xs"
    using dist n by (auto simp: rep_contents [OF r'] xs node_data_def)
  moreover have "x = n_data np"
    using xs n by (simp add: node_data_def)
  ultimately show ?thesis
    using dequeue_unlink_eq [OF r n] by (simp add: s)
qed

lemma dequeue_pass_item:
  assumes "owns h0 s" and "q_contents s = x # xs"
  shows "\<exists>s'. dequeue_pass s = Value (Item x, s') \<and> owns h0 s' \<and> q_contents s' = xs \<and>
      q_isclosed (fst s') = q_isclosed (fst s)"
proof -
  have "q_size (fst s) \<noteq> 0"
    using assms wf_contents_empty [of s] by (auto simp: owns_def)
  then show ?thesis
    using unlink_owns [OF assms] by (auto simp: dequeue_pass_def)
qed

lemma dequeue_pass_empty:
  assumes "queue_wf s" and "q_contents s = []"
  shows "dequeue_pass s = Value (if q_isclosed (fst s) then Closed else Wait, s)"
  using assms by (simp add: wf_contents_empty dequeue_pass_def queue_isclose_def)

interpretation rq: fifo_queue "owns h0" q_contents room "queue_enqueue 0 0" try_dequeue
  for h0
proof
  fix s m x
  assume "owns h0 s" and "room m s"
  then show "\<exists>s'. queue_enqueue 0 0 m x s = Value s' \<and> owns h0 s' \<and>
      q_contents s' = q_contents s @ [x]"
    using enqueue_owns by blast
next
  fix s x xs
  assume "owns h0 s" and "q_contents s = x # xs"
  then show "\<exists>s'. try_dequeue s = Value (Some x, s') \<and> owns h0 s' \<and> q_contents s' = xs"
    using dequeue_pass_item [of h0 s x xs] by (auto simp: try_dequeue_def)
next
  fix s
  assume "owns h0 s" and "q_contents s = []"
  then show "try_dequeue s = Value (None, s)"
    by (simp add: owns_def try_dequeue_def dequeue_pass_empty)
qed

text \<open>A new queue is empty, open, and owns just its dummy node.\<close>

lemma queue_init_owns:
  assumes "fresh hdr h"
  shows "\<exists>s. queue_init True hdr m c h = Value s \<and> owns h s \<and> q_contents s = [] \<and>
      \<not> q_isclosed (fst s)"
  using assms
  by (auto simp: queue_init_def owns_def queue_wf_def q_nodes_def q_contents_def fresh_def
      alloc_node_def is_live_def INT_MAX_def Let_def)

text \<open>
  A closed or drained queue: \<open>queue_destroy\<close> gives back the dummy node, and with an empty queue
  that is all there is to give back.
\<close>

lemma queue_destroy_owns:
  assumes o: "owns h0 s" and e: "q_contents s = []"
  shows "queue_destroy s = Value h0"
proof -
  have wf: "queue_wf s" using o by (simp add: owns_def)
  then have n: "q_nodes s = []"
    using e by (simp add: q_contents_def)
  have live: "q_header (fst s) \<noteq> NULL" "snd s (q_header (fst s)) \<noteq> None"
    using wf by (simp_all add: queue_wf_def Let_def is_live_def)
  have "(snd s)(q_header (fst s) := None) = h0"
    using o n by (auto simp: owns_def fun_eq_iff split: if_splits)
  with live show ?thesis
    by (auto simp: queue_destroy_def free_node_def case_prod_unfold)
qed

lemma wf_owns:
  "queue_wf s \<Longrightarrow> owns (\<lambda>a. if a \<in> set (q_header (fst s) # q_nodes s) then None else snd s a) s"
  by (simp add: owns_def)

lemma contents_length: "queue_wf s \<Longrightarrow> int (length (q_contents s)) = q_size (fst s)"
  by (simp add: queue_wf_def q_contents_def Let_def)

section \<open>Properties\<close>

text \<open>
  On a well-formed queue, with a node that the allocator has really handed out and a size
  below \<open>INT_MAX\<close>, \<open>queue_enqueue\<close> returns (no null or dangling pointer is followed), keeps the
  queue well formed, appends the item at the back, adds one to the size and leaves the closed
  flag alone.
\<close>

lemma queue_enqueue_appends:
  assumes "queue_wf s" and "fresh node (snd s)" and "q_size (fst s) < INT_MAX"
  shows "\<exists>s'. queue_enqueue 0 0 node d s = Value s' \<and> queue_wf s' \<and>
      q_contents s' = q_contents s @ [d] \<and> q_size (fst s') = q_size (fst s) + 1 \<and>
      q_isclosed (fst s') = q_isclosed (fst s)"
proof -
  have "room node s" using assms by (simp add: room_def)
  from enqueue_owns [OF wf_owns [OF assms(1)] this, of d] obtain s' where
    s': "queue_enqueue 0 0 node d s = Value s'" "queue_wf s'"
      "q_contents s' = q_contents s @ [d]" "q_isclosed (fst s') = q_isclosed (fst s)"
    by (auto simp: owns_def)
  then have "q_size (fst s') = q_size (fst s) + 1"
    using contents_length [OF assms(1)] contents_length [OF s'(2)] by simp
  with s' show ?thesis by blast
qed

text \<open>An open queue with the items 7 and 8, the state the test program builds.\<close>

definition example_queue :: qstate where
  "example_queue =
     (\<lparr>q_header = 1, q_tail = 3, q_size = 2, q_isclosed = False, q_mutex = 100, q_cond_var = 200\<rparr>,
      [1 \<mapsto> \<lparr>n_data = 0, n_next = 2\<rparr>, 2 \<mapsto> \<lparr>n_data = 7, n_next = 3\<rparr>,
       3 \<mapsto> \<lparr>n_data = 8, n_next = 3\<rparr>])"

lemma example_queue_wf: "queue_wf example_queue"
  by code_simp

lemma example_queue_contents: "q_contents example_queue = [7, 8]"
  by code_simp

text \<open>
  On a well-formed queue, \<open>queue_dequeue\<close> returns the oldest item and takes exactly that item
  out; on an empty queue it returns \<open>NULL\<close> when the queue is closed and waits when it is open,
  both without changing the queue. No pointer error can happen on the way.
\<close>

lemma queue_dequeue_takes_oldest:
  assumes "queue_wf s"
  shows "case q_contents s of
      [] \<Rightarrow> queue_dequeue 0 0 s = Value (if q_isclosed (fst s) then Some NULL else None, s)
    | x # xs \<Rightarrow> \<exists>s'. queue_dequeue 0 0 s = Value (Some x, s') \<and> queue_wf s' \<and>
        q_contents s' = xs \<and> q_size (fst s') = q_size (fst s) - 1 \<and>
        q_isclosed (fst s') = q_isclosed (fst s)"
proof (cases "q_contents s")
  case Nil
  then show ?thesis
    by (simp add: queue_dequeue_def LOCK_MTX_def UNLOCK_MTX_def dequeue_pass_empty [OF assms])
next
  case (Cons x xs)
  from dequeue_pass_item [OF wf_owns [OF assms] Cons] obtain s' where
    s': "dequeue_pass s = Value (Item x, s')" "queue_wf s'" "q_contents s' = xs"
      "q_isclosed (fst s') = q_isclosed (fst s)"
    by (auto simp: owns_def)
  then have "q_size (fst s') = q_size (fst s) - 1"
    using contents_length [OF assms] contents_length [OF s'(2)] Cons by simp
  with s' Cons show ?thesis
    by (simp add: queue_dequeue_def LOCK_MTX_def UNLOCK_MTX_def)
qed

text \<open>
  C3: Refinement. Whatever sequence of \<open>queue_enqueue\<close> and \<open>queue_dequeue\<close> calls a client makes on
  a queue that \<open>queue_init\<close> has just made, as long as the allocator delivers nodes, the calls
  return exactly what the same sequence returns on a plain list, and the queue holds that list
  at the end.
\<close>

theorem queue_script_refines_list:
  assumes "fresh hdr h" and "queue_init True hdr mutex cond_var h = Value s"
    and "has_room room (queue_enqueue 0 0) try_dequeue calls s"
  shows "\<exists>s'. run_script (queue_enqueue 0 0) try_dequeue calls s =
        Value (fst (list_script calls []), s') \<and>
      queue_wf s' \<and> q_contents s' = snd (list_script calls [])"
proof -
  have "owns h s" "q_contents s = []"
    using queue_init_owns [OF assms(1), of mutex cond_var] assms(2) by auto
  then show ?thesis
    using rq.script_refines [OF _ assms(3), of h] by (metis owns_def)
qed

definition example_calls :: "(addr, addr) qcall list" where
  "example_calls = [Enq 2 7, Enq 3 8, Deq, Enq 2 9, Deq, Deq, Deq]"

definition example_new :: qstate where
  "example_new =
     (\<lparr>q_header = 1, q_tail = 1, q_size = 0, q_isclosed = False, q_mutex = 100, q_cond_var = 200\<rparr>,
      [1 \<mapsto> \<lparr>n_data = 0, n_next = 0\<rparr>])"

lemma example_new_init: "queue_init True 1 100 200 Map.empty = Value example_new"
  by (simp add: queue_init_def example_new_def alloc_node_def)

lemma example_calls_room: "has_room room (queue_enqueue 0 0) try_dequeue example_calls example_new"
  by code_simp

theorem queue_script_refines_list_witness:
  "\<exists>s'. run_script (queue_enqueue 0 0) try_dequeue example_calls example_new =
        Value ([Some 7, Some 8, Some 9, None], s') \<and> queue_wf s' \<and> q_contents s' = []"
  using queue_script_refines_list [OF _ example_new_init example_calls_room]
  by (simp add: fresh_def example_calls_def)

text \<open>
  C12: No leak and no double free over the life of a queue. A client that makes a queue, runs any
  sequence of calls after which it is empty, and destroys it, leaves the heap of queue nodes
  exactly as it was before \<open>queue_init\<close>.
\<close>

theorem queue_lifecycle_no_leak:
  assumes "fresh hdr h" and "queue_init True hdr mutex cond_var h = Value s"
    and "has_room room (queue_enqueue 0 0) try_dequeue calls s"
    and "snd (list_script calls ([] :: addr list)) = []"
  shows "andthen (run_script (queue_enqueue 0 0) try_dequeue calls s)
      (\<lambda>(rs, s'). queue_destroy s') = Value h"
proof -
  have "owns h s" "q_contents s = []"
    using queue_init_owns [OF assms(1), of mutex cond_var] assms(2) by auto
  then obtain rs s' where "run_script (queue_enqueue 0 0) try_dequeue calls s = Value (rs, s')"
    "owns h s'" "q_contents s' = []"
    using rq.script_refines [OF _ assms(3), of h] assms(4) by auto
  then show ?thesis by (simp add: queue_destroy_owns)
qed

theorem queue_lifecycle_no_leak_witness:
  "andthen (run_script (queue_enqueue 0 0) try_dequeue example_calls example_new)
      (\<lambda>(rs, s'). queue_destroy s') = Value Map.empty"
  by (rule queue_lifecycle_no_leak [OF _ example_new_init example_calls_room])
    (simp_all add: fresh_def example_calls_def)

text \<open>
  \<open>queue_enqueue\<close> on a queue that is not empty leaves the new tail node linked to itself,
  because the \<open>else\<close> branch repeats the assignment \<open>que->tail->next = node\<close> after the tail has
  already been moved: the list in memory ends in a cycle, and only the size field ends it.
\<close>

lemma queue_enqueue_tail_cycle:
  assumes "queue_wf s" and "fresh node (snd s)" and "0 < q_size (fst s)"
    and "q_size (fst s) < INT_MAX"
  shows "\<exists>q h. queue_enqueue 0 0 node d s = Value (q, h) \<and> q_tail q = node \<and>
      h node = Some \<lparr>n_data = d, n_next = node\<rparr>"
proof -
  obtain q h where s: "s = (q, h)" by (cases s)
  with assms obtain ps where r: "rep (q, h) ps" by (auto simp: wf_iff_rep)
  with assms s have p: "fresh node h" and ps: "ps \<noteq> []" "int (length ps) < INT_MAX"
    by (auto simp: rep_def)
  from rep_tail_live [OF r] obtain nt where t: "h (q_tail q) = Some nt"
    by (auto simp: is_live_def)
  moreover have "q_tail q \<noteq> node" using p t by (auto simp: fresh_def)
  ultimately show ?thesis
    using queue_enqueue_eq [OF r p _ ps(2), of nt d] ps(1) by (auto simp: s)
qed

text \<open>
  The error paths of \<open>queue_enqueue\<close>. Its \<open>malloc\<close> is not checked, so an allocation failure is
  a null dereference; a failing mutex call ends the process with status 1; and when
  \<open>queue_init\<close> cannot allocate, it ends the process, too.
\<close>

lemma queue_alloc_and_lock_errors:
  assumes "lock_ret \<noteq> 0" and "node \<noteq> NULL"
  shows "queue_enqueue lock_ret unlock_ret node d s = Exit EXIT_FAILURE
    \<and> queue_dequeue lock_ret unlock_ret s = Exit EXIT_FAILURE
    \<and> queue_close lock_ret unlock_ret (fst s) = Exit EXIT_FAILURE
    \<and> queue_enqueue any_lock unlock_ret NULL d s = Undefined Null_Deref
    \<and> queue_init False hdr mutex cond_var h = Exit EXIT_FAILURE
    \<and> queue_init True NULL mutex cond_var h = Exit EXIT_FAILURE"
  using assms
  by (cases s)
    (simp add: queue_enqueue_def queue_dequeue_def queue_close_def queue_init_def heap_defs
      LOCK_MTX_def)

end
