(* ===== verification/Worker_Pool.thy ===== *)
theory Worker_Pool
  imports Request_Queue "HOL-Library.Multiset"
begin

text \<open>
  The worker threads of \<open>M9Lab/M9\<close> (\<open>worker_thread.c\<close>, \<open>thread_pool.c\<close> and the producer loop of
  \<open>main.c\<close>) as an interleaving of atomic steps over the queue of \<open>Request_Queue\<close>. A schedule is the
  list of choices of the scheduler; the theorems quantify over all schedules.
\<close>

section \<open>Threads\<close>

text \<open>
  Where a worker is in \<open>do_work\<close>: \<open>Fetch\<close> is before the \<open>LOCK_MTX\<close> of \<open>queue_dequeue\<close> (also when it
  is woken and has to take the mutex again), \<open>Holding\<close> is at the test of the \<open>while\<close> loop with the
  mutex held, \<open>Asleep\<close> is in \<open>pthread_cond_wait\<close>, \<open>Work r\<close> is about to run the request \<open>r\<close>, \<open>Gone\<close>
  is after \<open>pthread_exit\<close>.
\<close>

datatype worker_pc = Fetch | Holding | Asleep | Work addr | Gone

text \<open>
  Where the main thread is, with the requests it still has to enqueue: before the lock of
  \<open>queue_enqueue\<close> (or of \<open>queue_close\<close> when none is left), inside its critical section, after the
  unlock and before the broadcast; the same for \<open>queue_close\<close>; joining worker \<open>i\<close> in
  \<open>thread_pool_destroy\<close>; and finished, with the heap of queue nodes that \<open>queue_destroy\<close> left.
\<close>

datatype main_pc =
    Produce "addr list"
  | Produce_CS "addr list"
  | Produce_Signal "addr list"
  | Close_CS
  | Close_Signal
  | Join nat
  | Finished heap

datatype thread = Main | Worker nat

text \<open>
  \<open>ps_taken\<close> and \<open>ps_done\<close> record, in order, the requests that \<open>queue_dequeue\<close> has returned and
  those whose \<open>work_fn\<close> has run; the code has no such variables.
\<close>

record pool_state =
  ps_queue :: qstate
  ps_mutex :: "thread option"
  ps_main :: main_pc
  ps_workers :: "worker_pc list"
  ps_taken :: "addr list"
  ps_done :: "addr list"

text \<open>\<open>pthread_cond_broadcast\<close>: every sleeping thread goes on to take the mutex.\<close>

definition wake :: "worker_pc \<Rightarrow> worker_pc" where
  "wake w = (if w = Asleep then Fetch else w)"

definition pthread_cond_broadcast :: "pool_state \<Rightarrow> pool_state" where
  "pthread_cond_broadcast s = s\<lparr>ps_workers := map wake (ps_workers s)\<rparr>"

definition set_worker :: "nat \<Rightarrow> worker_pc \<Rightarrow> pool_state \<Rightarrow> pool_state" where
  "set_worker i w s = s\<lparr>ps_workers := (ps_workers s)[i := w]\<rparr>"

text \<open>
  One atomic step of the main thread; \<open>None\<close> when it is blocked. \<open>node\<close> is what \<open>malloc\<close> returns to
  \<open>queue_enqueue\<close>; an address that is in use is no possible return value, so that there is no
  such step.
\<close>

fun main_step :: "addr \<Rightarrow> pool_state \<Rightarrow> pool_state outcome option" where
  "main_step node s =
     (case ps_main s of
        Produce rs \<Rightarrow>
          (if ps_mutex s \<noteq> None then None
           else Some (Value (s\<lparr>ps_mutex := Some Main,
             ps_main := (if rs = [] then Close_CS else Produce_CS rs)\<rparr>)))
      | Produce_CS rs \<Rightarrow>
          (if node \<noteq> NULL \<and> snd (ps_queue s) node \<noteq> None then None
           else Some (andthen (queue_enqueue 0 0 node (hd rs) (ps_queue s)) (\<lambda>q.
             Value (s\<lparr>ps_queue := q, ps_mutex := None, ps_main := Produce_Signal (tl rs)\<rparr>))))
      | Produce_Signal rs \<Rightarrow>
          Some (Value ((pthread_cond_broadcast s)\<lparr>ps_main := Produce rs\<rparr>))
      | Close_CS \<Rightarrow>
          Some (andthen (queue_close 0 0 (fst (ps_queue s))) (\<lambda>q.
            Value (s\<lparr>ps_queue := (q, snd (ps_queue s)), ps_mutex := None,
              ps_main := Close_Signal\<rparr>)))
      | Close_Signal \<Rightarrow>
          Some (Value ((pthread_cond_broadcast s)\<lparr>ps_main := Join 0\<rparr>))
      | Join i \<Rightarrow>
          (if i < length (ps_workers s)
           then (if ps_workers s ! i = Gone then Some (Value (s\<lparr>ps_main := Join (Suc i)\<rparr>)) else None)
           else Some (andthen (queue_destroy (ps_queue s)) (\<lambda>h. Value (s\<lparr>ps_main := Finished h\<rparr>))))
      | Finished h \<Rightarrow> None)"

text \<open>
  One atomic step of worker \<open>i\<close>, that is of \<open>do_work\<close>: a \<open>NULL\<close> request ends the thread, any other
  is run, then the loop goes on.
\<close>

fun do_work_step :: "nat \<Rightarrow> pool_state \<Rightarrow> pool_state outcome option" where
  "do_work_step i s =
     (if i < length (ps_workers s) then
        (case ps_workers s ! i of
           Fetch \<Rightarrow>
             (if ps_mutex s \<noteq> None then None
              else Some (Value ((set_worker i Holding s)\<lparr>ps_mutex := Some (Worker i)\<rparr>)))
         | Holding \<Rightarrow>
             Some (andthen (dequeue_pass (ps_queue s)) (\<lambda>(r, q).
               let s = s\<lparr>ps_queue := q, ps_mutex := None\<rparr> in
               case r of
                 Item d \<Rightarrow>
                   Value ((set_worker i (if d = NULL then Gone else Work d) s)
                     \<lparr>ps_taken := ps_taken s @ [d]\<rparr>)
               | Closed \<Rightarrow> Value (set_worker i Gone (pthread_cond_broadcast s))
               | Wait \<Rightarrow> Value (set_worker i Asleep s)))
         | Work d \<Rightarrow>
             Some (Value ((set_worker i Fetch s)\<lparr>ps_done := ps_done s @ [d]\<rparr>))
         | Asleep \<Rightarrow> None
         | Gone \<Rightarrow> None)
      else None)"

text \<open>POSIX allows \<open>pthread_cond_wait\<close> to return without a broadcast.\<close>

fun spurious_wakeup :: "nat \<Rightarrow> pool_state \<Rightarrow> pool_state outcome option" where
  "spurious_wakeup i s =
     (if i < length (ps_workers s) \<and> ps_workers s ! i = Asleep
      then Some (Value (set_worker i Fetch s)) else None)"

datatype choice = Move_Main addr | Move_Worker nat | Spurious nat

fun pool_step :: "choice \<Rightarrow> pool_state \<Rightarrow> pool_state outcome option" where
  "pool_step (Move_Main node) s = main_step node s"
| "pool_step (Move_Worker i) s = do_work_step i s"
| "pool_step (Spurious i) s = spurious_wakeup i s"

fun run_schedule :: "choice list \<Rightarrow> pool_state \<Rightarrow> pool_state outcome option" where
  "run_schedule [] s = Some (Value s)"
| "run_schedule (c # cs) s =
     (case pool_step c s of Some (Value t) \<Rightarrow> run_schedule cs t | r \<Rightarrow> r)"

text \<open>
  The state when the producer loop starts: a new queue and \<open>n\<close> worker threads. A thread that has
  not been created yet is a thread that has not been scheduled yet.
\<close>

definition pool_start :: "qstate \<Rightarrow> nat \<Rightarrow> addr list \<Rightarrow> pool_state" where
  "pool_start q n rs =
     \<lparr>ps_queue = q, ps_mutex = None, ps_main = Produce rs, ps_workers = replicate n Fetch,
      ps_taken = [], ps_done = []\<rparr>"

inductive reaches :: "pool_state \<Rightarrow> pool_state \<Rightarrow> bool" for s where
  start: "reaches s s"
| step: "reaches s t \<Longrightarrow> pool_step c t = Some (Value u) \<Longrightarrow> reaches s u"

section \<open>The invariant\<close>

fun todo :: "main_pc \<Rightarrow> addr list" where
  "todo (Produce rs) = rs"
| "todo (Produce_CS rs) = rs"
| "todo (Produce_Signal rs) = rs"
| "todo m = []"

fun closing :: "main_pc \<Rightarrow> bool" where
  "closing Close_Signal = True"
| "closing (Join i) = True"
| "closing (Finished h) = True"
| "closing m = False"

fun working :: "worker_pc \<Rightarrow> addr list" where
  "working (Work d) = [d]"
| "working w = []"

definition running :: "worker_pc list \<Rightarrow> addr list" where
  "running ws = concat (map working ws)"

definition main_in_cs :: "main_pc \<Rightarrow> bool" where
  "main_in_cs m \<longleftrightarrow> (case m of Produce_CS rs \<Rightarrow> True | Close_CS \<Rightarrow> True | _ \<Rightarrow> False)"

definition about_to_signal :: "main_pc \<Rightarrow> bool" where
  "about_to_signal m \<longleftrightarrow> (case m of Produce_Signal rs \<Rightarrow> True | Close_Signal \<Rightarrow> True | _ \<Rightarrow> False)"

text \<open>Who holds the mutex is exactly who is inside a critical section.\<close>

definition mutex_inv :: "pool_state \<Rightarrow> bool" where
  "mutex_inv s \<longleftrightarrow>
     (ps_mutex s = Some Main \<longleftrightarrow> main_in_cs (ps_main s)) \<and>
     (\<forall>i. ps_mutex s = Some (Worker i) \<longleftrightarrow> i < length (ps_workers s) \<and> ps_workers s ! i = Holding)"

text \<open>No request is lost, duplicated or reordered between the producer and the workers.\<close>

definition flow_inv :: "addr list \<Rightarrow> pool_state \<Rightarrow> bool" where
  "flow_inv rs s \<longleftrightarrow>
     ps_taken s @ q_contents (ps_queue s) @ todo (ps_main s) = rs \<and>
     mset (ps_taken s) = mset (ps_done s) + mset (running (ps_workers s)) \<and>
     (case ps_main s of Produce_CS r \<Rightarrow> r \<noteq> [] | _ \<Rightarrow> True)"

text \<open>No wake-up is lost: a sleeping worker has nothing to do, or a broadcast is on its way.\<close>

definition sleep_inv :: "pool_state \<Rightarrow> bool" where
  "sleep_inv s \<longleftrightarrow>
     q_isclosed (fst (ps_queue s)) = closing (ps_main s) \<and>
     (Asleep \<in> set (ps_workers s) \<longrightarrow> about_to_signal (ps_main s) \<or>
        q_contents (ps_queue s) = [] \<and> \<not> closing (ps_main s)) \<and>
     (Gone \<in> set (ps_workers s) \<longrightarrow> q_contents (ps_queue s) = [] \<and> closing (ps_main s)) \<and>
     (case ps_main s of
        Join i \<Rightarrow> (\<forall>j < min i (length (ps_workers s)). ps_workers s ! j = Gone)
      | Finished h \<Rightarrow> (\<forall>w \<in> set (ps_workers s). w = Gone)
      | _ \<Rightarrow> True)"

definition memory_inv :: "heap \<Rightarrow> pool_state \<Rightarrow> bool" where
  "memory_inv h0 s \<longleftrightarrow> owns h0 (ps_queue s)"

definition pool_inv :: "heap \<Rightarrow> addr list \<Rightarrow> pool_state \<Rightarrow> bool" where
  "pool_inv h0 rs s \<longleftrightarrow> mutex_inv s \<and> flow_inv rs s \<and> sleep_inv s \<and> memory_inv h0 s"

section \<open>Broadcasts and updates of one worker\<close>

lemma wake_simps [simp]:
  "wake w = Holding \<longleftrightarrow> w = Holding"
  "wake w = Gone \<longleftrightarrow> w = Gone"
  "wake w \<noteq> Asleep"
  "working (wake w) = working w"
  by (auto simp: wake_def)

lemma Asleep_notin_wake [simp]: "Asleep \<notin> wake ` A"
  by (auto simp: wake_def split: if_splits)

lemma Gone_in_wake [simp]: "Gone \<in> wake ` A \<longleftrightarrow> Gone \<in> A"
  by (metis (no_types, lifting) image_iff wake_simps(2))

lemma broadcast_simps [simp]:
  "ps_queue (pthread_cond_broadcast s) = ps_queue s"
  "ps_mutex (pthread_cond_broadcast s) = ps_mutex s"
  "ps_main (pthread_cond_broadcast s) = ps_main s"
  "ps_workers (pthread_cond_broadcast s) = map wake (ps_workers s)"
  "ps_taken (pthread_cond_broadcast s) = ps_taken s"
  "ps_done (pthread_cond_broadcast s) = ps_done s"
  by (simp_all add: pthread_cond_broadcast_def)

lemma set_worker_simps [simp]:
  "ps_queue (set_worker i w s) = ps_queue s"
  "ps_mutex (set_worker i w s) = ps_mutex s"
  "ps_main (set_worker i w s) = ps_main s"
  "ps_workers (set_worker i w s) = (ps_workers s)[i := w]"
  "ps_taken (set_worker i w s) = ps_taken s"
  "ps_done (set_worker i w s) = ps_done s"
  by (simp_all add: set_worker_def)

lemma running_wake [simp]: "running (map wake ws) = running ws"
  by (simp add: running_def comp_def)

lemma running_update:
  "i < length ws \<Longrightarrow>
     mset (running (ws[i := w])) + mset (working (ws ! i)) = mset (running ws) + mset (working w)"
  by (induction ws arbitrary: i) (auto simp: running_def nth_Cons split: nat.splits)

lemma set_update_elim:
  assumes "w \<in> set (ws[i := v])" obtains "w = v" | "w \<in> set ws"
  using assms set_update_subset_insert by fastforce

section \<open>What the queue operations do to the state of the pool\<close>

lemma enqueue_result:
  assumes "owns h0 q0" and "room p q0" and "queue_enqueue 0 0 p d q0 = Value q"
  shows "owns h0 q" "q_contents q = q_contents q0 @ [d]" "q_isclosed (fst q) = q_isclosed (fst q0)"
  using enqueue_owns [OF assms(1,2), of d] assms(3) by auto

lemma pass_result:
  assumes "owns h0 q0" and "dequeue_pass q0 = Value (r, q)"
  shows "owns h0 q \<and> q_isclosed (fst q) = q_isclosed (fst q0) \<and>
    (case r of
       Item d \<Rightarrow> q_contents q0 = d # q_contents q
     | Closed \<Rightarrow> q = q0 \<and> q_contents q0 = [] \<and> q_isclosed (fst q0)
     | Wait \<Rightarrow> q = q0 \<and> q_contents q0 = [] \<and> \<not> q_isclosed (fst q0))"
proof (cases "q_contents q0")
  case Nil
  with assms show ?thesis
    using dequeue_pass_empty [of q0] by (auto simp: owns_def split: if_splits)
next
  case (Cons x xs)
  with dequeue_pass_item [OF assms(1) Cons] assms(2) show ?thesis by auto
qed

text \<open>The steps of a worker, one case per way through the loop of \<open>do_work\<close>.\<close>

lemma do_work_step_cases:
  assumes "do_work_step i s = Some (Value t)" and "owns h0 (ps_queue s)"
  obtains
    (Lock) "i < length (ps_workers s)" "ps_workers s ! i = Fetch" "ps_mutex s = None"
      "t = (set_worker i Holding s)\<lparr>ps_mutex := Some (Worker i)\<rparr>"
  | (Take) d q where "i < length (ps_workers s)" "ps_workers s ! i = Holding" "owns h0 q"
      "q_isclosed (fst q) = q_isclosed (fst (ps_queue s))"
      "q_contents (ps_queue s) = d # q_contents q"
      "t = (set_worker i (if d = NULL then Gone else Work d) s)
        \<lparr>ps_queue := q, ps_mutex := None, ps_taken := ps_taken s @ [d]\<rparr>"
  | (Leave) "i < length (ps_workers s)" "ps_workers s ! i = Holding"
      "q_contents (ps_queue s) = []" "q_isclosed (fst (ps_queue s))"
      "t = set_worker i Gone (pthread_cond_broadcast (s\<lparr>ps_mutex := None\<rparr>))"
  | (Sleep) "i < length (ps_workers s)" "ps_workers s ! i = Holding"
      "q_contents (ps_queue s) = []" "\<not> q_isclosed (fst (ps_queue s))"
      "t = set_worker i Asleep (s\<lparr>ps_mutex := None\<rparr>)"
  | (Run) d where "i < length (ps_workers s)" "ps_workers s ! i = Work d"
      "t = (set_worker i Fetch s)\<lparr>ps_done := ps_done s @ [d]\<rparr>"
proof (cases "ps_workers s ! i")
  case Holding
  with assms obtain r q where pass: "dequeue_pass (ps_queue s) = Value (r, q)"
    by (auto simp: andthen_eq_Value split: if_splits)
  note res = pass_result [OF assms(2) pass]
  show thesis
  proof (cases r)
    case (Item d)
    show thesis
      by (rule Take [of q d])
        (use assms(1) Holding pass res Item in \<open>auto simp: set_worker_def split: if_splits\<close>)
  next
    case Closed
    show thesis
      by (rule Leave) (use assms(1) Holding pass res Closed in \<open>auto split: if_splits\<close>)
  next
    case Wait
    show thesis
      by (rule Sleep) (use assms(1) Holding pass res Wait in \<open>auto split: if_splits\<close>)
  qed
qed (use assms(1) Lock Run in \<open>auto split: if_splits\<close>)

text \<open>The steps of the main thread.\<close>

lemma main_step_cases:
  assumes "main_step node s = Some (Value t)" and "owns h0 (ps_queue s)"
    and "q_size (fst (ps_queue s)) < INT_MAX"
  obtains
    (Lock) rs where "ps_main s = Produce rs" "ps_mutex s = None"
      "t = s\<lparr>ps_mutex := Some Main, ps_main := (if rs = [] then Close_CS else Produce_CS rs)\<rparr>"
  | (Enqueue) rs q where "ps_main s = Produce_CS rs" "owns h0 q"
      "q_isclosed (fst q) = q_isclosed (fst (ps_queue s))"
      "q_contents q = q_contents (ps_queue s) @ [hd rs]"
      "t = s\<lparr>ps_queue := q, ps_mutex := None, ps_main := Produce_Signal (tl rs)\<rparr>"
  | (Signal) rs where "ps_main s = Produce_Signal rs"
      "t = (pthread_cond_broadcast s)\<lparr>ps_main := Produce rs\<rparr>"
  | (Close) "ps_main s = Close_CS"
      "t = s\<lparr>ps_queue := ((fst (ps_queue s))\<lparr>q_isclosed := True\<rparr>, snd (ps_queue s)),
        ps_mutex := None, ps_main := Close_Signal\<rparr>"
  | (Close_Signal) "ps_main s = Close_Signal"
      "t = (pthread_cond_broadcast s)\<lparr>ps_main := Join 0\<rparr>"
  | (Join) i where "ps_main s = Join i" "i < length (ps_workers s)" "ps_workers s ! i = Gone"
      "t = s\<lparr>ps_main := Join (Suc i)\<rparr>"
  | (Finish) i h where "ps_main s = Join i" "length (ps_workers s) \<le> i"
      "queue_destroy (ps_queue s) = Value h" "t = s\<lparr>ps_main := Finished h\<rparr>"
proof (cases "ps_main s")
  case (Produce_CS rs)
  have "node \<noteq> NULL"
    using assms(1) Produce_CS by (intro notI) simp
  with assms Produce_CS have r: "room node (ps_queue s)"
    by (auto simp: room_def fresh_def split: if_splits)
  from assms Produce_CS obtain q where q: "queue_enqueue 0 0 node (hd rs) (ps_queue s) = Value q"
      "t = s\<lparr>ps_queue := q, ps_mutex := None, ps_main := Produce_Signal (tl rs)\<rparr>"
    by (auto simp: andthen_eq_Value split: if_splits)
  show thesis
    by (rule Enqueue [OF Produce_CS]) (use enqueue_result [OF assms(2) r q(1)] q(2) in auto)
next
  case Close_CS
  then show thesis
    using assms(1) by (intro Close)
      (auto simp: queue_close_def LOCK_MTX_def UNLOCK_MTX_def)
next
  case (Join i)
  then show thesis
    using assms(1) that(6) [OF Join] that(7) [OF Join]
    by (auto simp: andthen_eq_Value split: if_splits)
qed (use assms(1) Lock Signal Close_Signal in \<open>auto split: if_splits\<close>)

lemma owns_closed [simp]: "owns h0 (q\<lparr>q_isclosed := True\<rparr>, h) \<longleftrightarrow> owns h0 (q, h)"
  by (simp add: owns_def queue_wf_def q_nodes_def Let_def)

lemma contents_closed [simp]: "q_contents (q\<lparr>q_isclosed := True\<rparr>, h) = q_contents (q, h)"
  by (simp add: q_contents_def q_nodes_def)

section \<open>Every step keeps the invariant\<close>

lemma mutex_inv_wake:
  "i < length ws \<and> map wake ws ! i = Holding \<longleftrightarrow> i < length ws \<and> ws ! i = Holding"
  by auto

lemma main_step_mutex:
  assumes "main_step node s = Some (Value t)" and "owns h0 (ps_queue s)"
    and "q_size (fst (ps_queue s)) < INT_MAX" and "mutex_inv s"
  shows "mutex_inv t"
  using assms(1-3)
proof (cases rule: main_step_cases)
  case (Lock rs)
  with assms(4) show ?thesis by (simp add: mutex_inv_def main_in_cs_def)
next
  case (Enqueue rs q)
  then have "ps_mutex s = Some Main" using assms(4) by (simp add: mutex_inv_def main_in_cs_def)
  with Enqueue assms(4) show ?thesis by (simp add: mutex_inv_def main_in_cs_def)
next
  case (Signal rs)
  with assms(4) show ?thesis by (simp add: mutex_inv_wake mutex_inv_def main_in_cs_def)
next
  case Close
  then have "ps_mutex s = Some Main" using assms(4) by (simp add: mutex_inv_def main_in_cs_def)
  with Close assms(4) show ?thesis by (simp add: mutex_inv_def main_in_cs_def)
next
  case Close_Signal
  with assms(4) show ?thesis by (simp add: mutex_inv_wake mutex_inv_def main_in_cs_def)
qed (use assms(4) in \<open>simp_all add: mutex_inv_def main_in_cs_def\<close>)

lemma do_work_step_mutex:
  assumes "do_work_step i s = Some (Value t)" and "owns h0 (ps_queue s)" and "mutex_inv s"
  shows "mutex_inv t"
  using assms(1,2)
proof (cases rule: do_work_step_cases)
  case Lock
  with assms(3) show ?thesis by (auto simp: mutex_inv_def main_in_cs_def nth_list_update)
next
  case (Take d q)
  then have "ps_mutex s = Some (Worker i)" using assms(3) by (simp add: mutex_inv_def)
  with Take assms(3) show ?thesis by (auto simp: mutex_inv_def nth_list_update)
next
  case Leave
  then have "ps_mutex s = Some (Worker i)" using assms(3) by (simp add: mutex_inv_def)
  with Leave assms(3) show ?thesis by (auto simp: mutex_inv_def nth_list_update)
next
  case Sleep
  then have "ps_mutex s = Some (Worker i)" using assms(3) by (simp add: mutex_inv_def)
  with Sleep assms(3) show ?thesis by (auto simp: mutex_inv_def nth_list_update)
next
  case (Run d)
  with assms(3) show ?thesis by (auto simp: mutex_inv_def nth_list_update)
qed

lemma main_step_flow:
  assumes "main_step node s = Some (Value t)" and "owns h0 (ps_queue s)"
    and "q_size (fst (ps_queue s)) < INT_MAX" and "flow_inv rs s"
  shows "flow_inv rs t"
  using assms(1-3)
  by (cases rule: main_step_cases) (use assms(4) in \<open>auto simp: flow_inv_def\<close>)

lemma do_work_step_flow:
  assumes "do_work_step i s = Some (Value t)" and "owns h0 (ps_queue s)"
    and "flow_inv rs s" and "NULL \<notin> set rs"
  shows "flow_inv rs t"
  using assms(1,2)
proof (cases rule: do_work_step_cases)
  case Lock
  with assms(3) running_update [OF Lock(1), of Holding] show ?thesis by (simp add: flow_inv_def)
next
  case (Take d q)
  with assms(3,4) have "d \<noteq> NULL" by (auto simp: flow_inv_def)
  with Take assms(3) running_update [OF Take(1), of "Work d"] show ?thesis
    by (simp add: flow_inv_def)
next
  case Leave
  with assms(3) running_update [of i "map wake (ps_workers s)" Gone] show ?thesis
    by (simp add: flow_inv_def)
next
  case Sleep
  with assms(3) running_update [OF Sleep(1), of Asleep] show ?thesis by (simp add: flow_inv_def)
next
  case (Run d)
  with assms(3) running_update [OF Run(1), of Fetch] show ?thesis
    by (simp add: flow_inv_def)
qed

lemma main_step_sleep:
  assumes "main_step node s = Some (Value t)" and "owns h0 (ps_queue s)"
    and "q_size (fst (ps_queue s)) < INT_MAX" and "sleep_inv s"
  shows "sleep_inv t"
  using assms(1-3)
proof (cases rule: main_step_cases)
  case (Join i)
  with assms(4) show ?thesis
    by (auto simp: sleep_inv_def about_to_signal_def less_Suc_eq)
next
  case (Finish i h)
  with assms(4) show ?thesis
    by (auto simp: sleep_inv_def about_to_signal_def in_set_conv_nth)
qed (use assms(4) in \<open>auto simp: sleep_inv_def about_to_signal_def\<close>)

text \<open>
  The part of \<open>sleep_inv\<close> about the workers that \<open>thread_pool_destroy\<close> has joined: an update of a
  worker that is still there does not touch it.
\<close>

definition joined_inv :: "main_pc \<Rightarrow> worker_pc list \<Rightarrow> bool" where
  "joined_inv m ws \<longleftrightarrow>
     (case m of
        Join i \<Rightarrow> (\<forall>j < min i (length ws). ws ! j = Gone)
      | Finished h \<Rightarrow> (\<forall>w \<in> set ws. w = Gone)
      | _ \<Rightarrow> True)"

lemma joined_inv_update:
  "joined_inv m ws \<Longrightarrow> i < length ws \<Longrightarrow> ws ! i \<noteq> Gone \<Longrightarrow> joined_inv m (ws[i := w])"
  by (auto simp: joined_inv_def nth_list_update split: main_pc.splits)

lemma joined_inv_wake: "joined_inv m ws \<Longrightarrow> joined_inv m (map wake ws)"
  by (auto simp: joined_inv_def split: main_pc.splits)

lemma sleep_inv_alt:
  "sleep_inv s \<longleftrightarrow>
     q_isclosed (fst (ps_queue s)) = closing (ps_main s) \<and>
     (Asleep \<in> set (ps_workers s) \<longrightarrow> about_to_signal (ps_main s) \<or>
        q_contents (ps_queue s) = [] \<and> \<not> closing (ps_main s)) \<and>
     (Gone \<in> set (ps_workers s) \<longrightarrow> q_contents (ps_queue s) = [] \<and> closing (ps_main s)) \<and>
     joined_inv (ps_main s) (ps_workers s)"
  by (simp add: sleep_inv_def joined_inv_def)

lemma do_work_step_sleep:
  assumes "do_work_step i s = Some (Value t)" and "owns h0 (ps_queue s)"
    and "sleep_inv s" and "NULL \<notin> set (q_contents (ps_queue s))"
  shows "sleep_inv t"
  using assms(1,2)
proof (cases rule: do_work_step_cases)
  case Lock
  with assms(3) show ?thesis
    by (auto simp: sleep_inv_alt joined_inv_update elim: set_update_elim)
next
  case (Take d q)
  then have "d \<noteq> NULL" using assms(4) by auto
  with Take assms(3) show ?thesis
    by (auto simp: sleep_inv_alt joined_inv_update elim: set_update_elim)
next
  case Leave
  have "joined_inv (ps_main s) ((map wake (ps_workers s))[i := Gone])"
    using Leave assms(3) by (intro joined_inv_update joined_inv_wake) (auto simp: sleep_inv_alt)
  with Leave assms(3) show ?thesis
    by (auto simp: sleep_inv_alt elim: set_update_elim)
next
  case Sleep
  with assms(3) show ?thesis
    by (auto simp: sleep_inv_alt joined_inv_update elim: set_update_elim)
next
  case (Run d)
  with assms(3) show ?thesis
    by (auto simp: sleep_inv_alt joined_inv_update elim: set_update_elim)
qed

lemma do_work_step_memory:
  "do_work_step i s = Some (Value t) \<Longrightarrow> owns h0 (ps_queue s) \<Longrightarrow> owns h0 (ps_queue t)"
  by (erule (1) do_work_step_cases) auto

lemma main_step_memory:
  "main_step node s = Some (Value t) \<Longrightarrow> owns h0 (ps_queue s) \<Longrightarrow>
     q_size (fst (ps_queue s)) < INT_MAX \<Longrightarrow> owns h0 (ps_queue t)"
  by (erule (2) main_step_cases) auto

lemma spurious_inv:
  assumes "spurious_wakeup i s = Some (Value t)" and "pool_inv h0 rs s"
  shows "pool_inv h0 rs t"
proof -
  have i: "i < length (ps_workers s)" "ps_workers s ! i = Asleep" "t = set_worker i Fetch s"
    using assms(1) by (auto split: if_splits)
  have "mutex_inv t"
    using i assms(2) by (auto simp: pool_inv_def mutex_inv_def nth_list_update)
  moreover have "flow_inv rs t"
    using i assms(2) running_update [OF i(1), of Fetch] by (simp add: pool_inv_def flow_inv_def)
  moreover have "sleep_inv t"
    using i assms(2)
    by (auto simp: pool_inv_def sleep_inv_alt joined_inv_update elim: set_update_elim)
  ultimately show ?thesis
    using i assms(2) by (simp add: pool_inv_def memory_inv_def)
qed

text \<open>The requests are real ones, and there are few enough of them for the size counter.\<close>

definition good_requests :: "addr list \<Rightarrow> bool" where
  "good_requests rs \<longleftrightarrow> NULL \<notin> set rs \<and> int (length rs) < INT_MAX"

lemma pool_inv_size:
  assumes "pool_inv h0 rs s" and "good_requests rs"
  shows "q_size (fst (ps_queue s)) < INT_MAX" "NULL \<notin> set (q_contents (ps_queue s))"
proof -
  have "rs = ps_taken s @ q_contents (ps_queue s) @ todo (ps_main s)"
    using assms(1) by (simp add: pool_inv_def flow_inv_def)
  moreover have "int (length (q_contents (ps_queue s))) = q_size (fst (ps_queue s))"
    using assms(1) by (simp add: pool_inv_def memory_inv_def owns_def contents_length)
  ultimately show "q_size (fst (ps_queue s)) < INT_MAX" "NULL \<notin> set (q_contents (ps_queue s))"
    using assms(2) by (auto simp: good_requests_def)
qed

lemma pool_step_inv:
  assumes step: "pool_step c s = Some (Value t)" and inv: "pool_inv h0 rs s"
    and good: "good_requests rs"
  shows "pool_inv h0 rs t"
proof -
  note small = pool_inv_size [OF inv good]
  have o: "owns h0 (ps_queue s)" using inv by (simp add: pool_inv_def memory_inv_def)
  have n: "NULL \<notin> set rs" using good by (simp add: good_requests_def)
  show ?thesis
  proof (cases c)
    case (Move_Main node)
    with step have m: "main_step node s = Some (Value t)" by simp
    from inv show ?thesis
      unfolding pool_inv_def memory_inv_def
      by (blast intro: main_step_mutex [OF m o small(1)] main_step_flow [OF m o small(1)]
          main_step_sleep [OF m o small(1)] main_step_memory [OF m o small(1)])
  next
    case (Move_Worker i)
    with step have w: "do_work_step i s = Some (Value t)" by simp
    from inv n small(2) show ?thesis
      unfolding pool_inv_def memory_inv_def
      by (blast intro: do_work_step_mutex [OF w o] do_work_step_flow [OF w o]
          do_work_step_sleep [OF w o] do_work_step_memory [OF w o])
  next
    case (Spurious i)
    with step inv show ?thesis by (simp add: spurious_inv del: spurious_wakeup.simps)
  qed
qed

lemma pool_start_inv:
  assumes "owns h0 q" and "q_contents q = []" and "\<not> q_isclosed (fst q)"
  shows "pool_inv h0 rs (pool_start q n rs)"
  using assms
  by (auto simp: pool_inv_def mutex_inv_def flow_inv_def sleep_inv_def memory_inv_def
      pool_start_def main_in_cs_def running_def)

lemma reaches_inv:
  assumes "reaches s t" and "pool_inv h0 rs s" and "good_requests rs"
  shows "pool_inv h0 rs t"
  using assms by (induction rule: reaches.induct) (auto intro: pool_step_inv)

section \<open>Steps do not fail, and some step is always possible\<close>

lemma queue_destroy_Value: "queue_wf s \<Longrightarrow> \<exists>h. queue_destroy s = Value h"
  by (auto simp: queue_wf_def queue_destroy_def free_node_def is_live_def Let_def
      split: prod.splits)

lemma dequeue_pass_Value: "owns h0 q \<Longrightarrow> \<exists>r q'. dequeue_pass q = Value (r, q')"
proof (cases "q_contents q")
  case Nil
  then show "owns h0 q \<Longrightarrow> ?thesis" by (simp add: dequeue_pass_empty owns_def)
next
  case (Cons x xs)
  then show "owns h0 q \<Longrightarrow> ?thesis" using dequeue_pass_item [of h0 q x xs] by blast
qed

lemma pool_step_safe:
  assumes inv: "pool_inv h0 rs s" and good: "good_requests rs" and "c \<noteq> Move_Main NULL"
    and step: "pool_step c s = Some r"
  shows "\<exists>t. r = Value t"
proof -
  have o: "owns h0 (ps_queue s)" using inv by (simp add: pool_inv_def memory_inv_def)
  show ?thesis
  proof (cases c)
    case (Move_Main node)
    with assms(3) have "node \<noteq> NULL" by simp
    show ?thesis
    proof (cases "ps_main s")
      case (Produce_CS qs)
      with step Move_Main \<open>node \<noteq> NULL\<close> have "room node (ps_queue s)"
        using pool_inv_size [OF inv good] by (auto simp: room_def fresh_def split: if_splits)
      with step Move_Main Produce_CS show ?thesis
        using enqueue_owns [OF o, of node "hd qs"] by (auto split: if_splits)
    qed (use step Move_Main queue_destroy_Value [of "ps_queue s"] o in
        \<open>auto simp: owns_def queue_close_def LOCK_MTX_def UNLOCK_MTX_def split: if_splits\<close>)
  next
    case (Move_Worker i)
    with step dequeue_pass_Value [OF o] show ?thesis
      by (auto simp: Let_def split: if_splits worker_pc.splits deq_result.splits)
  next
    case (Spurious i)
    with step show ?thesis by (auto split: if_splits)
  qed
qed

text \<open>There is always a free address.\<close>

lemma owns_finite:
  assumes "owns h0 q" and "finite (dom h0)"
  shows "finite (dom (snd q))"
proof (rule finite_subset)
  show "dom (snd q) \<subseteq> dom h0 \<union> set (q_header (fst q) # q_nodes q)"
  proof
    fix a
    assume "a \<in> dom (snd q)"
    moreover have "if a \<in> set (q_header (fst q) # q_nodes q) then h0 a = None else snd q a = h0 a"
      using assms(1) unfolding owns_def by blast
    ultimately show "a \<in> dom h0 \<union> set (q_header (fst q) # q_nodes q)"
      by (auto simp: dom_def split: if_splits)
  qed
qed (use assms(2) in simp)

lemma fresh_exists: "finite (dom h) \<Longrightarrow> \<exists>p. fresh p h"
  using ex_new_if_finite [of "insert NULL (dom h)"] by (auto simp: fresh_def dom_def)

definition system_move :: "choice \<Rightarrow> bool" where
  "system_move c \<longleftrightarrow> (case c of Move_Main node \<Rightarrow> node \<noteq> NULL | Move_Worker i \<Rightarrow> True | Spurious i \<Rightarrow> False)"

lemma main_cs_moves:
  assumes inv: "pool_inv h0 rs s" and good: "good_requests rs" and "finite (dom h0)"
    and cs: "main_in_cs (ps_main s)"
  shows "\<exists>node r. node \<noteq> NULL \<and> main_step node s = Some r"
proof -
  have o: "owns h0 (ps_queue s)" using inv by (simp add: pool_inv_def memory_inv_def)
  obtain p where "fresh p (snd (ps_queue s))"
    using fresh_exists owns_finite [OF o assms(3)] by blast
  with cs show ?thesis
    by (intro exI [of _ p]) (auto simp: main_in_cs_def fresh_def split: main_pc.splits)
qed

lemma unlocked_moves:
  assumes inv: "pool_inv h0 rs s" and m: "ps_mutex s = None" and f: "\<And>h. ps_main s \<noteq> Finished h"
  shows "\<exists>c r. system_move c \<and> pool_step c s = Some r"
proof (cases "ps_main s")
  case (Join i)
  show ?thesis
  proof (cases "i < length (ps_workers s) \<and> ps_workers s ! i \<noteq> Gone")
    case True
    have "ps_workers s ! i \<noteq> Holding"
      using inv m True by (auto simp: pool_inv_def mutex_inv_def)
    moreover have "ps_workers s ! i \<noteq> Asleep"
    proof
      assume "ps_workers s ! i = Asleep"
      with True have "Asleep \<in> set (ps_workers s)" by (metis nth_mem)
      with inv Join show False by (simp add: pool_inv_def sleep_inv_def about_to_signal_def)
    qed
    ultimately show ?thesis
      using True m
      by (intro exI [of _ "Move_Worker i"])
        (cases "ps_workers s ! i", auto simp: system_move_def)
  next
    case False
    with Join show ?thesis
      by (intro exI [of _ "Move_Main 1"]) (auto simp: system_move_def)
  qed
next
  case (Produce_CS qs)
  then show ?thesis
    using inv m by (auto simp: pool_inv_def mutex_inv_def main_in_cs_def)
next
  case Close_CS
  then show ?thesis
    using inv m by (auto simp: pool_inv_def mutex_inv_def main_in_cs_def)
qed (use m f in \<open>auto intro!: exI [of _ "Move_Main 1"] simp: system_move_def\<close>)

lemma pool_progress:
  assumes inv: "pool_inv h0 rs s" and good: "good_requests rs" and fin: "finite (dom h0)"
    and f: "\<And>h. ps_main s \<noteq> Finished h"
  shows "\<exists>c t. system_move c \<and> pool_step c s = Some (Value t)"
proof -
  have "\<exists>c r. system_move c \<and> pool_step c s = Some r"
  proof (cases "ps_mutex s")
    case None
    then show ?thesis by (rule unlocked_moves [OF inv]) (rule f)
  next
    case (Some th)
    show ?thesis
    proof (cases th)
      case Main
      then have "main_in_cs (ps_main s)"
        using Some inv by (simp add: pool_inv_def mutex_inv_def)
      then show ?thesis
        using main_cs_moves [OF inv good fin] by (metis pool_step.simps(1) choice.simps(10) system_move_def)
    next
      case (Worker i)
      then have "i < length (ps_workers s)" "ps_workers s ! i = Holding"
        using Some inv by (auto simp: pool_inv_def mutex_inv_def)
      then show ?thesis
        by (intro exI [of _ "Move_Worker i"]) (auto simp: system_move_def)
    qed
  qed
  then obtain c r where c: "system_move c" "pool_step c s = Some r" by blast
  then have "c \<noteq> Move_Main NULL" by (auto simp: system_move_def)
  with c show ?thesis using pool_step_safe [OF inv good] by blast
qed

section \<open>A measure that every step of the system decreases\<close>

text \<open>
  Every broadcast may put all \<open>n\<close> sleeping workers back to work, so that a step of the main thread
  weighs more than \<open>n\<close> workers going back to sleep, and a worker that leaves (and broadcasts) carries
  that weight, too. A queued request pays for the round of the worker that takes it.
\<close>

fun main_rank :: "nat \<Rightarrow> main_pc \<Rightarrow> nat" where
  "main_rank n (Produce rs) = n + 4 + 3 * length rs"
| "main_rank n (Produce_CS rs) = n + 3 + 3 * length rs"
| "main_rank n (Produce_Signal rs) = n + 5 + 3 * length rs"
| "main_rank n Close_CS = n + 3"
| "main_rank n Close_Signal = n + 2"
| "main_rank n (Join i) = 1 + (n - i)"
| "main_rank n (Finished h) = 0"

fun worker_rank :: "nat \<Rightarrow> worker_pc \<Rightarrow> nat" where
  "worker_rank n Asleep = 2 * n + 1"
| "worker_rank n Holding = 2 * n + 2"
| "worker_rank n Fetch = 2 * n + 3"
| "worker_rank n (Work d) = 2 * n + 4"
| "worker_rank n Gone = 0"

definition workers_rank :: "nat \<Rightarrow> worker_pc list \<Rightarrow> nat" where
  "workers_rank n ws = sum_list (map (worker_rank n) ws)"

definition pool_measure :: "pool_state \<Rightarrow> nat" where
  "pool_measure s =
     (let n = length (ps_workers s) in
      (2 * n + 4) * main_rank n (ps_main s) + 3 * length (q_contents (ps_queue s)) +
      workers_rank n (ps_workers s))"

lemma workers_rank_update:
  "i < length ws \<Longrightarrow>
     workers_rank n (ws[i := w]) + worker_rank n (ws ! i) = workers_rank n ws + worker_rank n w"
  by (induction ws arbitrary: i) (auto simp: workers_rank_def nth_Cons split: nat.splits)

lemma worker_rank_wake: "worker_rank n (wake w) \<le> worker_rank n w + 2"
  by (cases w) (simp_all add: wake_def)

lemma workers_rank_wake: "workers_rank n (map wake ws) \<le> workers_rank n ws + 2 * length ws"
proof (induction ws)
  case (Cons w ws)
  then show ?case using worker_rank_wake [of n w] by (simp add: workers_rank_def)
qed (simp add: workers_rank_def)

lemma do_work_step_measure:
  assumes "do_work_step i s = Some (Value t)" and "owns h0 (ps_queue s)"
  shows "pool_measure t < pool_measure s"
  using assms
proof (cases rule: do_work_step_cases)
  case Lock
  then show ?thesis
    using workers_rank_update [OF Lock(1), of "length (ps_workers s)" Holding]
    by (simp add: pool_measure_def Let_def)
next
  case (Take d q)
  then show ?thesis
    using workers_rank_update [OF Take(1), of "length (ps_workers s)"
        "if d = NULL then Gone else Work d"]
    by (auto simp: pool_measure_def Let_def split: if_splits)
next
  case Leave
  then show ?thesis
    using workers_rank_update [of i "map wake (ps_workers s)" "length (ps_workers s)" Gone]
      workers_rank_wake [of "length (ps_workers s)" "ps_workers s"]
    by (simp add: pool_measure_def Let_def wake_def)
next
  case Sleep
  then show ?thesis
    using workers_rank_update [OF Sleep(1), of "length (ps_workers s)" Asleep]
    by (simp add: pool_measure_def Let_def)
next
  case (Run d)
  then show ?thesis
    using workers_rank_update [OF Run(1), of "length (ps_workers s)" Fetch]
    by (simp add: pool_measure_def Let_def)
qed

text \<open>A step of the main thread lowers its rank by one at least, and costs less than that weighs.\<close>

lemma main_weight:
  fixes a b :: nat
  assumes "b < a" and "x < y + (2 * n + 4)"
  shows "(2 * n + 4) * b + x < (2 * n + 4) * a + y"
proof -
  have "(2 * n + 4) * Suc b \<le> (2 * n + 4) * a" using assms(1) by (intro mult_le_mono2) simp
  with assms(2) show ?thesis by simp
qed

lemma main_step_measure:
  assumes "main_step node s = Some (Value t)" and "owns h0 (ps_queue s)"
    and "q_size (fst (ps_queue s)) < INT_MAX" and "flow_inv rs s"
  shows "pool_measure t < pool_measure s"
proof -
  let ?n = "length (ps_workers s)"
  have len: "length (ps_workers t) = ?n"
    using assms(1-3) by (cases rule: main_step_cases) auto
  have "main_rank ?n (ps_main t) < main_rank ?n (ps_main s) \<and>
      3 * length (q_contents (ps_queue t)) + workers_rank ?n (ps_workers t)
        < 3 * length (q_contents (ps_queue s)) + workers_rank ?n (ps_workers s) + (2 * ?n + 4)"
    using assms(1-3)
  proof (cases rule: main_step_cases)
    case (Enqueue qs q)
    then have "qs \<noteq> []" using assms(4) by (simp add: flow_inv_def)
    with Enqueue show ?thesis by (cases qs) simp_all
  next
    case (Signal qs)
    then show ?thesis using workers_rank_wake [of ?n "ps_workers s"] by simp
  next
    case Close_Signal
    then show ?thesis using workers_rank_wake [of ?n "ps_workers s"] by simp
  qed auto
  then show ?thesis
    using main_weight by (simp add: pool_measure_def Let_def len add.assoc)
qed

lemma system_move_measure:
  assumes inv: "pool_inv h0 rs s" and good: "good_requests rs" and "system_move c"
    and "pool_step c s = Some (Value t)"
  shows "pool_measure t < pool_measure s"
proof -
  have o: "owns h0 (ps_queue s)" "flow_inv rs s"
    using inv by (simp_all add: pool_inv_def memory_inv_def)
  show ?thesis
    using assms(3,4) main_step_measure [OF _ o(1) pool_inv_size(1) [OF inv good] o(2)]
      do_work_step_measure [OF _ o(1)]
    by (cases c) (simp_all add: system_move_def del: main_step.simps do_work_step.simps)
qed

lemma run_schedule_measure:
  assumes "pool_inv h0 rs s" and "good_requests rs" and "list_all system_move cs"
    and "run_schedule cs s = Some (Value t)"
  shows "length cs + pool_measure t \<le> pool_measure s"
  using assms
proof (induction cs arbitrary: s)
  case (Cons c cs)
  then obtain u where u: "pool_step c s = Some (Value u)" "run_schedule cs u = Some (Value t)"
    by (auto split: option.splits outcome.splits)
  have "length cs + pool_measure t \<le> pool_measure u"
    using Cons.IH [OF pool_step_inv [OF u(1) Cons.prems(1,2)]] Cons.prems(2,3) u(2) by simp
  moreover have "pool_measure u < pool_measure s"
    using system_move_measure [OF Cons.prems(1,2) _ u(1)] Cons.prems(3) by simp
  ultimately show ?case by simp
qed simp

lemma run_schedule_reaches:
  "run_schedule cs s = Some (Value t) \<Longrightarrow> reaches r s \<Longrightarrow> reaches r t"
  by (induction cs arbitrary: s)
    (auto split: option.splits outcome.splits intro: reaches.step)

section \<open>Reachable states of a pool of \<open>n\<close> threads that is given the requests \<open>rs\<close>\<close>

definition pool_reachable :: "heap \<Rightarrow> nat \<Rightarrow> addr list \<Rightarrow> pool_state \<Rightarrow> bool" where
  "pool_reachable h n rs s \<longleftrightarrow>
     (\<exists>hdr mutex cond_var q. fresh hdr h \<and> queue_init True hdr mutex cond_var h = Value q \<and>
        reaches (pool_start q n rs) s)"

lemma queue_init_start_inv:
  assumes "fresh hdr h" and "queue_init True hdr mutex cond_var h = Value q"
  shows "pool_inv h rs (pool_start q n rs)"
  using queue_init_owns [OF assms(1), of mutex cond_var] assms(2) by (auto intro: pool_start_inv)

lemma pool_reachable_inv: "pool_reachable h n rs s \<Longrightarrow> good_requests rs \<Longrightarrow> pool_inv h rs s"
  unfolding pool_reachable_def by (blast intro: reaches_inv queue_init_start_inv)

lemma pool_step_length:
  assumes step: "pool_step c s = Some (Value t)" and inv: "pool_inv h0 rs s"
    and good: "good_requests rs"
  shows "length (ps_workers t) = length (ps_workers s)"
proof -
  have o: "owns h0 (ps_queue s)" using inv by (simp add: pool_inv_def memory_inv_def)
  show ?thesis
  proof (cases c)
    case (Move_Main node)
    with step have "main_step node s = Some (Value t)" by simp
    then show ?thesis
      using o pool_inv_size(1) [OF inv good] by (cases rule: main_step_cases) auto
  next
    case (Move_Worker i)
    with step have "do_work_step i s = Some (Value t)" by simp
    then show ?thesis using o by (cases rule: do_work_step_cases) auto
  next
    case (Spurious i)
    with step show ?thesis by (auto split: if_splits)
  qed
qed

lemma pool_reachable_length:
  assumes "pool_reachable h n rs s" and "good_requests rs"
  shows "length (ps_workers s) = n"
proof -
  obtain q where q: "reaches (pool_start q n rs) s" "pool_inv h rs (pool_start q n rs)"
    using assms(1) queue_init_start_inv by (auto simp: pool_reachable_def)
  from q(1) show ?thesis
  proof (induction rule: reaches.induct)
    case start
    show ?case by (simp add: pool_start_def)
  next
    case (step t c u)
    with pool_step_length [OF step.hyps(2) reaches_inv [OF step.hyps(1) q(2) assms(2)] assms(2)]
    show ?case by simp
  qed
qed

text \<open>Once the main thread has finished, the heap it left is the one \<open>queue_destroy\<close> gave back.\<close>

definition finished_inv :: "pool_state \<Rightarrow> bool" where
  "finished_inv s \<longleftrightarrow>
     (case ps_main s of Finished h \<Rightarrow> queue_destroy (ps_queue s) = Value h | _ \<Rightarrow> True)"

lemma finished_step:
  assumes step: "pool_step c s = Some (Value t)" and inv: "pool_inv h0 rs s"
    and good: "good_requests rs" and f: "finished_inv s"
  shows "finished_inv t"
proof (cases "\<exists>h. ps_main s = Finished h")
  case True
  then have "\<forall>i < length (ps_workers s). ps_workers s ! i = Gone"
    using inv by (auto simp: pool_inv_def sleep_inv_def)
  with True step show ?thesis by (cases c) (auto split: if_splits)
next
  case False
  have o: "owns h0 (ps_queue s)" using inv by (simp add: pool_inv_def memory_inv_def)
  show ?thesis
  proof (cases c)
    case (Move_Main node)
    with step have "main_step node s = Some (Value t)" by simp
    then show ?thesis
      using o pool_inv_size(1) [OF inv good]
      by (cases rule: main_step_cases) (auto simp: finished_inv_def)
  next
    case (Move_Worker i)
    with step have "do_work_step i s = Some (Value t)" by simp
    then show ?thesis
      using o by (cases rule: do_work_step_cases)
        (use False in \<open>auto simp: finished_inv_def split: main_pc.splits\<close>)
  next
    case (Spurious i)
    with step f False show ?thesis
      by (auto simp: finished_inv_def split: if_splits main_pc.splits)
  qed
qed

lemma pool_reachable_finished:
  assumes "pool_reachable h n rs s" and "good_requests rs"
  shows "finished_inv s"
proof -
  obtain q where q: "reaches (pool_start q n rs) s" "pool_inv h rs (pool_start q n rs)"
    using assms(1) queue_init_start_inv by (auto simp: pool_reachable_def)
  from q(1) show ?thesis
  proof (induction rule: reaches.induct)
    case start
    show ?case by (simp add: finished_inv_def pool_start_def)
  next
    case (step t c u)
    with reaches_inv [OF step.hyps(1) q(2) assms(2)] show ?case
      by (blast intro: finished_step assms(2))
  qed
qed

lemma all_gone_running: "\<forall>w \<in> set ws. w = Gone \<Longrightarrow> running ws = []"
  by (induction ws) (auto simp: running_def)

section \<open>A run of one worker and one request\<close>

text \<open>
  The worker goes to sleep before the producer starts, is woken by the broadcast of
  \<open>queue_enqueue\<close>, runs the request, and leaves when the queue is closed.
\<close>

definition example_schedule :: "choice list" where
  "example_schedule =
     [Move_Worker 0, Move_Worker 0, Move_Main 2, Move_Main 2, Move_Main 2,
      Move_Worker 0, Move_Worker 0, Move_Worker 0,
      Move_Main 2, Move_Main 2, Move_Main 2, Move_Worker 0, Move_Worker 0,
      Move_Main 2, Move_Main 2]"

definition is_finished :: "pool_state \<Rightarrow> bool" where
  "is_finished s \<longleftrightarrow> (case ps_main s of Finished h \<Rightarrow> True | _ \<Rightarrow> False)"

lemma example_run:
  "case run_schedule (take 4 example_schedule) (pool_start example_new 1 [7]) of
     Some (Value s) \<Rightarrow> ps_workers s = [Asleep] \<and> ps_taken s = [] \<and> about_to_signal (ps_main s)
   | _ \<Rightarrow> False"
  "case run_schedule example_schedule (pool_start example_new 1 [7]) of
     Some (Value s) \<Rightarrow> ps_done s = [7] \<and> is_finished s | _ \<Rightarrow> False"
  by code_simp+

lemma example_good: "good_requests [7]"
  by (simp add: good_requests_def INT_MAX_def)

lemma example_fresh: "fresh 1 Map.empty"
  by (simp add: fresh_def)

lemma example_reachable:
  "run_schedule cs (pool_start example_new n rs) = Some (Value s) \<Longrightarrow>
     pool_reachable Map.empty n rs s"
  unfolding pool_reachable_def
  using example_new_init example_fresh by (blast intro: run_schedule_reaches reaches.start)

lemma example_run_state:
  "case run_schedule cs (pool_start example_new n rs) of Some (Value s) \<Rightarrow> P s | _ \<Rightarrow> False \<Longrightarrow>
     \<exists>s. run_schedule cs (pool_start example_new n rs) = Some (Value s) \<and>
       pool_reachable Map.empty n rs s \<and> P s"
  by (auto split: option.splits outcome.splits dest: example_reachable)

lemmas example_middle = example_run_state [OF example_run(1)]
lemmas example_end = example_run_state [OF example_run(2)]

section \<open>Properties\<close>

text \<open>
  C7: Mutual exclusion. In every state the program can reach, under every schedule, at most one
  thread is inside a critical section of the queue (\<open>queue_enqueue\<close>, \<open>queue_close\<close> or
  \<open>queue_dequeue\<close>).
\<close>

theorem pool_mutual_exclusion:
  assumes "pool_reachable h n rs s" and "good_requests rs"
    and "i < n" and "ps_workers s ! i = Holding"
  shows "\<not> main_in_cs (ps_main s) \<and>
    card {j. j < n \<and> ps_workers s ! j = Holding} = 1"
proof -
  have len: "length (ps_workers s) = n"
    using pool_reachable_length [OF assms(1,2)] .
  have m: "mutex_inv s"
    using pool_reachable_inv [OF assms(1,2)] by (simp add: pool_inv_def)
  have i: "ps_mutex s = Some (Worker i)"
    using m assms(3,4) len by (simp add: mutex_inv_def)
  have "j = i" if "j < n" "ps_workers s ! j = Holding" for j
  proof -
    have "ps_mutex s = Some (Worker j)" using m that len by (simp add: mutex_inv_def)
    with i show ?thesis by simp
  qed
  then have "{j. j < n \<and> ps_workers s ! j = Holding} = {i}"
    using assms(3,4) by blast
  with m i show ?thesis by (simp add: mutex_inv_def)
qed

theorem pool_mutual_exclusion_witness:
  "\<exists>s. pool_reachable Map.empty 1 [7] s \<and> ps_workers s ! 0 = Holding \<and>
     \<not> main_in_cs (ps_main s) \<and> card {j. j < 1 \<and> ps_workers s ! j = Holding} = 1"
proof -
  have "case run_schedule (take 1 example_schedule) (pool_start example_new 1 [7]) of
      Some (Value s) \<Rightarrow> ps_workers s ! 0 = Holding | _ \<Rightarrow> False"
    by code_simp
  from example_run_state [OF this] obtain s where
    s: "pool_reachable Map.empty 1 [7] s" "ps_workers s ! 0 = Holding" by blast
  with pool_mutual_exclusion [OF s(1) example_good _ s(2)] show ?thesis by auto
qed

text \<open>
  C6: Nothing is lost, duplicated or reordered. In every reachable state, the requests returned by
  \<open>queue_dequeue\<close> so far, followed by those in the queue, followed by those still to be enqueued,
  are exactly the requests of the producer in their order; and what has been returned is what
  the workers have run plus what they are running.
\<close>

theorem pool_no_request_lost:
  assumes "pool_reachable h n rs s" and "good_requests rs"
  shows "ps_taken s @ q_contents (ps_queue s) @ todo (ps_main s) = rs \<and>
    mset (ps_taken s) = mset (ps_done s) + mset (running (ps_workers s))"
  using pool_reachable_inv [OF assms] by (simp add: pool_inv_def flow_inv_def)

theorem pool_no_request_lost_witness:
  "\<exists>s. pool_reachable Map.empty 1 [7] s \<and> is_finished s \<and>
     ps_taken s @ q_contents (ps_queue s) @ todo (ps_main s) = [7] \<and>
     mset (ps_taken s) = mset (ps_done s) + mset (running (ps_workers s))"
proof -
  obtain s where s: "pool_reachable Map.empty 1 [7] s" "ps_done s = [7]" "is_finished s"
    using example_end by blast
  with pool_no_request_lost [OF s(1) example_good] show ?thesis by blast
qed

text \<open>
  C11: Memory safety under concurrency. As long as \<open>malloc\<close> delivers, no step that any thread can
  take in a reachable state follows a null or dangling pointer, frees twice, overflows the size
  counter or ends the process: it leads to another state.
\<close>

theorem pool_steps_defined:
  assumes "pool_reachable h n rs s" and "good_requests rs"
    and "c \<noteq> Move_Main NULL" and "pool_step c s = Some r"
  shows "\<exists>t. r = Value t"
  using pool_step_safe [OF pool_reachable_inv [OF assms(1,2)] assms(2-4)] .

theorem pool_steps_defined_witness:
  "\<exists>s r t. pool_reachable Map.empty 1 [7] s \<and> pool_step (Move_Main 2) s = Some r \<and> r = Value t"
proof -
  obtain s where s: "pool_reachable Map.empty 1 [7] s" "about_to_signal (ps_main s)"
    using example_middle by blast
  then obtain r where r: "pool_step (Move_Main 2) s = Some r"
    by (auto simp: about_to_signal_def split: main_pc.splits)
  with pool_steps_defined [OF s(1) example_good _ r] s(1) show ?thesis by auto
qed

text \<open>
  C2: No deadlock and no lost wake-up. In every reachable state in which the main thread has not
  finished, some thread can take a step, even if \<open>pthread_cond_wait\<close> never wakes up without a
  broadcast.
\<close>

theorem pool_no_deadlock:
  assumes "pool_reachable h n rs s" and "good_requests rs" and "finite (dom h)"
    and "\<not> is_finished s"
  shows "\<exists>c t. system_move c \<and> pool_step c s = Some (Value t)"
  by (rule pool_progress [OF pool_reachable_inv [OF assms(1,2)] assms(2,3)])
    (use assms(4) in \<open>auto simp: is_finished_def\<close>)

theorem pool_no_deadlock_witness:
  "\<exists>s. pool_reachable Map.empty 1 [7] s \<and> ps_workers s = [Asleep] \<and>
     (\<exists>c t. system_move c \<and> pool_step c s = Some (Value t))"
proof -
  obtain s where s: "pool_reachable Map.empty 1 [7] s" "ps_workers s = [Asleep]"
      "about_to_signal (ps_main s)"
    using example_middle by blast
  then have "\<not> is_finished s"
    by (auto simp: is_finished_def about_to_signal_def split: main_pc.splits)
  with pool_no_deadlock [OF s(1) example_good] s show ?thesis by auto
qed

text \<open>
  C10: Termination. With \<open>n\<close> worker threads and \<open>r\<close> requests, no schedule without spurious wake-ups
  is longer than the bound below, whatever the scheduler does: the pool shuts down by itself.
\<close>

theorem pool_terminates:
  assumes "fresh hdr h" and "queue_init True hdr mutex cond_var h = Value q"
    and "good_requests rs" and "list_all system_move cs"
    and "run_schedule cs (pool_start q n rs) = Some (Value s)"
  shows "length cs \<le> (2 * n + 4) * (n + 4 + 3 * length rs) + n * (2 * n + 3)"
proof -
  have inv: "pool_inv h rs (pool_start q n rs)"
    using queue_init_start_inv [OF assms(1,2)] .
  have "q_contents q = []"
    using queue_init_owns [OF assms(1), of mutex cond_var] assms(2) by auto
  then have "pool_measure (pool_start q n rs) =
      (2 * n + 4) * (n + 4 + 3 * length rs) + n * (2 * n + 3)"
    by (simp add: pool_measure_def pool_start_def workers_rank_def sum_list_replicate)
  with run_schedule_measure [OF inv assms(3-5)] show ?thesis by simp
qed

theorem pool_terminates_witness: "length example_schedule \<le> 53"
proof -
  obtain s where "run_schedule example_schedule (pool_start example_new 1 [7]) = Some (Value s)"
    using example_end by blast
  from pool_terminates [OF example_fresh example_new_init example_good _ this]
  show ?thesis by (simp add: example_schedule_def system_move_def)
qed

lemma pool_finished_facts:
  assumes "pool_reachable h n rs s" and "good_requests rs" and "0 < n"
    and "ps_main s = Finished h'"
  shows "mset (ps_done s) = mset rs \<and> set (ps_workers s) = {Gone} \<and> h' = h"
proof -
  note inv = pool_reachable_inv [OF assms(1,2)]
  have gone: "\<forall>w \<in> set (ps_workers s). w = Gone"
    using inv assms(4) by (auto simp: pool_inv_def sleep_inv_def)
  moreover have "ps_workers s \<noteq> []"
    using pool_reachable_length [OF assms(1,2)] assms(3) by auto
  ultimately have all: "set (ps_workers s) = {Gone}"
    by (cases "ps_workers s") auto
  then have empty: "q_contents (ps_queue s) = []"
    using inv by (auto simp: pool_inv_def sleep_inv_def)
  have "ps_taken s = rs"
    using inv empty assms(4) by (simp add: pool_inv_def flow_inv_def)
  then have "mset (ps_done s) = mset rs"
    using inv all_gone_running [OF gone] by (simp add: pool_inv_def flow_inv_def)
  moreover have "queue_destroy (ps_queue s) = Value h"
    using inv empty by (simp add: pool_inv_def memory_inv_def queue_destroy_owns)
  then have "h' = h"
    using pool_reachable_finished [OF assms(1,2)] assms(4) by (simp add: finished_inv_def)
  ultimately show ?thesis using all by simp
qed

text \<open>
  C4: Completion. When the main thread of a pool with at least one worker has finished, every
  request has been run exactly once, every worker thread has exited, and the heap of queue nodes
  is what it was before \<open>queue_init\<close>.
\<close>

theorem pool_completes:
  assumes "pool_reachable h n rs s" and "good_requests rs" and "0 < n"
    and "ps_main s = Finished h'"
  shows "mset (ps_done s) = mset rs \<and> set (ps_workers s) = {Gone} \<and> h' = h"
  using assms by (rule pool_finished_facts)

theorem pool_completes_witness:
  "\<exists>s. pool_reachable Map.empty 1 [7] s \<and> ps_main s = Finished Map.empty \<and>
     mset (ps_done s) = mset [7] \<and> set (ps_workers s) = {Gone}"
proof -
  obtain s where s: "pool_reachable Map.empty 1 [7] s" "is_finished s"
    using example_end by blast
  then obtain h' where h': "ps_main s = Finished h'"
    by (auto simp: is_finished_def split: main_pc.splits)
  with pool_completes [OF s(1) example_good _ h'] s(1) show ?thesis by auto
qed

text \<open>
  A schedule for one worker and the requests \<open>NULL\<close> and 7, and what is left at its end: the main
  thread has finished, nothing was run, and the node of the second request is still allocated.
\<close>

definition null_schedule :: "choice list" where
  "null_schedule =
     [Move_Main 2, Move_Main 2, Move_Main 2, Move_Worker 0, Move_Worker 0,
      Move_Main 2, Move_Main 2, Move_Main 2, Move_Main 2, Move_Main 2, Move_Main 2,
      Move_Main 2, Move_Main 2]"

definition left_over :: "pool_state \<Rightarrow> bool" where
  "left_over s \<longleftrightarrow>
     (case ps_main s of
        Finished h \<Rightarrow> ps_done s = [] \<and> q_contents (ps_queue s) = [7] \<and> h 2 \<noteq> None
      | _ \<Rightarrow> False)"

text \<open>
  A \<open>NULL\<close> request, which is what \<open>create_request\<close> returns when an allocation fails and what
  \<open>main\<close> enqueues without looking, ends the worker that takes it although the queue is still open:
  with one worker there is a complete run of the program in which the request enqueued after it is
  never run and its queue node is never freed.
\<close>

lemma null_request_drops_work:
  "\<exists>s h. list_all system_move null_schedule \<and>
     run_schedule null_schedule (pool_start example_new 1 [NULL, 7]) = Some (Value s) \<and>
     ps_main s = Finished h \<and> ps_done s = [] \<and> q_contents (ps_queue s) = [7] \<and> h 2 \<noteq> None"
proof -
  have "case run_schedule null_schedule (pool_start example_new 1 [NULL, 7]) of
      Some (Value s) \<Rightarrow> left_over s | _ \<Rightarrow> False"
    by code_simp
  from example_run_state [OF this] obtain s where
    "run_schedule null_schedule (pool_start example_new 1 [NULL, 7]) = Some (Value s)"
    "left_over s" by blast
  moreover have "list_all system_move null_schedule"
    by (simp add: null_schedule_def system_move_def)
  ultimately show ?thesis
    by (auto simp: left_over_def split: main_pc.splits)
qed

end
