(* ===== verification/C_Strings.thy ===== *)
theory C_Strings
  imports Prelude
begin

text \<open>
  The parts of the C string library that the repository uses: decimal conversion both ways
  (\<open>printf("%d")\<close>, \<open>strtol\<close>, \<open>atoi\<close>), prefix comparison (\<open>strncmp\<close>), searching (\<open>strchr\<close>,
  \<open>strstr\<close>, \<open>strcspn\<close>), the string conversions of \<open>sscanf\<close>, and bounded copies (\<open>snprintf\<close>,
  \<open>strncpy\<close>). A C string is the list of its bytes before the terminating null byte.
\<close>

section \<open>Characters\<close>

definition is_space :: "char \<Rightarrow> bool" where
  "is_space c \<longleftrightarrow>
     c \<in> {CHR '' '', CHR 0x09, CHR 0x0A, CHR 0x0B, CHR 0x0C, CHR 0x0D}"

definition is_digit :: "char \<Rightarrow> bool" where
  "is_digit c \<longleftrightarrow> 48 \<le> (of_char c :: nat) \<and> (of_char c :: nat) \<le> 57"

definition digit_val :: "char \<Rightarrow> nat" where
  "digit_val c = of_char c - 48"

definition digit_char :: "nat \<Rightarrow> char" where
  "digit_char n = char_of (48 + n)"

abbreviation (input) CR :: char where "CR \<equiv> CHR 0x0D"
abbreviation (input) LF :: char where "LF \<equiv> CHR 0x0A"

lemma digit_char_props [simp]:
  "n < 10 \<Longrightarrow> is_digit (digit_char n)"
  "n < 10 \<Longrightarrow> digit_val (digit_char n) = n"
  by (simp_all add: is_digit_def digit_val_def digit_char_def of_char_of)

lemma is_digit_not_space: "is_digit c \<Longrightarrow> \<not> is_space c"
  by (auto simp: is_digit_def is_space_def)

lemma is_digit_not_sign: "is_digit c \<Longrightarrow> c \<noteq> CHR ''-'' \<and> c \<noteq> CHR ''+''"
  by (auto simp: is_digit_def)

section \<open>Decimal numbers\<close>

fun show_nat :: "nat \<Rightarrow> string" where
  "show_nat n = (if n < 10 then [digit_char n] else show_nat (n div 10) @ [digit_char (n mod 10)])"

declare show_nat.simps [simp del]

definition show_int :: "int \<Rightarrow> string" where
  "show_int z = (if z < 0 then CHR ''-'' # show_nat (nat (- z)) else show_nat (nat z))"

text \<open>A minimal width, as in \<open>%6d\<close>.\<close>

definition pad :: "nat \<Rightarrow> string \<Rightarrow> string" where
  "pad w s = replicate (w - length s) (CHR '' '') @ s"

definition read_nat :: "string \<Rightarrow> nat" where
  "read_nat = foldl (\<lambda>v c. 10 * v + digit_val c) 0"

lemma read_nat_snoc: "read_nat (ds @ [c]) = 10 * read_nat ds + digit_val c"
  by (simp add: read_nat_def)

lemma show_nat_digits: "list_all is_digit (show_nat n) \<and> show_nat n \<noteq> []"
proof (induction n rule: show_nat.induct)
  case (1 n)
  then show ?case by (cases "n < 10") (simp_all add: show_nat.simps [of n])
qed

lemma read_show_nat: "read_nat (show_nat n) = n"
proof (induction n rule: show_nat.induct)
  case (1 n)
  show ?case
  proof (cases "n < 10")
    case True
    then show ?thesis by (simp add: show_nat.simps [of n] read_nat_def)
  next
    case False
    with 1 show ?thesis by (simp add: show_nat.simps [of n] read_nat_snoc)
  qed
qed

definition LONG_MAX :: int where
  "LONG_MAX = 9223372036854775807"

definition LONG_MIN :: int where
  "LONG_MIN = - 9223372036854775808"

text \<open>
  \<open>strtol(s, &end, 10)\<close>: the value, what is left at \<open>end\<close>, and whether \<open>errno\<close> is set (to
  \<open>ERANGE\<close>). When there is no number, the value is 0 and \<open>end\<close> is \<open>s\<close>.
\<close>

definition split_sign :: "string \<Rightarrow> bool \<times> string" where
  "split_sign s =
     (case s of
        [] \<Rightarrow> (False, s)
      | c # t \<Rightarrow> if c = CHR ''-'' then (True, t) else if c = CHR ''+'' then (False, t) else (False, s))"

definition strtol :: "string \<Rightarrow> int \<times> string \<times> bool" where
  "strtol s =
     (let (neg, u) = split_sign (dropWhile is_space s);
          ds = takeWhile is_digit u; rest = dropWhile is_digit u;
          z = (if neg then - int (read_nat ds) else int (read_nat ds)) in
      if ds = [] then (0, s, False)
      else if z > LONG_MAX then (LONG_MAX, rest, True)
      else if z < LONG_MIN then (LONG_MIN, rest, True)
      else (z, rest, False))"

text \<open>
  \<open>strtoul(s, 0, 0)\<close>: the base is 16 after \<open>0x\<close>, 8 after \<open>0\<close>, else 10. A minus sign negates the value in
  \<open>unsigned long\<close>. The flag says whether \<open>errno\<close> is set to \<open>ERANGE\<close>.
\<close>

definition ULONG_MAX :: int where
  "ULONG_MAX = 18446744073709551615"

definition hex_val :: "char \<Rightarrow> nat" where
  "hex_val c =
     (if is_digit c then digit_val c
      else if 97 \<le> (of_char c :: nat) \<and> (of_char c :: nat) \<le> 102 then of_char c - 87
      else if 65 \<le> (of_char c :: nat) \<and> (of_char c :: nat) \<le> 70 then of_char c - 55
      else 99)"

definition read_base :: "nat \<Rightarrow> string \<Rightarrow> int" where
  "read_base b s = foldl (\<lambda>v c. v * int b + int (hex_val c)) 0 (takeWhile (\<lambda>c. hex_val c < b) s)"

definition base_of :: "string \<Rightarrow> nat \<times> string" where
  "base_of s =
     (case s of
        z # x # d # r \<Rightarrow>
          if z = CHR ''0'' \<and> (x = CHR ''x'' \<or> x = CHR ''X'') \<and> hex_val d < 16 then (16, d # r)
          else if z = CHR ''0'' then (8, s) else (10, s)
      | z # r \<Rightarrow> if z = CHR ''0'' then (8, s) else (10, s)
      | [] \<Rightarrow> (10, s))"

definition strtoul :: "string \<Rightarrow> int \<times> bool" where
  "strtoul s =
     (let (neg, u) = split_sign (dropWhile is_space s); (b, ds) = base_of u; v = read_base b ds in
      if v > ULONG_MAX then (ULONG_MAX, True)
      else (if neg then (- v) mod 2 ^ 64 else v, False))"

text \<open>\<open>atoi\<close> is \<open>(int) strtol(s, NULL, 10)\<close>.\<close>

definition atoi :: "string \<Rightarrow> int" where
  "atoi s = to_signed 32 (fst (strtol s))"

lemma to_signed32_id: "is_int z \<Longrightarrow> to_signed 32 z = z"
  by (simp add: to_signed_def int_range_defs)

lemma atoi_range: "is_int (atoi s)"
proof -
  have "0 \<le> (x + 2147483648) mod 4294967296 \<and> (x + 2147483648) mod 4294967296 < 4294967296"
    for x :: int by simp
  from this [of "fst (strtol s)"] show ?thesis
    by (simp add: atoi_def to_signed_def int_range_defs)
qed

lemma takeWhile_digits [simp]:
  "list_all is_digit ds \<Longrightarrow> takeWhile is_digit (ds @ r) = ds @ takeWhile is_digit r"
  by (induction ds) auto

lemma dropWhile_digits [simp]:
  "list_all is_digit ds \<Longrightarrow> dropWhile is_digit (ds @ r) = dropWhile is_digit r"
  by (induction ds) auto

lemma strtol_show_int:
  assumes "LONG_MIN \<le> z" and "z \<le> LONG_MAX" and "r = [] \<or> \<not> is_digit (hd r)"
  shows "strtol (show_int z @ r) = (z, r, False)"
proof -
  have r: "takeWhile is_digit r = []" "dropWhile is_digit r = r"
    using assms(3) by (cases r; auto)+
  obtain c cs where n: "show_nat m = c # cs" "is_digit c" if "m = nat \<bar>z\<bar>" for m
    using show_nat_digits [of "nat \<bar>z\<bar>"] by (cases "show_nat (nat \<bar>z\<bar>)") auto
  have sp: "\<not> is_space (CHR ''-'')" by (simp add: is_space_def)
  show ?thesis
  proof (cases "z < 0")
    case True
    then have "split_sign (dropWhile is_space (show_int z @ r)) = (True, show_nat (nat (- z)) @ r)"
      using sp by (simp add: show_int_def split_sign_def)
    with True assms r show_nat_digits [of "nat (- z)"] show ?thesis
      by (simp add: strtol_def read_show_nat Let_def LONG_MAX_def)
  next
    case False
    then have "split_sign (dropWhile is_space (show_int z @ r)) = (False, show_nat (nat z) @ r)"
      using n [of "nat z"] is_digit_not_space is_digit_not_sign
      by (simp add: show_int_def split_sign_def)
    with False assms r show_nat_digits [of "nat z"] show ?thesis
      by (simp add: strtol_def read_show_nat Let_def LONG_MIN_def)
  qed
qed

lemma atoi_show_int: "is_int z \<Longrightarrow> atoi (show_int z) = z"
  using strtol_show_int [of z "[]"]
  by (simp add: atoi_def to_signed32_id int_range_defs LONG_MAX_def LONG_MIN_def)

section \<open>Comparing, searching and cutting\<close>

text \<open>\<open>strncmp(s, p, n) == 0\<close>.\<close>

definition strneq :: "nat \<Rightarrow> string \<Rightarrow> string \<Rightarrow> bool" where
  "strneq n s p \<longleftrightarrow> take n s = take n p"

text \<open>\<open>strchr(s, c)\<close>: the suffix that starts at the first \<open>c\<close>.\<close>

fun strchr :: "string \<Rightarrow> char \<Rightarrow> string option" where
  "strchr [] c = None"
| "strchr (x # xs) c = (if x = c then Some (x # xs) else strchr xs c)"

text \<open>\<open>strstr(s, p)\<close>: the suffix that starts at the first occurrence of \<open>p\<close>.\<close>

fun strstr :: "string \<Rightarrow> string \<Rightarrow> string option" where
  "strstr [] p = (if p = [] then Some [] else None)"
| "strstr (x # xs) p = (if take (length p) (x # xs) = p then Some (x # xs) else strstr xs p)"

text \<open>\<open>s[strcspn(s, "\n")] = 0\<close>.\<close>

definition cut_line :: "string \<Rightarrow> string" where
  "cut_line s = takeWhile (\<lambda>c. c \<noteq> LF) s"

text \<open>What ends up in a buffer of \<open>n\<close> bytes that a string is printed into with \<open>snprintf\<close>.\<close>

definition snprintf :: "nat \<Rightarrow> string \<Rightarrow> string" where
  "snprintf n s = take (n - 1) s"

lemma length_snprintf [simp]: "0 < n \<Longrightarrow> length (snprintf n s) < n"
  by (simp add: snprintf_def)

lemma snprintf_fits: "length s < n \<Longrightarrow> snprintf n s = s"
  by (simp add: snprintf_def)

text \<open>
  One \<open>%s\<close> of \<open>sscanf\<close>: skip white space, then the longest run of other characters; fails at the
  end of the input. The result is the token and what is left.
\<close>

definition scan_s :: "string \<Rightarrow> (string \<times> string) option" where
  "scan_s s =
     (let t = dropWhile is_space s in
      if t = [] then None
      else Some (takeWhile (\<lambda>c. \<not> is_space c) t, dropWhile (\<lambda>c. \<not> is_space c) t))"

text \<open>One \<open>%n[^set]\<close>: at most \<open>n\<close> characters outside \<open>set\<close>, at least one; no space is skipped.\<close>

definition scan_not :: "nat \<Rightarrow> char list \<Rightarrow> string \<Rightarrow> (string \<times> string) option" where
  "scan_not n cs s =
     (let t = take n (takeWhile (\<lambda>c. c \<notin> set cs) s) in
      if t = [] then None else Some (t, drop (length t) s))"

text \<open>
  One \<open>%d\<close>: like \<open>strtol\<close>, but it fails when there is no number; the value is stored in an \<open>int\<close>.
\<close>

definition scan_d :: "string \<Rightarrow> (int \<times> string) option" where
  "scan_d s =
     (let (neg, u) = split_sign (dropWhile is_space s) in
      if takeWhile is_digit u = [] then None
      else case strtol s of (z, rest, _) \<Rightarrow> Some (to_signed 32 z, rest))"

lemma strchr_Some: "strchr s c = Some t \<Longrightarrow> \<exists>u. s = u @ t \<and> c \<notin> set u \<and> hd t = c \<and> t \<noteq> []"
proof (induction s)
  case (Cons x xs)
  show ?case
  proof (cases "x = c")
    case False
    with Cons obtain u where "xs = u @ t \<and> c \<notin> set u \<and> hd t = c \<and> t \<noteq> []" by auto
    with False show ?thesis by (intro exI [of _ "x # u"]) auto
  qed (use Cons in auto)
qed simp

lemma strchr_None: "strchr s c = None \<longleftrightarrow> c \<notin> set s"
  by (induction s) auto

lemma strchr_append: "c \<notin> set u \<Longrightarrow> strchr (u @ c # t) c = Some (c # t)"
  by (induction u) auto

section \<open>Reading lines\<close>

text \<open>
  \<open>fgets(buf, n, file)\<close> on what is left of a file: up to \<open>n - 1\<close> characters, to the first newline
  inclusive; \<open>None\<close> at the end of the file.
\<close>

definition first_line :: "string \<Rightarrow> string" where
  "first_line s = (if LF \<in> set s then takeWhile (\<lambda>c. c \<noteq> LF) s @ [LF] else s)"

definition fgets :: "nat \<Rightarrow> string \<Rightarrow> (string \<times> string) option" where
  "fgets n s =
     (let t = take (n - 1) (first_line s) in if s = [] then None else Some (t, drop (length t) s))"

lemma first_line_not_Nil [simp]: "first_line s = [] \<longleftrightarrow> s = []"
  by (auto simp: first_line_def)

lemma first_line_prefix: "take (length (first_line s)) s = first_line s"
  by (induction s) (auto simp: first_line_def)

lemma first_line_LF: "LF \<notin> set a \<Longrightarrow> first_line (a @ LF # r) = a @ [LF]"
  by (induction a) (auto simp: first_line_def)

lemma fgets_short_line: "LF \<notin> set a \<Longrightarrow> length a + 1 < n \<Longrightarrow> fgets n (a @ LF # r) = Some (a @ [LF], r)"
  by (simp add: fgets_def first_line_LF Let_def)

text \<open>The loop \<open>while (fgets(line, n, file))\<close>: the chunks in the order they are read; \<open>n\<close> is at least 2.\<close>

function fgets_all :: "nat \<Rightarrow> string \<Rightarrow> string list" where
  "fgets_all n s =
     (if n < 2 then [] else case fgets n s of None \<Rightarrow> [] | Some (line, rest) \<Rightarrow> line # fgets_all n rest)"
  by pat_completeness auto
termination
  by (relation "measure (length \<circ> snd)") (auto simp: fgets_def Let_def split: if_splits)

declare fgets_all.simps [simp del]

lemma fgets_all_lines:
  assumes "list_all (\<lambda>l. LF \<notin> set l \<and> length l + 1 < n) ls" and "2 \<le> n"
  shows "fgets_all n (concat (map (\<lambda>l. l @ [LF]) ls)) = map (\<lambda>l. l @ [LF]) ls"
  using assms(1)
proof (induction ls)
  case Nil
  then show ?case by (simp add: fgets_all.simps fgets_def)
next
  case (Cons l ls)
  then show ?case using assms(2)
    fgets_short_line [of l n "concat (map (\<lambda>l. l @ [LF]) ls)"]
    by (simp add: fgets_all.simps [of n "l @ LF # concat (map (\<lambda>l. l @ [LF]) ls)"])
qed

end
