(* ===== verification/Request_Server.thy ===== *)
theory Request_Server
  imports Worker_Pool C_Strings
begin

text \<open>
  The rest of the request server of \<open>M9Lab/M9\<close>: the pool structure of \<open>thread_pool.c\<close>, the tasks of
  \<open>tasks.c\<close>, and the sequential part of \<open>main.c\<close> (arguments, \<open>create_request\<close>, the random delays).
\<close>

section \<open>The pool structure (\<open>thread_pool.c\<close>)\<close>

definition MAX_WORKER_THREADS :: nat where
  "MAX_WORKER_THREADS = 20"

record worker_thread =
  wt_thread_id :: int
  wt_thread :: nat

text \<open>
  The array \<open>threads\<close> has \<open>MAX_WORKER_THREADS\<close> cells; \<open>None\<close> is a cell that was never written. The
  field \<open>que\<close> of the C structure is never written nor read by the code, so the model has none.
\<close>

record thread_pool =
  next_thread_id :: int
  num_threads :: int
  threads :: "worker_thread option list"

text \<open>
  What the environment answers to the calls of the \<open>i\<close>-th round of the creation loop: whether the
  two \<open>malloc\<close> succeed, and what \<open>pthread_create\<close> returns, with the thread it made.
\<close>

record pool_env =
  params_ok :: "nat \<Rightarrow> bool"
  cell_ok :: "nat \<Rightarrow> bool"
  create_ret :: "nat \<Rightarrow> int"
  create_tid :: "nat \<Rightarrow> nat"

definition create_worker_thread :: "pool_env \<Rightarrow> nat \<Rightarrow> nat outcome" where
  "create_worker_thread e i =
     (if create_ret e i \<noteq> 0 then Exit EXIT_FAILURE else Value (create_tid e i))"

text \<open>One round of the loop of \<open>thread_pool_init\<close>.\<close>

definition pool_init_round :: "pool_env \<Rightarrow> nat \<Rightarrow> thread_pool \<Rightarrow> thread_pool outcome" where
  "pool_init_round e i pool =
     (if \<not> params_ok e i then Undefined Null_Deref
      else if MAX_WORKER_THREADS \<le> i then Undefined Out_Of_Bounds
      else if \<not> cell_ok e i then Undefined Null_Deref
      else andthen (create_worker_thread e i) (\<lambda>tid.
        let cell = \<lparr>wt_thread_id = next_thread_id pool, wt_thread = tid\<rparr> in
        andthen (c_int (next_thread_id pool + 1)) (\<lambda>n.
        Value (pool\<lparr>threads := (threads pool)[i := Some cell], next_thread_id := n\<rparr>))))"

definition thread_pool_init :: "bool \<Rightarrow> pool_env \<Rightarrow> int \<Rightarrow> thread_pool outcome" where
  "thread_pool_init pool_ok e n =
     (if \<not> pool_ok then Exit EXIT_FAILURE
      else foldo (pool_init_round e) [0..<nat n]
        \<lparr>next_thread_id = 1, num_threads = n, threads = replicate MAX_WORKER_THREADS None\<rparr>)"

text \<open>
  \<open>thread_pool_destroy\<close>: the threads it joins, in order. A \<open>NULL\<close> pool is reported and ignored. To
  read a cell that was never written is undefined, as is a cell outside the array.
\<close>

definition join_round :: "thread_pool \<Rightarrow> nat \<Rightarrow> nat list \<Rightarrow> nat list outcome" where
  "join_round pool i joined =
     (if length (threads pool) \<le> i then Undefined Out_Of_Bounds
      else case threads pool ! i of
        None \<Rightarrow> Undefined Uninitialised
      | Some w \<Rightarrow> Value (joined @ [wt_thread w]))"

definition thread_pool_destroy :: "thread_pool option \<Rightarrow> nat list outcome" where
  "thread_pool_destroy p =
     (case p of
        None \<Rightarrow> Value []
      | Some pool \<Rightarrow> foldo (join_round pool) [0..<nat (num_threads pool)] [])"

section \<open>Delays (\<open>main.c\<close>)\<close>

record timespec =
  tv_sec :: int
  tv_nsec :: int

text \<open>\<open>r\<close> is what \<open>rand()\<close> returns. \<open>%\<close> of C truncates, as \<open>smod\<close> does.\<close>

definition random_sleep_time_in_range :: "int \<Rightarrow> int \<Rightarrow> int \<Rightarrow> timespec outcome" where
  "random_sleep_time_in_range r min_ms max_ms =
     (let (lo, hi) = (if max_ms < min_ms \<or> min_ms < 0 then (0, 0) else (min_ms, max_ms)) in
      andthen (c_int (hi - lo + 1)) (\<lambda>w.
      andthen (c_int (lo + r smod w)) (\<lambda>millis.
      Value \<lparr>tv_sec = millis sdiv 1000, tv_nsec = (millis smod 1000) * 1000000\<rparr>)))"

text \<open>The pause of the producer between two requests, of which \<open>main\<close> sleeps the time returned here.\<close>

definition nap_random :: "int \<Rightarrow> timespec outcome" where
  [simp]: "nap_random r = random_sleep_time_in_range r 50 500"

section \<open>Requests and tasks (\<open>main.c\<close>, \<open>tasks.c\<close>)\<close>

text \<open>
  A \<open>request_t\<close> pairs a work function with its argument; \<open>main.c\<close> makes three kinds of them.
\<close>

datatype request =
    Write_Log string
  | Compute_Sum int
  | Delay_Task timespec

text \<open>\<open>msg_count\<close> is the static counter of \<open>create_request\<close>, \<open>drawn\<close> how often \<open>rand\<close> was called.\<close>

record server =
  msg_count :: int
  drawn :: nat

text \<open>
  \<open>rand\<close> is the sequence of the values \<open>rand()\<close> returns; \<open>req_ok\<close> and \<open>arg_ok\<close> say whether the two
  \<open>malloc\<close> succeed. \<open>None\<close> is \<open>NULL\<close>. The counter is printed with \<open>%d\<close> into 64 bytes.
\<close>

definition create_request ::
    "(nat \<Rightarrow> int) \<Rightarrow> bool \<Rightarrow> bool \<Rightarrow> int \<Rightarrow> server \<Rightarrow> (request option \<times> server) outcome" where
  "create_request rand req_ok arg_ok task_type s =
     (if \<not> req_ok then Value (None, s)
      else if task_type = 0 then
        (if \<not> arg_ok then Value (None, s)
         else andthen (c_int (msg_count s + 1)) (\<lambda>n.
           Value (Some (Write_Log (snprintf 64 (''Log message '' @ show_int (msg_count s)))),
             s\<lparr>msg_count := n\<rparr>)))
      else if task_type = 1 then
        (if \<not> arg_ok then Value (None, s)
         else Value (Some (Compute_Sum (rand (drawn s) smod 1000)), s\<lparr>drawn := drawn s + 1\<rparr>))
      else if task_type = 2 then
        (if \<not> arg_ok then Value (None, s)
         else andthen (random_sleep_time_in_range (rand (drawn s)) 25 250) (\<lambda>ts.
           Value (Some (Delay_Task ts), s\<lparr>drawn := drawn s + 1\<rparr>)))
      else Value (None, s))"

text \<open>\<open>for (int i = 0; i < n; i++) sum += i;\<close> with a 64-bit sum.\<close>

function sum_loop :: "int \<Rightarrow> int \<Rightarrow> int \<Rightarrow> int" where
  "sum_loop n i acc = (if i < n then sum_loop n (i + 1) (acc + i) else acc)"
  by pat_completeness auto
termination
  by (relation "measure (\<lambda>(n, i, acc). nat (n - i))") auto

declare sum_loop.simps [simp del]

text \<open>The line a task hands to \<open>log_message\<close>. The buffers have 100 bytes.\<close>

fun work_message :: "request \<Rightarrow> string" where
  "work_message (Write_Log msg) = msg"
| "work_message (Compute_Sum n) =
     snprintf 100 (''Sum of numbers < '' @ show_int n @ '' is '' @ show_int (sum_loop n 0 0))"
| "work_message (Delay_Task ts) =
     snprintf 100 (''Simulated delay of '' @ show_int (tv_sec ts) @ '' seconds and '' @
       show_int (tv_nsec ts sdiv 1000000) @ '' milliseconds.'')"

text \<open>
  \<open>log_message\<close> appends one line to the log file, with the time and the thread that the system
  reports, unless the file cannot be opened.
\<close>

definition log_message :: "bool \<Rightarrow> string \<Rightarrow> int \<Rightarrow> string \<Rightarrow> string list \<Rightarrow> string list" where
  "log_message fopen_ok time tid message log =
     (if fopen_ok
      then log @ [''['' @ time @ ''] [Thread '' @ show_int tid @ ''] '' @ message]
      else log)"

text \<open>The whole work function of a request.\<close>

definition work_fn :: "bool \<Rightarrow> string \<Rightarrow> int \<Rightarrow> request \<Rightarrow> string list \<Rightarrow> string list" where
  "work_fn fopen_ok time tid r log = log_message fopen_ok time tid (work_message r) log"

section \<open>The main function (\<open>main.c\<close>)\<close>

text \<open>
  The arguments: \<open>Inl status\<close> when the program stops at once, \<open>Inr (threads, requests)\<close> when it goes
  on. \<open>argv\<close> includes the program name.
\<close>

definition main_args :: "string list \<Rightarrow> int + int \<times> int" where
  "main_args argv =
     (if length argv < 3 then Inl 0
      else if 20 < atoi (argv ! 1) then Inl 0
      else Inr (atoi (argv ! 1), atoi (argv ! 2)))"

text \<open>
  One round of the producer loop up to the call of \<open>queue_enqueue\<close>, and the \<open>nap_random\<close> after it:
  three draws at most. \<open>alloc i\<close> says whether the two \<open>malloc\<close> of round \<open>i\<close> succeed.
\<close>

definition produce_round ::
    "(nat \<Rightarrow> int) \<Rightarrow> (nat \<Rightarrow> bool \<times> bool) \<Rightarrow> nat \<Rightarrow>
     request option list \<times> server \<Rightarrow> (request option list \<times> server) outcome" where
  "produce_round rand alloc i st =
     (let (rs, s) = st; task_type = rand (drawn s) smod 3; s = s\<lparr>drawn := drawn s + 1\<rparr> in
      andthen (create_request rand (fst (alloc i)) (snd (alloc i)) task_type s) (\<lambda>(r, s).
      andthen (nap_random (rand (drawn s))) (\<lambda>ts.
      Value (rs @ [r], s\<lparr>drawn := drawn s + 1\<rparr>))))"

definition produce_all ::
    "(nat \<Rightarrow> int) \<Rightarrow> (nat \<Rightarrow> bool \<times> bool) \<Rightarrow> int \<Rightarrow> (request option list \<times> server) outcome" where
  "produce_all rand alloc num_requests =
     foldo (produce_round rand alloc) [0..<nat num_requests] ([], \<lparr>msg_count = 1, drawn = 0\<rparr>)"

section \<open>Lemmas\<close>

definition env_ok :: "pool_env \<Rightarrow> bool" where
  "env_ok e \<longleftrightarrow> (\<forall>i. params_ok e i \<and> cell_ok e i \<and> create_ret e i = 0)"

definition pool_cell :: "pool_env \<Rightarrow> nat \<Rightarrow> worker_thread" where
  "pool_cell e i = \<lparr>wt_thread_id = int i + 1, wt_thread = create_tid e i\<rparr>"

text \<open>The pool after \<open>k\<close> rounds: the first \<open>k\<close> cells are filled, with the numbers 1 to \<open>k\<close>.\<close>

definition pool_upto :: "pool_env \<Rightarrow> int \<Rightarrow> nat \<Rightarrow> thread_pool" where
  "pool_upto e n k =
     \<lparr>next_thread_id = int k + 1, num_threads = n,
      threads = map (\<lambda>i. Some (pool_cell e i)) [0..<k] @ replicate (MAX_WORKER_THREADS - k) None\<rparr>"

lemma fill_next:
  "k < m \<Longrightarrow> (map f [0..<k] @ replicate (m - k) d)[k := f k] = map f [0..<Suc k] @ replicate (m - Suc k) d"
  by (cases "m - k") (auto simp: list_update_append)

lemma pool_init_rounds:
  assumes "env_ok e" and "k \<le> MAX_WORKER_THREADS"
  shows "foldo (pool_init_round e) [0..<k] (pool_upto e n 0) = Value (pool_upto e n k)"
  using assms(2)
proof (induction k)
  case (Suc k)
  then have k: "k < MAX_WORKER_THREADS" by simp
  then have "is_int (int k + 1 + 1)" by (simp add: int_range_defs MAX_WORKER_THREADS_def)
  then have "pool_init_round e k (pool_upto e n k) = Value (pool_upto e n (Suc k))"
    using assms(1) k fill_next [OF k, of "\<lambda>i. Some (pool_cell e i)"]
    by (simp add: pool_init_round_def pool_upto_def env_ok_def create_worker_thread_def
        pool_cell_def Let_def)
  with Suc k show ?case by (simp add: foldo_append)
qed (simp add: pool_upto_def)

lemma thread_pool_init_upto:
  assumes "env_ok e" and "nat n \<le> MAX_WORKER_THREADS"
  shows "thread_pool_init True e n = Value (pool_upto e n (nat n))"
  using pool_init_rounds [OF assms, of n] by (simp add: thread_pool_init_def pool_upto_def)

lemma join_rounds:
  assumes "k \<le> m" and "m \<le> MAX_WORKER_THREADS"
  shows "foldo (join_round (pool_upto e n m)) [0..<k] [] = Value (map (create_tid e) [0..<k])"
  using assms
proof (induction k)
  case (Suc k)
  then show ?case
    by (simp add: foldo_append join_round_def pool_upto_def pool_cell_def nth_append
        MAX_WORKER_THREADS_def)
qed simp

lemma sum_loop_eq: "i \<le> n \<Longrightarrow> 2 * sum_loop n i acc = 2 * acc + n * (n - 1) - i * (i - 1)"
proof (induction n i acc rule: sum_loop.induct)
  case (1 n i acc)
  show ?case
  proof (cases "i < n")
    case True
    with 1 have "2 * sum_loop n (i + 1) (acc + i) = 2 * (acc + i) + n * (n - 1) - (i + 1) * i"
      by simp
    with True show ?thesis by (simp add: sum_loop.simps [of n i] algebra_simps)
  next
    case False
    with 1 have "i = n" by simp
    then show ?thesis by (simp add: sum_loop.simps [of n n])
  qed
qed

lemma random_sleep_ok:
  assumes "0 \<le> lo" and "lo \<le> hi" and "hi \<le> INT_MAX" and "hi - lo < INT_MAX" and "0 \<le> r"
  shows "\<exists>ms. lo \<le> ms \<and> ms \<le> hi \<and>
    random_sleep_time_in_range r lo hi =
      Value \<lparr>tv_sec = ms div 1000, tv_nsec = (ms mod 1000) * 1000000\<rparr>"
proof -
  let ?ms = "lo + r smod (hi - lo + 1)"
  have ms: "lo \<le> ?ms" "?ms \<le> hi"
    using assms smod_range [of r "hi - lo + 1"] by simp_all
  have "is_int (hi - lo + 1)" "is_int ?ms"
    using assms ms by (simp_all add: int_range_defs)
  with ms assms show ?thesis
    by (intro exI [of _ ?ms])
      (simp add: random_sleep_time_in_range_def Let_def sdiv_pos smod_pos)
qed

text \<open>The producer pauses between 50 and 500 milliseconds.\<close>

lemma nap_random_bounds:
  assumes "0 \<le> r"
  shows "\<exists>ts. nap_random r = Value ts \<and> tv_sec ts = 0 \<and> 50000000 \<le> tv_nsec ts \<and> tv_nsec ts \<le> 500000000"
  using random_sleep_ok [of 50 500 r] assms by (auto simp: INT_MAX_def)

lemma task_type_range:
  assumes "0 \<le> r"
  obtains "r smod 3 = 0" | "r smod 3 = 1" | "r smod 3 = (2 :: int)"
  using smod_range [OF assms, of 3] by fastforce

text \<open>The messages of the log requests of a list, in order.\<close>

fun log_texts :: "request option list \<Rightarrow> string list" where
  "log_texts [] = []"
| "log_texts (Some (Write_Log m) # rs) = m # log_texts rs"
| "log_texts (r # rs) = log_texts rs"

definition numbered :: "nat \<Rightarrow> string list" where
  "numbered n = map (\<lambda>i. snprintf 64 (''Log message '' @ show_int (int i + 1))) [0..<n]"

lemma log_texts_append: "log_texts (rs @ qs) = log_texts rs @ log_texts qs"
  by (induction rs rule: log_texts.induct) auto

lemma numbered_Suc:
  "numbered (Suc n) = numbered n @ [snprintf 64 (''Log message '' @ show_int (int n + 1))]"
  by (simp add: numbered_def)

definition rand_ok :: "(nat \<Rightarrow> int) \<Rightarrow> bool" where
  "rand_ok rand \<longleftrightarrow> (\<forall>k. 0 \<le> rand k \<and> rand k \<le> INT_MAX)"

definition memory_ok :: "(nat \<Rightarrow> bool \<times> bool) \<Rightarrow> bool" where
  "memory_ok alloc \<longleftrightarrow> (\<forall>i. alloc i = (True, True))"

text \<open>What holds of the requests and the counter after some rounds.\<close>

definition produced :: "nat \<Rightarrow> request option list \<times> server \<Rightarrow> bool" where
  "produced k st \<longleftrightarrow>
     length (fst st) = k \<and> None \<notin> set (fst st) \<and>
     msg_count (snd st) = int (length (log_texts (fst st))) + 1 \<and>
     log_texts (fst st) = numbered (length (log_texts (fst st)))"

lemma log_texts_length: "length (log_texts rs) \<le> length rs"
  by (induction rs rule: log_texts.induct) auto

lemma produce_round_ok:
  assumes "rand_ok rand" and "memory_ok alloc" and "produced k (rs, s)"
    and "int k + 2 \<le> INT_MAX"
  shows "\<exists>st. produce_round rand alloc k (rs, s) = Value st \<and> produced (Suc k) st"
proof -
  let ?s = "s\<lparr>drawn := drawn s + 1\<rparr>"
  have rand: "0 \<le> rand j" for j using assms(1) by (simp add: rand_ok_def)
  obtain ts1 where ts1: "random_sleep_time_in_range (rand (drawn ?s)) 25 250 = Value ts1"
    using random_sleep_ok [of 25 250 "rand (drawn ?s)"] rand by (auto simp: INT_MAX_def)
  have nap: "\<exists>ts. random_sleep_time_in_range (rand j) 50 500 = Value ts" for j
    using random_sleep_ok [of 50 500 "rand j"] rand by (auto simp: INT_MAX_def)
  have cnt: "is_int (msg_count s + 1)"
    using assms(3,4) log_texts_length [of rs] by (simp add: produced_def int_range_defs)
  have "\<exists>r s'. create_request rand True True (rand (drawn s) smod 3) ?s = Value (Some r, s') \<and>
      produced (Suc k) (rs @ [Some r], s')"
    using task_type_range [OF rand [of "drawn s"]]
  proof cases
    case 1
    then show ?thesis
      using assms(3) cnt
      by (auto simp: create_request_def produced_def log_texts_append numbered_Suc)
  next
    case 2
    then show ?thesis
      using assms(3) by (auto simp: create_request_def produced_def log_texts_append)
  next
    case 3
    then show ?thesis
      using assms(3) ts1 by (auto simp: create_request_def produced_def log_texts_append)
  qed
  then obtain r s' where "create_request rand True True (rand (drawn s) smod 3) ?s = Value (Some r, s')"
    "produced (Suc k) (rs @ [Some r], s')" by blast
  then show ?thesis
    using nap [of "drawn s'"] assms(2) by (auto simp: produce_round_def Let_def produced_def memory_ok_def)
qed

lemma produce_rounds_ok:
  assumes "rand_ok rand" and "memory_ok alloc" and "int k + 1 \<le> INT_MAX"
  shows "\<exists>st. foldo (produce_round rand alloc) [0..<k] ([], \<lparr>msg_count = 1, drawn = 0\<rparr>) = Value st \<and>
      produced k st"
  using assms(3)
proof (induction k)
  case 0
  then show ?case by (simp add: produced_def numbered_def)
next
  case (Suc k)
  then obtain rs s where
    "foldo (produce_round rand alloc) [0..<k] ([], \<lparr>msg_count = 1, drawn = 0\<rparr>) = Value (rs, s)"
    "produced k (rs, s)" by auto
  moreover from this(2) obtain st where
    "produce_round rand alloc k (rs, s) = Value st" "produced (Suc k) st"
    using produce_round_ok [OF assms(1,2), of k rs s] Suc.prems by auto
  ultimately show ?case by (simp add: foldo_append)
qed

section \<open>Properties\<close>

text \<open>
  For up to 20 threads, with an environment that grants what is asked, \<open>thread_pool_init\<close>
  returns a pool whose \<open>i\<close>-th cell holds the thread made in round \<open>i\<close> under the number \<open>i + 1\<close>, and
  \<open>thread_pool_destroy\<close> joins exactly these threads, in order. A count that is not positive gives a
  pool without threads.
\<close>

lemma thread_pool_threads:
  assumes "env_ok e" and "n \<le> 20"
  shows "\<exists>pool. thread_pool_init True e n = Value pool \<and> num_threads pool = n \<and>
    next_thread_id pool = int (nat n) + 1 \<and> length (threads pool) = MAX_WORKER_THREADS \<and>
    take (nat n) (threads pool) =
      map (\<lambda>i. Some \<lparr>wt_thread_id = int i + 1, wt_thread = create_tid e i\<rparr>) [0..<nat n] \<and>
    thread_pool_destroy (Some pool) = Value (map (create_tid e) [0..<nat n])"
proof -
  have n: "nat n \<le> MAX_WORKER_THREADS" using assms(2) by (simp add: MAX_WORKER_THREADS_def)
  then show ?thesis
    using thread_pool_init_upto [OF assms(1) n] join_rounds [OF order_refl n, of e n]
    by (simp add: pool_upto_def pool_cell_def thread_pool_destroy_def)
qed

definition example_env :: pool_env where
  "example_env =
     \<lparr>params_ok = (\<lambda>i. True), cell_ok = (\<lambda>i. True), create_ret = (\<lambda>i. 0), create_tid = (\<lambda>i. i + 100)\<rparr>"

text \<open>
  \<open>thread_pool_init\<close> does not check its count against the array: every count above 20 makes it
  write outside \<open>threads\<close>. The check of \<open>main\<close> is what prevents that: whatever the arguments are,
  the count it passes on keeps the pool inside the array, and it is a count of 20, too, that the
  check lets through although the message asks for less than 20.
\<close>

lemma thread_count_guard:
  assumes "env_ok e" and "20 < n" and "main_args argv = Inr (t, r)"
  shows "thread_pool_init True e n = Undefined Out_Of_Bounds \<and>
    (\<exists>pool. thread_pool_init True e t = Value pool) \<and>
    main_args [prog, ''20'', cnt] = Inr (20, atoi cnt)"
proof -
  have "[0..<nat n] = [0..<20] @ 20 # [21..<nat n]"
    using assms(2) upt_add_eq_append [of 0 20 "nat n - 20"] by (simp add: upt_conv_Cons)
  moreover have "foldo (pool_init_round e) [0..<20] (pool_upto e n 0) = Value (pool_upto e n 20)"
    using pool_init_rounds [OF assms(1), of 20] by (simp add: MAX_WORKER_THREADS_def)
  moreover have "pool_init_round e 20 p = Undefined Out_Of_Bounds" for p
    using assms(1) by (simp add: pool_init_round_def env_ok_def MAX_WORKER_THREADS_def)
  ultimately have "foldo (pool_init_round e) [0..<nat n] (pool_upto e n 0) = Undefined Out_Of_Bounds"
    by (simp add: foldo_append)
  then have "thread_pool_init True e n = Undefined Out_Of_Bounds"
    by (simp add: thread_pool_init_def pool_upto_def)
  moreover have "nat t \<le> MAX_WORKER_THREADS"
    using assms(3) by (auto simp: main_args_def MAX_WORKER_THREADS_def split: if_splits)
  moreover have "atoi ''20'' = 20" by code_simp
  ultimately show ?thesis
    using thread_pool_init_upto [OF assms(1)] by (auto simp: main_args_def)
qed

text \<open>
  \<open>random_sleep_time_in_range\<close> returns a normalised time in the requested range of
  milliseconds, both ends included, for every value \<open>rand\<close> can return; an invalid range gives zero.
\<close>

lemma random_sleep_in_range:
  assumes "0 \<le> r" and "r \<le> INT_MAX" and "min_ms \<le> INT_MAX" and "max_ms < INT_MAX"
  shows "\<exists>ts. random_sleep_time_in_range r min_ms max_ms = Value ts \<and>
    0 \<le> tv_nsec ts \<and> tv_nsec ts < 1000000000 \<and>
    (if 0 \<le> min_ms \<and> min_ms \<le> max_ms
     then min_ms \<le> tv_sec ts * 1000 + tv_nsec ts div 1000000 \<and>
          tv_sec ts * 1000 + tv_nsec ts div 1000000 \<le> max_ms
     else ts = \<lparr>tv_sec = 0, tv_nsec = 0\<rparr>)"
proof (cases "0 \<le> min_ms \<and> min_ms \<le> max_ms")
  case True
  with assms obtain ms where ms: "min_ms \<le> ms" "ms \<le> max_ms"
    "random_sleep_time_in_range r min_ms max_ms =
      Value \<lparr>tv_sec = ms div 1000, tv_nsec = (ms mod 1000) * 1000000\<rparr>"
    using random_sleep_ok [of min_ms max_ms r] by auto
  with True show ?thesis by simp
next
  case False
  then have "random_sleep_time_in_range r min_ms max_ms = random_sleep_time_in_range r 0 0"
    by (auto simp: random_sleep_time_in_range_def)
  moreover have "random_sleep_time_in_range r 0 0 = Value \<lparr>tv_sec = 0, tv_nsec = 0\<rparr>"
    using random_sleep_ok [of 0 0 r] assms by (auto simp: INT_MAX_def)
  ultimately show ?thesis using False by auto
qed

text \<open>
  The loop of \<open>compute_sum\<close> computes the sum of the numbers below \<open>n\<close>, in a range that a 64-bit
  \<open>long\<close> holds for every \<open>int\<close> \<open>n\<close>, and the loop is not entered for a number that is not positive.
\<close>

lemma compute_sum_closed_form:
  assumes "is_int n"
  shows "sum_loop n 0 0 = (if n \<le> 0 then 0 else n * (n - 1) div 2) \<and>
    0 \<le> sum_loop n 0 0 \<and> sum_loop n 0 0 \<le> LONG_MAX"
proof (cases "n \<le> 0")
  case True
  then show ?thesis by (simp add: sum_loop.simps [of n] LONG_MAX_def)
next
  case False
  then have two: "2 * sum_loop n 0 0 = n * (n - 1)"
    using sum_loop_eq [of 0 n 0] by simp
  have "n * (n - 1) \<le> 2147483647 * 2147483647"
    using False assms by (intro mult_mono) (simp_all add: int_range_defs)
  moreover have nonneg: "0 \<le> n * (n - 1)" using False by simp
  ultimately have "sum_loop n 0 0 = n * (n - 1) div 2" "sum_loop n 0 0 \<le> LONG_MAX"
    using two by (simp_all add: LONG_MAX_def)
  moreover have "0 \<le> sum_loop n 0 0" using two nonneg by linarith
  ultimately show ?thesis using False by simp
qed

text \<open>
  The producer loop of \<open>main\<close>. With memory, and for every sequence of values \<open>rand\<close> can return,
  it makes exactly the number of requests asked for, none of them \<open>NULL\<close>, and the log messages among
  them are numbered 1, 2, 3 and so on in the order of their creation.
\<close>

lemma produce_all_requests:
  assumes "rand_ok rand" and "memory_ok alloc" and "num_requests < INT_MAX"
  shows "\<exists>rs s. produce_all rand alloc num_requests = Value (rs, s) \<and>
    length rs = nat num_requests \<and> None \<notin> set rs \<and>
    log_texts rs = numbered (length (log_texts rs))"
proof -
  have "int (nat num_requests) + 1 \<le> INT_MAX" using assms(3) by (simp add: INT_MAX_def)
  from produce_rounds_ok [OF assms(1,2) this] show ?thesis
    by (auto simp: produce_all_def produced_def)
qed

end
