(* ===== verification/Http_Proxy.thy ===== *)
theory Http_Proxy
  imports C_Strings
begin

text \<open>
  The request handler of the proxy server, \<open>Final/proxy_server/http_proxy.c\<close>: parsing of the request
  line, connecting to the target, rewriting and forwarding the request, returning the response.
  Sockets are numbers; what the system answers to the calls is in a record of answers. The buffers of
  the C code have their sizes, and writing past them is an outcome.
\<close>

section \<open>The request line\<close>

definition BUFFER_SIZE :: nat where
  "BUFFER_SIZE = 4096"

text \<open>
  \<open>sscanf(buffer, "%s %s %s", method, url, protocol)\<close> into arrays of 10, 1024 and 10 bytes. The
  conversions stop at the first one that finds nothing; the arrays that were not reached keep their
  indeterminate content, \<open>None\<close>. A token that does not fit overruns its array.
\<close>

definition store_token :: "nat \<Rightarrow> string \<Rightarrow> string outcome" where
  "store_token n t = (if length t < n then Value t else Undefined Out_Of_Bounds)"

fun scan_tokens :: "nat list \<Rightarrow> string \<Rightarrow> string option list outcome" where
  "scan_tokens [] s = Value []"
| "scan_tokens (n # ns) s =
     (case scan_s s of
        None \<Rightarrow> Value (replicate (Suc (length ns)) None)
      | Some (t, rest) \<Rightarrow>
          andthen (store_token n t) (\<lambda>t.
          andthen (scan_tokens ns rest) (\<lambda>ts. Value (Some t # ts))))"

definition read_array :: "string option \<Rightarrow> string outcome" where
  "read_array a = (case a of None \<Rightarrow> Undefined Uninitialised | Some t \<Rightarrow> Value t)"

definition scan_request_line ::
    "string \<Rightarrow> (string option \<times> string option \<times> string option) outcome" where
  "scan_request_line buffer =
     andthen (scan_tokens [10, 1024, 10] buffer) (\<lambda>ts. Value (ts ! 0, ts ! 1, ts ! 2))"

text \<open>
  \<open>parse_http_request\<close>: \<open>Some (hostname, port)\<close> when it returns true, \<open>None\<close> when it returns false.
\<close>

definition scan_host_port :: "string \<Rightarrow> (string \<times> int) option" where
  "scan_host_port s =
     (case scan_not 255 '':/'' s of
        None \<Rightarrow> None
      | Some (host, rest) \<Rightarrow>
          (case rest of
             [] \<Rightarrow> None
           | c # t \<Rightarrow> if c \<noteq> CHR '':'' then None
                      else map_option (\<lambda>(port, _). (host, port)) (scan_d t)))"

definition parse_url :: "string \<Rightarrow> (string \<times> int) option" where
  "parse_url url =
     (if strneq 7 url ''http://'' then
        (case scan_host_port (drop 7 url) of
           Some (host, port) \<Rightarrow> Some (host, port)
         | None \<Rightarrow> map_option (\<lambda>(host, _). (host, 80)) (scan_not 255 ''/'' (drop 7 url)))
      else None)"

definition parse_http_request :: "string \<Rightarrow> (string \<times> int) option outcome" where
  "parse_http_request buffer =
     andthen (scan_request_line buffer) (\<lambda>(method, url, protocol).
     andthen (read_array url) (\<lambda>url. Value (parse_url url)))"

section \<open>The forwarded request\<close>

text \<open>
  The text that \<open>forward_request\<close> builds and sends to the target, \<open>None\<close> when it returns without sending. \<open>path\<close>
  has 1024 bytes and is filled with \<open>strncpy\<close>; the request line is printed with \<open>snprintf\<close> and the rest
  of the request appended with \<open>strncat\<close> into 4096 bytes.
\<close>

definition url_path :: "string \<Rightarrow> string" where
  "url_path url =
     (case strchr (drop 7 url) (CHR ''/'') of
        Some p \<Rightarrow> take 1023 p
      | None \<Rightarrow> ''/'')"

definition append_headers :: "string \<Rightarrow> string \<Rightarrow> string" where
  "append_headers modified buffer =
     (case strstr buffer [CR, LF] of
        None \<Rightarrow> modified
      | Some headers \<Rightarrow> modified @ take (BUFFER_SIZE - length modified - 1) (drop 2 headers))"

definition modified_request :: "string \<Rightarrow> string option outcome" where
  "modified_request buffer =
     andthen (scan_request_line buffer) (\<lambda>(method, url, protocol).
     andthen (read_array url) (\<lambda>url.
     if \<not> strneq 7 url ''http://'' then Value None
     else
       andthen (read_array method) (\<lambda>method.
       andthen (read_array protocol) (\<lambda>protocol.
       let modified = snprintf BUFFER_SIZE
             (method @ '' '' @ url_path url @ '' '' @ protocol @ [CR, LF]) in
       Value (Some (append_headers modified buffer))))))"

section \<open>Sockets\<close>

text \<open>
  \<open>open_fds\<close> are the descriptors that are open, \<open>sent\<close> what has been sent on which of them, in order.
\<close>

record net =
  open_fds :: "int set"
  sent :: "(int \<times> string) list"

definition close_fd :: "int \<Rightarrow> net \<Rightarrow> net" where
  "close_fd fd w = w\<lparr>open_fds := open_fds w - {fd}\<rparr>"

definition send_on :: "int \<Rightarrow> string \<Rightarrow> net \<Rightarrow> net" where
  "send_on fd msg w = w\<lparr>sent := sent w @ [(fd, msg)]\<rparr>"

text \<open>
  The loop of \<open>connect_to_target_server\<close> over the addresses that \<open>getaddrinfo\<close> returned. For each of
  them, what \<open>socket\<close> and \<open>connect\<close> return. \<open>sockfd\<close> is the variable of the C code, \<open>None\<close> before it
  is assigned; the flag says whether the loop ended with \<open>break\<close>.
\<close>

fun connect_loop :: "(int \<times> int) list \<Rightarrow> int option \<Rightarrow> net \<Rightarrow> int option \<times> bool \<times> net" where
  "connect_loop [] sockfd w = (sockfd, False, w)"
| "connect_loop ((fd, conn) # as) sockfd w =
     (if fd < 0 then connect_loop as (Some fd) w
      else
        let w = w\<lparr>open_fds := insert fd (open_fds w)\<rparr> in
        if conn = 0 then (Some fd, True, w)
        else connect_loop as (Some fd) (close_fd fd w))"

text \<open>\<open>resolve host port\<close> is what \<open>getaddrinfo\<close> finds, \<open>None\<close> when it fails.\<close>

definition connect_to_target_server ::
    "(string \<Rightarrow> string \<Rightarrow> (int \<times> int) list option) \<Rightarrow> string \<Rightarrow> int \<Rightarrow> net \<Rightarrow> (int \<times> net) outcome"
  where
  "connect_to_target_server resolve hostname port w =
     (let port_str = snprintf 6 (show_int port) in
      case resolve hostname port_str of
        None \<Rightarrow> Value (-1, w)
      | Some as \<Rightarrow>
          (case connect_loop as None w of
             (None, _, w) \<Rightarrow> Undefined Uninitialised
           | (Some fd, _, w) \<Rightarrow> Value (fd, w)))"

section \<open>The handler\<close>

text \<open>
  What the system answers while one request is handled: the bytes that \<open>recv\<close> finds for the client
  and for the target (\<open>None\<close> when it fails, no bytes when the peer has closed), and what the two
  \<open>send\<close> return, a count of bytes or -1. On a descriptor that is not open every call fails.
\<close>

record answers =
  recv_client :: "string option"
  recv_target :: "string option"
  send_target :: int
  send_client :: int

text \<open>The string that the bytes in a zeroed buffer make up.\<close>

definition c_string :: "string \<Rightarrow> string" where
  "c_string bs = takeWhile (\<lambda>c. c \<noteq> CHR 0x00) bs"

definition recv :: "string option \<Rightarrow> int \<Rightarrow> nat \<Rightarrow> net \<Rightarrow> string option" where
  "recv answer fd n w = (if fd \<in> open_fds w then map_option (take n) answer else None)"

definition send :: "int \<Rightarrow> int \<Rightarrow> string \<Rightarrow> net \<Rightarrow> int \<times> net" where
  "send answer fd msg w =
     (if fd \<in> open_fds w \<and> 0 \<le> answer
      then (min answer (int (length msg)), send_on fd (take (nat answer) msg) w)
      else (-1, w))"

definition receive_client_request :: "answers \<Rightarrow> int \<Rightarrow> net \<Rightarrow> string option" where
  "receive_client_request a client_socket w =
     (case recv (recv_client a) client_socket (BUFFER_SIZE - 1) w of
        None \<Rightarrow> None
      | Some bs \<Rightarrow> if bs = [] then None else Some (c_string bs))"

definition forward_request :: "answers \<Rightarrow> int \<Rightarrow> string \<Rightarrow> net \<Rightarrow> net outcome" where
  "forward_request a target_socket buffer w =
     andthen (modified_request buffer) (\<lambda>m.
     case m of
       None \<Rightarrow> Value w
     | Some msg \<Rightarrow> Value (snd (send (send_target a) target_socket msg w)))"

definition forward_response :: "answers \<Rightarrow> int \<Rightarrow> int \<Rightarrow> net \<Rightarrow> net outcome" where
  "forward_response a target_socket client_socket w =
     (case recv (recv_target a) target_socket (BUFFER_SIZE - 1) w of
        None \<Rightarrow> Exit EXIT_FAILURE
      | Some bs \<Rightarrow>
          (case send (send_client a) client_socket bs w of
             (n, w) \<Rightarrow> if n < 0 then Exit EXIT_FAILURE else Value w))"

definition handle_client_request ::
    "answers \<Rightarrow> (string \<Rightarrow> string \<Rightarrow> (int \<times> int) list option) \<Rightarrow> int \<Rightarrow> net \<Rightarrow> net outcome" where
  "handle_client_request a resolve client_socket w =
     (case receive_client_request a client_socket w of
        None \<Rightarrow> Value w
      | Some buffer \<Rightarrow>
          andthen (parse_http_request buffer) (\<lambda>r.
          case r of
            None \<Rightarrow> Value w
          | Some (hostname, port) \<Rightarrow>
              andthen (connect_to_target_server resolve hostname port w) (\<lambda>(target_socket, w).
              if target_socket < 0 then Value w
              else
                andthen (forward_request a target_socket buffer w) (\<lambda>w.
                andthen (forward_response a target_socket client_socket w) (\<lambda>w.
                Value (close_fd client_socket (close_fd target_socket w)))))))"

text \<open>
  \<open>handle_client_request_thread\<close> reads the descriptor from the heap cell it is given and frees it.
  The cells are a map from addresses to descriptors.
\<close>

definition handle_client_request_thread ::
    "answers \<Rightarrow> (string \<Rightarrow> string \<Rightarrow> (int \<times> int) list option) \<Rightarrow> (nat \<rightharpoonup> int) \<Rightarrow> nat \<Rightarrow> net \<Rightarrow>
     ((nat \<rightharpoonup> int) \<times> net) outcome" where
  "handle_client_request_thread a resolve cells arg w =
     (case cells arg of
        None \<Rightarrow> Undefined Dangling
      | Some client_socket \<Rightarrow>
          andthen (handle_client_request a resolve client_socket w) (\<lambda>w.
          Value (cells(arg := None), w)))"

section \<open>Well-formed requests\<close>

text \<open>
  The requests a proxy is meant for: an absolute URL with a host, perhaps a port, and a path that is
  empty or starts with a slash.
\<close>

definition token :: "string \<Rightarrow> bool" where
  "token t \<longleftrightarrow> t \<noteq> [] \<and> list_all (\<lambda>c. \<not> is_space c) t"

definition valid_host :: "string \<Rightarrow> bool" where
  "valid_host h \<longleftrightarrow>
     token h \<and> length h \<le> 255 \<and> CHR '':'' \<notin> set h \<and> CHR ''/'' \<notin> set h"

definition valid_path :: "string \<Rightarrow> bool" where
  "valid_path p \<longleftrightarrow> p = [] \<or> token p \<and> hd p = CHR ''/''"

definition absolute_url :: "string \<Rightarrow> int option \<Rightarrow> string \<Rightarrow> string" where
  "absolute_url host port path =
     ''http://'' @ host @ (case port of None \<Rightarrow> [] | Some n \<Rightarrow> CHR '':'' # show_int n) @ path"

definition request_text :: "string \<Rightarrow> string \<Rightarrow> string \<Rightarrow> string \<Rightarrow> string" where
  "request_text method url protocol headers =
     method @ CHR '' '' # url @ CHR '' '' # protocol @ CR # LF # headers"

definition line_fits :: "string \<Rightarrow> string \<Rightarrow> string \<Rightarrow> bool" where
  "line_fits method url protocol \<longleftrightarrow>
     token method \<and> length method < 10 \<and> token url \<and> length url < 1024 \<and>
     token protocol \<and> length protocol < 10"

definition valid_port :: "int option \<Rightarrow> bool" where
  "valid_port p = (case p of None \<Rightarrow> True | Some n \<Rightarrow> 0 \<le> n \<and> n \<le> 65535)"

lemma is_space_chars [simp]:
  "is_space (CHR '' '')" "is_space CR" "is_space LF" "\<not> is_space (CHR '':'')"
  "\<not> is_space (CHR ''/'')"
  by (simp_all add: is_space_def)

lemma dropWhile_token: "token t \<Longrightarrow> dropWhile is_space (t @ r) = t @ r"
  by (cases t) (auto simp: token_def)

lemma takeWhile_nonspace:
  "list_all (\<lambda>c. \<not> is_space c) t \<Longrightarrow> is_space b \<Longrightarrow>
     takeWhile (\<lambda>c. \<not> is_space c) (t @ b # r) = t"
  "list_all (\<lambda>c. \<not> is_space c) t \<Longrightarrow> is_space b \<Longrightarrow>
     dropWhile (\<lambda>c. \<not> is_space c) (t @ b # r) = b # r"
  by (induction t) auto

lemma scan_s_token:
  "token t \<Longrightarrow> is_space b \<Longrightarrow> scan_s (t @ b # r) = Some (t, b # r)"
  "token t \<Longrightarrow> is_space b \<Longrightarrow> is_space b' \<Longrightarrow> scan_s (b' # t @ b # r) = Some (t, b # r)"
  using dropWhile_token [of t "b # r"]
  by (auto simp: scan_s_def Let_def takeWhile_nonspace token_def)

lemma scan_request_text:
  assumes "line_fits m u p"
  shows "scan_request_line (request_text m u p h) = Value (Some m, Some u, Some p)"
  using assms
  by (simp add: scan_request_line_def request_text_def line_fits_def scan_s_token store_token_def)

lemma takeWhile_stop: "list_all Q xs \<Longrightarrow> ys = [] \<or> \<not> Q (hd ys) \<Longrightarrow> takeWhile Q (xs @ ys) = xs"
  by (induction xs; cases ys) auto

lemma scan_not_host:
  assumes "valid_host h" and "ys = [] \<or> hd ys \<in> set cs" and "set cs \<subseteq> {CHR '':'', CHR ''/''}"
  shows "scan_not 255 cs (h @ ys) = Some (h, ys)"
proof -
  have "takeWhile (\<lambda>c. c \<notin> set cs) (h @ ys) = h"
    using assms by (intro takeWhile_stop) (auto simp: valid_host_def list_all_iff)
  then show ?thesis using assms(1) by (simp add: scan_not_def valid_host_def token_def)
qed

lemma scan_d_show:
  assumes "0 \<le> n" and "n \<le> 65535" and "r = [] \<or> hd r = CHR ''/''"
  shows "scan_d (show_int n @ r) = Some (n, r)"
proof -
  have r: "r = [] \<or> \<not> is_digit (hd r)" using assms(3) by (auto simp: is_digit_def)
  obtain c cs where c: "show_nat (nat n) = c # cs" "is_digit c"
    using show_nat_digits [of "nat n"] by (cases "show_nat (nat n)") auto
  have "split_sign (dropWhile is_space (show_int n @ r)) = (False, show_int n @ r)"
    using c assms(1) is_digit_not_space is_digit_not_sign by (simp add: show_int_def split_sign_def)
  moreover have "takeWhile is_digit (show_int n @ r) \<noteq> []"
    using c assms(1) by (simp add: show_int_def)
  moreover have "strtol (show_int n @ r) = (n, r, False)"
    using assms r by (intro strtol_show_int) (auto simp: LONG_MIN_def LONG_MAX_def)
  moreover have "to_signed 32 n = n" using assms by (intro to_signed32_id) (simp add: int_range_defs)
  ultimately show ?thesis by (simp add: scan_d_def)
qed

lemma parse_absolute_url:
  assumes "valid_host h" and "valid_port n" and "valid_path p"
  shows "parse_url (absolute_url h n p) = Some (h, case n of None \<Rightarrow> 80 | Some k \<Rightarrow> k)"
proof -
  have p: "p = [] \<or> hd p = CHR ''/''" using assms(3) by (auto simp: valid_path_def)
  show ?thesis
  proof (cases n)
    case None
    have "scan_not 255 '':/'' (h @ p) = Some (h, p)" "scan_not 255 ''/'' (h @ p) = Some (h, p)"
      using p by (auto intro!: scan_not_host [OF assms(1)])
    moreover have "scan_host_port (h @ p) = None"
      using calculation p by (cases p) (auto simp: scan_host_port_def)
    ultimately show ?thesis using None by (simp add: parse_url_def absolute_url_def strneq_def)
  next
    case (Some k)
    have "scan_not 255 '':/'' (h @ CHR '':'' # show_int k @ p) = Some (h, CHR '':'' # show_int k @ p)"
      by (auto intro!: scan_not_host [OF assms(1)])
    moreover have "scan_d (show_int k @ p) = Some (k, p)"
      using assms(2) p Some by (intro scan_d_show) (auto simp: valid_port_def)
    ultimately show ?thesis using Some
      by (simp add: parse_url_def absolute_url_def scan_host_port_def strneq_def)
  qed
qed

lemma parse_request_text:
  assumes "line_fits m (absolute_url h n p) v" and "valid_host h" and "valid_port n" and "valid_path p"
  shows "parse_http_request (request_text m (absolute_url h n p) v hs) =
           Value (Some (h, case n of None \<Rightarrow> 80 | Some k \<Rightarrow> k))"
  using assms by (simp add: parse_http_request_def scan_request_text read_array_def parse_absolute_url)

section \<open>What is forwarded\<close>

lemma strstr_crlf: "CR \<notin> set a \<Longrightarrow> strstr (a @ CR # LF # h) [CR, LF] = Some (CR # LF # h)"
  by (induction a) auto

lemma token_no_CR: "token t \<Longrightarrow> CR \<notin> set t"
  by (auto simp: token_def list_all_iff)

lemma strstr_request_text:
  assumes "line_fits m u v"
  shows "strstr (request_text m u v hs) [CR, LF] = Some (CR # LF # hs)"
proof -
  have "CR \<notin> set (m @ CHR '' '' # u @ CHR '' '' # v)"
    using assms token_no_CR by (auto simp: line_fits_def)
  from strstr_crlf [OF this, of hs] show ?thesis by (simp add: request_text_def)
qed

lemma slash_notin_show_int: "0 \<le> n \<Longrightarrow> CHR ''/'' \<notin> set (show_int n)"
  using show_nat_digits [of "nat n"] by (auto simp: show_int_def list_all_iff is_digit_def)

lemma url_path_absolute:
  assumes "valid_host h" and "valid_port n" and "valid_path p"
    and "length (absolute_url h n p) < 1024"
  shows "url_path (absolute_url h n p) = (if p = [] then ''/'' else p)"
proof -
  define a where "a = h @ (case n of None \<Rightarrow> [] | Some k \<Rightarrow> CHR '':'' # show_int k)"
  have a: "CHR ''/'' \<notin> set a"
    using assms(1,2) slash_notin_show_int
    by (auto simp: a_def valid_host_def valid_port_def split: option.splits)
  have d: "drop 7 (absolute_url h n p) = a @ p" by (simp add: absolute_url_def a_def)
  show ?thesis
  proof (cases p)
    case Nil
    with a d show ?thesis by (simp add: url_path_def strchr_None [THEN iffD2])
  next
    case (Cons c t)
    then have "c = CHR ''/''" using assms(3) by (auto simp: valid_path_def)
    moreover have "length p < 1024" using assms(4) by (simp add: absolute_url_def)
    ultimately show ?thesis using Cons a d by (simp add: url_path_def strchr_append)
  qed
qed

definition origin_form :: "string \<Rightarrow> string \<Rightarrow> string \<Rightarrow> string \<Rightarrow> string" where
  "origin_form method path protocol headers =
     request_text method (if path = [] then ''/'' else path) protocol headers"

lemma modified_request_text:
  assumes "line_fits m (absolute_url h n p) v" and "valid_host h" and "valid_port n" and "valid_path p"
    and "length (request_text m (absolute_url h n p) v hs) < BUFFER_SIZE"
  shows "modified_request (request_text m (absolute_url h n p) v hs) =
           Value (Some (origin_form m p v hs))"
proof -
  let ?u = "absolute_url h n p" and ?p = "if p = [] then ''/'' else p"
  have up: "url_path ?u = ?p" using assms by (intro url_path_absolute) (auto simp: line_fits_def)
  have http: "strneq 7 ?u ''http://''" by (simp add: strneq_def absolute_url_def)
  let ?line = "m @ '' '' @ ?p @ '' '' @ v @ [CR, LF]"
  have len: "length ?line + length hs < BUFFER_SIZE"
    using assms(5) by (simp add: request_text_def absolute_url_def)
  then have "snprintf BUFFER_SIZE ?line = ?line" by (intro snprintf_fits) simp
  moreover have "append_headers ?line (request_text m ?u v hs) = ?line @ hs"
    using len unfolding append_headers_def strstr_request_text [OF assms(1)] by simp
  moreover have "?line @ hs = origin_form m p v hs"
    by (simp add: origin_form_def request_text_def)
  ultimately show ?thesis using assms(1) http up
    by (simp add: modified_request_def scan_request_text read_array_def Let_def)
qed

section \<open>Connecting\<close>

text \<open>The first address that gives a socket and accepts the connection.\<close>

definition accepting :: "int \<times> int \<Rightarrow> bool" where
  "accepting a \<longleftrightarrow> 0 \<le> fst a \<and> snd a = 0"

definition fresh_fds :: "(int \<times> int) list \<Rightarrow> net \<Rightarrow> bool" where
  "fresh_fds as w \<longleftrightarrow> (\<forall>a \<in> set as. fst a \<notin> open_fds w)"

lemma close_opened: "fd \<notin> open_fds w \<Longrightarrow> close_fd fd (w\<lparr>open_fds := insert fd (open_fds w)\<rparr>) = w"
  by (simp add: close_fd_def)

lemma connect_loop_refused:
  "list_all (\<lambda>a. \<not> accepting a) as \<Longrightarrow> fresh_fds as w \<Longrightarrow>
     connect_loop as s w = (if as = [] then s else Some (fst (last as)), False, w)"
  by (induction as s w rule: connect_loop.induct)
    (auto simp: accepting_def fresh_fds_def close_opened Let_def)

lemma connect_loop_accepted:
  "find accepting as = Some a \<Longrightarrow> fresh_fds as w \<Longrightarrow>
     connect_loop as s w = (Some (fst a), True, w\<lparr>open_fds := insert (fst a) (open_fds w)\<rparr>)"
  by (induction as s w rule: connect_loop.induct)
    (auto simp: accepting_def fresh_fds_def close_opened Let_def split: if_splits)

lemma connect_accepted:
  assumes "resolve h (snprintf 6 (show_int port)) = Some as" and "find accepting as = Some a"
    and "fresh_fds as w"
  shows "connect_to_target_server resolve h port w =
           Value (fst a, w\<lparr>open_fds := insert (fst a) (open_fds w)\<rparr>)"
  using assms by (simp add: connect_to_target_server_def connect_loop_accepted)

lemma connect_refused:
  assumes "resolve h (snprintf 6 (show_int port)) = Some as" and "list_all (\<lambda>a. \<not> accepting a) as"
    and "fresh_fds as w" and "as \<noteq> []"
  shows "connect_to_target_server resolve h port w = Value (fst (last as), w)"
  using assms by (simp add: connect_to_target_server_def connect_loop_refused)

lemma show_nat_length5: "n < 100000 \<Longrightarrow> length (show_nat n) \<le> 5"
  by (simp add: show_nat.simps [of n] show_nat.simps [of "n div 10"] show_nat.simps [of "n div 100"]
      show_nat.simps [of "n div 1000"] show_nat.simps [of "n div 10000"] div_mult2_eq [symmetric])

lemma port_str_fits: "0 \<le> n \<Longrightarrow> n \<le> 65535 \<Longrightarrow> snprintf 6 (show_int n) = show_int n"
  using show_nat_length5 [of "nat n"] by (intro snprintf_fits) (simp add: show_int_def nat_less_iff)

section \<open>Properties\<close>

definition no_null :: "string \<Rightarrow> bool" where
  "no_null s \<longleftrightarrow> list_all (\<lambda>c. c \<noteq> CHR 0x00) s"

lemma c_string_id: "no_null s \<Longrightarrow> c_string s = s"
  unfolding no_null_def c_string_def list_all_iff takeWhile_eq_all_conv by simp

text \<open>A well-formed request as the client sends it, and the answers when all goes well.\<close>

record request =
  req_method :: string
  req_host :: string
  req_port :: "int option"
  req_path :: string
  req_protocol :: string
  req_headers :: string

definition render_request :: "request \<Rightarrow> string" where
  "render_request r =
     request_text (req_method r) (absolute_url (req_host r) (req_port r) (req_path r))
       (req_protocol r) (req_headers r)"

definition valid_request :: "request \<Rightarrow> bool" where
  "valid_request r \<longleftrightarrow>
     line_fits (req_method r) (absolute_url (req_host r) (req_port r) (req_path r)) (req_protocol r) \<and>
     valid_host (req_host r) \<and> valid_port (req_port r) \<and> valid_path (req_path r) \<and>
     length (render_request r) < BUFFER_SIZE \<and> no_null (render_request r)"

definition target_port :: "request \<Rightarrow> int" where
  "target_port r = (case req_port r of None \<Rightarrow> 80 | Some n \<Rightarrow> n)"

definition forwarded_text :: "request \<Rightarrow> string" where
  "forwarded_text r = origin_form (req_method r) (req_path r) (req_protocol r) (req_headers r)"

lemma parse_render:
  "valid_request r \<Longrightarrow> parse_http_request (render_request r) = Value (Some (req_host r, target_port r))"
  by (simp add: valid_request_def render_request_def target_port_def parse_request_text)

lemma modified_render:
  "valid_request r \<Longrightarrow> modified_request (render_request r) = Value (Some (forwarded_text r))"
  by (simp add: valid_request_def render_request_def forwarded_text_def modified_request_text)

lemma render_request_not_Nil [simp]: "render_request r \<noteq> []"
  by (simp add: render_request_def request_text_def)

lemma receive_render:
  assumes "valid_request r" and "recv_client a = Some (render_request r)" and "c \<in> open_fds w"
  shows "receive_client_request a c w = Some (render_request r)"
  using assms by (simp add: receive_client_request_def recv_def valid_request_def c_string_id BUFFER_SIZE_def)

lemma target_port_str: "valid_request r \<Longrightarrow> snprintf 6 (show_int (target_port r)) = show_int (target_port r)"
  by (auto simp: valid_request_def target_port_def valid_port_def split: option.splits
      intro!: port_str_fits)

lemma forwarded_length: "valid_request r \<Longrightarrow> length (forwarded_text r) < BUFFER_SIZE"
  by (auto simp: valid_request_def forwarded_text_def origin_form_def render_request_def
      request_text_def absolute_url_def)

definition sample_request :: request where
  "sample_request =
     \<lparr>req_method = ''GET'', req_host = ''localhost'', req_port = Some 8000, req_path = ''/users'',
      req_protocol = ''HTTP/1.1'', req_headers = ''Accept: */*'' @ [CR, LF, CR, LF]\<rparr>"

lemma sample_request_valid: "valid_request sample_request"
  by (simp add: valid_request_def sample_request_def line_fits_def token_def is_space_def
      absolute_url_def valid_host_def valid_port_def valid_path_def render_request_def request_text_def
      no_null_def BUFFER_SIZE_def show_int_def show_nat.simps digit_char_def char_of_def)

text \<open>
  C9: parsing inverts printing. For a request line with an absolute http URL whose host has at most
  255 characters and whose method, URL and protocol fit their arrays, \<open>parse_http_request\<close> returns
  true with the host of the URL and its port, or 80 when the URL names none.
\<close>
theorem parse_http_request_roundtrip:
  assumes "valid_request r"
  shows "parse_http_request (render_request r) = Value (Some (req_host r, target_port r))"
  using assms by (rule parse_render)

theorem parse_http_request_roundtrip_witness:
  "valid_request sample_request \<and>
   parse_http_request (render_request sample_request) = Value (Some (''localhost'', 8000))"
  using sample_request_valid parse_http_request_roundtrip [OF sample_request_valid]
  by (simp add: sample_request_def target_port_def)

text \<open>
  A request line whose method or URL does not fit makes \<open>sscanf\<close> write past the array: with a
  method of ten characters or more, or a URL of 1024 or more (both fit in what is received), the
  behaviour of \<open>parse_http_request\<close> is undefined, so one request can corrupt the stack of the proxy.
\<close>
lemma parse_http_request_overrun:
  assumes "token m" and "token u" and "token v" and "10 \<le> length m \<or> 1024 \<le> length u"
  shows "parse_http_request (request_text m u v h) = Undefined Out_Of_Bounds"
  using assms
  by (auto simp: parse_http_request_def scan_request_line_def request_text_def scan_s_token
      store_token_def)

text \<open>
  C8: the request handler. When the client's request is well formed, the target accepts the
  connection at some address, and the sockets take the messages whole, the handler sends the target
  the request in origin form (the path in place of the URL, the headers as they are), sends the
  client the first 4095 bytes of the response, and leaves no socket of this request open.
\<close>
theorem handle_client_request_ok:
  assumes "valid_request r" and "recv_client a = Some (render_request r)" and "client \<in> open_fds w"
    and "resolve (req_host r) (show_int (target_port r)) = Some as"
    and "find accepting as = Some t" and "fresh_fds as w"
    and "recv_target a = Some response" and "4096 \<le> send_target a" and "4096 \<le> send_client a"
  shows "handle_client_request a resolve client w =
    Value (w\<lparr>open_fds := open_fds w - {client},
             sent := sent w @ [(fst t, forwarded_text r), (client, take 4095 response)]\<rparr>)"
proof -
  have t: "accepting t" "fst t \<notin> open_fds w"
    using assms(5,6) by (auto simp: find_Some_iff fresh_fds_def)
  have tc: "fst t \<noteq> client" using t assms(3) by auto
  let ?w = "w\<lparr>open_fds := insert (fst t) (open_fds w)\<rparr>"
  have conn: "connect_to_target_server resolve (req_host r) (target_port r) w = Value (fst t, ?w)"
    using assms(4-6) target_port_str [OF assms(1)] by (intro connect_accepted) simp_all
  have fwd: "forward_request a (fst t) (render_request r) ?w =
      Value (send_on (fst t) (forwarded_text r) ?w)"
    using assms(1,8) forwarded_length [OF assms(1)]
    by (simp add: forward_request_def modified_render send_def BUFFER_SIZE_def)
  have resp: "forward_response a (fst t) client (send_on (fst t) (forwarded_text r) ?w) =
      Value (send_on client (take 4095 response) (send_on (fst t) (forwarded_text r) ?w))"
    using assms(3,7,9) by (simp add: forward_response_def recv_def send_def send_on_def BUFFER_SIZE_def)
  have "handle_client_request a resolve client w = Value (close_fd client (close_fd (fst t)
      (send_on client (take 4095 response) (send_on (fst t) (forwarded_text r) ?w))))"
    using t unfolding handle_client_request_def receive_render [OF assms(1-3)]
    by (simp add: parse_render [OF assms(1)] conn fwd resp accepting_def)
  with t tc show ?thesis by (simp add: close_fd_def send_on_def)
qed

definition sample_answers :: answers where
  "sample_answers =
     \<lparr>recv_client = Some (render_request sample_request), recv_target = Some ''HTTP/1.1 200 OK'',
      send_target = 4096, send_client = 4096\<rparr>"

definition sample_resolve :: "string \<Rightarrow> string \<Rightarrow> (int \<times> int) list option" where
  "sample_resolve h p = (if h = ''localhost'' \<and> p = ''8000'' then Some [(5, -1), (6, 0)] else None)"

lemma sample_resolve_port: "sample_resolve (req_host sample_request) (show_int (target_port sample_request)) =
    Some [(5, -1), (6, 0)]"
  by (simp add: sample_resolve_def sample_request_def target_port_def show_int_def show_nat.simps
      digit_char_def char_of_def bit_Suc_0_iff)

theorem handle_client_request_ok_witness:
  "handle_client_request sample_answers sample_resolve 4 \<lparr>open_fds = {3, 4}, sent = []\<rparr> =
     Value \<lparr>open_fds = {3}, sent = [(6, forwarded_text sample_request), (4, ''HTTP/1.1 200 OK'')]\<rparr>"
  using handle_client_request_ok [OF sample_request_valid, of sample_answers 4
      "\<lparr>open_fds = {3, 4}, sent = []\<rparr>" sample_resolve "[(5, -1), (6, 0)]" "(6, 0)" "''HTTP/1.1 200 OK''"]
    sample_resolve_port
  by (simp add: sample_answers_def accepting_def fresh_fds_def insert_Diff_if)

text \<open>
  C14: a target that refuses the connection stops the whole proxy. When every address of the target
  refuses, \<open>connect_to_target_server\<close> returns the descriptor it has closed instead of -1, so the
  handler goes on with it, \<open>recv\<close> fails, and \<open>forward_response\<close> calls \<open>exit(EXIT_FAILURE)\<close>.
\<close>
theorem handle_client_request_refused:
  assumes "valid_request r" and "recv_client a = Some (render_request r)" and "client \<in> open_fds w"
    and "resolve (req_host r) (show_int (target_port r)) = Some as" and "as \<noteq> []"
    and "list_all (\<lambda>x. 0 \<le> fst x \<and> snd x \<noteq> 0) as" and "fresh_fds as w"
  shows "connect_to_target_server resolve (req_host r) (target_port r) w = Value (fst (last as), w) \<and>
    handle_client_request a resolve client w = Exit EXIT_FAILURE"
proof -
  have all: "list_all (\<lambda>x. \<not> accepting x) as"
    using assms(6) by (auto simp: list_all_iff accepting_def)
  have conn: "connect_to_target_server resolve (req_host r) (target_port r) w = Value (fst (last as), w)"
    using assms(4,5,7) all target_port_str [OF assms(1)] by (intro connect_refused) simp_all
  have l: "0 \<le> fst (last as)" "fst (last as) \<notin> open_fds w"
    using assms(5-7) by (auto simp: list_all_iff fresh_fds_def)
  have "forward_request a (fst (last as)) (render_request r) w = Value w"
    using l assms(1) by (simp add: forward_request_def modified_render send_def)
  moreover have "forward_response a (fst (last as)) client w = Exit EXIT_FAILURE"
    using l by (simp add: forward_response_def recv_def)
  ultimately have "handle_client_request a resolve client w = Exit EXIT_FAILURE"
    unfolding handle_client_request_def receive_render [OF assms(1-3)]
    using l by (simp add: parse_render [OF assms(1)] conn)
  with conn show ?thesis by simp
qed

definition refusing_resolve :: "string \<Rightarrow> string \<Rightarrow> (int \<times> int) list option" where
  "refusing_resolve h p = Some [(5, -1)]"

theorem handle_client_request_refused_witness:
  "handle_client_request sample_answers refusing_resolve 4 \<lparr>open_fds = {3, 4}, sent = []\<rparr> = Exit 1"
  using handle_client_request_refused [OF sample_request_valid, of sample_answers 4
      "\<lparr>open_fds = {3, 4}, sent = []\<rparr>" refusing_resolve "[(5, -1)]"]
  by (simp add: sample_answers_def refusing_resolve_def fresh_fds_def)

text \<open>
  The early returns. When nothing is received, when the URL is not an http URL, or when the name
  does not resolve, the handler returns with the world as it was: nothing is sent to anyone and the
  client's socket is still open, since only the last lines of the handler close it.
\<close>
lemma handle_client_request_early_return:
  assumes "receive_client_request a client w = None \<or>
    (\<exists>buffer. receive_client_request a client w = Some buffer \<and>
       (parse_http_request buffer = Value None \<or>
        (\<exists>h p. parse_http_request buffer = Value (Some (h, p)) \<and>
               resolve h (snprintf 6 (show_int p)) = None)))"
  shows "handle_client_request a resolve client w = Value w"
  using assms by (auto simp: handle_client_request_def connect_to_target_server_def)

end
