(* ===== verification/Proxy_Main.thy ===== *)
theory Proxy_Main
  imports Http_Proxy
begin

text \<open>
  The accept loop of \<open>Final/proxy_server/main.c\<close>. The queue and the thread pool come from a library
  of which the repository has only the headers, so the operation that enqueues a request is an
  argument. The system and the user act through events: a signal, a client that connects. The state
  says where the main thread is.
\<close>

datatype main_pc = Testing | Accepting | Stopped | Failed int

record 'q proxy =
  pc :: main_pc
  stop :: int
  que :: 'q
  client_cells :: "nat \<rightharpoonup> int"   \<comment> \<open>the heap cells that hold a client's descriptor\<close>
  main_fds :: "int set"

text \<open>
  An event: \<open>SIGINT\<close> is delivered, or \<open>accept\<close> returns with a descriptor (negative when it fails), with
  the cells that the two \<open>malloc\<close> of the iteration return, \<open>None\<close> for \<open>NULL\<close>.
\<close>

datatype event = Sigint | Accept int "nat option" "nat option"

definition handle_sigint :: "'q proxy \<Rightarrow> 'q proxy" where
  "handle_sigint s = s\<lparr>stop := stop s + 1\<rparr>"

text \<open>The body of the loop after \<open>accept\<close> has returned.\<close>

definition accept_body ::
    "('q \<Rightarrow> nat \<Rightarrow> 'q) \<Rightarrow> int \<Rightarrow> nat option \<Rightarrow> nat option \<Rightarrow> 'q proxy \<Rightarrow> 'q proxy" where
  "accept_body queue_enqueue newsockfd client_socket_ptr request s =
     (if newsockfd < 0 then s\<lparr>pc := Failed 1\<rparr>
      else
        let s = s\<lparr>main_fds := insert newsockfd (main_fds s)\<rparr> in
        case client_socket_ptr of
          None \<Rightarrow> s\<lparr>pc := Testing\<rparr>
        | Some p \<Rightarrow>
            let s = s\<lparr>client_cells := (client_cells s)(p \<mapsto> newsockfd)\<rparr> in
            case request of
              None \<Rightarrow> s\<lparr>client_cells := (client_cells s)(p := None), pc := Testing\<rparr>
            | Some r \<Rightarrow> s\<lparr>que := queue_enqueue (que s) p, pc := Testing\<rparr>)"

text \<open>
  The loop head tests \<open>stop\<close>; the handler was installed with \<open>SA_RESTART\<close>, so a signal that arrives
  while the main thread is blocked in \<open>accept\<close> only runs the handler.
\<close>

definition test_stop :: "'q proxy \<Rightarrow> 'q proxy" where
  "test_stop s =
     (if pc s = Testing then (if stop s = 0 then s\<lparr>pc := Accepting\<rparr> else s\<lparr>pc := Stopped\<rparr>) else s)"

fun main_event :: "('q \<Rightarrow> nat \<Rightarrow> 'q) \<Rightarrow> 'q proxy \<Rightarrow> event \<Rightarrow> 'q proxy" where
  "main_event enq s Sigint = (case pc s of
      Testing \<Rightarrow> handle_sigint s | Accepting \<Rightarrow> handle_sigint s | _ \<Rightarrow> s)"
| "main_event enq s (Accept fd p r) =
     (if pc s = Accepting then test_stop (accept_body enq fd p r s) else s)"

definition run_main :: "('q \<Rightarrow> nat \<Rightarrow> 'q) \<Rightarrow> 'q proxy \<Rightarrow> event list \<Rightarrow> 'q proxy" where
  "run_main enq s es = foldl (main_event enq) (test_stop s) es"

text \<open>
  \<open>main\<close> up to the loop: the number of threads from the arguments, then \<open>socket\<close>, \<open>setsockopt\<close>,
  \<open>bind\<close> and \<open>sigaction\<close>, each of which ends the process with status 1 when it fails.
\<close>

record setup_answers =
  socket_ret :: int
  setsockopt_ret :: int
  bind_ret :: int
  sigaction_ret :: int

definition num_threads :: "string list \<Rightarrow> int" where
  "num_threads argv = (if length argv = 2 then atoi (argv ! 1) else 2)"

definition listen_setup :: "setup_answers \<Rightarrow> int outcome" where
  "listen_setup a =
     (if socket_ret a < 0 then Exit 1
      else if setsockopt_ret a < 0 then Exit 1
      else if bind_ret a < 0 then Exit 1
      else if sigaction_ret a = -1 then Exit 1
      else Value (socket_ret a))"

definition main_start :: "setup_answers \<Rightarrow> 'q \<Rightarrow> 'q proxy outcome" where
  "main_start a queue_init =
     andthen (listen_setup a) (\<lambda>sockfd.
     Value \<lparr>pc = Testing, stop = 0, que = queue_init, client_cells = Map.empty, main_fds = {sockfd}\<rparr>)"

text \<open>
  The functions of the library, on a state of its own that holds the queue, the pool and its threads. The mutex and the condition
  variable that \<open>queue_init\<close> gets are part of it.
\<close>

record 'w request_lib =
  lib_queue_init :: "'w \<Rightarrow> 'w"
  lib_thread_pool_init :: "int \<Rightarrow> 'w \<Rightarrow> 'w"
  lib_queue_enqueue :: "'w \<Rightarrow> nat \<Rightarrow> 'w"
  lib_queue_close :: "'w \<Rightarrow> 'w"
  lib_thread_pool_destroy :: "'w \<Rightarrow> 'w"
  lib_queue_destroy :: "'w \<Rightarrow> 'w"

text \<open>After the loop: the listening socket is closed, then the queue, and pool and queue are destroyed.\<close>

definition main_shutdown :: "'w request_lib \<Rightarrow> int \<Rightarrow> 'w proxy \<Rightarrow> 'w proxy" where
  "main_shutdown lib sockfd s =
     (let s = s\<lparr>main_fds := main_fds s - {sockfd}\<rparr>;
          s = s\<lparr>que := lib_queue_close lib (que s)\<rparr>;
          s = s\<lparr>que := lib_thread_pool_destroy lib (que s)\<rparr> in
      s\<lparr>que := lib_queue_destroy lib (que s)\<rparr>)"

text \<open>
  The whole of \<open>main\<close>, until it has served the events: the queue and the pool are made before the socket, and their results
  are used unchecked. The result is the state in the loop, or after the clean-up once the loop has ended.
\<close>

definition proxy_main :: "'w request_lib \<Rightarrow> setup_answers \<Rightarrow> string list \<Rightarrow> event list \<Rightarrow> 'w \<Rightarrow> 'w proxy outcome" where
  "proxy_main lib a argv es w =
     (let w = lib_thread_pool_init lib (num_threads argv) (lib_queue_init lib w) in
      andthen (main_start a w) (\<lambda>s.
      let s = run_main (lib_queue_enqueue lib) s es in
      case pc s of
        Failed n \<Rightarrow> Exit n
      | Stopped \<Rightarrow> Value (main_shutdown lib (socket_ret a) s)
      | _ \<Rightarrow> Value s))"

section \<open>Properties of the loop\<close>

text \<open>The requests that are enqueued: the connections before the loop ends that get both cells.\<close>

fun served :: "bool \<Rightarrow> event list \<Rightarrow> (nat \<times> int) list" where
  "served stopping [] = []"
| "served stopping (Sigint # es) = served True es"
| "served stopping (Accept fd p r # es) =
     (if fd < 0 then []
      else (case (p, r) of (Some p, Some r) \<Rightarrow> [(p, fd)] | _ \<Rightarrow> []) @
           (if stopping then [] else served False es))"

lemma stopped_ignores: "pc s = Stopped \<or> pc s = Failed n \<Longrightarrow> foldl (main_event enq) s es = s"
proof (induction es)
  case (Cons e es)
  then have "main_event enq s e = s" by (cases e) auto
  with Cons show ?case by simp
qed simp

lemmas main_loop_defs = accept_body_def test_stop_def handle_sigint_def Let_def

lemma enqueues_served:
  "pc s = Accepting \<Longrightarrow> 0 \<le> stop s \<Longrightarrow>
     que (foldl (main_event enq) s es) = foldl enq (que s) (map fst (served (stop s \<noteq> 0) es))"
proof (induction es arbitrary: s)
  case (Cons e es)
  show ?case
  proof (cases e)
    case Sigint
    with Cons.prems Cons.IH [of "handle_sigint s"] show ?thesis by (simp add: handle_sigint_def)
  next
    case (Accept fd p r)
    let ?t = "main_event enq s (Accept fd p r)"
    show ?thesis
    proof (cases "fd < 0")
      case True
      then have "pc ?t = Failed 1" "que ?t = que s"
        using Cons.prems by (simp_all add: main_loop_defs)
      with True Accept show ?thesis by (simp add: stopped_ignores del: main_event.simps)
    next
      case False
      have q: "que ?t = foldl enq (que s) (case (p, r) of (Some p, Some r) \<Rightarrow> [p] | _ \<Rightarrow> [])"
        and st: "stop ?t = stop s"
        and pc: "pc ?t = (if stop s = 0 then Accepting else Stopped)"
        using False Cons.prems by (simp_all add: main_loop_defs split: option.splits)
      show ?thesis
      proof (cases "stop s = 0")
        case True
        with False Accept Cons.prems Cons.IH [of ?t] q st pc show ?thesis
          by (auto simp del: main_event.simps split: option.splits)
      next
        case s: False
        then have "foldl (main_event enq) ?t es = ?t" using pc by (simp add: stopped_ignores)
        with s False Accept q show ?thesis
          by (auto simp del: main_event.simps split: option.splits)
      qed
    qed
  qed
qed simp

text \<open>
  The requests reach the queue in the order the clients connect. The queue after any run of the
  loop is the initial one with, enqueued in order, the cell of every connection that was accepted
  until the loop ended and for which both allocations succeeded.
\<close>
lemma accept_loop_enqueues:
  "que (run_main enq \<lparr>pc = Testing, stop = 0, que = q, client_cells = c, main_fds = f\<rparr> es) =
     foldl enq q (map fst (served False es))"
  using enqueues_served [of "\<lparr>pc = Accepting, stop = 0, que = q, client_cells = c, main_fds = f\<rparr>"]
  by (simp add: run_main_def test_stop_def)

lemma foldl_sigints:
  "pc s = Accepting \<Longrightarrow>
     foldl (main_event enq) s (replicate n Sigint) = s\<lparr>stop := stop s + int n\<rparr>"
  by (induction n arbitrary: s) (simp_all add: handle_sigint_def)

definition requests_queued :: "'w request_lib \<Rightarrow> string list \<Rightarrow> event list \<Rightarrow> 'w \<Rightarrow> 'w" where
  "requests_queued lib argv es w =
     foldl (lib_queue_enqueue lib) (lib_thread_pool_init lib (num_threads argv) (lib_queue_init lib w)) (map fst (served False es))"

text \<open>When the loop has ended, and when a failed \<open>accept\<close> has ended the process.\<close>

fun loop_ended :: "bool \<Rightarrow> event list \<Rightarrow> bool" where
  "loop_ended stopping [] = False"
| "loop_ended stopping (Sigint # es) = loop_ended True es"
| "loop_ended stopping (Accept fd p r # es) \<longleftrightarrow> 0 \<le> fd \<and> (stopping \<or> loop_ended False es)"

fun accept_failed :: "bool \<Rightarrow> event list \<Rightarrow> bool" where
  "accept_failed stopping [] = False"
| "accept_failed stopping (Sigint # es) = accept_failed True es"
| "accept_failed stopping (Accept fd p r # es) \<longleftrightarrow> fd < 0 \<or> \<not> stopping \<and> accept_failed False es"

lemma pc_after:
  "pc s = Accepting \<Longrightarrow> 0 \<le> stop s \<Longrightarrow>
     pc (foldl (main_event enq) s es) =
       (if accept_failed (stop s \<noteq> 0) es then Failed 1 else if loop_ended (stop s \<noteq> 0) es then Stopped else Accepting)"
proof (induction es arbitrary: s)
  case (Cons e es)
  show ?case
  proof (cases e)
    case Sigint
    with Cons.prems Cons.IH [of "handle_sigint s"] show ?thesis by (simp add: handle_sigint_def)
  next
    case (Accept fd p r)
    let ?t = "main_event enq s (Accept fd p r)"
    have "pc ?t = (if fd < 0 then Failed 1 else if stop s = 0 then Accepting else Stopped)" "stop ?t = stop s"
      using Cons.prems by (simp_all add: main_loop_defs split: option.splits)
    with Accept Cons.prems Cons.IH [of ?t] stopped_ignores [of ?t _ enq es] show ?thesis
      by (cases "fd < 0"; cases "stop s = 0") (simp_all del: main_event.simps)
  qed
qed simp

text \<open>
  However many signals arrive while the server waits for a connection, it stays in \<open>accept\<close>; the next client that connects is
  still served, and only then does the loop end.
\<close>

lemma sigint_waits_for_client:
  assumes "0 < n" and "0 \<le> fd"
  shows "\<not> loop_ended False (replicate n Sigint)" and "loop_ended False (replicate n Sigint @ [Accept fd p r])"
proof -
  have "\<not> loop_ended b (replicate k Sigint)" "loop_ended True (replicate k Sigint @ [Accept fd p r])" for b k
    using assms(2) by (induction k arbitrary: b) simp_all
  then show "\<not> loop_ended False (replicate n Sigint)" "loop_ended False (replicate n Sigint @ [Accept fd p r])"
    using assms(1) by (cases n; simp)+
qed

lemma main_shutdown_simps [simp]:
  "que (main_shutdown lib fd s) = lib_queue_destroy lib (lib_thread_pool_destroy lib (lib_queue_close lib (que s)))"
  "pc (main_shutdown lib fd s) = pc s" "main_fds (main_shutdown lib fd s) = main_fds s - {fd}"
  by (simp_all add: main_shutdown_def)


datatype libcall = Queue_Init | Pool_Init int | Queue_Enqueue nat | Queue_Close | Pool_Destroy | Queue_Destroy

definition trace_lib :: "libcall list request_lib" where
  "trace_lib =
     \<lparr>lib_queue_init = (\<lambda>w. w @ [Queue_Init]), lib_thread_pool_init = (\<lambda>n w. w @ [Pool_Init n]),
      lib_queue_enqueue = (\<lambda>w p. w @ [Queue_Enqueue p]), lib_queue_close = (\<lambda>w. w @ [Queue_Close]),
      lib_thread_pool_destroy = (\<lambda>w. w @ [Pool_Destroy]), lib_queue_destroy = (\<lambda>w. w @ [Queue_Destroy])\<rparr>"


end
