(* ===== verification/Common.thy ===== *)
theory Common
  imports C_Strings
begin

text \<open>
  The helpers of \<open>booksrc/common.c\<close> and \<open>booksrc/common.h\<close> that the programs of the book share: error
  reporting, the restarting sleep, the list of blocked signals, subtraction of times.
\<close>

section \<open>Reporting errors\<close>

text \<open>
  \<open>handle_err\<close> prints the message to stderr, cut to what fits in a buffer of 511 bytes, then what
  \<open>errno\<close> means, and leaves the process when its first argument is not 0. When its own \<open>malloc\<close> fails
  it returns -1 with nothing printed, even for a fatal error.
\<close>

definition ERRSTRMAX :: nat where
  "ERRSTRMAX = 512"

definition handle_err :: "bool \<Rightarrow> (int \<Rightarrow> string) \<Rightarrow> int \<Rightarrow> int \<Rightarrow> string \<Rightarrow> (string \<times> int outcome)" where
  "handle_err malloc_ok strerror errno fatal msg =
     (if \<not> malloc_ok then ([], Value (-1))
      else
        let err_str = snprintf (ERRSTRMAX - 1) msg;
            why = (if errno \<noteq> 0 then ''  kernel says: '' @ strerror errno @ [LF] else []) in
        (err_str @ why, if fatal = 0 then Value 0 else Exit fatal))"

text \<open>
  The macros: \<open>WARN\<close> passes 0 and \<open>FATAL\<close> passes \<open>EXIT_FAILURE\<close>. In the theories that follow, memory for
  the message is assumed, and a fatal error is the outcome \<open>FATAL\<close>.
\<close>

definition WARN :: "bool \<Rightarrow> (int \<Rightarrow> string) \<Rightarrow> int \<Rightarrow> string \<Rightarrow> (string \<times> int outcome)" where
  "WARN malloc_ok strerror errno msg = handle_err malloc_ok strerror errno 0 msg"

abbreviation (input) FATAL :: "'a outcome" where
  "FATAL \<equiv> Exit EXIT_FAILURE"

lemma handle_err_fatal:
  "snd (handle_err True strerror errno EXIT_FAILURE msg) = FATAL"
  by (simp add: handle_err_def Let_def)

lemma handle_err_out_of_memory:
  "snd (handle_err False strerror errno EXIT_FAILURE msg) = Value (-1)"
  by (simp add: handle_err_def)

text \<open>The status that a failed \<open>assert\<close> leaves: the process dies of \<open>SIGABRT\<close>.\<close>

abbreviation (input) ABORT :: "'a outcome" where
  "ABORT \<equiv> Exit 134"

section \<open>Loops that wait and print\<close>

text \<open>
  \<open>beep\<close> writes one byte. \<open>DELAY_LOOP\<close> compares an unsigned index with its argument, so that a negative count is a huge
  one, and counts its rounds in an \<open>int\<close> as well, which overflows after \<open>INT_MAX\<close> of them. What it does between two bytes only
  takes time.
\<close>

definition beep :: "int \<Rightarrow> string" where
  "beep what = [char_of (nat (what mod 256))]"

definition loop_rounds :: "int \<Rightarrow> nat outcome" where
  "loop_rounds loop_count =
     (let n = to_unsigned 32 loop_count in if n \<le> INT_MAX then Value (nat n) else Undefined Int_Overflow)"

definition DELAY_LOOP :: "int \<Rightarrow> int \<Rightarrow> string outcome" where
  "DELAY_LOOP val loop_count = andthen (loop_rounds loop_count) (\<lambda>n. Value (concat (replicate n (beep val))))"

definition DELAY_LOOP_SILENT :: "int \<Rightarrow> unit outcome" where
  "DELAY_LOOP_SILENT loop_count = andthen (loop_rounds loop_count) (\<lambda>n. Value ())"

text \<open>\<open>VPRINT\<close> prints when the program is verbose, with the place it is called from.\<close>

definition VPRINT :: "bool \<Rightarrow> string \<Rightarrow> string \<Rightarrow> nat \<Rightarrow> string \<Rightarrow> string" where
  "VPRINT gVerbose file func line msg =
     (if gVerbose then file @ '':'' @ func @ '':'' @ show_nat line @ '': '' @ msg else [])"

lemma DELAY_LOOP_count:
  assumes "0 \<le> n" and "n \<le> INT_MAX"
  shows "\<exists>out. DELAY_LOOP val n = Value out \<and> length out = nat n"
  using assms by (simp add: DELAY_LOOP_def loop_rounds_def to_unsigned_def INT_MAX_def beep_def length_concat sum_list_replicate)

lemma DELAY_LOOP_negative: "- 2147483648 \<le> n \<Longrightarrow> n < 0 \<Longrightarrow> DELAY_LOOP val n = Undefined Int_Overflow"
proof -
  assume n: "- 2147483648 \<le> n" "n < 0"
  have "n mod 4294967296 = n + 4294967296" using n by (intro int_mod_pos_eq [of _ _ "-1"]) simp_all
  then show ?thesis using n by (simp add: DELAY_LOOP_def loop_rounds_def to_unsigned_def INT_MAX_def)
qed

section \<open>Times\<close>

record timespec =
  tv_sec :: int
  tv_nsec :: int

definition timerspecsub :: "timespec \<Rightarrow> timespec \<Rightarrow> timespec" where
  "timerspecsub a b =
     (let result = \<lparr>tv_sec = tv_sec a - tv_sec b, tv_nsec = tv_nsec a - tv_nsec b\<rparr> in
      if tv_nsec result < 0
      then result\<lparr>tv_sec := tv_sec result - 1, tv_nsec := tv_nsec result + 1000000000\<rparr>
      else result)"

definition nanos :: "timespec \<Rightarrow> int" where
  "nanos t = tv_sec t * 1000000000 + tv_nsec t"

definition normal_time :: "timespec \<Rightarrow> bool" where
  "normal_time t \<longleftrightarrow> 0 \<le> tv_nsec t \<and> tv_nsec t < 1000000000"

lemma timerspecsub_nanos: "nanos (timerspecsub a b) = nanos a - nanos b"
  by (simp add: timerspecsub_def nanos_def Let_def algebra_simps)

lemma timerspecsub_normal: "normal_time a \<Longrightarrow> normal_time b \<Longrightarrow> normal_time (timerspecsub a b)"
  by (auto simp: timerspecsub_def normal_time_def Let_def)

section \<open>The restarting sleep\<close>

text \<open>
  What a call of \<open>nanosleep\<close> does: it sleeps the whole time, it is interrupted by a signal after some
  nanoseconds and stores what remains in \<open>rem\<close>, or it fails for another reason (an invalid time).
\<close>

datatype nanosleep = Slept | Interrupted int | Failed_Sleep

definition remaining :: "timespec \<Rightarrow> int \<Rightarrow> timespec" where
  "remaining req n =
     \<lparr>tv_sec = (nanos req - n) div 1000000000, tv_nsec = (nanos req - n) mod 1000000000\<rparr>"

text \<open>
  \<open>r_sleep\<close> on the list of what its calls of \<open>nanosleep\<close> do: the return value and the total time slept.
  \<open>None\<close> says that the list has ended while it was still sleeping.
\<close>

fun r_sleep_loop :: "timespec \<Rightarrow> nanosleep list \<Rightarrow> int \<Rightarrow> (int \<times> int) option" where
  "r_sleep_loop req [] slept = None"
| "r_sleep_loop req (Slept # as) slept = Some (0, slept + nanos req)"
| "r_sleep_loop req (Interrupted n # as) slept = r_sleep_loop (remaining req n) as (slept + n)"
| "r_sleep_loop req (Failed_Sleep # as) slept = Some (-1, slept)"

definition r_sleep :: "int \<Rightarrow> int \<Rightarrow> nanosleep list \<Rightarrow> (int \<times> int) option" where
  "r_sleep sec nsec as = r_sleep_loop \<lparr>tv_sec = sec, tv_nsec = nsec\<rparr> as 0"

lemma nanos_remaining: "nanos (remaining req n) = nanos req - n"
  by (simp add: nanos_def remaining_def)

lemma r_sleep_loop_total:
  "r_sleep_loop req (map Interrupted ns @ Slept # as) slept = Some (0, slept + nanos req)"
  by (induction ns arbitrary: req slept) (simp_all add: nanos_remaining)

lemma r_sleep_loop_failed:
  "r_sleep_loop req (map Interrupted ns @ Failed_Sleep # as) slept = Some (-1, slept + sum_list ns)"
  by (induction ns arbitrary: req slept) (simp_all add: nanos_remaining)

text \<open>
  The restarting sleep sleeps the whole time. However many signals interrupt it, and whenever they
  do, \<open>r_sleep\<close> returns 0 after exactly the time it was asked for, provided a call of \<open>nanosleep\<close>
  ends up sleeping undisturbed.
\<close>
lemma r_sleep_total:
  "r_sleep sec nsec (map Interrupted ns @ Slept # as) = Some (0, sec * 1000000000 + nsec)"
  by (simp add: r_sleep_def r_sleep_loop_total nanos_def)

section \<open>The blocked signals\<close>

text \<open>\<open>show_blocked_signals\<close> on the signal mask; the result is what is printed, and the return value.\<close>

definition show_blocked_signals :: "nat set option \<Rightarrow> string \<times> int" where
  "show_blocked_signals oldset =
     (case oldset of
        None \<Rightarrow> ([], -1)
      | Some m \<Rightarrow>
          let is = filter (\<lambda>i. i \<in> m) [1..<65] in
          (''[SigBlk: '' @ concat (map (\<lambda>i. show_nat i @ '' '') is) @
           (if is = [] then ''-none-]'' else '']'') @ [LF], 0))"

lemma show_blocked_signals_none: "show_blocked_signals (Some {}) = (''[SigBlk: -none-]'' @ [LF], 0)"
  by (simp add: show_blocked_signals_def)

end
