(* ===== verification/Primes.thy ===== *)
theory Primes
  imports Common
begin

text \<open>
  The prime generators: \<open>booksrc/ch3/rlimit_primes.c\<close>, and its multithreaded versions
  \<open>solutions_to_assgn/ch16/mt_primes1.c\<close> and \<open>mt_primes2.c\<close>. Trial division runs up to half of the
  upper limit of the range, not of the candidate. The numbers are far below the limits of \<open>int\<close> and
  \<open>unsigned int\<close> for every limit that the programs let through.
\<close>

section \<open>Trial division\<close>

text \<open>The inner loop over \<open>j\<close>, which all three versions share: the final value of \<open>isprime\<close>.\<close>

function isprime_loop :: "nat \<Rightarrow> nat \<Rightarrow> nat \<Rightarrow> bool" where
  "isprime_loop i j bound =
     (if j < bound then (if i \<noteq> j \<and> i mod j = 0 then False else isprime_loop i (j + 1) bound)
      else True)"
  by pat_completeness auto
termination by (relation "measure (\<lambda>(i, j, bound). bound - j)") auto

declare isprime_loop.simps [simp del]

definition survives :: "nat \<Rightarrow> nat \<Rightarrow> bool" where
  "survives limit i = isprime_loop i 2 (limit div 2)"

text \<open>\<open>printf("%6d, ", i)\<close>.\<close>

definition prime_entry :: "nat \<Rightarrow> string" where
  "prime_entry i = pad 6 (show_nat i) @ '', ''"

section \<open>The generator of chapter 3\<close>

definition MAX_LIMIT :: int where
  "MAX_LIMIT = 10000000"

definition WRAP :: nat where
  "WRAP = 16"

definition primegen_round :: "nat \<Rightarrow> nat \<times> string \<Rightarrow> nat \<Rightarrow> nat \<times> string" where
  "primegen_round limit s i =
     (case s of (num, out) \<Rightarrow>
        if survives limit i then
          (num + 1, out @ prime_entry i @ (if (num + 1) mod WRAP = 0 then [LF] else []))
        else (num, out))"

definition simple_primegen :: "nat \<Rightarrow> string" where
  "simple_primegen limit =
     snd (foldl (primegen_round limit) (2, ''  2,  3, '') [4..<limit + 1]) @ [LF]"

text \<open>
  \<open>setup_cpu_rlimit\<close>: the limit that is requested (\<open>RLIM_INFINITY\<close> is the largest \<open>rlim_t\<close>, to which a
  negative number is converted) and whether \<open>prlimit\<close> accepts it.
\<close>

definition RLIM_INFINITY :: int where
  "RLIM_INFINITY = 2 ^ 64 - 1"

definition setup_cpu_rlimit :: "(int \<Rightarrow> int) \<Rightarrow> int \<Rightarrow> int outcome" where
  "setup_cpu_rlimit prlimit cpulimit =
     (let rlim_cur = (if cpulimit = -1 then RLIM_INFINITY else to_unsigned 64 cpulimit) in
      if prlimit rlim_cur = -1 then FATAL else Value rlim_cur)"

text \<open>\<open>main\<close>: the limit that was set, if any, and what is printed on stdout.\<close>

definition rlimit_primes_main :: "(int \<Rightarrow> int) \<Rightarrow> string list \<Rightarrow> (int option \<times> string) outcome" where
  "rlimit_primes_main prlimit argv =
     (if length argv < 3 then Exit EXIT_FAILURE
      else
        let limit = atoi (argv ! 1) in
        if limit \<le> 4 \<or> limit > MAX_LIMIT then Exit EXIT_FAILURE
        else
          let nsec = atoi (argv ! 2); nsec = (if nsec = 0 then 1 else nsec) in
          andthen (if nsec \<noteq> -2
                   then andthen (setup_cpu_rlimit prlimit nsec) (\<lambda>l. Value (Some l))
                   else Value None) (\<lambda>set_to.
          Value (set_to, simple_primegen (nat limit))))"

section \<open>The generators of chapter 16\<close>

definition MEM_SIZE :: nat where
  "MEM_SIZE = 100000"

text \<open>
  \<open>simple_primegen(start, limit, buf)\<close> appends to a zeroed buffer of \<open>MEM_SIZE\<close> bytes; the appended
  string and its null byte must fit.
\<close>

definition primegen_append :: "nat \<Rightarrow> nat \<Rightarrow> nat \<times> string \<Rightarrow> (nat \<times> string) outcome" where
  "primegen_append limit i s =
     (case s of (num_primes, buf) \<Rightarrow>
        if survives limit i then
          (let buf = buf @ prime_entry i in
           if length buf < MEM_SIZE then Value (num_primes + 1, buf) else Undefined Out_Of_Bounds)
        else Value (num_primes, buf))"

definition mt_primegen :: "nat \<Rightarrow> nat \<Rightarrow> (nat \<times> string) outcome" where
  "mt_primegen start limit =
     (if start \<le> limit then foldo (primegen_append limit) [start..<limit + 1] (0, []) else ABORT)"

section \<open>Correctness of the search\<close>

definition is_prime :: "nat \<Rightarrow> bool" where
  "is_prime p \<longleftrightarrow> 1 < p \<and> (\<forall>d. d dvd p \<longrightarrow> d = 1 \<or> d = p)"

lemma isprime_loop_iff:
  "isprime_loop i j bound \<longleftrightarrow> (\<forall>d. j \<le> d \<and> d < bound \<and> d \<noteq> i \<longrightarrow> \<not> d dvd i)"
proof (induction i j bound rule: isprime_loop.induct)
  case (1 i j bound)
  have "(\<forall>d. j \<le> d \<and> d < bound \<and> d \<noteq> i \<longrightarrow> \<not> d dvd i) \<longleftrightarrow>
      \<not> (i \<noteq> j \<and> j dvd i) \<and> (\<forall>d. j + 1 \<le> d \<and> d < bound \<and> d \<noteq> i \<longrightarrow> \<not> d dvd i)" if "j < bound"
  proof -
    have "j \<le> d \<longleftrightarrow> d = j \<or> j + 1 \<le> d" for d by auto
    then show ?thesis using that by auto
  qed
  with 1 show ?case
    by (cases "j < bound")
      (simp add: isprime_loop.simps [of i j bound] mod_eq_0_iff_dvd,
       auto simp: isprime_loop.simps [of i j bound])
qed

lemma composite_factor:
  assumes "\<not> is_prime i" and "1 < i"
  obtains d e where "i = d * e" "1 < d" "d \<le> e" "d \<noteq> i"
proof -
  obtain a b where ab: "i = a * b" "a \<noteq> 1" "a \<noteq> i"
    using assms by (auto simp: is_prime_def elim: dvdE)
  then have "1 < a" "1 < b" using assms(2)
    by (metis One_nat_def bot_nat_0.extremum_strict less_one linorder_neqE_nat mult_is_0 zero_less_one,
        metis One_nat_def assms(2) bot_nat_0.extremum_strict less_one linorder_neqE_nat mult.right_neutral mult_is_0)
  then show ?thesis using ab that [of a b] that [of b a] by (cases "a \<le> b") (auto simp: mult.commute)
qed

lemma survives_iff:
  assumes "6 \<le> limit" and "i \<le> limit"
  shows "survives limit i \<longleftrightarrow> i = 1 \<or> is_prime i"
proof (cases "i = 1 \<or> is_prime i")
  case True
  then have "\<not> d dvd i" if "2 \<le> d" "d \<noteq> i" for d
    using that by (auto simp: is_prime_def)
  then show ?thesis using True by (auto simp: survives_def isprime_loop_iff)
next
  case False
  have "\<exists>d. 2 \<le> d \<and> d < limit div 2 \<and> d \<noteq> i \<and> d dvd i"
  proof (cases "i = 0")
    case True
    then show ?thesis using assms(1) by (intro exI [of _ 2]) simp
  next
    case i: False
    then obtain d e where de: "i = d * e" "1 < d" "d \<le> e" "d \<noteq> i"
      using False composite_factor [of i] by auto
    have "d * d \<le> limit" using de assms(2) by (metis le_trans mult_le_mono2)
    moreover have "2 * d + 2 \<le> d * d" if "3 \<le> d" using that mult_le_mono1 [OF that, of d] by linarith
    ultimately have "2 * d + 2 \<le> limit" using assms(1) de(2) by (cases "d = 2") auto
    then show ?thesis using de by (intro exI [of _ d]) auto
  qed
  then show ?thesis using False by (auto simp: survives_def isprime_loop_iff)
qed

lemma survives_filter:
  "6 \<le> limit \<Longrightarrow> filter (survives limit) [a..<limit + 1] = filter (\<lambda>i. i = 1 \<or> is_prime i) [a..<limit + 1]"
  by (intro filter_cong) (auto simp: survives_iff)

text \<open>The text for a list of primes, \<open>num\<close> of them printed before.\<close>

fun layout :: "nat \<Rightarrow> nat list \<Rightarrow> string" where
  "layout num [] = []"
| "layout num (p # ps) =
     prime_entry p @ (if (num + 1) mod WRAP = 0 then [LF] else []) @ layout (num + 1) ps"

lemma primegen_rounds:
  "snd (foldl (primegen_round limit) (num, out) is) = out @ layout num (filter (survives limit) is)"
  by (induction "is" arbitrary: num out) (simp_all add: primegen_round_def)

lemma simple_primegen_layout:
  "simple_primegen limit = ''  2,  3, '' @ layout 2 (filter (survives limit) [4..<limit + 1]) @ [LF]"
  by (simp add: simple_primegen_def primegen_rounds)

lemma simple_primegen_correct:
  assumes "6 \<le> limit"
  shows "simple_primegen limit = ''  2,  3, '' @ layout 2 (filter is_prime [4..<limit + 1]) @ [LF]"
proof -
  have "filter (\<lambda>i. i = 1 \<or> is_prime i) [4..<limit + 1] = filter is_prime [4..<limit + 1]"
    by (intro filter_cong) auto
  then show ?thesis using survives_filter [OF assms, of 4] by (simp add: simple_primegen_layout)
qed


definition prlimit_ok :: "int \<Rightarrow> int" where
  "prlimit_ok l = 0"


text \<open>With the limit 5, which \<open>main\<close> lets through, the division loop is empty and 4 is printed.\<close>

lemma simple_primegen_5: "simple_primegen 5 = ''  2,  3, '' @ layout 2 [4, 5] @ [LF]"
proof -
  have "filter (survives 5) [4..<5 + 1] = [4, 5]"
    by (simp add: survives_def isprime_loop.simps upt_rec)
  then show ?thesis by (simp add: simple_primegen_layout)
qed

section \<open>Correctness and space of the multithreaded version\<close>

lemma show_nat_length6: "n < 1000000 \<Longrightarrow> length (show_nat n) \<le> 6"
  by (simp add: show_nat.simps [of n] show_nat.simps [of "n div 10"] show_nat.simps [of "n div 100"]
      show_nat.simps [of "n div 1000"] show_nat.simps [of "n div 10000"] show_nat.simps [of "n div 100000"]
      div_mult2_eq [symmetric])

lemma prime_entry_length: "n < 1000000 \<Longrightarrow> length (prime_entry n) = 8"
  using show_nat_length6 [of n] by (simp add: prime_entry_def pad_def)

lemma entries_length:
  "\<forall>i \<in> set is. i < 1000000 \<Longrightarrow> length (concat (map prime_entry is)) = 8 * length is"
  by (induction "is") (auto simp: prime_entry_length)

lemma primegen_appends:
  assumes "length buf < MEM_SIZE" and "\<forall>i \<in> set is. i < 1000000"
  shows "foldo (primegen_append limit) is (num, buf) =
    (let ps = filter (survives limit) is in
     if length buf + 8 * length ps < MEM_SIZE
     then Value (num + length ps, buf @ concat (map prime_entry ps)) else Undefined Out_Of_Bounds)"
  using assms
proof (induction "is" arbitrary: num buf)
  case (Cons i "is")
  show ?case
  proof (cases "survives limit i \<and> length buf + 8 < MEM_SIZE")
    case True
    then show ?thesis using Cons.prems Cons.IH [of "buf @ prime_entry i" "num + 1"]
      by (simp add: primegen_append_def prime_entry_length Let_def)
  next
    case False
    then show ?thesis using Cons by (auto simp: primegen_append_def prime_entry_length Let_def)
  qed
qed (simp add: Let_def)

lemma mt_primegen_eq:
  assumes "start \<le> limit" and "limit < 1000000"
  shows "mt_primegen start limit =
    (let ps = filter (survives limit) [start..<limit + 1] in
     if 8 * length ps < MEM_SIZE then Value (length ps, concat (map prime_entry ps))
     else Undefined Out_Of_Bounds)"
  using assms primegen_appends [of "[]" "[start..<limit + 1]" limit 0]
  by (simp add: mt_primegen_def MEM_SIZE_def Let_def del: upt_Suc)

text \<open>
  C16: the generator of the multithreaded version. On a range that ends between 6 and a million the
  function fills its buffer with the primes of the range, and with 1 when the range starts at 0 or 1,
  and returns their number, exactly when there are at most 12,499 of them, since each takes 8 bytes of
  the 100,000; with more, \<open>strncat\<close> writes past the end of the buffer.
\<close>
theorem mt_primegen_spec:
  assumes "start \<le> limit" and "6 \<le> limit" and "limit < 1000000"
    and "ps = filter (\<lambda>i. i = 1 \<or> is_prime i) [start..<limit + 1]"
  shows "mt_primegen start limit =
    (if length ps \<le> 12499 then Value (length ps, concat (map prime_entry ps))
     else Undefined Out_Of_Bounds)"
proof -
  have "mt_primegen start limit =
      (if 8 * length ps < MEM_SIZE then Value (length ps, concat (map prime_entry ps))
       else Undefined Out_Of_Bounds)"
    unfolding mt_primegen_eq [OF assms(1,3)] survives_filter [OF assms(2)] assms(4) Let_def ..
  then show ?thesis by (simp add: MEM_SIZE_def)
qed

theorem mt_primegen_spec_witness:
  "mt_primegen 1 6 =
     (let ps = filter (\<lambda>i. i = 1 \<or> is_prime i) [1..<6 + 1] in
      if length ps \<le> 12499 then Value (length ps, concat (map prime_entry ps))
      else Undefined Out_Of_Bounds)"
  unfolding Let_def by (rule mt_primegen_spec) simp_all

section \<open>The two multithreaded programs\<close>

text \<open>
  The structure that is passed to a worker. The blocks of the heap are named by what they hold: the
  structure of a thread, and its buffer.
\<close>

record stToThread =
  thrdnum :: nat
  start_num :: nat
  end_num :: nat
  iobuf :: string

datatype block = Struct nat | Iobuf nat

definition NTHREADS :: nat where
  "NTHREADS = 3"

definition prime_range :: "(nat \<times> nat) list" where
  "prime_range = [(1, 5000), (5001, 10000), (20000, 20101)]"

text \<open>
  The creation loop: the answers of the two \<open>calloc\<close> and of \<open>pthread_create\<close> in each round (the programs
  leave with \<open>FATAL\<close> when one of them fails).
\<close>

record create_answers =
  calloc_struct :: bool
  calloc_iobuf :: bool
  create_ret :: int

definition create_round ::
    "(nat \<Rightarrow> create_answers) \<Rightarrow> nat \<Rightarrow> stToThread list \<times> block list \<Rightarrow>
     (stToThread list \<times> block list) outcome" where
  "create_round ans i s =
     (case s of (ts, live) \<Rightarrow>
        if \<not> calloc_struct (ans i) then FATAL
        else if \<not> calloc_iobuf (ans i) then FATAL
        else if create_ret (ans i) \<noteq> 0 then FATAL
        else Value (ts @ [\<lparr>thrdnum = i, start_num = fst (prime_range ! i),
                           end_num = snd (prime_range ! i), iobuf = []\<rparr>],
                    live @ [Struct i, Iobuf i]))"

definition create_threads ::
    "(nat \<Rightarrow> create_answers) \<Rightarrow> (stToThread list \<times> block list) outcome" where
  "create_threads ans = foldo (create_round ans) [0..<NTHREADS] ([], [])"

text \<open>
  A worker fills its own buffer and prints how many primes it found. Workers share nothing, so running them one after the other gives what any schedule gives.
\<close>

definition worker :: "stToThread \<Rightarrow> (string \<times> stToThread) outcome" where
  "worker t =
     andthen (mt_primegen (start_num t) (end_num t)) (\<lambda>(numprimes, buf).
     Value ('' Worker #'' @ pad 2 (show_nat (thrdnum t)) @ '' : Generate primes from '' @
              pad 9 (show_nat (start_num t)) @ '' to '' @ pad 9 (show_nat (end_num t)) @ '' : '' @
              pad 6 (show_nat numprimes) @ '' primes generated'' @ [LF],
            t\<lparr>iobuf := buf\<rparr>))"

fun run_workers ::
    "stToThread list \<Rightarrow> (string list \<times> stToThread list) outcome" where
  "run_workers [] = Value ([], [])"
| "run_workers (t # ts) =
     andthen (worker t) (\<lambda>(line, t).
     andthen (run_workers ts) (\<lambda>(lines, ts).
     Value (line # lines, t # ts)))"

text \<open>The loop that frees what belongs to the threads in a list.\<close>

definition free_block :: "block \<Rightarrow> block list \<Rightarrow> block list outcome" where
  "free_block b live = (if b \<in> set live then Value (remove1 b live) else Undefined Double_Free)"

definition free_thread :: "nat \<Rightarrow> block list \<Rightarrow> block list outcome" where
  "free_thread i live = andthen (free_block (Iobuf i) live) (free_block (Struct i))"

text \<open>\<open>main\<close> of \<open>mt_primes1.c\<close>: the lines that the workers print, and the blocks still allocated.\<close>

definition mt_primes1_main ::
    "(nat \<Rightarrow> create_answers) \<Rightarrow> (string list \<times> block list) outcome" where
  "mt_primes1_main ans =
     andthen (create_threads ans) (\<lambda>(ts, live).
     andthen (run_workers ts) (\<lambda>(lines, ts).
     andthen (foldo free_thread [0..<NTHREADS] live) (\<lambda>live.
     Value (lines, live))))"

text \<open>
  \<open>mt_primes2.c\<close> adds a data file and a cancellation. \<open>gCanceledThread\<close> starts at 0.
  \<open>write_the_primes\<close> writes the buffers one after the other into the file, which was opened without
  truncation: what was in the file stays beyond the end of what is written. The answers of \<open>write\<close>
  that are negative leave a warning only; the others are taken to write everything.
\<close>

definition write_at_start :: "string \<Rightarrow> string \<Rightarrow> string" where
  "write_at_start data old = data @ drop (length data) old"

definition write_the_primes :: "(nat \<Rightarrow> int) \<Rightarrow> nat \<Rightarrow> stToThread list \<Rightarrow> string" where
  "write_the_primes write_ret gCanceledThread ts =
     concat (map (\<lambda>i. if i = gCanceledThread then []
                      else if write_ret i < 0 then [] else iobuf (ts ! i)) [0..<NTHREADS])"

definition cleanup_handler :: "nat \<Rightarrow> block list \<Rightarrow> (nat \<times> block list) outcome" where
  "cleanup_handler i live =
     andthen (free_thread i live) (\<lambda>live. Value (i, live))"

text \<open>
  \<open>main\<close> of \<open>mt_primes2.c\<close>. \<open>in_time\<close> says whether the cancellation request reaches the third worker
  before it has ended; \<open>open_ret\<close> is what \<open>open\<close> returns and \<open>old\<close> what is in the file.
\<close>

definition mt_primes2_main ::
    "(nat \<Rightarrow> create_answers) \<Rightarrow> int \<Rightarrow> int \<Rightarrow> (nat \<Rightarrow> int) \<Rightarrow>
     bool \<Rightarrow> string list \<Rightarrow> string \<Rightarrow> (string \<times> block list) outcome" where
  "mt_primes2_main ans open_ret cancel_ret write_ret in_time argv old =
     (if open_ret < 0 then FATAL
      else
        andthen (create_threads ans) (\<lambda>(ts, live).
        let cancel = (2 \<le> length argv \<and> atoi (argv ! 1) = 1) in
        if cancel \<and> cancel_ret \<noteq> 0 then FATAL
        else
          andthen (if cancel \<and> in_time then
                     andthen (cleanup_handler 2 live) (\<lambda>(g, live).
                     andthen (run_workers (take 2 ts)) (\<lambda>(_, done).
                     Value (g, live, done @ drop 2 ts)))
                   else
                     andthen (run_workers ts) (\<lambda>(_, done). Value (0, live, done)))
            (\<lambda>(gCanceledThread, live, ts).
          let file = write_at_start (write_the_primes write_ret gCanceledThread ts) old in
          andthen (foldo free_thread (filter (\<lambda>i. i \<noteq> gCanceledThread) [0..<NTHREADS]) live) (\<lambda>live.
          Value (file, live)))))"

definition answers_ok :: "(nat \<Rightarrow> create_answers) \<Rightarrow> bool" where
  "answers_ok ans \<longleftrightarrow>
     list_all (\<lambda>i. calloc_struct (ans i) \<and> calloc_iobuf (ans i) \<and> create_ret (ans i) = 0) [0..<NTHREADS]"

definition new_thread :: "nat \<Rightarrow> string \<Rightarrow> stToThread" where
  "new_thread i buf =
     \<lparr>thrdnum = i, start_num = fst (prime_range ! i), end_num = snd (prime_range ! i), iobuf = buf\<rparr>"

lemma threads_012: "[0..<NTHREADS] = [0, 1, 2]"
  by (simp add: NTHREADS_def upt_rec)

lemma create_threads_ok:
  "answers_ok ans \<Longrightarrow> create_threads ans =
     Value ([new_thread 0 [], new_thread 1 [], new_thread 2 []],
            [Struct 0, Iobuf 0, Struct 1, Iobuf 1, Struct 2, Iobuf 2])"
  by (simp add: create_threads_def answers_ok_def threads_012 create_round_def new_thread_def)

text \<open>What each worker of the two programs puts into its buffer.\<close>

definition range_primes :: "nat \<Rightarrow> nat list" where
  "range_primes i =
     filter (\<lambda>p. p = 1 \<or> is_prime p) [fst (prime_range ! i)..<snd (prime_range ! i) + 1]"

definition range_text :: "nat \<Rightarrow> string" where
  "range_text i = concat (map prime_entry (range_primes i))"

lemma range_bounds:
  assumes "i < NTHREADS"
  shows "fst (prime_range ! i) \<le> snd (prime_range ! i)" "6 \<le> snd (prime_range ! i)"
    "snd (prime_range ! i) < 1000000" "snd (prime_range ! i) + 1 - fst (prime_range ! i) \<le> 5000"
proof -
  have "i = 0 \<or> i = 1 \<or> i = 2" using assms by (auto simp: NTHREADS_def)
  then show "fst (prime_range ! i) \<le> snd (prime_range ! i)" "6 \<le> snd (prime_range ! i)"
    "snd (prime_range ! i) < 1000000" "snd (prime_range ! i) + 1 - fst (prime_range ! i) \<le> 5000"
    by (auto simp: prime_range_def)
qed

lemma mt_primegen_range:
  assumes "i < NTHREADS"
  shows "mt_primegen (fst (prime_range ! i)) (snd (prime_range ! i)) =
    Value (length (range_primes i), range_text i)"
proof -
  have "length (range_primes i) \<le> snd (prime_range ! i) + 1 - fst (prime_range ! i)"
    unfolding range_primes_def by (metis length_filter_le length_upt)
  also have "\<dots> \<le> 5000" using range_bounds(4) [OF assms] .
  finally have "8 * length (range_primes i) < MEM_SIZE" by (simp add: MEM_SIZE_def)
  then show ?thesis
    unfolding mt_primegen_eq [OF range_bounds(1,3) [OF assms]] survives_filter [OF range_bounds(2) [OF assms]]
      range_primes_def [symmetric] range_text_def Let_def by (simp only: if_True)
qed

lemma worker_buffer:
  "i < NTHREADS \<Longrightarrow> \<exists>line. worker (new_thread i []) = Value (line, new_thread i (range_text i))"
  by (simp add: worker_def new_thread_def mt_primegen_range)

lemma run_workers_ok:
  assumes "list_all (\<lambda>i. i < NTHREADS) is"
  shows "\<exists>lines. run_workers (map (\<lambda>i. new_thread i []) is) =
    Value (lines, map (\<lambda>i. new_thread i (range_text i)) is)"
  using assms
proof (induction "is")
  case (Cons i "is")
  then show ?case using worker_buffer [of i] by auto
qed simp

text \<open>
  The data file of the second multithreaded program. With memory and threads available and when
  every write succeeds: if the third worker is cancelled in time, the file receives the primes of the
  first two workers and all memory is freed, as intended; if nothing is cancelled, the number 0 in
  \<open>gCanceledThread\<close> stands for the first worker, so the file receives only the primes of the second
  and third workers and the two blocks of the first are never freed.
\<close>
lemma mt_primes2_file:
  assumes "answers_ok ans" and "0 \<le> fd" and "\<forall>i. 0 \<le> write_ret i"
  shows "mt_primes2_main ans fd 0 write_ret True [''mt_primes2'', ''1''] old =
      Value (write_at_start (range_text 0 @ range_text 1) old, []) \<and>
    mt_primes2_main ans fd 0 write_ret in_time [''mt_primes2''] old =
      Value (write_at_start (range_text 1 @ range_text 2) old, [Struct 0, Iobuf 0])"
proof -
  have atoi1: "atoi ''1'' = 1" by code_simp
  obtain l1 where r2: "run_workers [new_thread 0 [], new_thread 1 []] =
      Value (l1, [new_thread 0 (range_text 0), new_thread 1 (range_text 1)])"
    using run_workers_ok [of "[0, 1]"] by (auto simp: NTHREADS_def)
  obtain l2 where r3: "run_workers [new_thread 0 [], new_thread 1 [], new_thread 2 []] =
      Value (l2, [new_thread 0 (range_text 0), new_thread 1 (range_text 1), new_thread 2 (range_text 2)])"
    using run_workers_ok [of "[0, 1, 2]"] by (auto simp: NTHREADS_def)
  have w: "\<not> write_ret i < 0" for i using assms(3) by (simp add: not_less)
  show ?thesis
    using assms(2) r2 r3 w
    by (simp add: mt_primes2_main_def create_threads_ok [OF assms(1)] atoi1 cleanup_handler_def
        free_thread_def free_block_def threads_012 write_the_primes_def new_thread_def Let_def
        del: run_workers.simps)
qed

definition calm_answers :: "nat \<Rightarrow> create_answers" where
  "calm_answers i = \<lparr>calloc_struct = True, calloc_iobuf = True, create_ret = 0\<rparr>"

text \<open>The first program frees everything.\<close>

lemma mt_primes1_frees:
  assumes "answers_ok ans"
  shows "\<exists>lines. length lines = 3 \<and> mt_primes1_main ans = Value (lines, [])"
proof -
  obtain ls where r: "run_workers [new_thread 0 [], new_thread 1 [], new_thread 2 []] =
      Value (ls, [new_thread 0 (range_text 0), new_thread 1 (range_text 1), new_thread 2 (range_text 2)])"
    using run_workers_ok [of "[0, 1, 2]"] by (auto simp: NTHREADS_def)
  have "length ls = 3"
    using r by (auto simp: andthen_eq_Value numeral_3_eq_3 split: prod.splits)
  with r show ?thesis
    by (simp add: mt_primes1_main_def create_threads_ok [OF assms] free_thread_def free_block_def
        threads_012 del: run_workers.simps)
qed

end
