(* ===== verification/File_Copy.thy ===== *)
theory File_Copy
  imports Common
begin

text \<open>
  The file copying programs: \<open>booksrc/A_fileio/simpcp1.c\<close>, \<open>simpcp2.c\<close> and the multithreaded
  \<open>solutions_to_assgn/ch18/mt_copy.c\<close>. A file is the list of its bytes. What the system does with each
  call is given by a function of the number of the call: \<open>None\<close> when it fails, \<open>Some k\<close> when it moves
  at most \<open>k + 1\<close> bytes, so that short reads and writes happen, and a call that can move something does.
\<close>

section \<open>Files and calls\<close>

type_synonym answers = "nat \<Rightarrow> nat option"

text \<open>Writing at an offset: a gap before it is filled with zeros, the rest of the file stays.\<close>

definition write_at :: "nat \<Rightarrow> string \<Rightarrow> string \<Rightarrow> string" where
  "write_at off data f =
     (if data = [] then f
      else take off (f @ replicate (off - length f) (CHR 0x00)) @ data @ drop (off + length data) f)"

definition sys_read :: "answers \<Rightarrow> nat \<Rightarrow> nat \<Rightarrow> string \<Rightarrow> nat \<Rightarrow> string option" where
  "sys_read rd call n src off = map_option (\<lambda>k. take (min n (k + 1)) (drop off src)) (rd call)"

definition sys_write :: "answers \<Rightarrow> nat \<Rightarrow> string \<Rightarrow> string option" where
  "sys_write wr call data = map_option (\<lambda>k. take (k + 1) data) (wr call)"

record copying =
  roff :: nat       \<comment> \<open>offset of the source descriptor\<close>
  dest :: string    \<comment> \<open>the destination file\<close>
  woff :: nat       \<comment> \<open>offset of the destination descriptor\<close>
  reads :: nat      \<comment> \<open>calls made so far\<close>
  writes :: nat

definition put :: "string \<Rightarrow> copying \<Rightarrow> copying" where
  "put data s = s\<lparr>dest := write_at (woff s) data (dest s), woff := woff s + length data\<rparr>"

section \<open>The first copying program\<close>

text \<open>
  The loop of \<open>docopy\<close> with a buffer of \<open>n\<close> bytes: one \<open>read\<close>, one \<open>write\<close> of what was read. The result
  of \<open>write\<close> is tested for failure only.
\<close>

function copy_loop :: "answers \<Rightarrow> answers \<Rightarrow> nat \<Rightarrow> string \<Rightarrow> copying \<Rightarrow> int \<times> copying" where
  "copy_loop rd wr n src s =
     (case sys_read rd (reads s) n src (roff s) of
        None \<Rightarrow> (-3, s)
      | Some data \<Rightarrow>
          if data = [] then (0, s)
          else
            let s = s\<lparr>roff := roff s + length data, reads := reads s + 1\<rparr> in
            case sys_write wr (writes s) data of
              None \<Rightarrow> (-4, s)
            | Some d \<Rightarrow> copy_loop rd wr n src (put d (s\<lparr>writes := writes s + 1\<rparr>)))"
  by pat_completeness auto
termination
  by (relation "measure (\<lambda>(rd, wr, n, src, s). length src - roff s)")
    (auto simp: sys_read_def put_def min_def split: if_splits)

declare copy_loop.simps [simp del]

text \<open>\<open>stat\<close> gives the block size, \<open>None\<close> when it fails; \<open>malloc_ok\<close> says whether there is memory.\<close>

definition docopy1 :: "answers \<Rightarrow> answers \<Rightarrow> nat option \<Rightarrow> bool \<Rightarrow> string \<Rightarrow> copying \<Rightarrow> int \<times> copying" where
  "docopy1 rd wr stat malloc_ok src s =
     (case stat of
        None \<Rightarrow> (-1, s)
      | Some st_blksize \<Rightarrow>
          if \<not> malloc_ok then (-2, s) else copy_loop rd wr st_blksize src s)"

text \<open>
  \<open>main\<close>: the files are a map from names to contents. The destination is created when it does not
  exist, and opened at offset 0 without being truncated. \<open>can_open\<close> says which names may be opened.
  The result is the status of the process and the files.
\<close>

type_synonym files = "string \<rightharpoonup> string"

definition start_copy :: "string \<Rightarrow> copying" where
  "start_copy old = \<lparr>roff = 0, dest = old, woff = 0, reads = 0, writes = 0\<rparr>"

definition open_dest :: "string \<Rightarrow> files \<Rightarrow> string" where
  "open_dest name fs = (case fs name of None \<Rightarrow> [] | Some old \<Rightarrow> old)"

definition simpcp1_main ::
    "answers \<Rightarrow> answers \<Rightarrow> nat option \<Rightarrow> bool \<Rightarrow> (string \<Rightarrow> bool) \<Rightarrow> string list \<Rightarrow> files \<Rightarrow> int \<times> files" where
  "simpcp1_main rd wr stat malloc_ok can_open argv fs =
     (if length argv < 3 then (EXIT_FAILURE, fs)
      else
        case fs (argv ! 1) of
          None \<Rightarrow> (EXIT_FAILURE, fs)
        | Some src \<Rightarrow>
            if \<not> can_open (argv ! 1) then (EXIT_FAILURE, fs)
            else if \<not> can_open (argv ! 2) then (EXIT_FAILURE, fs)
            else
              case docopy1 rd wr stat malloc_ok src (start_copy (open_dest (argv ! 2) fs)) of
                (ret, s) \<Rightarrow>
                  (if ret < 0 then EXIT_FAILURE else EXIT_SUCCESS, fs(argv ! 2 \<mapsto> dest s)))"

section \<open>The second copying program\<close>

text \<open>
  \<open>fd_read\<close> repeats \<open>read(fd, dbuf, n)\<close> until \<open>n\<close> bytes or more have been read in total; every call
  stores at the start of the buffer. \<open>buf\<close> is what the \<open>n\<close> bytes of the buffer hold.
\<close>

function fd_read :: "answers \<Rightarrow> nat \<Rightarrow> string \<Rightarrow> nat \<Rightarrow> string \<Rightarrow> copying \<Rightarrow> int \<times> string \<times> copying" where
  "fd_read rd n src tr buf s =
     (case sys_read rd (reads s) n src (roff s) of
        None \<Rightarrow> (-1, buf, s\<lparr>reads := reads s + 1\<rparr>)
      | Some data \<Rightarrow>
          let s = s\<lparr>roff := roff s + length data, reads := reads s + 1\<rparr> in
          if data = [] then (int tr, buf, s)
          else
            let tr = tr + length data; buf = data @ drop (length data) buf in
            if tr < n then fd_read rd n src tr buf s else (int tr, buf, s))"
  by pat_completeness auto
termination
  by (relation "measure (\<lambda>(rd, n, src, tr, buf, s). length src - roff s)")
    (auto simp: sys_read_def min_def split: if_splits)

declare fd_read.simps [simp del]

text \<open>
  \<open>fd_write\<close> repeats \<open>write(fd, sbuf, n)\<close> until \<open>n\<close> bytes or more have been written in total; every call
  starts from the beginning of the buffer. \<open>n\<close> may not exceed the size of the buffer.
\<close>

function fd_write :: "answers \<Rightarrow> string \<Rightarrow> nat \<Rightarrow> nat \<Rightarrow> copying \<Rightarrow> (int \<times> copying) outcome" where
  "fd_write wr buf n tw s =
     (if length buf < n then Undefined Out_Of_Bounds
      else
        case sys_write wr (writes s) (take n buf) of
          None \<Rightarrow> Value (-1, s\<lparr>writes := writes s + 1\<rparr>)
        | Some d \<Rightarrow>
            let s = put d (s\<lparr>writes := writes s + 1\<rparr>); tw = tw + length d in
            if tw < n then fd_write wr buf n tw s else Value (int tw, s))"
  by pat_completeness auto
termination
  by (relation "measure (\<lambda>(wr, buf, n, tw, s). n - tw)") (auto simp: sys_write_def)

declare fd_write.simps [simp del]

text \<open>
  The loop of \<open>docopy\<close>, with \<open>fuel\<close> for its rounds: every round reads at least one byte, so one more
  round than the source has bytes is enough, and \<open>docopy2\<close> gives it that.
\<close>

fun copy_loop2 ::
    "nat \<Rightarrow> answers \<Rightarrow> answers \<Rightarrow> nat \<Rightarrow> string \<Rightarrow> string \<Rightarrow> copying \<Rightarrow> (int \<times> copying) outcome option" where
  "copy_loop2 0 rd wr n src buf s = None"
| "copy_loop2 (Suc fuel) rd wr n src buf s =
     (case fd_read rd n src 0 buf s of
        (nr, buf, s) \<Rightarrow>
          if nr < 0 then Some (Value (-3, s))
          else if nr = 0 then Some (Value (0, s))
          else
            case fd_write wr buf (nat nr) 0 s of
              Value (nw, s) \<Rightarrow>
                if nw < 0 then Some (Value (-4, s)) else copy_loop2 fuel rd wr n src buf s
            | Exit e \<Rightarrow> Some (Exit e)
            | Undefined u \<Rightarrow> Some (Undefined u))"

definition docopy2 ::
    "answers \<Rightarrow> answers \<Rightarrow> nat option \<Rightarrow> (nat \<Rightarrow> string option) \<Rightarrow> string \<Rightarrow> copying \<Rightarrow>
     (int \<times> copying) outcome option" where
  "docopy2 rd wr stat malloc src s =
     (case stat of
        None \<Rightarrow> Some (Value (-1, s))
      | Some st_blksize \<Rightarrow>
          (case malloc st_blksize of
             None \<Rightarrow> Some (Value (-2, s))
           | Some buf \<Rightarrow> copy_loop2 (Suc (length src)) rd wr st_blksize src buf s))"

definition simpcp2_main ::
    "answers \<Rightarrow> answers \<Rightarrow> nat option \<Rightarrow> (nat \<Rightarrow> string option) \<Rightarrow> (string \<Rightarrow> bool) \<Rightarrow> string list \<Rightarrow> files \<Rightarrow>
     (int \<times> files) outcome option" where
  "simpcp2_main rd wr stat malloc can_open argv fs =
     (if length argv < 3 then Some (Value (EXIT_FAILURE, fs))
      else
        case fs (argv ! 1) of
          None \<Rightarrow> Some (Value (EXIT_FAILURE, fs))
        | Some src \<Rightarrow>
            if \<not> can_open (argv ! 1) then Some (Value (EXIT_FAILURE, fs))
            else if stat = None then Some (Value (EXIT_FAILURE, fs))
            else if \<not> can_open (argv ! 2) then Some (Value (EXIT_FAILURE, fs))
            else
              map_option (\<lambda>r. andthen r (\<lambda>(ret, s).
                  Value (if ret < 0 then EXIT_FAILURE else EXIT_SUCCESS, fs(argv ! 2 \<mapsto> dest s))))
                (docopy2 rd wr stat malloc src (start_copy (open_dest (argv ! 2) fs))))"

section \<open>Copying is right when writes are not short\<close>

definition no_errors :: "answers \<Rightarrow> bool" where
  "no_errors a \<longleftrightarrow> (\<forall>c. a c \<noteq> None)"

definition whole :: "nat \<Rightarrow> answers \<Rightarrow> bool" where
  "whole n a \<longleftrightarrow> (\<forall>c. \<exists>k. a c = Some k \<and> n \<le> k + 1)"

lemma write_at_write_at: "write_at (length a) b (write_at 0 a old) = write_at 0 (a @ b) old"
  by (auto simp: write_at_def add.commute)

lemma sys_write_whole: "whole n wr \<Longrightarrow> length d \<le> n \<Longrightarrow> sys_write wr c d = Some d"
proof -
  assume "whole n wr" "length d \<le> n"
  moreover from this obtain k where "wr c = Some k" "n \<le> k + 1" unfolding whole_def by blast
  ultimately show ?thesis by (simp add: sys_write_def)
qed

lemma sys_read_length: "sys_read rd c n src off = Some data \<Longrightarrow> length data \<le> n"
  by (auto simp: sys_read_def)

lemma sys_read_prefix:
  "sys_read rd c n src off = Some data \<Longrightarrow> data = take (length data) (drop off src)"
  by (auto simp: sys_read_def min_def)

text \<open>What has been copied so far is what has been read.\<close>

definition copied :: "string \<Rightarrow> string \<Rightarrow> copying \<Rightarrow> bool" where
  "copied src old s \<longleftrightarrow>
     roff s \<le> length src \<and> woff s = roff s \<and> dest s = write_at 0 (take (roff s) src) old"

lemma copied_start: "copied src old (start_copy old)"
  by (simp add: copied_def start_copy_def write_at_def)

lemma copied_put:
  assumes "copied src old s" and "d = take (length d) (drop (roff s) src)"
    and "roff t = roff s + length d" and "woff t = woff s" and "dest t = dest s"
  shows "copied src old (put d t)"
proof -
  have "length d \<le> length src - roff s" using arg_cong [OF assms(2), of length] by simp
  then have "roff s + length d \<le> length src" using assms(1) unfolding copied_def by linarith
  moreover have "take (roff s + length d) src = take (roff s) src @ d"
    using assms(2) by (simp add: take_add)
  ultimately show ?thesis
    using assms write_at_write_at [of "take (roff s) src" d old]
    by (simp add: copied_def put_def min_absorb2)
qed

lemma copied_all: "copied src old s \<Longrightarrow> roff s = length src \<Longrightarrow> dest s = write_at 0 src old"
  by (simp add: copied_def)

lemma copy_loop_correct:
  assumes "no_errors rd" and "whole n wr" and "0 < n" and "copied src old s"
  shows "\<exists>s'. copy_loop rd wr n src s = (0, s') \<and> dest s' = write_at 0 src old"
  using assms
proof (induction rd wr n src s rule: copy_loop.induct)
  case (1 rd wr n src s)
  obtain k where k: "rd (reads s) = Some k" using "1.prems"(1) by (auto simp: no_errors_def)
  define d where "d = take (min n (k + 1)) (drop (roff s) src)"
  have r: "sys_read rd (reads s) n src (roff s) = Some d" using k by (simp add: sys_read_def d_def)
  show ?case
  proof (cases "d = []")
    case True
    then have "roff s = length src" using "1.prems"(3,4) by (auto simp: copied_def d_def)
    then show ?thesis using True r "1.prems"(4) copied_all
      by (simp add: copy_loop.simps [of rd wr n src s])
  next
    case False
    let ?s = "s\<lparr>roff := roff s + length d, reads := reads s + 1\<rparr>"
    let ?t = "put d (?s\<lparr>writes := writes ?s + 1\<rparr>)"
    have w: "sys_write wr (writes ?s) d = Some d"
      using sys_read_length [OF r] by (intro sys_write_whole [OF "1.prems"(2)])
    have "copied src old ?t" using sys_read_prefix [OF r] by (intro copied_put [OF "1.prems"(4)]) simp_all
    then have "\<exists>s'. copy_loop rd wr n src ?t = (0, s') \<and> dest s' = write_at 0 src old"
      using "1.IH" [OF r False refl w] "1.prems" by blast
    moreover have "copy_loop rd wr n src s = copy_loop rd wr n src ?t"
      using r False w unfolding copy_loop.simps [of rd wr n src s] by (simp add: Let_def)
    ultimately show ?thesis by simp
  qed
qed

text \<open>The files after a copy: the source's bytes, then what the destination had beyond them.\<close>

definition overwritten :: "string \<Rightarrow> string \<Rightarrow> files \<Rightarrow> files" where
  "overwritten src name fs = fs(name \<mapsto> write_at 0 src (open_dest name fs))"

text \<open>
  The first copying program copies. When both files can be opened, no call fails and no write is
  short, the program ends with success for every sequence of short or long reads, and the destination
  holds the bytes of the source, followed by what an existing, longer destination had beyond them.
\<close>
lemma simpcp1_copies:
  assumes "length argv = 3" and "fs (argv ! 1) = Some src" and "can_open (argv ! 1)"
    and "can_open (argv ! 2)" and "no_errors rd" and "whole n wr" and "0 < n"
  shows "simpcp1_main rd wr (Some n) True can_open argv fs = (EXIT_SUCCESS, overwritten src (argv ! 2) fs)"
proof -
  obtain s' where "copy_loop rd wr n src (start_copy (open_dest (argv ! 2) fs)) = (0, s')"
    and "dest s' = write_at 0 src (open_dest (argv ! 2) fs)"
    using copy_loop_correct [OF assms(5-7) copied_start] by blast
  with assms show ?thesis by (simp add: simpcp1_main_def docopy1_def overwritten_def)
qed

definition sample_files :: files where
  "sample_files = [''a'' \<mapsto> ''hello'', ''b'' \<mapsto> ''0123456789'']"

definition dribble :: answers where
  "dribble c = Some (c mod 3)"

definition full_io :: answers where
  "full_io c = Some 7"

lemma full_io_whole: "whole 8 full_io"
  by (simp add: whole_def full_io_def)

text \<open>A short write loses data in the first program: the rest of the buffer is not written.\<close>

lemma docopy1_short_write:
  "docopy1 (\<lambda>c. Some 7) (\<lambda>c. Some 1) (Some 8) True ''abcdef'' (start_copy []) =
     (0, \<lparr>roff = 6, dest = ''ab'', woff = 2, reads = 1, writes = 1\<rparr>)"
  by (simp add: docopy1_def copy_loop.simps start_copy_def sys_read_def sys_write_def put_def
      write_at_def Let_def)

section \<open>The second program on regular files\<close>

lemma sys_read_whole:
  assumes "whole n rd"
  shows "sys_read rd c n src off = Some (take n (drop off src))"
proof -
  obtain k where "rd c = Some k" "n \<le> k + 1" using assms unfolding whole_def by blast
  then show ?thesis by (simp add: sys_read_def min_absorb1)
qed

text \<open>The result of \<open>fd_read\<close> when reads are whole: the next \<open>n\<close> bytes, or what is left.\<close>

lemma fd_read_whole:
  assumes "whole n rd" and "0 < n" and "length buf = n" and "roff s \<le> length src"
  shows "\<exists>c. fd_read rd n src 0 buf s =
    (let d = take n (drop (roff s) src) in
     (int (length d), d @ drop (length d) buf, s\<lparr>roff := roff s + length d, reads := c\<rparr>))"
proof -
  define d where "d = take n (drop (roff s) src)"
  have r: "sys_read rd c n src (roff s) = Some d" for c
    using sys_read_whole [OF assms(1)] by (simp add: d_def)
  have "\<exists>c. fd_read rd n src 0 buf s =
    (int (length d), d @ drop (length d) buf, s\<lparr>roff := roff s + length d, reads := c\<rparr>)"
  proof (cases "d \<noteq> [] \<and> length d < n")
    case True
    then have none: "drop (roff s + length d) src = []" by (auto simp: d_def min_def split: if_splits)
    have "fd_read rd n src 0 buf s = fd_read rd n src (length d) (d @ drop (length d) buf)
        (s\<lparr>roff := roff s + length d, reads := reads s + 1\<rparr>)"
      using True r by (simp add: fd_read.simps [of rd n src 0] Let_def)
    also have "\<dots> = (int (length d), d @ drop (length d) buf,
        s\<lparr>roff := roff s + length d, reads := reads s + 2\<rparr>)"
      using sys_read_whole [OF assms(1)] none
      by (simp add: fd_read.simps [of rd n src "length d"] Let_def)
    finally show ?thesis by blast
  next
    case False
    then have "fd_read rd n src 0 buf s =
        (int (length d), d @ drop (length d) buf, s\<lparr>roff := roff s + length d, reads := reads s + 1\<rparr>)"
      using r by (auto simp: fd_read.simps [of rd n src 0] Let_def)
    then show ?thesis by blast
  qed
  then show ?thesis by (simp add: d_def Let_def)
qed

lemma fd_write_whole:
  assumes "whole n wr" and "length d \<le> n" and "d \<noteq> []"
  shows "fd_write wr (d @ rest) (length d) 0 s =
    Value (int (length d), put d (s\<lparr>writes := writes s + 1\<rparr>))"
  using sys_write_whole [OF assms(1,2), of "writes s"]
  by (simp add: fd_write.simps [of wr "d @ rest" "length d" 0 s] Let_def)

lemma copy_loop2_correct:
  assumes "whole n rd" and "whole n wr" and "0 < n" and "length buf = n" and "copied src old s"
    and "length src - roff s < fuel"
  shows "\<exists>s'. copy_loop2 fuel rd wr n src buf s = Some (Value (0, s')) \<and> dest s' = write_at 0 src old"
  using assms(4-6)
proof (induction fuel arbitrary: buf s)
  case (Suc fuel)
  define d where "d = take n (drop (roff s) src)"
  have le: "roff s \<le> length src" using Suc.prems(2) by (simp add: copied_def)
  obtain c where rd: "fd_read rd n src 0 buf s =
      (int (length d), d @ drop (length d) buf, s\<lparr>roff := roff s + length d, reads := c\<rparr>)"
    using fd_read_whole [OF assms(1,3) Suc.prems(1) le] by (auto simp: d_def Let_def)
  let ?s = "s\<lparr>roff := roff s + length d, reads := c\<rparr>"
  show ?case
  proof (cases "d = []")
    case True
    then have "roff s = length src" using le assms(3) by (auto simp: d_def)
    then show ?thesis using True rd Suc.prems(2) copied_all by simp
  next
    case False
    let ?t = "put d (?s\<lparr>writes := writes ?s + 1\<rparr>)"
    have w: "fd_write wr (d @ drop (length d) buf) (length d) 0 ?s = Value (int (length d), ?t)"
      using fd_write_whole [OF assms(2) _ False] by (simp add: d_def)
    have c: "copied src old ?t"
      by (intro copied_put [OF Suc.prems(2)]) (simp_all add: d_def min_def)
    have "length src - roff ?t < fuel" using Suc.prems(3) False le
      by (auto simp: put_def d_def min_def split: if_splits)
    moreover have "length (d @ drop (length d) buf) = n" using Suc.prems(1) by (simp add: d_def)
    ultimately obtain s' where
      "copy_loop2 fuel rd wr n src (d @ drop (length d) buf) ?t = Some (Value (0, s'))"
      "dest s' = write_at 0 src old"
      using Suc.IH c by blast
    then show ?thesis using rd w False by (auto split: if_splits)
  qed
qed simp

text \<open>
  The second copying program copies regular files. When no call fails and every read and write
  moves all the bytes there are, as on a regular file, the loop ends (one round more than the source
  has bytes is enough) and the destination holds the bytes of the source, followed by what an existing,
  longer destination had beyond them, whatever the buffer from \<open>malloc\<close> held.
\<close>
lemma simpcp2_copies:
  assumes "length argv = 3" and "fs (argv ! 1) = Some src" and "can_open (argv ! 1)"
    and "can_open (argv ! 2)" and "whole n rd" and "whole n wr" and "0 < n"
    and "malloc n = Some buf" and "length buf = n"
  shows "simpcp2_main rd wr (Some n) malloc can_open argv fs =
    Some (Value (EXIT_SUCCESS, overwritten src (argv ! 2) fs))"
proof -
  obtain s' where
    "copy_loop2 (Suc (length src)) rd wr n src buf (start_copy (open_dest (argv ! 2) fs)) =
       Some (Value (0, s'))"
    and "dest s' = write_at 0 src (open_dest (argv ! 2) fs)"
    using copy_loop2_correct [OF assms(5-7,9) copied_start, of src "open_dest (argv ! 2) fs" "Suc (length src)"]
    by (auto simp: start_copy_def)
  with assms show ?thesis by (simp add: simpcp2_main_def docopy2_def overwritten_def del: copy_loop2.simps)
qed

definition malloc_fresh :: "nat \<Rightarrow> string option" where
  "malloc_fresh n = Some (replicate n (CHR ''?''))"

text \<open>
  \<open>fd_write\<close> repeats itself after a short write. If the first call writes a proper prefix \<open>d\<close> of the
  \<open>n\<close> bytes and the second writes them all, the function reports more than \<open>n\<close> bytes and the file gets
  the prefix followed by all the bytes again, instead of the bytes once.
\<close>
lemma fd_write_short_repeats:
  assumes "wr (writes s) = Some k" and "k + 1 < n" and "wr (writes s + 1) = Some m" and "n \<le> m + 1"
    and "length buf = n"
  shows "fd_write wr buf n 0 s =
    Value (int (k + 1 + n), put buf (put (take (k + 1) buf) (s\<lparr>writes := writes s + 1\<rparr>)\<lparr>writes := writes s + 2\<rparr>))"
proof -
  let ?t = "put (take (k + 1) buf) (s\<lparr>writes := writes s + 1\<rparr>)"
  have w: "writes ?t = writes s + 1" by (simp add: put_def)
  have "fd_write wr buf n 0 s = fd_write wr buf n (k + 1) ?t"
    using assms by (simp add: fd_write.simps [of wr buf n 0] sys_write_def Let_def)
  also have "\<dots> = Value (int (k + 1 + n), put buf (?t\<lparr>writes := writes s + 2\<rparr>))"
    using assms w by (simp add: fd_write.simps [of wr buf n "Suc k"] sys_write_def Let_def min_absorb1)
  finally show ?thesis .
qed

definition hiccup :: answers where
  "hiccup c = Some (if c = 0 then 1 else 7)"

text \<open>
  After a short read, \<open>fd_read\<close> may report more bytes than the buffer holds, and \<open>fd_write\<close> then reads
  past its end.
\<close>

lemma docopy2_short_read_overrun:
  "docopy2 hiccup full_io (Some 4) malloc_fresh ''abcdefgh'' (start_copy []) = Some (Undefined Out_Of_Bounds)"
  by (simp add: docopy2_def malloc_fresh_def fd_read.simps fd_write.simps sys_read_def hiccup_def
      start_copy_def Let_def)

section \<open>The multithreaded copying program\<close>

text \<open>
  \<open>fd_read\<close> and \<open>fd_write\<close> of \<open>mt_copy.c\<close> use \<open>pread\<close> and \<open>pwrite\<close> at a fixed offset, which the loops do
  not advance; their results are converted to \<open>int\<close>. The answers are indexed by the number of the call
  within the loop. The loop of \<open>fd_read\<close> ends because every call that reads something counts.
\<close>

function mt_fd_read :: "answers \<Rightarrow> nat \<Rightarrow> string \<Rightarrow> nat \<Rightarrow> nat \<Rightarrow> nat \<Rightarrow> string \<Rightarrow> int \<times> string" where
  "mt_fd_read rd call src n off tr buf =
     (case sys_read rd call n src off of
        None \<Rightarrow> (-1, buf)
      | Some data \<Rightarrow>
          if data = [] then (to_signed 32 (int tr), buf)
          else
            let tr = tr + length data; buf = data @ drop (length data) buf in
            if tr < n then mt_fd_read rd (call + 1) src n off tr buf else (to_signed 32 (int tr), buf))"
  by pat_completeness auto
termination
  by (relation "measure (\<lambda>(rd, call, src, n, off, tr, buf). n - tr)")
    (auto intro!: diff_less_mono2)

declare mt_fd_read.simps [simp del]

function mt_fd_write :: "answers \<Rightarrow> nat \<Rightarrow> string \<Rightarrow> nat \<Rightarrow> nat \<Rightarrow> nat \<Rightarrow> string \<Rightarrow> (int \<times> string) outcome" where
  "mt_fd_write wr call buf n off tw f =
     (if length buf < n then Undefined Out_Of_Bounds
      else
        case sys_write wr call (take n buf) of
          None \<Rightarrow> Value (-1, f)
        | Some d \<Rightarrow>
            let f = write_at off d f; tw = tw + length d in
            if tw < n then mt_fd_write wr (call + 1) buf n off tw f
            else Value (to_signed 32 (int tw), f))"
  by pat_completeness auto
termination
  by (relation "measure (\<lambda>(wr, call, buf, n, off, tw, f). n - tw)") (auto simp: sys_write_def)

declare mt_fd_write.simps [simp del]

text \<open>
  \<open>__do_mt_copy\<close>: the return value, the destination, and whether the buffer was left allocated, which
  happens at the end of the file.
\<close>

record io =
  io_rd :: answers
  io_wr :: answers
  io_malloc :: "nat \<Rightarrow> string option"

definition do_mt_copy_segment ::
    "io \<Rightarrow> string \<Rightarrow> nat \<Rightarrow> nat \<Rightarrow> string \<Rightarrow> (int \<times> string \<times> bool) outcome" where
  "do_mt_copy_segment io src start_offset len f =
     (case io_malloc io len of
        None \<Rightarrow> Value (-2, f, False)
      | Some buf \<Rightarrow>
          (case mt_fd_read (io_rd io) 0 src len start_offset 0 buf of
             (nr, buf) \<Rightarrow>
               if nr < 0 then Value (-3, f, False)
               else if nr = 0 then Value (0, f, True)
               else
                 andthen (mt_fd_write (io_wr io) 0 buf (nat nr) start_offset 0 f) (\<lambda>(nw, f).
                 if nw < 0 then Value (-4, f, False) else Value (0, f, False))))"

text \<open>
  A worker copies its segment, and the last one also the bytes that remain. It ignores the return
  value. The segments it copies are a list, so that the segments of all workers can be interleaved.
\<close>

record mt_thread =
  thrdnum :: nat
  thrdtotal :: nat
  start_offset :: nat
  seg_len :: nat
  rem :: nat

definition worker_segments :: "mt_thread \<Rightarrow> (nat \<times> nat) list" where
  "worker_segments t =
     (start_offset t, seg_len t) #
     (if rem t \<noteq> 0 \<and> thrdnum t = thrdtotal t - 1 then [(start_offset t + seg_len t, rem t)] else [])"

definition copy_segment :: "io \<Rightarrow> string \<Rightarrow> nat \<times> nat \<Rightarrow> string \<Rightarrow> string outcome" where
  "copy_segment io src seg f =
     (case seg of (off, len) \<Rightarrow>
        andthen (do_mt_copy_segment io src off len f) (\<lambda>(ret, f, leak). Value f))"

definition mt_threads :: "nat \<Rightarrow> nat \<Rightarrow> mt_thread list" where
  "mt_threads numthrds fsize =
     map (\<lambda>i. \<lparr>thrdnum = i, thrdtotal = numthrds, start_offset = i * (fsize div numthrds),
               seg_len = fsize div numthrds, rem = fsize mod numthrds\<rparr>) [0..<numthrds]"

definition all_segments :: "nat \<Rightarrow> nat \<Rightarrow> (nat \<times> nat) list" where
  "all_segments numthrds fsize = concat (map worker_segments (mt_threads numthrds fsize))"

text \<open>
  \<open>do_mt_copy\<close>: \<open>order\<close> is the order in which the threads get their segments done; it must be an
  arrangement of all segments. \<open>created\<close> says for each round of the creation loop whether the
  allocation and \<open>pthread_create\<close> succeed.
\<close>

definition do_mt_copy ::
    "io \<Rightarrow> (nat \<Rightarrow> bool) \<Rightarrow> nat \<Rightarrow> string \<Rightarrow> (nat \<times> nat) list \<Rightarrow> string \<Rightarrow> (int \<times> string) outcome" where
  "do_mt_copy io created numthrds src order f =
     (if \<exists>i \<in> set [0..<numthrds]. \<not> created i then FATAL
      else andthen (foldo (copy_segment io src) order f) (\<lambda>f. Value (0, f)))"

definition MIN_THRDS :: int where "MIN_THRDS = 2"
definition MAX_THRDS :: int where "MAX_THRDS = 5"

definition mt_copy_main ::
    "io \<Rightarrow> (nat \<Rightarrow> bool) \<Rightarrow> bool \<Rightarrow> (string \<Rightarrow> bool) \<Rightarrow> (nat \<times> nat) list \<Rightarrow> string list \<Rightarrow> files \<Rightarrow>
     (int \<times> files) outcome" where
  "mt_copy_main io created stat_ok can_open order argv fs =
     (if length argv < 4 then Value (EXIT_FAILURE, fs)
      else
        let numthrds = atoi (argv ! 3) in
        if numthrds < MIN_THRDS \<or> numthrds > MAX_THRDS then Value (EXIT_FAILURE, fs)
        else
          case fs (argv ! 1) of
            None \<Rightarrow> Value (EXIT_FAILURE, fs)
          | Some src \<Rightarrow>
              if \<not> can_open (argv ! 1) then Value (EXIT_FAILURE, fs)
              else if \<not> stat_ok then Value (EXIT_FAILURE, fs)
              else if \<not> can_open (argv ! 2) then Value (EXIT_FAILURE, fs)
              else
                andthen (do_mt_copy io created (nat numthrds) src order (open_dest (argv ! 2) fs)) (\<lambda>(ret, f).
                Value (if ret < 0 then EXIT_FAILURE else EXIT_SUCCESS, fs(argv ! 2 \<mapsto> f))))"

subsection \<open>Any order of the segments copies the file\<close>

definition pure_copy :: "string \<Rightarrow> nat \<times> nat \<Rightarrow> string \<Rightarrow> string" where
  "pure_copy src seg f = write_at (fst seg) (take (snd seg) (drop (fst seg) src)) f"

definition covers :: "nat \<times> nat \<Rightarrow> nat \<Rightarrow> bool" where
  "covers seg p \<longleftrightarrow> fst seg \<le> p \<and> p < fst seg + snd seg"

definition within :: "nat \<Rightarrow> nat \<times> nat \<Rightarrow> bool" where
  "within n seg \<longleftrightarrow> fst seg + snd seg \<le> n"

lemma length_write_at:
  "data \<noteq> [] \<Longrightarrow> length (write_at off data f) = max (length f) (off + length data)"
  by (auto simp: write_at_def)

lemma nth_write_at:
  "off \<le> p \<Longrightarrow> p < off + length data \<Longrightarrow> write_at off data f ! p = data ! (p - off)"
  "p < length f \<Longrightarrow> p < off \<or> off + length data \<le> p \<Longrightarrow> write_at off data f ! p = f ! p"
  by (auto simp: write_at_def nth_append min_def)

lemma pure_copy_facts:
  assumes "within (length src) seg"
  shows "length f \<le> length (pure_copy src seg f)"
    and "length (pure_copy src seg f) \<le> max (length f) (length src)"
    and "covers seg p \<Longrightarrow> p < length (pure_copy src seg f) \<and> pure_copy src seg f ! p = src ! p"
    and "\<not> covers seg p \<Longrightarrow> p < length f \<Longrightarrow> pure_copy src seg f ! p = f ! p"
proof -
  let ?d = "take (snd seg) (drop (fst seg) src)"
  have len: "length ?d = snd seg" using assms by (simp add: within_def)
  show "length f \<le> length (pure_copy src seg f)"
    and "length (pure_copy src seg f) \<le> max (length f) (length src)"
    using assms length_write_at [of ?d "fst seg" f] len
    by (cases "?d = []"; auto simp: pure_copy_def within_def write_at_def)+
  show "p < length (pure_copy src seg f) \<and> pure_copy src seg f ! p = src ! p" if "covers seg p"
  proof -
    from that have "?d \<noteq> []" using len by (auto simp: covers_def)
    then show ?thesis using that len assms length_write_at [of ?d "fst seg" f]
        nth_write_at(1) [of "fst seg" p ?d f]
      by (auto simp: pure_copy_def covers_def within_def)
  qed
  show "pure_copy src seg f ! p = f ! p" if "\<not> covers seg p" "p < length f"
    using that len nth_write_at(2) [of p f "fst seg" ?d] by (auto simp: pure_copy_def covers_def)
qed

lemma fold_pure_copy_facts:
  assumes "list_all (within (length src)) segs"
  shows "length f \<le> length (fold (pure_copy src) segs f) \<and>
    length (fold (pure_copy src) segs f) \<le> max (length f) (length src) \<and>
    (\<forall>p. (\<exists>seg \<in> set segs. covers seg p) \<longrightarrow>
       p < length (fold (pure_copy src) segs f) \<and> fold (pure_copy src) segs f ! p = src ! p) \<and>
    (\<forall>p < length f. (\<forall>seg \<in> set segs. \<not> covers seg p) \<longrightarrow> fold (pure_copy src) segs f ! p = f ! p)"
  using assms
proof (induction segs rule: rev_induct)
  case (snoc seg segs)
  let ?g = "fold (pure_copy src) segs f"
  have w: "within (length src) seg" and IH: "length f \<le> length ?g" "length ?g \<le> max (length f) (length src)"
    "\<And>p. \<exists>seg \<in> set segs. covers seg p \<Longrightarrow> p < length ?g \<and> ?g ! p = src ! p"
    "\<And>p. p < length f \<Longrightarrow> \<forall>seg \<in> set segs. \<not> covers seg p \<Longrightarrow> ?g ! p = f ! p"
    using snoc by auto
  note F = pure_copy_facts [OF w, where f = ?g]
  have "p < length (pure_copy src seg ?g) \<and> pure_copy src seg ?g ! p = src ! p"
    if "\<exists>s \<in> set (segs @ [seg]). covers s p" for p
  proof (cases "covers seg p")
    case False
    with that have "p < length ?g \<and> ?g ! p = src ! p" using IH(3) by auto
    with False F(1,4) show ?thesis by auto
  qed (use F(3) in blast)
  moreover have "pure_copy src seg ?g ! p = f ! p"
    if "p < length f" "\<forall>s \<in> set (segs @ [seg]). \<not> covers s p" for p
    using that IH(1,4) F(4) by auto
  ultimately show ?case using IH(1,2) F(1,2) by auto
qed simp

lemma fold_pure_copy_all:
  assumes "list_all (within (length src)) segs" and "\<forall>p < length src. \<exists>seg \<in> set segs. covers seg p"
  shows "fold (pure_copy src) segs f = write_at 0 src f"
proof (rule nth_equalityI)
  let ?g = "fold (pure_copy src) segs f"
  have F: "length f \<le> length ?g" "length ?g \<le> max (length f) (length src)"
    "\<And>p. p < length src \<Longrightarrow> p < length ?g \<and> ?g ! p = src ! p"
    "\<And>p. p < length f \<Longrightarrow> \<forall>seg \<in> set segs. \<not> covers seg p \<Longrightarrow> ?g ! p = f ! p"
    using fold_pure_copy_facts [OF assms(1), of f] assms(2) by auto
  have "length src \<le> length ?g" using F(3) by (meson linorder_not_le order_less_irrefl)
  then have len: "length ?g = max (length f) (length src)" using F(1,2) by simp
  have lw: "length (write_at 0 src f) = max (length f) (length src)"
    using length_write_at [of src 0 f] by (cases "src = []") (auto simp: write_at_def)
  from len lw show "length ?g = length (write_at 0 src f)" by simp
  fix p assume p: "p < length ?g"
  show "?g ! p = write_at 0 src f ! p"
  proof (cases "p < length src")
    case True
    then show ?thesis using F(3) nth_write_at(1) [of 0 p src f] by simp
  next
    case False
    then have "\<forall>seg \<in> set segs. \<not> covers seg p"
      using assms(1) by (auto simp: list_all_iff within_def covers_def)
    then show ?thesis using False p len F(4) nth_write_at(2) [of p f 0 src] by auto
  qed
qed

lemma all_segments_set:
  assumes "0 < n"
  shows "set (all_segments n fsize) =
    (\<lambda>i. (i * (fsize div n), fsize div n)) ` {..<n} \<union>
    (if fsize mod n \<noteq> 0 then {(n * (fsize div n), fsize mod n)} else {})"
proof -
  have "Suc (n - 1) = n" using assms by simp
  then have "(n - 1) * (fsize div n) + fsize div n = n * (fsize div n)"
    by (metis add.commute mult_Suc)
  then show ?thesis using assms
    by (auto simp: all_segments_def mt_threads_def worker_segments_def intro!: bexI [of _ "n - 1"])
qed

lemma segments_within:
  assumes "0 < n"
  shows "\<forall>seg \<in> set (all_segments n fsize). within fsize seg"
proof -
  have "i * (fsize div n) + fsize div n \<le> fsize" if "i < n" for i
  proof -
    have "Suc i * (fsize div n) \<le> n * (fsize div n)" using that by (intro mult_le_mono1) simp
    also have "\<dots> \<le> fsize" by simp
    finally show ?thesis by simp
  qed
  then show ?thesis using assms by (auto simp: all_segments_set within_def)
qed

lemma segments_cover:
  assumes "0 < n" and "p < fsize"
  shows "\<exists>seg \<in> set (all_segments n fsize). covers seg p"
proof (cases "p < n * (fsize div n)")
  case True
  let ?q = "fsize div n"
  have q: "0 < ?q" using True by (cases "?q = 0") auto
  have "p div ?q < n" using True q by (simp add: div_less_iff_less_mult)
  moreover have "covers (p div ?q * ?q, ?q) p"
    using dividend_less_div_times [OF q, of p] by (simp add: covers_def add.commute)
  ultimately show ?thesis using assms(1) by (auto simp: all_segments_set)
next
  case False
  then have "fsize mod n \<noteq> 0" using assms(2) by (metis add_0_right mult_div_mod_eq)
  moreover have "covers (n * (fsize div n), fsize mod n) p"
    using False assms(2) by (simp add: covers_def)
  ultimately show ?thesis using assms(1) by (auto simp: all_segments_set)
qed

text \<open>The system moves all bytes of a source of \<open>n\<close> bytes at once, and there is memory.\<close>

definition smooth_io :: "nat \<Rightarrow> io \<Rightarrow> bool" where
  "smooth_io n io \<longleftrightarrow>
     whole n (io_rd io) \<and> whole n (io_wr io) \<and>
     (\<forall>len \<le> n. \<exists>buf. io_malloc io len = Some buf \<and> length buf = len)"

lemma whole_mono: "whole n a \<Longrightarrow> m \<le> n \<Longrightarrow> whole m a"
  unfolding whole_def by (meson order_trans)

lemma copy_segment_pure:
  assumes "smooth_io (length src) io" and "within (length src) (off, len)" and "int len \<le> INT_MAX"
  shows "copy_segment io src (off, len) f = Value (pure_copy src (off, len) f)"
proof -
  have le: "len \<le> length src" using assms(2) by (simp add: within_def)
  obtain buf where buf: "io_malloc io len = Some buf" "length buf = len"
    using assms(1) le by (auto simp: smooth_io_def)
  define d where "d = take len (drop off src)"
  have len_d: "length d = len" using assms(2) by (simp add: d_def within_def)
  have r: "sys_read (io_rd io) c len src off = Some d" for c
    using assms(1) le by (auto simp: smooth_io_def d_def intro!: sys_read_whole elim: whole_mono)
  have w: "sys_write (io_wr io) c d = Some d" for c
    using assms(1) le len_d by (auto simp: smooth_io_def intro!: sys_write_whole elim: whole_mono)
  have id: "to_signed 32 (int len) = int len"
    using assms(3) by (intro to_signed32_id) (simp add: int_range_defs)
  show ?thesis
  proof (cases "d = []")
    case True
    then show ?thesis using r buf len_d
      by (simp add: copy_segment_def do_mt_copy_segment_def mt_fd_read.simps [of _ 0] id pure_copy_def
          write_at_def to_signed_def flip: d_def)
  next
    case False
    have "mt_fd_read (io_rd io) 0 src len off 0 buf = (int len, d)"
      using r False len_d id buf(2) by (simp add: mt_fd_read.simps [of _ 0] Let_def)
    moreover have "mt_fd_write (io_wr io) 0 d len off 0 f = Value (int len, write_at off d f)"
      using w len_d id by (simp add: mt_fd_write.simps [of _ 0] Let_def)
    ultimately show ?thesis using buf(1) False len_d
      by (auto simp: copy_segment_def do_mt_copy_segment_def pure_copy_def d_def)
  qed
qed

lemma foldo_copy_segments:
  assumes "smooth_io (length src) io" and "int (length src) \<le> INT_MAX"
    and "list_all (within (length src)) order"
  shows "foldo (copy_segment io src) order f = Value (fold (pure_copy src) order f)"
  using assms(3)
proof (induction order arbitrary: f)
  case (Cons seg order)
  obtain off len where seg: "seg = (off, len)" by (cases seg)
  then have "int len \<le> INT_MAX" using Cons.prems assms(2) by (simp add: within_def)
  then show ?case using Cons copy_segment_pure [OF assms(1), of off len f] seg by simp
qed simp

text \<open>
  C5: the multithreaded program copies. For two to five threads, a source of less than 2 GiB, and a
  system that moves whole segments, the destination holds the bytes of the source (then what a longer
  destination had beyond them) in whatever order the threads get their segments done: the segments lie
  within the file and cover it, the remainder included.
\<close>
theorem mt_copy_copies:
  assumes "length argv = 4" and "argv ! 3 = show_int n" and "2 \<le> n" and "n \<le> 5"
    and "fs (argv ! 1) = Some src" and "can_open (argv ! 1)" and "can_open (argv ! 2)"
    and "\<forall>i. created i" and "smooth_io (length src) io" and "int (length src) \<le> INT_MAX"
    and "set order = set (all_segments (nat n) (length src))"
  shows "mt_copy_main io created True can_open order argv fs =
    Value (EXIT_SUCCESS, overwritten src (argv ! 2) fs)"
proof -
  have n: "atoi (argv ! 3) = n" using assms(2-4) by (simp add: atoi_show_int int_range_defs)
  have pos: "0 < nat n" using assms(3) by simp
  have within: "list_all (within (length src)) order"
    using segments_within [OF pos] assms(11) by (auto simp: list_all_iff)
  have "\<forall>p < length src. \<exists>seg \<in> set order. covers seg p"
    using segments_cover [OF pos] assms(11) by simp
  then have "foldo (copy_segment io src) order f = Value (write_at 0 src f)" for f
    using foldo_copy_segments [OF assms(9,10) within] fold_pure_copy_all [OF within] by simp
  then show ?thesis using assms n
    by (simp add: mt_copy_main_def do_mt_copy_def overwritten_def MIN_THRDS_def MAX_THRDS_def Let_def)
qed

definition sample_io :: io where
  "sample_io = \<lparr>io_rd = full_io, io_wr = full_io, io_malloc = malloc_fresh\<rparr>"

theorem mt_copy_copies_witness:
  "mt_copy_main sample_io (\<lambda>i. True) True (\<lambda>f. True) [(4, 1), (2, 2), (0, 2)]
     [''mt_copy'', ''a'', ''c'', show_int 2] sample_files =
   Value (0, overwritten ''hello'' ''c'' sample_files)"
proof -
  have "smooth_io (length ''hello'') sample_io"
    using full_io_whole whole_mono [of 8 full_io "length ''hello''"]
    by (simp add: smooth_io_def sample_io_def malloc_fresh_def)
  moreover have "set [(4, 1), (2, 2), (0, 2)] = set (all_segments (nat 2) (length ''hello''))"
    by code_simp
  ultimately show ?thesis
    using mt_copy_copies [of "[''mt_copy'', ''a'', ''c'', show_int 2]" 2 sample_files "''hello''"
        "\<lambda>f. True" "\<lambda>i. True" sample_io "[(4, 1), (2, 2), (0, 2)]"]
    by (simp add: sample_files_def INT_MAX_def del: set_simps)
qed

end
