(* ===== verification/Advanced_IO.thy ===== *)
theory Advanced_IO
  imports File_Copy
begin

text \<open>
  The programs of chapter 18 on advanced file I/O: \<open>ch18/sgio_simple.c\<close>, which writes three segments
  with holes between them in two ways, and \<open>ch18/mmap_file_simple.c\<close>, which dumps a mapped file.
\<close>

section \<open>Scattered writing\<close>

definition A_HOLE_LEN :: nat where "A_HOLE_LEN = 10"
definition A_START_OFF :: nat where "A_START_OFF = A_HOLE_LEN"
definition A_LEN :: nat where "A_LEN = 20"
definition B_HOLE_LEN :: nat where "B_HOLE_LEN = 100"
definition B_START_OFF :: nat where "B_START_OFF = A_HOLE_LEN + A_LEN + B_HOLE_LEN"
definition B_LEN :: nat where "B_LEN = 30"
definition C_HOLE_LEN :: nat where "C_HOLE_LEN = 20"
definition C_START_OFF :: nat where "C_START_OFF = A_HOLE_LEN + A_LEN + B_HOLE_LEN + B_LEN + C_HOLE_LEN"
definition C_LEN :: nat where "C_LEN = 42"

lemmas sg_layout = A_HOLE_LEN_def A_START_OFF_def A_LEN_def B_HOLE_LEN_def B_START_OFF_def B_LEN_def
  C_HOLE_LEN_def C_START_OFF_def C_LEN_def

datatype gbuf = BufA | BufB | BufC | BufHole

fun gbuf_content :: "gbuf \<Rightarrow> string" where
  "gbuf_content BufA = replicate A_LEN (CHR ''A'')"
| "gbuf_content BufB = replicate B_LEN (CHR ''B'')"
| "gbuf_content BufC = replicate C_LEN (CHR ''C'')"
| "gbuf_content BufHole = replicate (A_HOLE_LEN + B_HOLE_LEN + C_HOLE_LEN) (CHR 0x00)"

text \<open>
  \<open>setup_buffers_goto\<close>: the return value and the buffers that are allocated afterwards; \<open>ok\<close> says which
  of the four allocations succeed. The labels are reached by falling through from one to the next.
\<close>

definition out_freeA :: "gbuf list \<Rightarrow> gbuf list" where
  "out_freeA live = remove1 BufA live"

definition out_freeB :: "gbuf list \<Rightarrow> gbuf list" where
  "out_freeB live = out_freeA (remove1 BufB live)"

definition out_freeC :: "gbuf list \<Rightarrow> gbuf list" where
  "out_freeC live = out_freeB (remove1 BufC live)"

definition setup_buffers_goto :: "(gbuf \<Rightarrow> bool) \<Rightarrow> int \<times> gbuf list" where
  "setup_buffers_goto ok =
     (if \<not> ok BufA then (-1, [])
      else if \<not> ok BufB then (-2, out_freeA [BufA])
      else if \<not> ok BufC then (-3, out_freeB [BufA, BufB])
      else if \<not> ok BufHole then (-4, out_freeC [BufA, BufB, BufC])
      else (0, [BufA, BufB, BufC, BufHole]))"

text \<open>The traditional way: seek, write, three times. \<open>seeks\<close> says which of the seeks succeed.\<close>

definition seek_write :: "(nat \<Rightarrow> bool) \<Rightarrow> answers \<Rightarrow> nat \<times> nat \<times> string \<Rightarrow> string \<Rightarrow> string outcome" where
  "seek_write seeks wr seg f =
     (case seg of (i, off, data) \<Rightarrow>
        if \<not> seeks i then FATAL
        else case sys_write wr i data of
          None \<Rightarrow> FATAL
        | Some d \<Rightarrow> Value (write_at off d f))"

definition wr_discontig_the_normal_way :: "(nat \<Rightarrow> bool) \<Rightarrow> answers \<Rightarrow> string \<Rightarrow> string outcome" where
  "wr_discontig_the_normal_way seeks wr f =
     foldo (seek_write seeks wr)
       [(0, A_START_OFF, take A_LEN (gbuf_content BufA)), (1, B_START_OFF, take B_LEN (gbuf_content BufB)),
        (2, C_START_OFF, take C_LEN (gbuf_content BufC))] f"

text \<open>The other way: one \<open>writev\<close> of six segments at the start of the file.\<close>

definition iov :: "(gbuf \<times> nat) list" where
  "iov = [(BufHole, A_HOLE_LEN), (BufA, A_LEN), (BufHole, B_HOLE_LEN), (BufB, B_LEN),
          (BufHole, C_HOLE_LEN), (BufC, C_LEN)]"

definition gathered :: string where
  "gathered = concat (map (\<lambda>(b, n). take n (gbuf_content b)) iov)"

definition wr_discontig_the_better_SGIO_way :: "answers \<Rightarrow> string \<Rightarrow> int \<times> string" where
  "wr_discontig_the_better_SGIO_way wr f =
     (case sys_write wr 0 gathered of
        None \<Rightarrow> (-1, f)
      | Some d \<Rightarrow> (0, write_at 0 d f))"

text \<open>
  \<open>main\<close>: the test file is removed and created anew. The result is the file and the buffers that are
  never freed.
\<close>

definition sgio_main ::
    "(gbuf \<Rightarrow> bool) \<Rightarrow> int \<Rightarrow> (nat \<Rightarrow> bool) \<Rightarrow> answers \<Rightarrow> string list \<Rightarrow> (string \<times> gbuf list) outcome" where
  "sgio_main ok open_ret seeks wr argv =
     (if length argv \<noteq> 2 then Exit EXIT_FAILURE
      else
        let opt = atoi (argv ! 1) in
        if opt \<noteq> 0 \<and> opt \<noteq> 1 then Exit EXIT_FAILURE
        else
          case setup_buffers_goto ok of (ret, live) \<Rightarrow>
            if ret < 0 then FATAL
            else if open_ret < 0 then FATAL
            else
              andthen (if opt = 0 then wr_discontig_the_normal_way seeks wr []
                       else Value (snd (wr_discontig_the_better_SGIO_way wr []))) (\<lambda>f.
              Value (f, out_freeC live)))"

text \<open>How the file should look.\<close>

definition wanted :: string where
  "wanted = replicate A_HOLE_LEN (CHR 0x00) @ replicate A_LEN (CHR ''A'') @
     replicate B_HOLE_LEN (CHR 0x00) @ replicate B_LEN (CHR ''B'') @
     replicate C_HOLE_LEN (CHR 0x00) @ replicate C_LEN (CHR ''C'')"

lemma gathered_wanted: "gathered = wanted"
  by (simp add: gathered_def wanted_def iov_def sg_layout min_def)

lemma write_at_end: "data \<noteq> [] \<Longrightarrow> length f \<le> off \<Longrightarrow>
    write_at off data f = f @ replicate (off - length f) (CHR 0x00) @ data"
  by (simp add: write_at_def)

lemma normal_way_wanted:
  assumes "\<forall>i. seeks i" and "whole 42 wr"
  shows "wr_discontig_the_normal_way seeks wr [] = Value wanted"
proof -
  have w: "sys_write wr i d = Some d" if "length d \<le> 42" for i d
    using sys_write_whole [OF assms(2) that] .
  show ?thesis using assms(1)
    by (simp add: wr_discontig_the_normal_way_def seek_write_def w write_at_end sg_layout wanted_def)
qed

lemma SGIO_way_wanted:
  assumes "whole 222 wr"
  shows "wr_discontig_the_better_SGIO_way wr [] = (0, wanted)"
proof -
  have "length wanted = 222" by (simp add: wanted_def sg_layout)
  then show ?thesis using sys_write_whole [OF assms, of wanted 0]
    by (auto simp: wr_discontig_the_better_SGIO_way_def gathered_wanted write_at_def)
qed

lemma setup_buffers_all: "\<forall>b. ok b \<Longrightarrow> setup_buffers_goto ok = (0, [BufA, BufB, BufC, BufHole])"
  by (simp add: setup_buffers_goto_def)

lemma setup_buffers_failed: "\<not> ok b \<Longrightarrow> fst (setup_buffers_goto ok) < 0 \<and> snd (setup_buffers_goto ok) = []"
  by (cases b) (auto simp: setup_buffers_goto_def out_freeA_def out_freeB_def out_freeC_def)

lemma atoi_opts: "atoi ''0'' = 0" "atoi ''1'' = 1"
  by code_simp+

text \<open>
  C19: the two ways of writing are equivalent. When no call fails and the writes are not short, the
  program leaves the same file with either method, the three segments at their offsets with zeros in
  the holes; the buffer for the holes is the only one that is never freed.
\<close>
theorem sgio_ways_agree:
  assumes "\<forall>b. ok b" and "0 \<le> fd" and "\<forall>i. seeks i" and "whole 222 wr"
  shows "sgio_main ok fd seeks wr [''sgio'', ''0''] = Value (wanted, [BufHole]) \<and>
    sgio_main ok fd seeks wr [''sgio'', ''1''] = Value (wanted, [BufHole])"
proof -
  have "whole 42 wr" using assms(4) by (rule whole_mono) simp
  then show ?thesis using assms(2)
    by (simp add: sgio_main_def atoi_opts out_freeA_def out_freeB_def out_freeC_def
        normal_way_wanted [OF assms(3)] SGIO_way_wanted [OF assms(4)] setup_buffers_all [OF assms(1)])
qed

theorem sgio_ways_agree_witness:
  "sgio_main (\<lambda>b. True) 3 (\<lambda>i. True) (\<lambda>c. Some 300) [''sgio'', ''1''] = Value (wanted, [BufHole])"
  using sgio_ways_agree [of "\<lambda>b. True" 3 "\<lambda>i. True" "\<lambda>c. Some 300"] by (simp add: whole_def)

section \<open>Dumping a mapped file\<close>

text \<open>
  \<open>hex_dump\<close> keeps one line in a buffer: 58 columns of hexadecimal digits, 16 of characters, then a
  newline, which is stored once. The buffer here is the 74 columns.
\<close>

definition overlay :: "nat \<Rightarrow> string \<Rightarrow> string \<Rightarrow> string" where
  "overlay i s buf = take i buf @ s @ drop (i + length s) buf"

definition hex_digit :: "nat \<Rightarrow> char" where
  "hex_digit n = ''0123456789abcdef'' ! n"

definition hex2 :: "nat \<Rightarrow> string" where
  "hex2 b = [hex_digit (b div 16), hex_digit (b mod 16)]"

text \<open>\<open>snprintf(temp, 20, "+%06d", offset)\<close>, of which seven characters are used.\<close>

definition offset_text :: "nat \<Rightarrow> string" where
  "offset_text offset =
     take 7 (CHR ''+'' # replicate (6 - length (show_nat offset)) (CHR ''0'') @ show_nat offset)"

definition blank_line :: "nat \<Rightarrow> string" where
  "blank_line offset = overlay 0 (offset_text offset) (replicate 74 (CHR '' ''))"

definition printable :: "nat \<Rightarrow> char" where
  "printable b = (if b > 31 \<and> b < 127 then char_of b else CHR ''.'')"

definition put_byte :: "nat \<Rightarrow> nat \<Rightarrow> string \<Rightarrow> string" where
  "put_byte j b buf = overlay (58 + j) [printable b] (overlay (8 + j * 3) (hex2 b) buf)"

definition ruler :: string where
  "ruler = ''        +0          +4          +8          +c            0   4   8   c   '' @ [LF]"

text \<open>The loop: \<open>j\<close>, the buffer and what has been printed; \<open>i\<close> counts the bytes already dumped.\<close>

fun dump_loop :: "nat \<Rightarrow> nat list \<Rightarrow> nat \<Rightarrow> nat \<Rightarrow> string \<Rightarrow> string \<Rightarrow> nat \<times> string \<times> string" where
  "dump_loop offset [] i j buffer out = (j, buffer, out)"
| "dump_loop offset (b # bs) i j buffer out =
     (if j = 16
      then dump_loop offset bs (i + 1) 1 (put_byte 0 b (blank_line (i + offset))) (out @ buffer @ [LF])
      else dump_loop offset bs (i + 1) (j + 1) (put_byte j b buffer) out)"

definition hex_dump :: "nat list \<Rightarrow> nat \<Rightarrow> string" where
  "hex_dump data offset =
     (case dump_loop offset data 0 0 (blank_line offset) ruler of
        (j, buffer, out) \<Rightarrow> if j \<noteq> 0 then out @ buffer @ [LF] else out)"

text \<open>
  \<open>main\<close> on the file (a list of bytes) and the arguments; \<open>None\<close> when \<open>open\<close> or \<open>fstat\<close> fails. The sum
  of offset and length is a \<open>long\<close>; \<open>hex_dump\<close> takes both as \<open>int\<close>, so a number that does not fit is
  cut to 32 bits, and a length that becomes negative dumps nothing. The second result is how many bytes
  stay mapped.
\<close>

definition atol :: "string \<Rightarrow> int" where
  "atol s = fst (strtol s)"

definition mmap_main :: "nat list option \<Rightarrow> bool \<Rightarrow> string list \<Rightarrow> (string \<times> nat) outcome" where
  "mmap_main file mmap_ok argv =
     (if length argv < 2 \<or> length argv > 4 \<or> length argv = 3 then Exit EXIT_FAILURE
      else case file of
        None \<Rightarrow> FATAL
      | Some data \<Rightarrow>
          let fsz = int (length data) in
          if fsz = 0 then FATAL
          else
            andthen (if length argv = 4 then
                       (let len = atol (argv ! 3) in if len \<le> 0 then FATAL else Value len)
                     else Value fsz) (\<lambda>len.
            andthen (if length argv \<ge> 3 then
                       (let off = atol (argv ! 2) in
                        if off < 0 then FATAL
                        else if off + len > LONG_MAX then Undefined Int_Overflow
                        else if off + len > fsz then FATAL
                        else Value off)
                     else Value 0) (\<lambda>off.
            if \<not> mmap_ok then FATAL
            else
              Value (hex_dump (take (nat (to_signed 32 len)) (drop (nat off) data)) (nat (to_signed 32 off)),
                     length data - nat len))))"

subsection \<open>The lines of a dump\<close>

text \<open>One line for sixteen bytes or fewer.\<close>

definition dump_line :: "nat \<Rightarrow> nat list \<Rightarrow> string" where
  "dump_line offset bs =
     foldl (\<lambda>buf (j, b). put_byte j b buf) (blank_line offset) (enumerate 0 bs) @ [LF]"

fun dump_lines :: "nat \<Rightarrow> nat list \<Rightarrow> string" where
  "dump_lines offset [] = []"
| "dump_lines offset (b # bs) =
     dump_line offset (b # take 15 bs) @ dump_lines (offset + 16) (drop 15 bs)"

lemma dump_lines_unfold:
  "bs \<noteq> [] \<Longrightarrow> dump_lines offset bs = dump_line offset (take 16 bs) @ dump_lines (offset + 16) (drop 16 bs)"
  by (cases bs) simp_all

lemma enumerate_snoc: "enumerate n (xs @ [x]) = enumerate n xs @ [(n + length xs, x)]"
  by (simp add: enumerate_append_eq)

lemma dump_line_snoc:
  "dump_line offset (bs @ [b]) = put_byte (length bs) b (butlast (dump_line offset bs)) @ [LF]"
  by (simp add: dump_line_def enumerate_snoc)

lemma dump_line_butlast: "butlast (dump_line offset bs) @ [LF] = dump_line offset bs"
  by (simp add: dump_line_def)

text \<open>
  In the middle of a line, \<open>part\<close> are the bytes of this line so far: the loop prints this line with the
  bytes that complete it, then the lines that follow.
\<close>

definition dump_rest :: "nat \<times> string \<times> string \<Rightarrow> string" where
  "dump_rest r = (case r of (j, buffer, out) \<Rightarrow> if j \<noteq> 0 then out @ buffer @ [LF] else out)"

lemma dump_loop_lines:
  assumes "part \<noteq> []" and "length part \<le> 16" and "length part \<le> i"
  shows "dump_rest (dump_loop offset bs i (length part) (butlast (dump_line (offset + i - length part) part)) out) =
    out @ dump_lines (offset + i - length part) (part @ bs)"
  using assms
proof (induction bs arbitrary: part i out)
  case Nil
  then show ?case
    by (simp add: dump_rest_def dump_lines_unfold dump_line_butlast)
next
  case (Cons b bs)
  let ?o = "offset + i - length part"
  show ?case
  proof (cases "length part = 16")
    case True
    have one: "put_byte 0 b (blank_line (i + offset)) = butlast (dump_line (offset + i) [b])"
      by (simp add: dump_line_def add.commute)
    have "dump_rest (dump_loop offset bs (i + 1) (length [b])
        (butlast (dump_line (offset + (i + 1) - length [b]) [b])) (out @ butlast (dump_line ?o part) @ [LF])) =
      (out @ butlast (dump_line ?o part) @ [LF]) @ dump_lines (offset + (i + 1) - length [b]) ([b] @ bs)"
      by (rule Cons.IH) simp_all
    then show ?thesis using True one Cons.prems
      by (simp add: dump_lines_unfold [of "part @ b # bs"] dump_line_butlast)
  next
    case False
    then have lt: "length part < 16" using Cons.prems(2) by simp
    have step: "put_byte (length part) b (butlast (dump_line ?o part)) = butlast (dump_line ?o (part @ [b]))"
      by (simp add: dump_line_snoc)
    have "dump_rest (dump_loop offset bs (i + 1) (length (part @ [b]))
        (butlast (dump_line (offset + (i + 1) - length (part @ [b])) (part @ [b]))) out) =
      out @ dump_lines (offset + (i + 1) - length (part @ [b])) ((part @ [b]) @ bs)"
      using lt Cons.prems(3) by (intro Cons.IH) simp_all
    then show ?thesis using False step by simp
  qed
qed

lemma hex_dump_lines: "hex_dump data offset = ruler @ dump_lines offset data"
proof (cases data)
  case Nil
  then show ?thesis by (simp add: hex_dump_def)
next
  case (Cons b bs)
  have one: "put_byte 0 b (blank_line offset) = butlast (dump_line offset [b])" by (simp add: dump_line_def)
  have "dump_rest (dump_loop offset bs 1 (length [b]) (butlast (dump_line (offset + 1 - length [b]) [b])) ruler) =
      ruler @ dump_lines (offset + 1 - length [b]) ([b] @ bs)"
    by (rule dump_loop_lines) simp_all
  then show ?thesis using Cons one by (simp add: hex_dump_def dump_rest_def)
qed

lemma atol_show: "0 \<le> z \<Longrightarrow> z \<le> LONG_MAX \<Longrightarrow> atol (show_int z) = z"
  using strtol_show_int [of z "[]"] by (simp add: atol_def LONG_MIN_def)



end
