(* ===== verification/Lab_Input.thy ===== *)
theory Lab_Input
  imports Complex_Main Common
begin

text \<open>
  The numeric programs of the labs: \<open>M4lab/input.c\<close> (reading a validated number) and
  \<open>m2/future_value.c\<close> (the growth of a monthly investment). A \<open>double\<close> is a rational number; the
  rounding of the machine is an argument \<open>rnd\<close> that is applied to the exact result of every operation,
  so that the theorems on exact values take the identity for it. Infinities and NaN are left out.
\<close>

section \<open>Scanning a double\<close>

text \<open>
  \<open>sscanf(s, "%lf%n", ...)\<close> for decimal numbers with an optional sign, fraction and exponent (the
  hexadecimal form, \<open>inf\<close> and \<open>nan\<close> are left out): the value and how many characters were consumed.
\<close>

definition scan_digits :: "string \<Rightarrow> string \<times> string" where
  "scan_digits s = (takeWhile is_digit s, dropWhile is_digit s)"

definition scan_fraction :: "string \<Rightarrow> string \<times> string" where
  "scan_fraction s = (case s of c # t \<Rightarrow> if c = CHR ''.'' then scan_digits t else ([], s) | [] \<Rightarrow> ([], s))"

definition scan_exponent :: "string \<Rightarrow> int \<times> string" where
  "scan_exponent s =
     (case s of
        [] \<Rightarrow> (0, s)
      | c # t \<Rightarrow>
          if c = CHR ''e'' \<or> c = CHR ''E'' then
            (let (neg, u) = split_sign t; (ds, rest) = scan_digits u in
             if ds = [] then (0, s) else (if neg then - int (read_nat ds) else int (read_nat ds), rest))
          else (0, s))"

definition pow10 :: "int \<Rightarrow> rat" where
  "pow10 e = (if 0 \<le> e then 10 ^ nat e else 1 / 10 ^ nat (- e))"

definition scan_lf :: "string \<Rightarrow> (rat \<times> nat) option" where
  "scan_lf s =
     (let (neg, u) = split_sign (dropWhile is_space s);
          (ip, r1) = scan_digits u;
          (fp, r2) = scan_fraction r1;
          (e, r3) = scan_exponent r2;
          m = of_nat (read_nat (ip @ fp)) * pow10 (e - int (length fp)) in
      if ip = [] \<and> fp = [] then None
      else Some (if neg then - m else m, length s - length r3))"

text \<open>\<open>printf("%.2f")\<close>: rounded to hundredths, ties to even.\<close>

definition round_half_even :: "rat \<Rightarrow> int" where
  "round_half_even x =
     (let f = \<lfloor>x\<rfloor>; d = x - of_int f in
      if d < 1 / 2 then f else if 1 / 2 < d then f + 1 else if even f then f else f + 1)"

definition show_fixed2 :: "rat \<Rightarrow> string" where
  "show_fixed2 x =
     (let n = round_half_even (\<bar>x\<bar> * 100); q = nat (n div 100); r = nat (n mod 100) in
      (if x < 0 then ''-'' else []) @ show_nat q @ ''.'' @ [digit_char (r div 10), digit_char (r mod 10)])"

section \<open>Validated input\<close>

datatype validation = Accepted rat | Rejected string

definition validate_double :: "(rat \<Rightarrow> rat) \<Rightarrow> string \<Rightarrow> rat \<Rightarrow> rat \<Rightarrow> validation" where
  "validate_double rnd input low high =
     (case scan_lf input of
        None \<Rightarrow> Rejected ''Entry must be numeric. Please try again.''
      | Some (v, scanned_chars) \<Rightarrow>
          if int scanned_chars = int (length input) - 1 then
            (if low \<le> rnd v \<and> rnd v \<le> high then Accepted (rnd v)
             else Rejected (snprintf 100 (''Entry must be greater than '' @ show_fixed2 low @
                    '' and less than or equal to '' @ show_fixed2 high @ ''. Please try again.'')))
          else Rejected ''Entry must be a single numeric value. Please try again.'')"

text \<open>
  \<open>input_double\<close> on the lines that \<open>getline\<close> delivers, after which it returns -1: the return value,
  the number that was stored, and what is printed.
\<close>

fun input_double :: "(rat \<Rightarrow> rat) \<Rightarrow> string \<Rightarrow> rat \<Rightarrow> rat \<Rightarrow> string list \<Rightarrow> string \<Rightarrow> int \<times> rat option \<times> string" where
  "input_double rnd prompt low high [] out =
     (-1, None, out @ prompt @ '' '' @ ''Error reading input from stdin.'' @ [LF])"
| "input_double rnd prompt low high (line # lines) out =
     (case validate_double rnd line low high of
        Rejected err_msg \<Rightarrow> input_double rnd prompt low high lines (out @ prompt @ '' '' @ err_msg @ [LF])
      | Accepted v \<Rightarrow> (0, Some v, out @ prompt @ '' ''))"

text \<open>\<open>main\<close> prints the number, 0 when the input ended; the result is that number.\<close>

definition input_main :: "(rat \<Rightarrow> rat) \<Rightarrow> string list \<Rightarrow> rat \<times> string" where
  "input_main rnd lines =
     (case input_double rnd ''Enter a number:'' 0 10 lines [] of
        (ret, number, out) \<Rightarrow> (case number of None \<Rightarrow> 0 | Some v \<Rightarrow> v, out))"

section \<open>Future value\<close>

definition FailPrint :: "'a outcome" where
  "FailPrint = Exit EXIT_FAILURE"

definition convert_to_long :: "string \<Rightarrow> int outcome" where
  "convert_to_long strval =
     (case strtol strval of (ival, endptr, erange) \<Rightarrow>
        if erange \<or> endptr \<noteq> [] then FailPrint else Value ival)"

text \<open>\<open>strtod\<close> takes the longest number at the start; without one it returns 0 at the start.\<close>

definition convert_to_doubles :: "(rat \<Rightarrow> rat) \<Rightarrow> string \<Rightarrow> rat outcome" where
  "convert_to_doubles rnd strval =
     (case scan_lf strval of
        None \<Rightarrow> if strval \<noteq> [] then FailPrint else Value 0
      | Some (v, n) \<Rightarrow> if n \<noteq> length strval then FailPrint else Value (rnd v))"

text \<open>
  The loop of \<open>calculation\<close>: one round for each month \<open>i\<close>, at the end of each year a row
  \<open>(year, accumulated interest, future value)\<close> is stored at the index of the year.
\<close>

record growth =
  Future_value :: rat
  totalDeposits :: rat
  rows :: "(rat \<times> rat \<times> rat) option list"

definition month_round :: "(rat \<Rightarrow> rat) \<Rightarrow> rat \<Rightarrow> rat \<Rightarrow> nat \<Rightarrow> growth \<Rightarrow> growth outcome" where
  "month_round rnd MoneyMonth monthlyInt i g =
     (let g = g\<lparr>Future_value := rnd (Future_value g + MoneyMonth),
                totalDeposits := rnd (totalDeposits g + MoneyMonth)\<rparr>;
          monthlyInterestAmount = rnd (Future_value g * monthlyInt);
          g = g\<lparr>Future_value := rnd (Future_value g + monthlyInterestAmount)\<rparr> in
      if i mod 12 = 0 then
        (let yearIndex = i div 12 - 1 in
         if yearIndex < length (rows g)
         then Value (g\<lparr>rows := (rows g)[yearIndex :=
                Some (of_nat (i div 12), rnd (Future_value g - totalDeposits g), Future_value g)]\<rparr>)
         else Undefined Out_Of_Bounds)
      else Value g)"

definition calculation ::
    "(rat \<Rightarrow> rat) \<Rightarrow> rat \<Rightarrow> rat \<Rightarrow> nat \<Rightarrow> (rat \<times> rat \<times> rat) option list outcome" where
  "calculation rnd MoneyMonth interest years =
     andthen (foldo (month_round rnd MoneyMonth (rnd (rnd (interest / 12) / 100))) [1..<12 * years + 1]
                \<lparr>Future_value = 0, totalDeposits = 0, rows = replicate years None\<rparr>)
       (\<lambda>g. Value (rows g))"

text \<open>
  \<open>main\<close>: the rows that are printed. The arrays have \<open>Years\<close> elements, so a number of years that is
  not positive is undefined behaviour; the documented ranges are not tested.
\<close>

definition printResults :: "(rat \<times> rat \<times> rat) option list \<Rightarrow> (rat \<times> rat \<times> rat) list outcome" where
  "printResults rs =
     (if None \<in> set rs then Undefined Uninitialised else Value (map the rs))"

definition future_value_main :: "(rat \<Rightarrow> rat) \<Rightarrow> string list \<Rightarrow> (rat \<times> rat \<times> rat) list outcome" where
  "future_value_main rnd argv =
     (if length argv < 4 then FailPrint
      else
        andthen (convert_to_doubles rnd (argv ! 1)) (\<lambda>Month.
        andthen (convert_to_doubles rnd (argv ! 2)) (\<lambda>Interest.
        andthen (convert_to_long (argv ! 3)) (\<lambda>Years.
        if Years \<le> 0 then Undefined Out_Of_Bounds
        else
          andthen (calculation rnd Month Interest (nat Years)) printResults))))"

section \<open>The growth in closed form\<close>

definition exact :: "rat \<Rightarrow> rat" where
  "exact x = x"

text \<open>The value of \<open>m\<close> monthly deposits of \<open>p\<close>, each with interest from the month it is made.\<close>

definition annuity :: "rat \<Rightarrow> rat \<Rightarrow> nat \<Rightarrow> rat" where
  "annuity p r m = p * (\<Sum>k = 1..m. (1 + r) ^ k)"

lemma annuity_Suc: "annuity p r (Suc m) = (annuity p r m + p) * (1 + r)"
proof -
  have "(\<Sum>k = 1..Suc m. (1 + r) ^ k) = (1 + r) + (\<Sum>k = 1..m. (1 + r) ^ k) * (1 + r)"
    by (induction m) (simp_all add: algebra_simps)
  then show ?thesis by (simp add: annuity_def algebra_simps)
qed

definition year_row :: "rat \<Rightarrow> rat \<Rightarrow> nat \<Rightarrow> rat \<times> rat \<times> rat" where
  "year_row p r y =
     (of_nat y, annuity p r (12 * y) - of_nat (12 * y) * p, annuity p r (12 * y))"

definition growth_after :: "rat \<Rightarrow> rat \<Rightarrow> nat \<Rightarrow> nat \<Rightarrow> growth" where
  "growth_after p r years m =
     \<lparr>Future_value = annuity p r m, totalDeposits = of_nat m * p,
      rows = map (\<lambda>y. if y < m div 12 then Some (year_row p r (Suc y)) else None) [0..<years]\<rparr>"

lemma month_round_step:
  assumes "m < 12 * years"
  shows "month_round exact p r (Suc m) (growth_after p r years m) = Value (growth_after p r years (Suc m))"
proof -
  have fv: "annuity p r m + p + (annuity p r m + p) * r = annuity p r (Suc m)"
    by (simp add: annuity_Suc algebra_simps)
  have dep: "of_nat m * p + p = of_nat (Suc m) * p" by (simp add: algebra_simps)
  show ?thesis
  proof (cases "Suc m mod 12 = 0")
    case True
    then have "Suc m = 12 * (Suc m div 12)" by auto
    then obtain y where y: "Suc m = 12 * Suc y" by (cases "Suc m div 12") auto
    then have d: "Suc m div 12 = Suc y" "m div 12 = y" by auto
    have ys: "y < years" using assms y by simp
    have "(map (\<lambda>z. if z < y then Some (year_row p r (Suc z)) else None) [0..<years])
        [y := Some (year_row p r (Suc y))] =
      map (\<lambda>z. if z < Suc y then Some (year_row p r (Suc z)) else None) [0..<years]"
      using ys by (intro nth_equalityI) (auto simp: nth_list_update)
    then show ?thesis
      using True d fv dep ys y
      by (simp add: month_round_def exact_def growth_after_def Let_def year_row_def algebra_simps)
  next
    case False
    then have "Suc m div 12 = m div 12" by (simp add: div_Suc)
    with False fv dep show ?thesis
      by (simp add: month_round_def exact_def growth_after_def Let_def algebra_simps)
  qed
qed

lemma months_closed_form:
  "m \<le> 12 * years \<Longrightarrow>
     foldo (month_round exact p r) [1..<m + 1] (growth_after p r years 0) = Value (growth_after p r years m)"
proof (induction m)
  case (Suc m)
  have "[1..<Suc m + 1] = [1..<m + 1] @ [Suc m]" by simp
  then show ?case using Suc month_round_step [of m years p r]
    by (simp add: foldo_append del: upt_Suc)
qed simp

lemma growth_after_0: "growth_after p r years 0 = \<lparr>Future_value = 0, totalDeposits = 0, rows = replicate years None\<rparr>"
  by (simp add: growth_after_def annuity_def map_replicate_const)

lemma calculation_closed_form:
  "calculation exact p interest years =
     Value (map (\<lambda>y. Some (year_row p (interest / 12 / 100) (Suc y))) [0..<years])"
proof -
  have "map (\<lambda>y. if y < years then Some (f y) else None) [0..<years] = map (\<lambda>y. Some (f y)) [0..<years]"
    for f :: "nat \<Rightarrow> rat \<times> rat \<times> rat" by simp
  then show ?thesis
    using months_closed_form [of "12 * years" years p "interest / 12 / 100"]
    by (simp add: calculation_def exact_def growth_after_0 del: upt_Suc) (simp add: growth_after_def)
qed



section \<open>What the input loop accepts\<close>

lemma validate_accepts_iff:
  "validate_double rnd (s @ [LF]) low high = Accepted v \<longleftrightarrow>
     (\<exists>x. scan_lf (s @ [LF]) = Some (x, length s) \<and> v = rnd x \<and> low \<le> v \<and> v \<le> high)"
  by (auto simp: validate_double_def split: option.splits if_splits)

definition accepts :: "(rat \<Rightarrow> rat) \<Rightarrow> rat \<Rightarrow> rat \<Rightarrow> string \<Rightarrow> bool" where
  "accepts rnd low high line \<longleftrightarrow> (case validate_double rnd line low high of Accepted v \<Rightarrow> True | _ \<Rightarrow> False)"

lemma input_double_find:
  "(case find (accepts rnd low high) lines of
      None \<Rightarrow> fst (input_double rnd prompt low high lines out) = -1 \<and>
              fst (snd (input_double rnd prompt low high lines out)) = None
    | Some line \<Rightarrow> fst (input_double rnd prompt low high lines out) = 0 \<and>
              validate_double rnd line low high =
                Accepted (the (fst (snd (input_double rnd prompt low high lines out)))) \<and>
              fst (snd (input_double rnd prompt low high lines out)) \<noteq> None)"
proof (induction lines arbitrary: out)
  case (Cons line lines)
  show ?case
  proof (cases "validate_double rnd line low high")
    case (Rejected err_msg)
    then show ?thesis
      using Cons.IH [of "out @ prompt @ '' '' @ err_msg @ [LF]"]
      by (simp add: accepts_def split: option.splits)
  qed (simp add: accepts_def)
qed simp

text \<open>
  The input loop returns the first acceptable line. With a line that is accepted, the function
  returns 0 and stores the value of the first such line, which lies between the bounds, the bounds
  included; without one it returns -1 when the input ends, and stores nothing. The function always
  returns.
\<close>
lemma input_double_first_valid:
  "(find (accepts rnd low high) lines = None \<longrightarrow>
      fst (input_double rnd prompt low high lines out) = -1 \<and>
      fst (snd (input_double rnd prompt low high lines out)) = None) \<and>
   (\<forall>line. find (accepts rnd low high) lines = Some line \<longrightarrow>
      (\<exists>v. fst (input_double rnd prompt low high lines out) = 0 \<and>
           fst (snd (input_double rnd prompt low high lines out)) = Some v \<and>
           validate_double rnd line low high = Accepted v \<and> low \<le> v \<and> v \<le> high))"
  using input_double_find [where rnd = rnd and low = low and high = high and lines = lines
      and prompt = prompt and out = out]
  by (auto simp: validate_double_def split: option.splits if_splits)

section \<open>What the future value program prints\<close>

text \<open>
  \<open>%.2f\<close> and \<open>%.0f\<close> print the decimal number with that many digits that is nearest to the value, the even one of two that
  are equally near.
\<close>

definition round_even :: "rat \<Rightarrow> int" where
  "round_even x =
     (let f = \<lfloor>x\<rfloor>; d = x - of_int f in
      if d < 1 / 2 then f else if d > 1 / 2 then f + 1 else if even f then f else f + 1)"

definition fixed :: "nat \<Rightarrow> rat \<Rightarrow> string" where
  "fixed d x =
     (let n = nat (round_even (\<bar>x\<bar> * 10 ^ d)); frac = show_nat (n mod 10 ^ d) in
      (if x < 0 then ''-'' else []) @ show_nat (n div 10 ^ d) @
      (if d = 0 then [] else ''.'' @ replicate (d - length frac) (CHR ''0'') @ frac))"

definition pad_right :: "nat \<Rightarrow> string \<Rightarrow> string" where
  "pad_right w s = s @ replicate (w - length s) (CHR '' '')"

definition table_row :: "rat \<times> rat \<times> rat \<Rightarrow> string" where
  "table_row r =
     (case r of (year, accumulated, value) \<Rightarrow>
        pad_right 6 (fixed 0 year) @ ''   '' @ pad_right 20 (fixed 2 accumulated) @ '' '' @ fixed 2 value @ [LF])"

definition table_lines :: "(rat \<times> rat \<times> rat) list \<Rightarrow> string list" where
  "table_lines rs =
     [[LF] @ ''Year    Accumulated Interest  Future Value'' @ [LF], ''===     ===================   ============'' @ [LF]] @
     map table_row rs"

definition heading :: "rat \<Rightarrow> rat \<Rightarrow> int \<Rightarrow> string list" where
  "heading Month Interest Years =
     [''Monthly Investment value: '' @ fixed 2 Month @ '' '' @ [LF], ''Interest Rate: '' @ fixed 2 Interest @ ''% '' @ [LF],
      ''Years: '' @ show_int Years @ '' '' @ [LF]]"

definition future_value_output :: "(rat \<Rightarrow> rat) \<Rightarrow> string list \<Rightarrow> string list outcome" where
  "future_value_output rnd argv =
     (if length argv < 4 then FailPrint
      else
        andthen (convert_to_doubles rnd (argv ! 1)) (\<lambda>Month.
        andthen (convert_to_doubles rnd (argv ! 2)) (\<lambda>Interest.
        andthen (convert_to_long (argv ! 3)) (\<lambda>Years.
        andthen (future_value_main rnd argv) (\<lambda>rs.
        Value (heading Month Interest Years @ table_lines rs))))))"

text \<open>What \<open>FailPrint\<close> prints before it leaves.\<close>

definition fail_lines :: "string \<Rightarrow> string list" where
  "fail_lines type =
     [''Error: Invalid Input for '' @ type @ '' '' @ [LF],
      ''Usage: ./future_value <Monthly-Investment> <Annual-Interest-Rate> <Number-of-Years>'' @ [LF],
      ''Monthly-Investment: Numeric value in range [1, 1000] representing the amount invested each month.'' @ [LF],
      ''Annual-Interest-Rate: Decimal value in range [1, 15] representing the annual interest rate.'' @ [LF],
      ''Number-of-Years: Integer value in range [1, 50] representing the duration of the investment in years.'' @ [LF]]"

lemma round_even_near: "\<bar>of_int (round_even x) - x\<bar> \<le> 1 / 2"
proof -
  have "of_int \<lfloor>x\<rfloor> \<le> x" "x < of_int \<lfloor>x\<rfloor> + 1" by linarith+
  then show ?thesis unfolding round_even_def Let_def by (simp split: if_split)
qed

lemma round_even_int: "round_even (of_int z) = z"
  by (simp add: round_even_def)

lemma fixed_year: "fixed 0 (of_nat n) = show_nat n"
proof -
  have "round_even (of_nat n) = int n" using round_even_int [of "int n"] by simp
  then show ?thesis by (simp add: fixed_def Let_def)
qed

text \<open>The program succeeds exactly when its table does, and prints one line for each row after its five lines of heading.\<close>

lemma main_converts:
  assumes "future_value_main rnd argv = Value rs"
  obtains Month Interest Years where "\<not> length argv < 4" "convert_to_doubles rnd (argv ! 1) = Value Month"
    "convert_to_doubles rnd (argv ! 2) = Value Interest" "convert_to_long (argv ! 3) = Value Years"
  using assms by (auto simp: future_value_main_def andthen_eq_Value FailPrint_def split: if_splits)

lemma future_value_output_rows:
  "(\<exists>ls. future_value_output rnd argv = Value ls) \<longleftrightarrow> (\<exists>rs. future_value_main rnd argv = Value rs)"
  "future_value_output rnd argv = Value ls \<Longrightarrow> \<exists>rs. future_value_main rnd argv = Value rs \<and> drop 5 ls = map table_row rs"
proof -
  have "\<exists>ls. future_value_output rnd argv = Value ls" if m: "future_value_main rnd argv = Value rs" for rs
    using m by (rule main_converts) (simp add: future_value_output_def m)
  moreover have fwd: "\<exists>rs. future_value_main rnd argv = Value rs \<and> drop 5 ls = map table_row rs"
    if "future_value_output rnd argv = Value ls" for ls
    using that by (auto simp: future_value_output_def andthen_eq_Value FailPrint_def heading_def table_lines_def split: if_splits)
  ultimately show "(\<exists>ls. future_value_output rnd argv = Value ls) \<longleftrightarrow> (\<exists>rs. future_value_main rnd argv = Value rs)" by blast
  show "future_value_output rnd argv = Value ls \<Longrightarrow> \<exists>rs. future_value_main rnd argv = Value rs \<and> drop 5 ls = map table_row rs"
    by (rule fwd)
qed

text \<open>The columns are aligned as long as the numbers fit.\<close>

lemma table_row_aligned:
  assumes "length (fixed 0 y) \<le> 6" and "length (fixed 2 a) \<le> 20"
  shows "drop 30 (table_row (y, a, v)) = fixed 2 v @ [LF]"
  using assms by (simp add: table_row_def pad_right_def)

end
