(* ===== verification/System_Info.thy ===== *)
theory System_Info
  imports Lab_Input
begin

text \<open>
  \<open>M5/system_info.c\<close>: the report on the system, from files under \<open>/proc\<close>. A file that cannot be opened
  is \<open>None\<close>. Every function gives what it prints on stdout; messages on stderr are left out. The
  fixed buffers of \<open>fgets\<close> cut long lines into pieces, which the loops then treat as lines.
\<close>

text \<open>\<open>printf("%-29s ...")\<close>.\<close>

definition column :: "string \<Rightarrow> string" where
  "column s = s @ replicate (29 - length s) (CHR '' '')"

definition get_hostname :: "string option \<Rightarrow> string" where
  "get_hostname file =
     (case file of
        None \<Rightarrow> []
      | Some s \<Rightarrow>
          (case fgets 256 s of
             None \<Rightarrow> []
           | Some (hostname, _) \<Rightarrow> column ''Current Host Name:'' @ '' '' @ hostname @ [LF]))"

text \<open>
  \<open>strchr(line, ':') + 2\<close>: the text after the colon and one more character. Without a colon the null
  pointer is advanced; with a colon at the very end the pointer passes the end of the string.
\<close>

definition after_colon :: "string \<Rightarrow> string outcome" where
  "after_colon line =
     (case strchr line (CHR '':'') of
        None \<Rightarrow> Undefined Null_Deref
      | Some p \<Rightarrow> if length p < 2 then Undefined Out_Of_Bounds else Value (drop 2 p))"

record cpu_info =
  model :: string
  cores :: int
  modelType :: string

definition cpu_line :: "string \<Rightarrow> cpu_info \<Rightarrow> cpu_info outcome" where
  "cpu_line line c =
     andthen (if strneq 10 line ''model name''
              then andthen (after_colon line) (\<lambda>t. Value (c\<lparr>model := cut_line t\<rparr>)) else Value c) (\<lambda>c.
     andthen (if strneq 9 line ''vendor_id''
              then andthen (after_colon line) (\<lambda>t. Value (c\<lparr>modelType := cut_line t\<rparr>)) else Value c) (\<lambda>c.
     if strneq 9 line ''cpu cores''
     then andthen (after_colon line) (\<lambda>t. Value (c\<lparr>cores := atoi t\<rparr>)) else Value c))"

definition get_cpu_info :: "string option \<Rightarrow> string outcome" where
  "get_cpu_info file =
     (case file of
        None \<Rightarrow> Value []
      | Some s \<Rightarrow>
          andthen (foldo cpu_line (fgets_all 256 s) \<lparr>model = [], cores = 0, modelType = []\<rparr>) (\<lambda>c.
          Value (column ''CPU Type:'' @ '' '' @ model c @ '' '' @ [LF] @
                 column ''CPU Cores:'' @ '' '' @ show_int (cores c) @ '' '' @ [LF] @
                 column ''CPU Model:'' @ '' '' @ modelType c @ '' '' @ [LF])))"

definition get_kernel_version :: "string option \<Rightarrow> string" where
  "get_kernel_version file =
     (case file of
        None \<Rightarrow> []
      | Some s \<Rightarrow>
          (case fgets 40 s of
             None \<Rightarrow> []
           | Some (version, _) \<Rightarrow> column ''Kernel Version:'' @ '' '' @ version @ '' '' @ [LF]))"

text \<open>
  The arithmetic of \<open>get_uptime\<close>. The conversion of a \<open>double\<close> to \<open>int\<close> drops the fraction and is
  undefined when the result does not fit; \<open>uptime / 86400\<close> is a division of doubles.
\<close>

definition to_int :: "rat \<Rightarrow> int outcome" where
  "to_int x = c_int (if x < 0 then \<lceil>x\<rceil> else \<lfloor>x\<rfloor>)"

definition uptime_parts :: "(rat \<Rightarrow> rat) \<Rightarrow> rat \<Rightarrow> (int \<times> int \<times> int \<times> int) outcome" where
  "uptime_parts rnd uptime =
     andthen (to_int (rnd (uptime / 86400))) (\<lambda>days.
     andthen (to_int uptime) (\<lambda>n.
     Value (days, (n smod 86400) sdiv 3600, (n smod 3600) sdiv 60, n smod 60)))"

definition get_uptime :: "(rat \<Rightarrow> rat) \<Rightarrow> string option \<Rightarrow> string outcome" where
  "get_uptime rnd file =
     (case file of
        None \<Rightarrow> Value []
      | Some s \<Rightarrow>
          (case fgets 256 s of
             None \<Rightarrow> Value []
           | Some (line, _) \<Rightarrow>
               (case scan_lf line of
                  None \<Rightarrow> Value []
                | Some (uptime, _) \<Rightarrow>
                    andthen (uptime_parts rnd (rnd uptime)) (\<lambda>(days, hours, minutes, seconds).
                    Value (column ''Uptime:'' @ '' '' @ show_int days @ '' : '' @ show_int hours @ '' :'' @
                           show_int minutes @ '' : '' @ show_int seconds @ '' '' @ [LF])))))"

text \<open>\<open>%ld\<close> of \<open>sscanf\<close>.\<close>

definition scan_ld :: "string \<Rightarrow> (int \<times> string) option" where
  "scan_ld s =
     (let (neg, u) = split_sign (dropWhile is_space s) in
      if takeWhile is_digit u = [] then None else case strtol s of (z, rest, _) \<Rightarrow> Some (z, rest))"

fun scan_lds :: "nat \<Rightarrow> string \<Rightarrow> int list option" where
  "scan_lds 0 s = Some []"
| "scan_lds (Suc n) s =
     (case scan_ld s of None \<Rightarrow> None | Some (z, rest) \<Rightarrow> map_option ((#) z) (scan_lds n rest))"

text \<open>
  \<open>get_cpu_usage\<close> stops at the first line that starts with "cpu ". The label has 44 bytes, but such a
  line gives it three characters.
\<close>

definition get_cpu_usage :: "string option \<Rightarrow> string" where
  "get_cpu_usage file =
     (case file of
        None \<Rightarrow> []
      | Some s \<Rightarrow>
          (case find (\<lambda>line. strneq 4 line ''cpu '') (fgets_all 256 s) of
             None \<Rightarrow> []
           | Some line \<Rightarrow>
               (case scan_s line of
                  None \<Rightarrow> []
                | Some (label, rest) \<Rightarrow>
                    (case scan_lds 4 rest of
                       Some [user, nice, system, idle] \<Rightarrow>
                         column ''Time Spent in User Mode:'' @ '' '' @ show_int user @ '' ms'' @ [LF] @
                         column ''Time Spent in System Mode:'' @ '' '' @ show_int system @ '' ms'' @ [LF] @
                         column ''Time Spent in Idle Mode:'' @ '' '' @ show_int idle @ '' ms'' @ [LF]
                     | _ \<Rightarrow> []))))"

text \<open>
  \<open>sscanf(line, "MemTotal: %ld", &v)\<close>: the literal must match before the number is converted; a space
  in the format matches any white space. Only 11 characters are compared for \<open>MemAvailable\<close>.
\<close>

definition scan_labelled :: "string \<Rightarrow> string \<Rightarrow> int \<Rightarrow> int" where
  "scan_labelled label line old =
     (if strneq (length label) line label \<and> length label \<le> length line
      then case scan_ld (drop (length label) line) of None \<Rightarrow> old | Some (z, _) \<Rightarrow> z
      else old)"

definition mem_line :: "int \<times> int \<Rightarrow> string \<Rightarrow> int \<times> int" where
  "mem_line m line =
     (case m of (mem_total, mem_available) \<Rightarrow>
        (if strneq 8 line ''MemTotal'' then scan_labelled ''MemTotal:'' line mem_total else mem_total,
         if strneq 11 line ''MemAvailable'' then scan_labelled ''MemAvailable:'' line mem_available
         else mem_available))"

definition get_memory_info :: "string option \<Rightarrow> string" where
  "get_memory_info file =
     (case file of
        None \<Rightarrow> []
      | Some s \<Rightarrow>
          (case foldl mem_line (0, 0) (fgets_all 44 s) of
             (mem_total, mem_available) \<Rightarrow>
               column ''Memory Configured:'' @ '' '' @ show_int mem_total @ '' KB '' @ [LF] @
               column ''Memory Available:'' @ '' '' @ show_int mem_available @ '' KB '' @ [LF]))"

record proc_files =
  proc_hostname :: "string option"
  proc_cpuinfo :: "string option"
  proc_version :: "string option"
  proc_meminfo :: "string option"
  proc_uptime :: "string option"
  proc_stat :: "string option"

definition system_info_main :: "(rat \<Rightarrow> rat) \<Rightarrow> proc_files \<Rightarrow> string outcome" where
  "system_info_main rnd p =
     andthen (get_cpu_info (proc_cpuinfo p)) (\<lambda>cpu.
     andthen (get_uptime rnd (proc_uptime p)) (\<lambda>up.
     Value (''------------------------ '' @ [LF] @ ''System Information '' @ [LF] @
            ''------------------------ '' @ [LF] @ get_hostname (proc_hostname p) @ cpu @
            get_kernel_version (proc_version p) @ get_memory_info (proc_meminfo p) @ up @
            get_cpu_usage (proc_stat p))))"

section \<open>Properties\<close>

lemma floor_day:
  fixes x :: rat
  shows "\<lfloor>x / 86400\<rfloor> = \<lfloor>x\<rfloor> div 86400"
proof -
  define q where "q = \<lfloor>x\<rfloor> div 86400"
  have "86400 * q \<le> \<lfloor>x\<rfloor>" "\<lfloor>x\<rfloor> + 1 \<le> 86400 * (q + 1)" unfolding q_def by simp_all
  then have "(of_int (86400 * q) :: rat) \<le> of_int \<lfloor>x\<rfloor>"
    "(of_int (\<lfloor>x\<rfloor> + 1) :: rat) \<le> of_int (86400 * (q + 1))"
    by (simp_all only: of_int_le_iff)
  then have "86400 * (of_int q :: rat) \<le> of_int \<lfloor>x\<rfloor>"
    "(of_int \<lfloor>x\<rfloor> :: rat) + 1 \<le> 86400 * (of_int q + 1)"
    by simp_all
  moreover have "of_int \<lfloor>x\<rfloor> \<le> x" "x < of_int \<lfloor>x\<rfloor> + 1" by linarith+
  ultimately have "86400 * of_int q \<le> x" "x < 86400 * (of_int q + 1)"
    using order_trans order_less_le_trans by blast+
  then have "of_int q \<le> x / 86400" "x / 86400 < of_int q + 1"
    by (simp_all add: pos_le_divide_eq pos_divide_less_eq mult.commute)
  then show ?thesis unfolding q_def by (rule floor_unique)
qed

lemma uptime_parts_exact:
  assumes "0 \<le> x" and "\<lfloor>x\<rfloor> \<le> INT_MAX"
  shows "uptime_parts exact x =
    Value (\<lfloor>x\<rfloor> div 86400, \<lfloor>x\<rfloor> mod 86400 div 3600, \<lfloor>x\<rfloor> mod 3600 div 60, \<lfloor>x\<rfloor> mod 60)"
proof -
  have n: "0 \<le> \<lfloor>x\<rfloor>" using assms(1) by simp
  have "\<lfloor>x\<rfloor> div 86400 \<le> \<lfloor>x\<rfloor>" using zdiv_mono2 [of "\<lfloor>x\<rfloor>" 1 86400] n by simp
  then have "is_int (\<lfloor>x\<rfloor> div 86400)" "is_int \<lfloor>x\<rfloor>" using n assms(2)
    by (auto simp: is_int_def INT_MIN_def pos_imp_zdiv_nonneg_iff intro: order_trans [of _ 0])
  then show ?thesis using n assms(1)
    by (simp add: uptime_parts_def to_int_def exact_def floor_day smod_pos sdiv_pos)
qed

lemma clock_sum:
  "a * 86400 + b = (n :: int) \<Longrightarrow> c * 3600 + d = b \<Longrightarrow> e * 60 + f = d \<Longrightarrow>
     a * 86400 + c * 3600 + e * 60 + f = n"
  by simp

text \<open>
  The report of the uptime. In exact arithmetic, for every uptime that is not negative and whose
  whole seconds fit in an \<open>int\<close>, the four numbers that are printed are the days, hours, minutes and
  seconds of the uptime: hours below 24, minutes and seconds below 60, and together they make up the
  whole seconds.
\<close>
lemma uptime_parts_correct:
  assumes "0 \<le> x" and "\<lfloor>x\<rfloor> \<le> INT_MAX"
  shows "\<exists>days hours minutes seconds.
    uptime_parts exact x = Value (days, hours, minutes, seconds) \<and>
    0 \<le> days \<and> 0 \<le> hours \<and> hours < 24 \<and> 0 \<le> minutes \<and> minutes < 60 \<and> 0 \<le> seconds \<and> seconds < 60 \<and>
    days * 86400 + hours * 3600 + minutes * 60 + seconds = \<lfloor>x\<rfloor>"
proof -
  let ?n = "\<lfloor>x\<rfloor>"
  have n: "0 \<le> ?n" using assms(1) by simp
  have m: "?n mod 86400 mod 3600 = ?n mod 3600" "?n mod 3600 mod 60 = ?n mod 60"
    by (simp_all add: mod_mod_cancel)
  have "?n div 86400 * 86400 + ?n mod 86400 div 3600 * 3600 + ?n mod 3600 div 60 * 60 + ?n mod 60 = ?n"
    by (rule clock_sum [OF div_mult_mod_eq div_mult_mod_eq])
      (simp only: m div_mult_mod_eq flip: m(2))
  moreover have "?n mod 86400 div 3600 < 24" "?n mod 3600 div 60 < 60"
    by (simp_all add: div_less_iff_less_mult)
  moreover have "0 \<le> ?n div 86400" using n by (simp add: pos_imp_zdiv_nonneg_iff)
  moreover have "0 \<le> ?n mod 86400 div 3600" "0 \<le> ?n mod 3600 div 60"
    by (simp_all add: pos_imp_zdiv_nonneg_iff)
  moreover have "0 \<le> ?n mod 60" "?n mod 60 < 60" by simp_all
  ultimately show ?thesis using uptime_parts_exact [OF assms] by blast
qed

text \<open>A file of well-formed lines: the report has the values of its last processor.\<close>

lemma after_colon_field: "CHR '':'' \<notin> set k \<Longrightarrow> after_colon (k @ '': '' @ v) = Value v"
  using strchr_append [of "CHR '':''" k] by (simp add: after_colon_def)

lemma get_cpu_info_no_colon:
  "get_cpu_info (Some (''model name x'' @ [LF])) = Undefined Null_Deref"
  by (simp add: get_cpu_info_def fgets_all.simps fgets_def first_line_def Let_def cpu_line_def
      strneq_def after_colon_def)

end
