(* ===== verification/Echo_Sockets.thy ===== *)
theory Echo_Sockets
  imports Http_Proxy
begin

text \<open>
  The client and server pairs of \<open>Testing_server\<close>: \<open>server.c\<close> and \<open>client.c\<close>, and the corrected
  \<open>server_solution.c\<close> and \<open>client_solution.c\<close>. What the system answers is in a record; a program's result
  is what it prints, what it sends, and the descriptors it leaves open.
\<close>

record server_answers =
  srv_socket :: int
  srv_setsockopt :: int
  srv_bind :: int
  srv_listen :: int
  srv_accept :: int
  srv_recv :: "string option"   \<comment> \<open>the bytes that arrive, \<open>None\<close> when \<open>recv\<close> fails\<close>
  srv_send :: int

record session =
  printed :: string
  wire :: string
  left_open :: "int set"

definition reply :: string where
  "reply = ''I got your message''"

lemma length_reply: "length reply = 18"
  by (simp add: reply_def)

text \<open>The part from the accepted connection on, which both servers share but for closing.\<close>

definition serve :: "server_answers \<Rightarrow> bool \<Rightarrow> session outcome" where
  "serve a closing =
     (case srv_recv a of
        None \<Rightarrow> Exit 1
      | Some bs \<Rightarrow>
          let buffer = c_string (take 255 bs) in
          if srv_send a < 0 then Exit 1
          else Value \<lparr>printed = ''Here is the message: '' @ buffer @ [LF],
                      wire = take (nat (srv_send a)) reply,
                      left_open = (if closing then {} else {srv_socket a, srv_accept a})\<rparr>)"

definition server_main :: "server_answers \<Rightarrow> session outcome" where
  "server_main a =
     (if srv_socket a < 0 then Exit 1
      else if srv_bind a < 0 then Exit 1
      else if srv_accept a < 0 then Exit 1
      else serve a False)"

definition server_solution_main :: "server_answers \<Rightarrow> session outcome" where
  "server_solution_main a =
     (if srv_setsockopt a \<noteq> 0 then Exit EXIT_FAILURE
      else if srv_socket a < 0 then Exit EXIT_FAILURE
      else if srv_bind a < 0 then Exit EXIT_FAILURE
      else if srv_listen a < 0 then Exit EXIT_FAILURE
      else if srv_accept a < 0 then Exit EXIT_FAILURE
      else serve a True)"

record client_answers =
  cl_stdin :: string
  cl_write :: int
  cl_read :: "string option"

text \<open>
  The exchange of both clients: a line of at most 254 characters from stdin (nothing at the end of the
  input) is written, and the answer is printed.
\<close>

definition typed :: "client_answers \<Rightarrow> string" where
  "typed a = (case fgets 255 (cl_stdin a) of None \<Rightarrow> [] | Some (line, _) \<Rightarrow> c_string line)"

definition exchange :: "client_answers \<Rightarrow> int set \<Rightarrow> session outcome" where
  "exchange a open =
     (if cl_write a < 0 then Exit 1
      else case cl_read a of
        None \<Rightarrow> Exit 1
      | Some bs \<Rightarrow>
          Value \<lparr>printed = ''Please enter the message: '' @ c_string (take 255 bs) @ [LF],
                 wire = take (nat (cl_write a)) (typed a), left_open = open\<rparr>)"

text \<open>\<open>client.c\<close>: one address, from \<open>gethostbyname\<close>; the messages about usage and host exit with 0.\<close>

definition client_main ::
    "int \<Rightarrow> (string \<Rightarrow> int option) \<Rightarrow> client_answers \<Rightarrow> string list \<Rightarrow> session outcome" where
  "client_main socket_ret gethostbyname_connect a argv =
     (if length argv < 3 then Exit 0
      else if socket_ret < 0 then Exit 1
      else case gethostbyname_connect (argv ! 1) of
        None \<Rightarrow> Exit 0
      | Some c \<Rightarrow> if c < 0 then Exit 1 else exchange a {socket_ret})"

text \<open>
  \<open>client_solution.c\<close>: the addresses of \<open>getaddrinfo\<close> in turn, with the loop that the proxy also has;
  unlike the proxy it tests whether the loop ran out of addresses.
\<close>

definition client_solution_main ::
    "(string \<Rightarrow> string \<Rightarrow> (int \<times> int) list option) \<Rightarrow> client_answers \<Rightarrow> string list \<Rightarrow> session outcome" where
  "client_solution_main resolve a argv =
     (if length argv < 3 then Exit EXIT_FAILURE
      else case resolve (argv ! 1) (argv ! 2) of
        None \<Rightarrow> Exit EXIT_FAILURE
      | Some as \<Rightarrow>
          (case connect_loop as None \<lparr>open_fds = {}, sent = []\<rparr> of
             (sockfd, connected, w) \<Rightarrow>
               if \<not> connected then Exit EXIT_FAILURE
               else case sockfd of
                 None \<Rightarrow> Undefined Uninitialised
               | Some fd \<Rightarrow> exchange a (open_fds (close_fd fd w))))"

text \<open>\<open>print_addrinfo\<close>: the addresses by family, as text already; \<open>None\<close> for an unknown family.\<close>

datatype address = IPv4 string | IPv6 string | Family int

fun show_address :: "address \<Rightarrow> string" where
  "show_address (IPv4 ip) = ''  IPv4: '' @ ip @ [LF]"
| "show_address (IPv6 ip) = ''  IPv6: '' @ ip @ [LF]"
| "show_address (Family f) = ''Unknown address family: '' @ show_int f @ [LF]"

definition print_addrinfo :: "address list \<Rightarrow> string" where
  "print_addrinfo as = concat (map show_address as)"

section \<open>One exchange\<close>

definition server_ready :: "server_answers \<Rightarrow> bool" where
  "server_ready a \<longleftrightarrow>
     0 \<le> srv_socket a \<and> srv_setsockopt a = 0 \<and> 0 \<le> srv_bind a \<and> 0 \<le> srv_listen a \<and>
     0 \<le> srv_accept a \<and> 18 \<le> srv_send a"

lemma typed_line:
  assumes "LF \<notin> set l" and "length l \<le> 253" and "no_null l" and "cl_stdin a = l @ LF # rest"
  shows "typed a = l @ [LF]"
proof -
  have "no_null (l @ [LF])" using assms(3) by (simp add: no_null_def)
  then show ?thesis using assms fgets_short_line [of l 255 rest] by (simp add: typed_def c_string_id)
qed

text \<open>
  One exchange between the corrected client and the corrected server. When the server is set up,
  the client reaches one of its addresses, and what one side writes is what the other side reads, a
  typed line of up to 253 characters is printed by the server and the server's answer is printed by
  the client; both programs end with success and with all their sockets closed.
\<close>
lemma solution_exchange:
  assumes "server_ready s" and "length argv = 3" and "resolve (argv ! 1) (argv ! 2) = Some as"
    and "find accepting as = Some t"
    and "LF \<notin> set l" and "length l \<le> 253" and "no_null l" and "cl_stdin c = l @ LF # rest"
    and "254 \<le> cl_write c" and "srv_recv s = Some (take (nat (cl_write c)) (typed c))"
    and "cl_read c = Some (take (nat (srv_send s)) reply)"
  shows "server_solution_main s =
      Value \<lparr>printed = ''Here is the message: '' @ l @ [LF, LF], wire = reply, left_open = {}\<rparr> \<and>
    client_solution_main resolve c argv =
      Value \<lparr>printed = ''Please enter the message: '' @ reply @ [LF], wire = l @ [LF], left_open = {}\<rparr>"
proof -
  have ty: "typed c = l @ [LF]" using assms(5-8) by (rule typed_line)
  have nn: "no_null (l @ [LF])" using assms(7) by (simp add: no_null_def)
  have tk: "take (nat (cl_write c)) (l @ [LF]) = l @ [LF]" using assms(6,9) by simp
  have rp: "take (nat (srv_send s)) reply = reply"
    using assms(1) length_reply by (auto simp: server_ready_def nat_le_iff le_nat_iff)
  have cs: "c_string (take 255 reply) = reply" by (simp add: reply_def c_string_def)
  have "c_string (take 255 (l @ [LF])) = l @ [LF]" using nn assms(6) by (simp add: c_string_id)
  then have "server_solution_main s =
      Value \<lparr>printed = ''Here is the message: '' @ l @ [LF, LF], wire = reply, left_open = {}\<rparr>"
    using assms(1,10) ty tk rp by (simp add: server_solution_main_def serve_def server_ready_def)
  moreover have "connect_loop as None \<lparr>open_fds = {}, sent = []\<rparr> =
      (Some (fst t), True, \<lparr>open_fds = {fst t}, sent = []\<rparr>)"
    using connect_loop_accepted [OF assms(4), of "\<lparr>open_fds = {}, sent = []\<rparr>" None]
    by (simp add: fresh_fds_def)
  then have "client_solution_main resolve c argv =
      Value \<lparr>printed = ''Please enter the message: '' @ reply @ [LF], wire = l @ [LF], left_open = {}\<rparr>"
    using assms(2,3,9,11) ty tk rp cs
    by (simp add: client_solution_main_def exchange_def close_fd_def)
  ultimately show ?thesis by blast
qed

definition demo_server :: server_answers where
  "demo_server =
     \<lparr>srv_socket = 3, srv_setsockopt = 0, srv_bind = 0, srv_listen = 0, srv_accept = 4,
      srv_recv = Some (''hi'' @ [LF]), srv_send = 18\<rparr>"

definition demo_client :: client_answers where
  "demo_client = \<lparr>cl_stdin = ''hi'' @ [LF], cl_write = 254, cl_read = Some reply\<rparr>"

text \<open>
  When every address refuses, the corrected client reports it and exits, where the proxy would go on
  with a closed descriptor.
\<close>

lemma client_solution_refused:
  assumes "3 \<le> length argv" and "resolve (argv ! 1) (argv ! 2) = Some as"
    and "list_all (\<lambda>a. \<not> accepting a) as"
  shows "client_solution_main resolve a argv = Exit EXIT_FAILURE"
  using assms connect_loop_refused [OF assms(3), of "\<lparr>open_fds = {}, sent = []\<rparr>" None]
  by (simp add: client_solution_main_def fresh_fds_def)

end
