(* ===== verification/Credentials.thy ===== *)
theory Credentials
  imports Common
begin

text \<open>
  The programs on process credentials: \<open>M6/setuid_demo.c\<close>, and of the book \<open>ch7/savedset_demo.c\<close>,
  \<open>ch7/query_creds.c\<close>, \<open>ch7/rootsh_hack1.c\<close>, \<open>ch7/rootsh_hack2.c\<close> and
  \<open>solutions_to_assgn/ch8/assgn1.c\<close>. The calls that change the user ids follow their documented rules
  for a process without capabilities other than those of user 0.
\<close>

record creds =
  ruid :: int
  euid :: int
  suid :: int
  rgid :: int
  egid :: int

definition privileged :: "creds \<Rightarrow> bool" where
  "privileged c \<longleftrightarrow> euid c = 0"

definition may_become :: "creds \<Rightarrow> int \<Rightarrow> bool" where
  "may_become c u \<longleftrightarrow> privileged c \<or> u = ruid c \<or> u = euid c \<or> u = suid c"

text \<open>The calls; \<open>None\<close> when they return -1.\<close>

definition seteuid :: "int \<Rightarrow> creds \<Rightarrow> creds option" where
  "seteuid u c = (if may_become c u then Some (c\<lparr>euid := u\<rparr>) else None)"

definition setuid :: "int \<Rightarrow> creds \<Rightarrow> creds option" where
  "setuid u c =
     (if privileged c then Some (c\<lparr>ruid := u, euid := u, suid := u\<rparr>)
      else if u = ruid c \<or> u = suid c then Some (c\<lparr>euid := u\<rparr>) else None)"

definition setresuid :: "int \<Rightarrow> int \<Rightarrow> int \<Rightarrow> creds \<Rightarrow> creds option" where
  "setresuid r e s c =
     (if may_become c r \<and> may_become c e \<and> may_become c s
      then Some (c\<lparr>ruid := r, euid := e, suid := s\<rparr>) else None)"

text \<open>A run: the credentials and what has been printed; a failing call leaves the process.\<close>

type_synonym run = "creds \<times> string"

definition show_line :: "string \<Rightarrow> run \<Rightarrow> run" where
  "show_line s r = (fst r, snd r @ s @ [LF])"

definition PRINT_IDS :: "string \<Rightarrow> run \<Rightarrow> run" where
  "PRINT_IDS stage r =
     show_line (stage @ '' RUID: '' @ show_int (ruid (fst r)) @ '', EUID: '' @ show_int (euid (fst r)) @
                '', SUID: '' @ show_int (suid (fst r))) r"

definition or_fail :: "(creds \<Rightarrow> creds option) \<Rightarrow> run \<Rightarrow> run outcome" where
  "or_fail call r =
     (case call (fst r) of None \<Rightarrow> Exit EXIT_FAILURE | Some c \<Rightarrow> Value (c, snd r))"

definition setuid_demo_main :: "creds \<Rightarrow> run outcome" where
  "setuid_demo_main c =
     andthen (or_fail (seteuid 1000) (PRINT_IDS ''T0: Running with root privileges: '' (c, []))) (\<lambda>r.
     andthen (or_fail (seteuid 0) (PRINT_IDS ''T1: Dropped privileges temporarily: '' r)) (\<lambda>r.
     andthen (or_fail (seteuid 1000) (PRINT_IDS ''T2: Restored Privileges:'' r)) (\<lambda>r.
     let r = show_line ''T4: Permanetly dropping privileges: '' (PRINT_IDS ''T3: Dropped Privileges again:'' r);
         uid = ruid (fst r) in
     andthen (or_fail (setresuid uid uid uid) r) (\<lambda>r.
     andthen (or_fail (setuid 0) (show_line ''T5: Attmepting to restore privileges: ''
                (PRINT_IDS ''T4: After Permanent drop:'' r))) (\<lambda>r.
     Value (PRINT_IDS ''T5: After Permanent drop:'' r))))))"

definition SHOW_CREDS :: "run \<Rightarrow> run" where
  "SHOW_CREDS r =
     show_line (''RGID='' @ show_int (rgid (fst r)) @ '' EGID='' @ show_int (egid (fst r)))
       (show_line (''RUID='' @ show_int (ruid (fst r)) @ '' EUID='' @ show_int (euid (fst r))) r)"

definition savedset_demo_main :: "creds \<Rightarrow> run outcome" where
  "savedset_demo_main c =
     (let r = SHOW_CREDS (show_line ''t0: Init:'' (c, [])) in
      if euid (fst r) \<noteq> 0 then FATAL
      else
        let r = show_line '' Ok, we're effectively running as root! (EUID==0)'' r;
            saved_setuid = euid (fst r);
            r = show_line ''t1: Becoming my original self!'' r in
        andthen (or_fail (seteuid (ruid (fst r))) r) (\<lambda>r.
        let r = show_line ''t2: Switching to privileged state now...'' (SHOW_CREDS r) in
        andthen (or_fail (seteuid saved_setuid) r) (\<lambda>r.
        let r = SHOW_CREDS r in
        if euid (fst r) \<noteq> 0 then FATAL
        else
          let r = show_line ''t3: Switching back to unprivileged state now ...''
                    (show_line '' Yup, we're root again!'' r) in
          andthen (or_fail (seteuid (ruid (fst r))) r) (\<lambda>r. Value (SHOW_CREDS r)))))"

definition query_creds_main :: "string \<Rightarrow> creds \<Rightarrow> run" where
  "query_creds_main argv0 c =
     (let r = SHOW_CREDS (c, []) in
      if euid c = 0 then show_line (argv0 @ '' now effectively running as root! ...'') r else r)"

text \<open>The program that the solutions to chapter 7 have under the same name does the same.\<close>

definition solution_query_creds_main :: "string \<Rightarrow> creds \<Rightarrow> run" where
  "solution_query_creds_main argv0 c =
     (let r = SHOW_CREDS (c, []) in
      if euid c = 0 then show_line (argv0 @ '' now effectively running as root! ...'') r else r)"

lemma query_creds_same: "solution_query_creds_main = query_creds_main"
  by (intro ext) (simp add: solution_query_creds_main_def query_creds_main_def)

text \<open>\<open>chown_ok\<close> says whether the process may change the owner of its own file.\<close>

definition assgn1_main :: "bool \<Rightarrow> string \<Rightarrow> creds \<Rightarrow> run outcome" where
  "assgn1_main chown_ok argv0 c =
     (if chown_ok then Value (query_creds_main argv0 c) else FATAL)"

text \<open>The credentials with which the two hacks start a shell.\<close>

definition rootsh_hack1_shell :: "creds \<Rightarrow> creds" where
  "rootsh_hack1_shell c = c"

definition rootsh_hack2_shell :: "creds \<Rightarrow> creds" where
  "rootsh_hack2_shell c = (case setuid 0 c of None \<Rightarrow> c | Some c' \<Rightarrow> c')"

section \<open>Permanent and temporary dropping\<close>

text \<open>Everything a process can reach by calling the three functions, with any arguments.\<close>

inductive can_reach :: "creds \<Rightarrow> creds \<Rightarrow> bool" where
  here: "can_reach c c"
| by_seteuid: "can_reach c d \<Longrightarrow> seteuid u d = Some e \<Longrightarrow> can_reach c e"
| by_setuid: "can_reach c d \<Longrightarrow> setuid u d = Some e \<Longrightarrow> can_reach c e"
| by_setresuid: "can_reach c d \<Longrightarrow> setresuid r u s d = Some e \<Longrightarrow> can_reach c e"

definition user_ids :: "creds \<Rightarrow> int set" where
  "user_ids c = {ruid c, euid c, suid c}"

lemma unprivileged_closed:
  assumes "0 \<notin> user_ids d"
  shows "seteuid u d = Some e \<Longrightarrow> user_ids e \<subseteq> user_ids d"
    and "setuid u d = Some e \<Longrightarrow> user_ids e \<subseteq> user_ids d"
    and "setresuid r u s d = Some e \<Longrightarrow> user_ids e \<subseteq> user_ids d"
  using assms
  by (auto simp: user_ids_def seteuid_def setuid_def setresuid_def may_become_def privileged_def
      split: if_splits)

lemma can_reach_ids: "can_reach c d \<Longrightarrow> 0 \<notin> user_ids c \<Longrightarrow> user_ids d \<subseteq> user_ids c"
proof (induction rule: can_reach.induct)
  case (by_seteuid c d u e)
  then show ?case using unprivileged_closed(1) [of d u e] by blast
next
  case (by_setuid c d u e)
  then show ?case using unprivileged_closed(2) [of d u e] by blast
next
  case (by_setresuid c d r u s e)
  then show ?case using unprivileged_closed(3) [of d r u s e] by blast
qed simp

lemmas creds_defs = seteuid_def setuid_def setresuid_def may_become_def privileged_def

text \<open>The credentials at the point T4 of the demo.\<close>

definition after_drop :: "creds \<Rightarrow> creds" where
  "after_drop c = c\<lparr>euid := ruid c, suid := ruid c\<rparr>"

text \<open>
  C15: the drop at T4 is permanent for a real user other than root. Started set-user-id root by a user
  whose id is not 0, the demo leaves with failure at T5, because after the call at T4 no sequence of
  \<open>seteuid\<close>, \<open>setuid\<close> and \<open>setresuid\<close> calls can give any user id the value 0 again. Started by root
  itself, T4 drops nothing and the demo ends with success, as root.
\<close>
theorem setuid_demo_permanent:
  assumes "euid c = 0" and "suid c = 0"
  shows "(ruid c \<noteq> 0 \<longrightarrow>
      setuid_demo_main c = Exit EXIT_FAILURE \<and>
      setresuid (ruid c) (ruid c) (ruid c) (c\<lparr>euid := 1000\<rparr>) = Some (after_drop c) \<and>
      (\<forall>d. can_reach (after_drop c) d \<longrightarrow> 0 \<notin> user_ids d)) \<and>
    (ruid c = 0 \<longrightarrow> (\<exists>out. setuid_demo_main c = Value (c, out)))"
proof -
  have reach: "0 \<notin> user_ids d" if "ruid c \<noteq> 0" "can_reach (after_drop c) d" for d
    using can_reach_ids [OF that(2)] that(1) by (auto simp: user_ids_def after_drop_def)
  have drop: "setresuid (ruid c) (ruid c) (ruid c) (c\<lparr>euid := 1000\<rparr>) = Some (after_drop c)"
    by (simp add: creds_defs after_drop_def)
  have run: "setuid_demo_main c = Exit EXIT_FAILURE" if "ruid c \<noteq> 0"
    using assms that
    by (simp add: setuid_demo_main_def or_fail_def creds_defs PRINT_IDS_def show_line_def Let_def)
  have root: "\<exists>out. setuid_demo_main c = Value (c, out)" if "ruid c = 0"
    using assms that
    by (simp add: setuid_demo_main_def or_fail_def creds_defs PRINT_IDS_def show_line_def Let_def)
  from reach drop run root show ?thesis by blast
qed

definition student :: creds where
  "student = \<lparr>ruid = 1001, euid = 0, suid = 0, rgid = 1001, egid = 1001\<rparr>"

theorem setuid_demo_permanent_witness:
  "setuid_demo_main student = Exit 1"
  using setuid_demo_permanent [of student] by (simp add: student_def)

text \<open>
  The saved id makes dropping temporary: the demo of chapter 7 ends as the real user, and may still
  become root.
\<close>

lemma savedset_demo_temporary:
  assumes "euid c = 0" and "suid c = 0"
  shows "\<exists>out. savedset_demo_main c = Value (c\<lparr>euid := ruid c\<rparr>, out) \<and>
    can_reach (c\<lparr>euid := ruid c\<rparr>) c"
proof -
  have "can_reach (c\<lparr>euid := ruid c\<rparr>) (c\<lparr>euid := 0\<rparr>)"
    by (rule by_seteuid [OF here, of 0]) (use assms in \<open>simp add: creds_defs\<close>)
  moreover have "c\<lparr>euid := 0\<rparr> = c" using assms(1) by simp
  ultimately show ?thesis using assms
    by (simp add: savedset_demo_main_def or_fail_def creds_defs SHOW_CREDS_def show_line_def Let_def)
qed

lemma rootsh_hack2_root: "euid c = 0 \<Longrightarrow> user_ids (rootsh_hack2_shell c) = {0}"
  by (simp add: rootsh_hack2_shell_def setuid_def privileged_def user_ids_def)

end
