(* ===== verification/Signal_Pair.thy ===== *)
theory Signal_Pair
  imports Common
begin

text \<open>
  The two processes of \<open>M8/parent.c\<close> and \<open>M8/child.c\<close>, which talk through queued signals. A step is one
  round of the child's loop, a signal the user sends, or the delivery of a signal that is pending; the
  handlers run whole. The handlers for \<open>SIGTSTP\<close> and \<open>SIGTERM\<close> are installed from structures whose flags
  are never set; they are taken to be 0.
\<close>

datatype signal = SIGUSR1 int | SIGUSR2 int | SIGCHLD int | SIGTSTP | SIGTERM

text \<open>
  A standard signal that is pending already is not queued a second time; any pending signal may be
  delivered next.
\<close>

fun signo :: "signal \<Rightarrow> nat" where
  "signo (SIGUSR1 v) = 10"
| "signo (SIGUSR2 v) = 12"
| "signo (SIGCHLD v) = 17"
| "signo SIGTSTP = 20"
| "signo SIGTERM = 15"

definition post :: "signal \<Rightarrow> signal list \<Rightarrow> signal list" where
  "post sig pending = (if signo sig \<in> signo ` set pending then pending else pending @ [sig])"

datatype process = Running | Exited int | Crashed

record pair =
  child :: process
  parent :: process
  child_sum :: int
  parent_sum :: int
  to_child :: "signal list"
  to_parent :: "signal list"

definition pair_init :: pair where
  "pair_init = \<lparr>child = Running, parent = Running, child_sum = 0, parent_sum = 0, to_child = [], to_parent = []\<rparr>"

text \<open>
  \<open>sigqueue\<close> fails when the process it is for is gone; the handlers then leave with failure.
\<close>

definition send_parent :: "signal \<Rightarrow> pair \<Rightarrow> pair option" where
  "send_parent sig s = (if parent s = Running then Some (s\<lparr>to_parent := post sig (to_parent s)\<rparr>) else None)"

definition send_child :: "signal \<Rightarrow> pair \<Rightarrow> pair option" where
  "send_child sig s = (if child s = Running then Some (s\<lparr>to_child := post sig (to_child s)\<rparr>) else None)"

definition SigStop :: "pair \<Rightarrow> pair" where
  "SigStop s =
     (case send_parent (SIGUSR1 (child_sum s)) s of
        None \<Rightarrow> s\<lparr>child := Exited 1\<rparr>
      | Some s \<Rightarrow> s)"

definition SigTerm :: "pair \<Rightarrow> pair" where
  "SigTerm s =
     (case send_parent (SIGCHLD 1) s of
        None \<Rightarrow> s\<lparr>child := Exited 1\<rparr>
      | Some s \<Rightarrow> s\<lparr>child := Exited 0\<rparr>)"

text \<open>
  The child's handlers; \<open>SIGUSR2\<close> only prints. A signal with no handler of its own ends the process
  when its default action does.
\<close>

fun child_handler :: "signal \<Rightarrow> pair \<Rightarrow> pair" where
  "child_handler SIGTSTP s = SigStop s"
| "child_handler SIGTERM s = SigTerm s"
| "child_handler (SIGUSR2 v) s = s"
| "child_handler (SIGUSR1 v) s = s\<lparr>child := Crashed\<rparr>"
| "child_handler (SIGCHLD v) s = s"

text \<open>
  The parent's handlers. \<open>SigUser1\<close> stores the sum and answers with \<open>SIGUSR2\<close>. \<open>SigChild\<close> was installed
  without \<open>SA_SIGINFO\<close> but reads its second argument, which then does not point to a \<open>siginfo_t\<close>.
\<close>

definition SigUser1 :: "int \<Rightarrow> pair \<Rightarrow> pair" where
  "SigUser1 v s =
     (let s = s\<lparr>parent_sum := v\<rparr> in
      case send_child (SIGUSR2 1) s of
        None \<Rightarrow> s\<lparr>parent := Exited EXIT_FAILURE\<rparr>
      | Some s \<Rightarrow> s)"

definition SA_SIGINFO :: int where "SA_SIGINFO = 4"
definition SA_NOCLDSTOP :: int where "SA_NOCLDSTOP = 1"

definition sigchld_flags :: int where
  "sigchld_flags = SA_NOCLDSTOP"

definition SigChild :: "pair \<Rightarrow> pair" where
  "SigChild s =
     (if sigchld_flags = SA_SIGINFO + SA_NOCLDSTOP \<or> sigchld_flags = SA_SIGINFO
      then s\<lparr>parent := Exited 0\<rparr> else s\<lparr>parent := Crashed\<rparr>)"

fun parent_handler :: "signal \<Rightarrow> pair \<Rightarrow> pair" where
  "parent_handler (SIGUSR1 v) s = SigUser1 v s"
| "parent_handler (SIGCHLD v) s = SigChild s"
| "parent_handler (SIGUSR2 v) s = s\<lparr>parent := Crashed\<rparr>"
| "parent_handler SIGTSTP s = s"
| "parent_handler SIGTERM s = s\<lparr>parent := Crashed\<rparr>"

text \<open>
  The steps. The child adds 5 to its sum in every round, which is defined as long as it fits in an
  \<open>int\<close>. When the child is gone the kernel sends \<open>SIGCHLD\<close> itself, too.
\<close>

inductive pair_step :: "pair \<Rightarrow> pair \<Rightarrow> bool" where
  child_round: "child s = Running \<Longrightarrow> is_int (child_sum s + 5) \<Longrightarrow>
    pair_step s (s\<lparr>child_sum := child_sum s + 5\<rparr>)"
| user_signal: "sig = SIGTSTP \<or> sig = SIGTERM \<Longrightarrow> child s = Running \<Longrightarrow>
    pair_step s (s\<lparr>to_child := post sig (to_child s)\<rparr>)"
| child_delivery: "child s = Running \<Longrightarrow> sig \<in> set (to_child s) \<Longrightarrow>
    pair_step s (child_handler sig (s\<lparr>to_child := remove1 sig (to_child s)\<rparr>))"
| parent_delivery: "parent s = Running \<Longrightarrow> sig \<in> set (to_parent s) \<Longrightarrow>
    pair_step s (parent_handler sig (s\<lparr>to_parent := remove1 sig (to_parent s)\<rparr>))"
| kernel_sigchld: "child s = Exited n \<Longrightarrow> parent s = Running \<Longrightarrow>
    pair_step s (s\<lparr>to_parent := post (SIGCHLD n) (to_parent s)\<rparr>)"

inductive pair_reachable :: "pair \<Rightarrow> bool" where
  start: "pair_reachable pair_init"
| step: "pair_reachable s \<Longrightarrow> pair_step s t \<Longrightarrow> pair_reachable t"

inductive_cases pair_stepE: "pair_step s t"

section \<open>What the parent learns\<close>

text \<open>The sums in flight are values that the child's sum has had.\<close>

definition past_sum :: "int \<Rightarrow> int \<Rightarrow> bool" where
  "past_sum now v \<longleftrightarrow> 0 \<le> v \<and> v \<le> now \<and> v mod 5 = 0"

fun sig_ok :: "int \<Rightarrow> signal \<Rightarrow> bool" where
  "sig_ok now (SIGUSR1 v) = past_sum now v"
| "sig_ok now (SIGCHLD v) = True"
| "sig_ok now _ = False"

definition pair_inv :: "pair \<Rightarrow> bool" where
  "pair_inv s \<longleftrightarrow>
     past_sum (child_sum s) (child_sum s) \<and> past_sum (child_sum s) (parent_sum s) \<and>
     list_all (sig_ok (child_sum s)) (to_parent s) \<and>
     list_all (\<lambda>sig. sig = SIGTSTP \<or> sig = SIGTERM \<or> sig = SIGUSR2 1) (to_child s) \<and>
     child s \<noteq> Crashed"

lemma past_sum_mono: "past_sum a v \<Longrightarrow> a \<le> b \<Longrightarrow> past_sum b v"
  by (auto simp: past_sum_def)

lemma sig_ok_mono: "sig_ok a sig \<Longrightarrow> a \<le> b \<Longrightarrow> sig_ok b sig"
  by (cases sig) (auto intro: past_sum_mono)

lemma list_all_post: "list_all P pending \<Longrightarrow> P sig \<Longrightarrow> list_all P (post sig pending)"
  by (simp add: post_def)

lemma list_all_remove1: "list_all P xs \<Longrightarrow> list_all P (remove1 x xs)"
  by (induction xs) auto

lemmas pair_handlers = SigStop_def SigTerm_def SigUser1_def SigChild_def send_parent_def send_child_def Let_def

lemma pair_inv_round:
  assumes "pair_inv s"
  shows "pair_inv (s\<lparr>child_sum := child_sum s + 5\<rparr>)"
proof -
  have "list_all (sig_ok (child_sum s + 5)) (to_parent s)"
    using assms by (auto simp: pair_inv_def list_all_iff intro: sig_ok_mono)
  then show ?thesis using assms by (auto simp: pair_inv_def past_sum_def)
qed

lemma pair_inv_step: "pair_step s t \<Longrightarrow> pair_inv s \<Longrightarrow> pair_inv t"
proof (induction rule: pair_step.induct)
  case (child_round s)
  then show ?case by (simp add: pair_inv_round)
next
  case (child_delivery s sig)
  then have "sig = SIGTSTP \<or> sig = SIGTERM \<or> sig = SIGUSR2 1"
    by (auto simp: pair_inv_def list_all_iff)
  with child_delivery show ?case
    by (auto simp: pair_inv_def pair_handlers list_all_post list_all_remove1 split: if_splits)
next
  case (parent_delivery s sig)
  then have "sig_ok (child_sum s) sig" by (auto simp: pair_inv_def list_all_iff)
  with parent_delivery show ?case
    by (cases sig) (auto simp: pair_inv_def pair_handlers list_all_post list_all_remove1 split: if_splits)
qed (auto simp: pair_inv_def list_all_post)

lemma pair_inv_reachable: "pair_reachable s \<Longrightarrow> pair_inv s"
  by (induction rule: pair_reachable.induct)
    (simp add: pair_inv_def pair_init_def past_sum_def, rule pair_inv_step)


definition after_round :: pair where
  "after_round = pair_init\<lparr>child_sum := 5\<rparr>"

lemma after_round_reachable: "pair_reachable after_round"
proof -
  have "pair_step pair_init (pair_init\<lparr>child_sum := child_sum pair_init + 5\<rparr>)"
    by (rule child_round) (simp_all add: pair_init_def int_range_defs)
  then show ?thesis using start step by (simp add: after_round_def pair_init_def)
qed


text \<open>
  When the child has ended, the handler of the parent that is meant to end it with success reads an
  argument that it was not given.
\<close>

lemma parent_crashes:
  assumes "parent s = Running" and "SIGCHLD v \<in> set (to_parent s)"
  shows "\<exists>t. pair_step s t \<and> parent t = Crashed"
  using parent_delivery [OF assms]
  by (intro exI) (auto simp: SigChild_def sigchld_flags_def SA_SIGINFO_def SA_NOCLDSTOP_def)

section \<open>Starting the pair\<close>

text \<open>
  The two \<open>main\<close>: the answers of \<open>sigaction\<close> and \<open>fork\<close>. The child tests the third answer against 1,
  which \<open>sigaction\<close> never returns, so a failure there goes unnoticed.
\<close>

definition child_main_setup :: "int \<Rightarrow> int \<Rightarrow> int \<Rightarrow> unit outcome" where
  "child_main_setup tstp usr2 term =
     (if tstp = -1 then Exit EXIT_FAILURE
      else if usr2 = -1 then Exit EXIT_FAILURE
      else if term = 1 then Exit EXIT_FAILURE
      else Value ())"

datatype role = Parent_Loop | Child_Program

definition parent_main :: "int \<Rightarrow> int \<Rightarrow> int \<Rightarrow> int \<Rightarrow> role outcome" where
  "parent_main chld usr1 fork_ret execl_ret =
     (if chld = -1 then Exit EXIT_FAILURE
      else if usr1 = -1 then Exit EXIT_FAILURE
      else if fork_ret = -1 then Exit 1
      else if fork_ret = 0 then (if execl_ret = -1 then Exit EXIT_FAILURE else Value Child_Program)
      else Value Parent_Loop)"

lemma child_misses_sigterm_failure: "child_main_setup 0 0 (-1) = Value ()"
  by (simp add: child_main_setup_def)

end
