(* ===== verification/Critical_Section.thy ===== *)
theory Critical_Section
  imports Prelude
begin

text \<open>
  Threads that share a mutex: each runs a list of actions, one at a time, in any order the scheduler
  likes. When every thread's actions are one critical section, whatever they do, a run that finishes
  has the effect of running the sections one after the other in some order, and no run gets stuck.
\<close>

datatype 'v act = Lock | Unlock | Do "'v \<Rightarrow> 'v"

record 'v machine =
  holder :: "nat option"
  progs :: "'v act list list"
  shared :: 'v

definition advance :: "nat \<Rightarrow> 'v act list \<Rightarrow> 'v machine \<Rightarrow> 'v machine" where
  "advance t p m = m\<lparr>progs := (progs m)[t := p]\<rparr>"

text \<open>A turn of thread \<open>t\<close>; a thread that waits for the mutex, or has ended, does nothing.\<close>

definition turn :: "'v machine \<Rightarrow> nat \<Rightarrow> 'v machine" where
  "turn m t =
     (if t < length (progs m) then
        (case progs m ! t of
           [] \<Rightarrow> m
         | Lock # p \<Rightarrow> if holder m = None then (advance t p m)\<lparr>holder := Some t\<rparr> else m
         | Unlock # p \<Rightarrow> (advance t p m)\<lparr>holder := None\<rparr>
         | Do f # p \<Rightarrow> (advance t p m)\<lparr>shared := f (shared m)\<rparr>)
      else m)"

definition run_turns :: "'v machine \<Rightarrow> nat list \<Rightarrow> 'v machine" where
  "run_turns = foldl turn"

definition finished :: "'v machine \<Rightarrow> bool" where
  "finished m \<longleftrightarrow> list_all (\<lambda>p. p = []) (progs m)"

definition protected_section :: "('v \<Rightarrow> 'v) list \<Rightarrow> 'v act list" where
  "protected_section fs = Lock # map Do fs @ [Unlock]"

definition bare_section :: "('v \<Rightarrow> 'v) list \<Rightarrow> 'v act list" where
  "bare_section fs = map Do fs"

definition start_threads :: "(('v \<Rightarrow> 'v) list \<Rightarrow> 'v act list) \<Rightarrow> ('v \<Rightarrow> 'v) list list \<Rightarrow> 'v \<Rightarrow> 'v machine" where
  "start_threads section fss v = \<lparr>holder = None, progs = map section fss, shared = v\<rparr>"

text \<open>The effect of a whole section, and of sections one after the other.\<close>

definition apply_all :: "('v \<Rightarrow> 'v) list \<Rightarrow> 'v \<Rightarrow> 'v" where
  "apply_all fs v = foldl (\<lambda>v f. f v) v fs"

definition serial :: "('v \<Rightarrow> 'v) list list \<Rightarrow> 'v \<Rightarrow> nat list \<Rightarrow> 'v" where
  "serial fss v order = foldl (\<lambda>v t. apply_all (fss ! t) v) v order"

lemma apply_all_snoc: "apply_all (fs @ [f]) v = f (apply_all fs v)"
  by (simp add: apply_all_def)

lemma serial_snoc: "serial fss v (order @ [t]) = apply_all (fss ! t) (serial fss v order)"
  by (simp add: serial_def)

text \<open>
  The state between two turns: \<open>order\<close> are the threads that have left their section. Nobody is inside,
  or thread \<open>h\<close> has done the first \<open>k\<close> actions of its section.
\<close>

definition others_ok :: "('v \<Rightarrow> 'v) list list \<Rightarrow> nat list \<Rightarrow> nat option \<Rightarrow> 'v act list list \<Rightarrow> bool" where
  "others_ok fss order h ps \<longleftrightarrow>
     length ps = length fss \<and> distinct order \<and> set order \<subseteq> {..<length fss} \<and>
     (\<forall>t < length fss. Some t \<noteq> h \<longrightarrow>
        ps ! t = (if t \<in> set order then [] else protected_section (fss ! t)))"

inductive serial_inv :: "('v \<Rightarrow> 'v) list list \<Rightarrow> 'v \<Rightarrow> nat list \<Rightarrow> 'v machine \<Rightarrow> bool" where
  nobody: "holder m = None \<Longrightarrow> others_ok fss order None (progs m) \<Longrightarrow>
    shared m = serial fss v order \<Longrightarrow> serial_inv fss v order m"
| inside: "holder m = Some h \<Longrightarrow> h < length fss \<Longrightarrow> h \<notin> set order \<Longrightarrow>
    others_ok fss order (Some h) (progs m) \<Longrightarrow> k \<le> length (fss ! h) \<Longrightarrow>
    progs m ! h = map Do (drop k (fss ! h)) @ [Unlock] \<Longrightarrow>
    shared m = apply_all (take k (fss ! h)) (serial fss v order) \<Longrightarrow> serial_inv fss v order m"

lemma others_ok_enter:
  "others_ok fss order None ps \<Longrightarrow> others_ok fss order (Some t) (ps[t := p])"
  by (auto simp: others_ok_def)

lemma others_ok_move:
  "others_ok fss order (Some t) ps \<Longrightarrow> others_ok fss order (Some t) (ps[t := p])"
  by (auto simp: others_ok_def)

lemma others_ok_leave:
  "others_ok fss order (Some t) ps \<Longrightarrow> t < length fss \<Longrightarrow> t \<notin> set order \<Longrightarrow>
     others_ok fss (order @ [t]) None (ps[t := []])"
  by (auto simp: others_ok_def nth_list_update)

lemma serial_inv_outside:
  assumes "serial_inv fss v order m" and "holder m \<noteq> Some t" and "t < length fss"
  shows "\<exists>order'. serial_inv fss v order' (turn m t)"
  using assms(1)
proof cases
  case nobody
  show ?thesis
  proof (cases "t \<in> set order")
    case True
    then have "progs m ! t = []" using nobody(2) assms(3) by (simp add: others_ok_def)
    then have "turn m t = m" by (simp add: turn_def)
    then show ?thesis using assms(1) by auto
  next
    case False
    then have p: "progs m ! t = protected_section (fss ! t)" "t < length (progs m)"
      using nobody(2) assms(3) by (auto simp: others_ok_def)
    have "serial_inv fss v order (turn m t)"
    proof (rule serial_inv.inside [where h = t and k = 0])
      show "others_ok fss order (Some t) (progs (turn m t))"
        using others_ok_enter [OF nobody(2)] nobody(1) p by (simp add: turn_def protected_section_def advance_def)
    qed (use p nobody(1,3) False assms(3) in
        \<open>auto simp: turn_def protected_section_def advance_def apply_all_def\<close>)
    then show ?thesis by blast
  qed
next
  case (inside h k)
  then have "progs m ! t = [] \<or> progs m ! t = protected_section (fss ! t)"
    using assms(2,3) by (auto simp: others_ok_def)
  then have "turn m t = m" using inside(1) by (auto simp: turn_def protected_section_def)
  then show ?thesis using assms(1) by auto
qed

lemma serial_inv_inside:
  assumes "serial_inv fss v order m" and "holder m = Some t"
  shows "\<exists>order'. serial_inv fss v order' (turn m t)"
  using assms(1)
proof cases
  case nobody
  then show ?thesis using assms(2) by simp
next
  case (inside h k)
  then have h: "h = t" using assms(2) by simp
  have len: "t < length (progs m)" using inside h by (simp add: others_ok_def)
  show ?thesis
  proof (cases "k = length (fss ! t)")
    case True
    then have p: "progs m ! t = [Unlock]" using inside h by simp
    have "serial_inv fss v (order @ [t]) (turn m t)"
    proof (rule serial_inv.nobody)
      show "others_ok fss (order @ [t]) None (progs (turn m t))"
        using others_ok_leave [of fss order t "progs m"] inside h len p by (simp add: turn_def advance_def)
    qed (use p len inside h True in \<open>auto simp: turn_def advance_def serial_snoc\<close>)
    then show ?thesis by blast
  next
    case False
    then have k: "k < length (fss ! t)" using inside h by simp
    then have d: "drop k (fss ! t) = fss ! t ! k # drop (Suc k) (fss ! t)"
      by (simp add: Cons_nth_drop_Suc)
    then have p: "progs m ! t = Do (fss ! t ! k) # map Do (drop (Suc k) (fss ! t)) @ [Unlock]"
      using inside h by simp
    have "serial_inv fss v order (turn m t)"
    proof (rule serial_inv.inside [where h = t and k = "Suc k"])
      show "others_ok fss order (Some t) (progs (turn m t))"
        using others_ok_move [of fss order t "progs m"] inside h len p by (simp add: turn_def advance_def)
      show "shared (turn m t) = apply_all (take (Suc k) (fss ! t)) (serial fss v order)"
        using inside(7) h len p k by (simp add: turn_def advance_def take_Suc_conv_app_nth apply_all_snoc)
    qed (use p len inside h k in \<open>auto simp: turn_def advance_def\<close>)
    then show ?thesis by blast
  qed
qed

lemma serial_inv_length: "serial_inv fss v order m \<Longrightarrow> length (progs m) = length fss"
  by (erule serial_inv.cases) (auto simp: others_ok_def)

lemma serial_inv_turn:
  assumes "serial_inv fss v order m"
  shows "\<exists>order'. serial_inv fss v order' (turn m t)"
proof (cases "t < length fss")
  case True
  show ?thesis
  proof (cases "holder m = Some t")
    case True
    with assms show ?thesis by (rule serial_inv_inside)
  next
    case False
    from assms False \<open>t < length fss\<close> show ?thesis by (rule serial_inv_outside)
  qed
next
  case False
  then have "turn m t = m" using serial_inv_length [OF assms] by (simp add: turn_def)
  then show ?thesis using assms by auto
qed

lemma serial_inv_start: "serial_inv fss v [] (start_threads protected_section fss v)"
  by (rule serial_inv.nobody) (auto simp: start_threads_def others_ok_def serial_def)

lemma serial_inv_run: "\<exists>order. serial_inv fss v order (run_turns (start_threads protected_section fss v) ts)"
proof (induction ts rule: rev_induct)
  case Nil
  show ?case using serial_inv_start [of fss v] by (auto simp: run_turns_def)
next
  case (snoc t ts)
  then obtain order where "serial_inv fss v order (run_turns (start_threads protected_section fss v) ts)"
    by blast
  from serial_inv_turn [OF this, of t] show ?case by (simp add: run_turns_def)
qed

text \<open>The two results that the programs use.\<close>

lemma sections_serialise:
  assumes "finished (run_turns (start_threads protected_section fss v) ts)"
  shows "\<exists>order. distinct order \<and> set order = {..<length fss} \<and>
    shared (run_turns (start_threads protected_section fss v) ts) = serial fss v order"
proof -
  let ?m = "run_turns (start_threads protected_section fss v) ts"
  obtain order where inv: "serial_inv fss v order ?m" using serial_inv_run [of fss v ts] by blast
  have ended: "progs ?m ! t = []" if "t < length fss" for t
    using assms that serial_inv_length [OF inv] by (simp add: finished_def list_all_length)
  from inv show ?thesis
  proof cases
    case nobody
    have "t \<in> set order" if "t < length fss" for t
      using ended [OF that] nobody(2) that
      by (auto simp: others_ok_def protected_section_def split: if_splits)
    then have "set order = {..<length fss}" using nobody(2) by (auto simp: others_ok_def)
    then show ?thesis using nobody(2,3) by (auto simp: others_ok_def)
  next
    case (inside h k)
    then show ?thesis using ended [of h] by simp
  qed
qed

lemma sections_not_stuck:
  assumes "\<not> finished (run_turns (start_threads protected_section fss v) ts)"
  shows "\<exists>t < length fss. turn (run_turns (start_threads protected_section fss v) ts) t \<noteq>
    run_turns (start_threads protected_section fss v) ts"
proof -
  let ?m = "run_turns (start_threads protected_section fss v) ts"
  obtain order where inv: "serial_inv fss v order ?m" using serial_inv_run [of fss v ts] by blast
  have changed: "turn m t \<noteq> m"
    if "t < length (progs m)" "progs m ! t = a # p" "a = Lock \<longrightarrow> holder m = None" for m :: "'a machine" and t a p
  proof -
    have "progs (turn m t) = (progs m)[t := p]"
      using that by (cases a) (simp_all add: turn_def advance_def)
    then have "progs (turn m t) ! t \<noteq> progs m ! t" using that by simp
    then show ?thesis by auto
  qed
  from inv show ?thesis
  proof cases
    case nobody
    obtain t where t: "t < length (progs ?m)" "progs ?m ! t \<noteq> []"
      using assms by (auto simp: finished_def list_all_length)
    then have "progs ?m ! t = Lock # map Do (fss ! t) @ [Unlock]"
      using nobody by (auto simp: others_ok_def protected_section_def split: if_splits)
    then show ?thesis using changed [OF t(1)] nobody(1) t(1) serial_inv_length [OF inv] by auto
  next
    case (inside h k)
    then have "\<exists>a p. progs ?m ! h = a # p \<and> a \<noteq> Lock"
      by (cases "drop k (fss ! h)") auto
    then show ?thesis using changed [of h ?m] inside serial_inv_length [OF inv] by metis
  qed
qed

section \<open>Programs whose result does not depend on the order\<close>

text \<open>
  What a program has to show about its sections run one after the other to know its result under every
  schedule with the mutex.
\<close>

locale order_free =
  fixes fss :: "('v \<Rightarrow> 'v) list list" and v :: 'v and good :: "'v \<Rightarrow> bool"
  assumes every_order: "distinct order \<Longrightarrow> set order = {..<length fss} \<Longrightarrow> good (serial fss v order)"
begin

lemma result:
  "finished (run_turns (start_threads protected_section fss v) ts) \<Longrightarrow>
     good (shared (run_turns (start_threads protected_section fss v) ts))"
  using sections_serialise [of fss v ts] every_order by metis

lemma progress:
  "\<not> finished (run_turns (start_threads protected_section fss v) ts) \<Longrightarrow>
     \<exists>t < length fss. turn (run_turns (start_threads protected_section fss v) ts) t \<noteq>
       run_turns (start_threads protected_section fss v) ts"
  by (rule sections_not_stuck)

end

text \<open>The orders of two and of three threads.\<close>

lemma orders_2: "distinct order \<Longrightarrow> set order = {..<2} \<Longrightarrow> order = [0, 1] \<or> order = [1, 0 :: nat]"
proof -
  assume d: "distinct order" and s: "set order = {..<2}"
  then have "length order = 2" using distinct_card [OF d] by simp
  then obtain a b where "order = [a, b]" by (auto simp: length_Suc_conv numeral_2_eq_2)
  moreover have "{..<2 :: nat} = {0, 1}" by auto
  ultimately show ?thesis using d s by (auto simp: doubleton_eq_iff)
qed

end
