(* ===== verification/Locking_Demos.thy ===== *)
theory Locking_Demos
  imports Critical_Section Common
begin

text \<open>
  The programs of the book on locking: \<open>solutions_to_assgn/ch15/bankacc.c\<close>, \<open>ch15/facto.c\<close>,
  \<open>ch15/mutex1.c\<close> and \<open>ch15/cv_simple.c\<close>. The workers are cut into the loads and stores of the shared
  variables, with a register for each thread, so that without the mutex their actions interleave.
\<close>

section \<open>The choice of the lock\<close>

text \<open>The argument that all three programs take: \<open>Some True\<close> to lock; otherwise they print a usage.\<close>

definition lock_arg :: "string list \<Rightarrow> bool option" where
  "lock_arg argv =
     (if length argv \<noteq> 2 then None
      else if atoi (argv ! 1) = 0 then Some False
      else if atoi (argv ! 1) = 1 then Some True
      else None)"

text \<open>
  The part of \<open>main\<close> that the three programs share: initialise the mutex when locking, create the
  threads, join them, destroy the mutex. \<open>inits\<close>, \<open>creates\<close> and \<open>destroys\<close> are the answers of the calls;
  \<open>ts\<close> is the schedule up to the last join.
\<close>

definition locking_main ::
    "bool \<Rightarrow> int \<Rightarrow> (nat \<Rightarrow> int) \<Rightarrow> int \<Rightarrow> ('v \<Rightarrow> 'v) list list \<Rightarrow> 'v \<Rightarrow> nat list \<Rightarrow> 'v machine outcome" where
  "locking_main locking init_ret creates destroy_ret workers v ts =
     (if locking \<and> init_ret \<noteq> 0 then FATAL
      else if list_ex (\<lambda>i. creates i \<noteq> 0) [0..<length workers] then FATAL
      else if locking \<and> destroy_ret \<noteq> 0 then FATAL
      else Value (run_turns (start_threads (if locking then protected_section else bare_section) workers v) ts))"

section \<open>The bank account\<close>

record bank =
  gBalance :: int
  reg :: "nat \<Rightarrow> int"      \<comment> \<open>the register each thread works in\<close>
  refused :: "nat \<Rightarrow> bool" \<comment> \<open>the withdrawal of the thread has been refused\<close>
  bank_said :: "string list"

definition gCB_MinCredit :: int where "gCB_MinCredit = 500"
definition gCB_HiBalance :: int where "gCB_HiBalance = 1000000"

definition opening_state :: bank where
  "opening_state = \<lparr>gBalance = 12000, reg = (\<lambda>t. 0), refused = (\<lambda>t. False), bank_said = []\<rparr>"

definition load_balance :: "nat \<Rightarrow> bank \<Rightarrow> bank" where
  "load_balance t b = b\<lparr>reg := (reg b)(t := gBalance b)\<rparr>"

definition store_balance :: "nat \<Rightarrow> int \<Rightarrow> bank \<Rightarrow> bank" where
  "store_balance t amt b = b\<lparr>gBalance := reg b t + amt\<rparr>"

definition bank_say :: "string \<Rightarrow> bank \<Rightarrow> bank" where
  "bank_say l b = b\<lparr>bank_said := bank_said b @ [l]\<rparr>"

definition deposit_line :: "nat \<Rightarrow> int \<Rightarrow> string" where
  "deposit_line thrdnum amt = '' [thrd#'' @ pad 2 (show_nat thrdnum) @ '' +] Deposit      : '' @ pad 12 (show_int amt) @ [LF]"

definition withdrawal_line :: "nat \<Rightarrow> int \<Rightarrow> string" where
  "withdrawal_line thrdnum amt = '' [thrd#'' @ pad 2 (show_nat thrdnum) @ '' -] Withdrawal   : '' @ pad 12 (show_int amt) @ [LF]"

definition balance_line :: "nat \<Rightarrow> int \<Rightarrow> string" where
  "balance_line thrdnum bal = '' [thrd#'' @ pad 2 (show_nat thrdnum) @ ''] Current Balance: '' @ pad 12 (show_int bal) @ [LF]"

definition high_line :: string where
  "high_line = ''*** Circuit Breaker *** High Balance'' @ [LF]"

definition low_line :: string where
  "low_line = ''*** Circuit Breaker *** Min Credit hit! Failing withdawal...'' @ [LF]"

definition check_high :: "bank \<Rightarrow> bank" where
  "check_high b = (if gBalance b \<ge> gCB_HiBalance then bank_say high_line b else b)"

definition say_balance :: "nat \<Rightarrow> bank \<Rightarrow> bank" where
  "say_balance thrdnum b = bank_say (balance_line thrdnum (gBalance b)) b"

text \<open>The functions of thread \<open>t\<close>, which prints itself as number \<open>t + 1\<close>.\<close>

definition deposit :: "nat \<Rightarrow> int \<Rightarrow> (bank \<Rightarrow> bank) list" where
  "deposit t amt =
     (if amt \<le> 0 then []
      else [bank_say (deposit_line (t + 1) amt), load_balance t, store_balance t amt, check_high, say_balance (t + 1)])"

definition check_credit :: "nat \<Rightarrow> int \<Rightarrow> bank \<Rightarrow> bank" where
  "check_credit t amt b =
     (let no = gBalance b - amt < gCB_MinCredit; b = b\<lparr>refused := (refused b)(t := no)\<rparr> in
      if no then bank_say low_line b else b)"

definition unless_refused :: "nat \<Rightarrow> (bank \<Rightarrow> bank) \<Rightarrow> bank \<Rightarrow> bank" where
  "unless_refused t f b = (if refused b t then b else f b)"

definition withdraw :: "nat \<Rightarrow> int \<Rightarrow> (bank \<Rightarrow> bank) list" where
  "withdraw t amt =
     check_credit t amt #
     map (unless_refused t)
       [bank_say (withdrawal_line (t + 1) amt), load_balance t, store_balance t (- amt), say_balance (t + 1)]"

definition bank_worker :: "nat \<Rightarrow> (bank \<Rightarrow> bank) list" where
  "bank_worker i =
     (let threadnum = i + 1 in
      if threadnum = 1 then deposit i 3000 @ withdraw i 250
      else if threadnum = 2 then withdraw i 9000 @ deposit i 1000
      else [])"

definition bank_workers :: "(bank \<Rightarrow> bank) list list" where
  "bank_workers = map bank_worker [0..<2]"

definition bankacc_main ::
    "int \<Rightarrow> (nat \<Rightarrow> int) \<Rightarrow> int \<Rightarrow> nat list \<Rightarrow> string list \<Rightarrow> bank machine outcome" where
  "bankacc_main init_ret creates destroy_ret ts argv =
     (case lock_arg argv of
        None \<Rightarrow> Exit EXIT_FAILURE
      | Some locking \<Rightarrow> locking_main locking init_ret creates destroy_ret bank_workers opening_state ts)"

lemmas bank_defs = bank_worker_def deposit_def withdraw_def load_balance_def store_balance_def
  check_credit_def unless_refused_def gCB_MinCredit_def gCB_HiBalance_def opening_state_def bank_say_def check_high_def say_balance_def

text \<open>What the account prints when the first thread goes first, and when the second does.\<close>

definition first_statement :: "string list" where
  "first_statement =
     [deposit_line 1 3000, balance_line 1 15000, withdrawal_line 1 250, balance_line 1 14750,
      withdrawal_line 2 9000, balance_line 2 5750, deposit_line 2 1000, balance_line 2 6750]"

definition second_statement :: "string list" where
  "second_statement =
     [withdrawal_line 2 9000, balance_line 2 3000, deposit_line 2 1000, balance_line 2 4000,
      deposit_line 1 3000, balance_line 1 7000, withdrawal_line 1 250, balance_line 1 6750]"

lemma bank_serial:
  "gBalance (serial bank_workers opening_state [0, 1]) = 6750"
  "gBalance (serial bank_workers opening_state [1, 0]) = 6750"
  "bank_said (serial bank_workers opening_state [0, 1]) = first_statement"
  "bank_said (serial bank_workers opening_state [1, 0]) = second_statement"
  by (simp_all add: serial_def apply_all_def bank_workers_def upt_rec bank_defs Let_def first_statement_def second_statement_def
      numeral_2_eq_2)

interpretation bank: order_free bank_workers opening_state
  "\<lambda>b. gBalance b = 6750 \<and> bank_said b \<in> {first_statement, second_statement}"
proof
  fix order :: "nat list"
  assume "distinct order" and "set order = {..<length bank_workers}"
  then have "order = [0, 1] \<or> order = [1, 0]" by (intro orders_2) (simp_all add: bank_workers_def)
  then show "gBalance (serial bank_workers opening_state order) = 6750 \<and>
      bank_said (serial bank_workers opening_state order) \<in> {first_statement, second_statement}"
    using bank_serial by auto
qed

lemma atoi_01: "atoi ''0'' = 0" "atoi ''1'' = 1"
  by code_simp+

text \<open>
  C13: the bank account with the mutex. When locking is chosen and no call fails, every schedule of the
  two workers keeps the program out of deadlock, and every schedule that runs them to their end closes
  the account at 12000 + 3000 - 250 - 9000 + 1000 = 6750, whoever goes first, after printing the lines of
  one thread followed by those of the other, with the balances of that order.
\<close>
theorem bankacc_locked:
  assumes "bankacc_main 0 (\<lambda>i. 0) 0 ts [''bankacc'', ''1''] = Value m"
  shows "(finished m \<longrightarrow> gBalance (shared m) = 6750 \<and> bank_said (shared m) \<in> {first_statement, second_statement}) \<and>
    (\<not> finished m \<longrightarrow> (\<exists>t < 2. turn m t \<noteq> m))"
proof -
  have m: "m = run_turns (start_threads protected_section bank_workers opening_state) ts"
    using assms by (simp add: bankacc_main_def lock_arg_def locking_main_def atoi_01 list_ex_iff)
  have len: "length bank_workers = 2" by (simp add: bank_workers_def)
  show ?thesis using bank.result [of ts] bank.progress [of ts] unfolding m len by blast
qed

definition bank_turns :: "nat list" where
  "bank_turns = replicate 12 1 @ replicate 12 0"

lemma bank_turns_run:
  "bankacc_main 0 (\<lambda>i. 0) 0 bank_turns [''bankacc'', ''1''] =
     Value (run_turns (start_threads protected_section bank_workers opening_state) bank_turns)"
  by (simp add: bankacc_main_def lock_arg_def locking_main_def atoi_01 list_ex_iff)

theorem bankacc_locked_witness:
  "gBalance (shared (run_turns (start_threads protected_section bank_workers opening_state) bank_turns)) = 6750"
proof -
  have "finished (run_turns (start_threads protected_section bank_workers opening_state) bank_turns)"
    by (simp add: finished_def run_turns_def bank_turns_def start_threads_def protected_section_def
        bank_workers_def bank_worker_def deposit_def withdraw_def turn_def advance_def upt_rec
        numeral_eq_Suc Let_def)
  then show ?thesis using bankacc_locked [OF bank_turns_run] by blast
qed

text \<open>Without the mutex an update can be lost: here the first thread's deposit of 3000.\<close>

lemma bankacc_race:
  "gBalance (shared (run_turns (start_threads bare_section bank_workers opening_state)
     (replicate 3 1 @ replicate 3 0 @ replicate 7 1 @ replicate 7 0))) = 3750"
  by (simp add: run_turns_def start_threads_def bare_section_def bank_workers_def turn_def advance_def
      upt_rec bank_defs Let_def numeral_eq_Suc)

section \<open>The factorials\<close>

text \<open>
  \<open>gFactorial\<close> is an \<open>unsigned long long\<close>; \<open>lines\<close> are the lines printed: thread, number, factorial. \<open>vlines\<close> are those
  of verbose mode: index and product so far, as the shared variable has it when the line is printed.
\<close>

record facto =
  gFactorial :: nat
  freg :: "nat \<Rightarrow> nat"
  lines :: "(nat \<times> nat \<times> nat) list"
  vlines :: "(nat \<times> nat) list"

definition load_fact :: "nat \<Rightarrow> facto \<Rightarrow> facto" where
  "load_fact t s = s\<lparr>freg := (freg s)(t := gFactorial s)\<rparr>"

definition store_fact :: "nat \<Rightarrow> nat \<Rightarrow> facto \<Rightarrow> facto" where
  "store_fact t i s = s\<lparr>gFactorial := freg s t * i mod 2 ^ 64\<rparr>"

definition vprint_fact :: "bool \<Rightarrow> nat \<Rightarrow> facto \<Rightarrow> facto" where
  "vprint_fact gVerbose i s = (if gVerbose then s\<lparr>vlines := vlines s @ [(i, gFactorial s)]\<rparr> else s)"

definition factorize :: "bool \<Rightarrow> nat \<Rightarrow> nat \<Rightarrow> (facto \<Rightarrow> facto) list" where
  "factorize gVerbose t num =
     gFactorial_update (\<lambda>_. 1) #
     concat (map (\<lambda>i. [load_fact t, store_fact t i, vprint_fact gVerbose i]) [1..<num + 1])"

definition print_fact :: "nat \<Rightarrow> nat \<Rightarrow> facto \<Rightarrow> facto" where
  "print_fact datum n s = s\<lparr>lines := lines s @ [(datum, n, gFactorial s)]\<rparr>"

definition facto_worker :: "bool \<Rightarrow> nat \<Rightarrow> (facto \<Rightarrow> facto) list" where
  "facto_worker gVerbose data =
     (let datum = data + 1; n = (if datum = 1 then 10 else if datum = 2 then 12 else 0) in
      factorize gVerbose data n @ [print_fact datum n])"

definition facto_workers :: "bool \<Rightarrow> (facto \<Rightarrow> facto) list list" where
  "facto_workers gVerbose = map (facto_worker gVerbose) [0..<2]"

definition facto_start :: facto where
  "facto_start = \<lparr>gFactorial = 1, freg = (\<lambda>t. 0), lines = [], vlines = []\<rparr>"

definition facto_main ::
    "int \<Rightarrow> (nat \<Rightarrow> int) \<Rightarrow> int \<Rightarrow> nat list \<Rightarrow> string list \<Rightarrow> facto machine outcome" where
  "facto_main init_ret creates destroy_ret ts argv =
     (if length argv < 2 then Exit EXIT_FAILURE
      else case lock_arg (take 2 argv) of
        None \<Rightarrow> Exit EXIT_FAILURE
      | Some locking \<Rightarrow>
          locking_main locking init_ret creates destroy_ret (facto_workers (length argv = 3 \<and> atoi (argv ! 2) \<noteq> 0)) facto_start ts)"

lemma apply_all_append: "apply_all (fs @ gs) v = apply_all gs (apply_all fs v)"
  by (simp add: apply_all_def)

lemma factorize_Suc: "factorize v t (Suc n) = factorize v t n @ [load_fact t, store_fact t (Suc n), vprint_fact v (Suc n)]"
  by (simp add: factorize_def)

definition products :: "bool \<Rightarrow> nat \<Rightarrow> (nat \<times> nat) list" where
  "products gVerbose n = (if gVerbose then map (\<lambda>i. (i, fact i mod 2 ^ 64)) [1..<n + 1] else [])"

lemma factorize_value:
  "gFactorial (apply_all (factorize v t n) s) = fact n mod 2 ^ 64 \<and> lines (apply_all (factorize v t n) s) = lines s \<and>
   vlines (apply_all (factorize v t n) s) = vlines s @ products v n"
proof (induction n)
  case 0
  show ?case by (simp add: factorize_def apply_all_def products_def)
next
  case (Suc n)
  have "apply_all [load_fact t, store_fact t (Suc n), vprint_fact v (Suc n)] u =
      u\<lparr>freg := (freg u)(t := gFactorial u), gFactorial := gFactorial u * Suc n mod 2 ^ 64,
        vlines := vlines u @ (if v then [(Suc n, gFactorial u * Suc n mod 2 ^ 64)] else [])\<rparr>" for u
    by (simp add: apply_all_def load_fact_def store_fact_def vprint_fact_def)
  moreover have "fact n mod 2 ^ 64 * Suc n mod 2 ^ 64 = (fact (Suc n) :: nat) mod 2 ^ 64"
    by (simp only: mod_mult_left_eq fact_Suc of_nat_id mult.commute [of "Suc n"])
  ultimately show ?case using Suc unfolding factorize_Suc apply_all_append by (cases v) (simp_all add: products_def)
qed

lemma facto_worker_lines:
  "lines (apply_all (facto_worker v 0) s) = lines s @ [(1, 10, 3628800)]"
  "lines (apply_all (facto_worker v 1) s) = lines s @ [(2, 12, 479001600)]"
  "vlines (apply_all (facto_worker v 0) s) = vlines s @ products v 10"
  "vlines (apply_all (facto_worker v 1) s) = vlines s @ products v 12"
proof -
  have "fact 10 = (3628800 :: nat)" "fact 12 = (479001600 :: nat)" by (simp_all add: fact_numeral)
  then show "lines (apply_all (facto_worker v 0) s) = lines s @ [(1, 10, 3628800)]"
    "lines (apply_all (facto_worker v 1) s) = lines s @ [(2, 12, 479001600)]"
    "vlines (apply_all (facto_worker v 0) s) = vlines s @ products v 10"
    "vlines (apply_all (facto_worker v 1) s) = vlines s @ products v 12"
    by (simp_all add: facto_worker_def apply_all_snoc print_fact_def factorize_value)
qed

text \<open>Both factorials are right, and verbose mode shows the products of one thread and then those of the other.\<close>

definition facto_ok :: "bool \<Rightarrow> facto \<Rightarrow> bool" where
  "facto_ok v s \<longleftrightarrow> set (lines s) = {(1, 10, 3628800), (2, 12, 479001600)} \<and>
     vlines s \<in> {products v 10 @ products v 12, products v 12 @ products v 10}"

interpretation facto: order_free "facto_workers v" facto_start "facto_ok v" for v
proof
  fix order :: "nat list"
  assume "distinct order" and "set order = {..<length (facto_workers v)}"
  then have "order = [0, 1] \<or> order = [1, 0]" by (intro orders_2) (simp_all add: facto_workers_def)
  moreover have "facto_workers v ! 0 = facto_worker v 0" "facto_workers v ! 1 = facto_worker v 1"
    by (simp_all add: facto_workers_def upt_rec)
  ultimately show "facto_ok v (serial (facto_workers v) facto_start order)"
    by (auto simp: serial_def facto_worker_lines facto_start_def facto_ok_def simp del: One_nat_def)
qed

text \<open>
  The factorials with the mutex. When locking is chosen and no call fails, every schedule that runs
  the two workers to their end prints 10! = 3628800 for the first and 12! = 479001600 for the second, in verbose mode
  with the products of each thread together, and no schedule gets stuck.
\<close>
lemma facto_locked:
  assumes "facto_main 0 (\<lambda>i. 0) 0 ts (''facto'' # ''1'' # verb) = Value m"
  shows "(finished m \<longrightarrow> facto_ok (length verb = 1 \<and> atoi (verb ! 0) \<noteq> 0) (shared m)) \<and>
    (\<not> finished m \<longrightarrow> (\<exists>t < 2. turn m t \<noteq> m))"
proof -
  let ?v = "length verb = 1 \<and> atoi (verb ! 0) \<noteq> 0"
  have m: "m = run_turns (start_threads protected_section (facto_workers ?v) facto_start) ts"
    using assms by (simp add: facto_main_def lock_arg_def locking_main_def atoi_01 list_ex_iff)
  have len: "length (facto_workers ?v) = 2" by (simp add: facto_workers_def)
  show ?thesis using facto.result [of ?v ts] facto.progress [of ?v ts] unfolding m len by blast
qed

section \<open>Three counters\<close>

record globals =
  g1 :: int
  g2 :: int
  g3 :: int
  greg :: "nat \<Rightarrow> int"
  glines :: "(nat \<times> int \<times> int \<times> int) list"

text \<open>
  \<open>g1 ++; g2 ++; g3 ++;\<close> as loads and stores, then the line with the three values and the number of the thread.
\<close>

definition mutex1_worker :: "nat \<Rightarrow> (globals \<Rightarrow> globals) list" where
  "mutex1_worker t =
     [\<lambda>s. s\<lparr>greg := (greg s)(t := g1 s)\<rparr>, \<lambda>s. s\<lparr>g1 := greg s t + 1\<rparr>,
      \<lambda>s. s\<lparr>greg := (greg s)(t := g2 s)\<rparr>, \<lambda>s. s\<lparr>g2 := greg s t + 1\<rparr>,
      \<lambda>s. s\<lparr>greg := (greg s)(t := g3 s)\<rparr>, \<lambda>s. s\<lparr>g3 := greg s t + 1\<rparr>,
      \<lambda>s. s\<lparr>glines := glines s @ [(t + 1, g1 s, g2 s, g3 s)]\<rparr>]"

definition mutex1_workers :: "(globals \<Rightarrow> globals) list list" where
  "mutex1_workers = map mutex1_worker [0..<3]"

definition mutex1_start :: globals where
  "mutex1_start = \<lparr>g1 = 10, g2 = 12, g3 = 14, greg = (\<lambda>t. 0), glines = []\<rparr>"

definition mutex1_main ::
    "int \<Rightarrow> (nat \<Rightarrow> int) \<Rightarrow> int \<Rightarrow> nat list \<Rightarrow> string list \<Rightarrow> globals machine outcome" where
  "mutex1_main init_ret creates destroy_ret ts argv =
     (case lock_arg argv of
        None \<Rightarrow> Exit EXIT_FAILURE
      | Some locking \<Rightarrow> locking_main locking init_ret creates destroy_ret mutex1_workers mutex1_start ts)"

lemma mutex1_serial:
  "set order \<subseteq> {..<3} \<Longrightarrow>
     g1 (serial mutex1_workers s order) = g1 s + int (length order) \<and>
     g2 (serial mutex1_workers s order) = g2 s + int (length order) \<and>
     g3 (serial mutex1_workers s order) = g3 s + int (length order) \<and>
     glines (serial mutex1_workers s order) =
       glines s @ map (\<lambda>k. (order ! k + 1, g1 s + int k + 1, g2 s + int k + 1, g3 s + int k + 1)) [0..<length order]"
proof (induction order rule: rev_induct)
  case (snoc t order)
  then have "mutex1_workers ! t = mutex1_worker t" by (simp add: mutex1_workers_def)
  then show ?case using snoc by (simp add: serial_snoc apply_all_def mutex1_worker_def nth_append)
qed (simp add: serial_def)

text \<open>The lines show the values one after the other, each with the number of some thread.\<close>

definition counted :: "globals \<Rightarrow> bool" where
  "counted s \<longleftrightarrow> g1 s = 13 \<and> g2 s = 15 \<and> g3 s = 17 \<and> map snd (glines s) = [(11, 13, 15), (12, 14, 16), (13, 15, 17)] \<and>
     set (map fst (glines s)) = {1, 2, 3}"

interpretation mutex1: order_free mutex1_workers mutex1_start counted
proof
  fix order :: "nat list"
  assume d: "distinct order" and s: "set order = {..<length mutex1_workers}"
  then have l: "length order = 3" using distinct_card [OF d] by (simp add: mutex1_workers_def)
  then obtain a b c where o: "order = [a, b, c]" by (auto simp: numeral_3_eq_3 length_Suc_conv)
  have "{..<3} = {0, 1, 2 :: nat}" by auto
  then have "Suc ` {a, b, c} = Suc ` {0, 1, 2}" using s unfolding o by (simp add: mutex1_workers_def)
  then have n: "{a + 1, b + 1, c + 1} = {1, 2, 3}" by (simp add: numeral_3_eq_3 numeral_2_eq_2)
  have sub: "set order \<subseteq> {..<3}" using s by (simp add: mutex1_workers_def)
  have ls: "glines (serial mutex1_workers mutex1_start order) = [(a + 1, 11, 13, 15), (b + 1, 12, 14, 16), (c + 1, 13, 15, 17)]"
    using mutex1_serial [OF sub, of mutex1_start] unfolding o by (simp add: mutex1_start_def upt_rec)
  have "g1 (serial mutex1_workers mutex1_start order) = 13" "g2 (serial mutex1_workers mutex1_start order) = 15"
    "g3 (serial mutex1_workers mutex1_start order) = 17"
    using mutex1_serial [OF sub, of mutex1_start] l by (simp_all add: mutex1_start_def)
  then show "counted (serial mutex1_workers mutex1_start order)" using n by (simp add: counted_def ls)
qed

lemma mutex1_locked:
  assumes "mutex1_main 0 (\<lambda>i. 0) 0 ts [''mutex1'', ''1''] = Value m" and "finished m"
  shows "counted (shared m)"
proof -
  have m: "m = run_turns (start_threads protected_section mutex1_workers mutex1_start) ts"
    using assms by (simp add: mutex1_main_def lock_arg_def locking_main_def atoi_01 list_ex_iff)
  show ?thesis using mutex1.result [of ts] assms(2) unfolding m by blast
qed

section \<open>The condition variable\<close>

text \<open>
  \<open>cv_simple.c\<close>: where the two threads are. Thread A waits before it looks at \<open>gWorkDone\<close>; a signal
  wakes it only when it is waiting.
\<close>

datatype a_pc = A_Lock | A_Wait | A_Waiting | A_Woken | A_Test | A_Done

datatype b_pc = B_Work | B_Lock | B_Signal | B_Unlock | B_Done

datatype owner = Nobody | Thread_A | Thread_B

record cv =
  a_at :: a_pc
  b_at :: b_pc
  mycv_mutex :: owner
  gWorkDone :: bool

definition workerA_step :: "cv \<Rightarrow> cv option" where
  "workerA_step s =
     (case a_at s of
        A_Lock \<Rightarrow> if mycv_mutex s = Nobody then Some (s\<lparr>a_at := A_Wait, mycv_mutex := Thread_A\<rparr>) else None
      | A_Wait \<Rightarrow> Some (s\<lparr>a_at := A_Waiting, mycv_mutex := Nobody\<rparr>)
      | A_Waiting \<Rightarrow> None
      | A_Woken \<Rightarrow> if mycv_mutex s = Nobody then Some (s\<lparr>a_at := A_Test, mycv_mutex := Thread_A\<rparr>) else None
      | A_Test \<Rightarrow> if gWorkDone s then Some (s\<lparr>a_at := A_Done, mycv_mutex := Nobody\<rparr>)
                  else Some (s\<lparr>a_at := A_Wait\<rparr>)
      | A_Done \<Rightarrow> None)"

definition workerB_step :: "cv \<Rightarrow> cv option" where
  "workerB_step s =
     (case b_at s of
        B_Work \<Rightarrow> Some (s\<lparr>b_at := B_Lock\<rparr>)
      | B_Lock \<Rightarrow> if mycv_mutex s = Nobody then Some (s\<lparr>b_at := B_Signal, mycv_mutex := Thread_B\<rparr>) else None
      | B_Signal \<Rightarrow> Some (s\<lparr>b_at := B_Unlock, gWorkDone := True,
                             a_at := if a_at s = A_Waiting then A_Woken else a_at s\<rparr>)
      | B_Unlock \<Rightarrow> Some (s\<lparr>b_at := B_Done, mycv_mutex := Nobody\<rparr>)
      | B_Done \<Rightarrow> None)"

definition cv_start :: cv where
  "cv_start = \<lparr>a_at = A_Lock, b_at = B_Work, mycv_mutex = Nobody, gWorkDone = False\<rparr>"

inductive cv_step :: "cv \<Rightarrow> cv \<Rightarrow> bool" where
  by_A: "workerA_step s = Some t \<Longrightarrow> cv_step s t"
| by_B: "workerB_step s = Some t \<Longrightarrow> cv_step s t"

inductive cv_reachable :: "cv \<Rightarrow> bool" where
  cv_begin: "cv_reachable cv_start"
| cv_next: "cv_reachable s \<Longrightarrow> cv_step s t \<Longrightarrow> cv_reachable t"

inductive_simps cv_step_iff: "cv_step s t"

text \<open>
  \<open>main\<close>: the answers of the calls that initialise the condition variable and create the threads.
\<close>

definition cv_main :: "int \<Rightarrow> int \<Rightarrow> int \<Rightarrow> int \<Rightarrow> cv outcome" where
  "cv_main condattr_ret cond_ret create_A create_B =
     (if condattr_ret \<noteq> 0 then FATAL
      else if cond_ret \<noteq> 0 then FATAL
      else if create_A \<noteq> 0 then FATAL
      else if create_B \<noteq> 0 then FATAL
      else Value cv_start)"

text \<open>When A continues, the work is done and the mutex has been used properly.\<close>

definition cv_inv :: "cv \<Rightarrow> bool" where
  "cv_inv s \<longleftrightarrow>
     (gWorkDone s \<longleftrightarrow> b_at s \<in> {B_Unlock, B_Done}) \<and>
     (mycv_mutex s = Thread_A \<longleftrightarrow> a_at s \<in> {A_Wait, A_Test}) \<and>
     (mycv_mutex s = Thread_B \<longleftrightarrow> b_at s \<in> {B_Signal, B_Unlock}) \<and>
     (a_at s = A_Done \<longrightarrow> gWorkDone s)"

lemma cv_inv_step: "cv_step s t \<Longrightarrow> cv_inv s \<Longrightarrow> cv_inv t"
  by (auto simp: cv_step_iff workerA_step_def workerB_step_def cv_inv_def
      split: a_pc.splits b_pc.splits if_splits)

lemma cv_inv_reachable: "cv_reachable s \<Longrightarrow> cv_inv s"
  by (induction rule: cv_reachable.induct) (simp add: cv_inv_def cv_start_def, rule cv_inv_step)

text \<open>The state in which the wakeup has been lost: B is done, A waits, and nobody will signal.\<close>

definition lost_wakeup :: cv where
  "lost_wakeup = \<lparr>a_at = A_Waiting, b_at = B_Done, mycv_mutex = Nobody, gWorkDone = True\<rparr>"

lemma cv_run: "cv_reachable s \<Longrightarrow> workerA_step s = Some t \<or> workerB_step s = Some t \<Longrightarrow> cv_reachable t"
  using cv_next by_A by_B by blast



end
