(* ===== verification/Membugs.thy ===== *)
theory Membugs
  imports Common
begin

text \<open>
  \<open>booksrc/ch5/membugs.c\<close>, a collection of memory bugs, over a memory that checks every access: blocks
  with a size, the bytes that have been set, and whether they still exist. A pointer is a block with
  an offset. What the program prints is left out, but every access it makes to print is there.
\<close>

section \<open>A checked memory\<close>

record block =
  bsize :: nat
  cells :: "nat \<rightharpoonup> char"
  alive :: bool
  on_heap :: bool

type_synonym memory = "block list"

datatype ptr = Null | At nat int

definition new_block :: "bool \<Rightarrow> nat \<Rightarrow> memory \<Rightarrow> ptr \<times> memory" where
  "new_block heap n m =
     (At (length m) 0, m @ [\<lparr>bsize = n, cells = Map.empty, alive = True, on_heap = heap\<rparr>])"

text \<open>\<open>malloc\<close> when memory is granted or not; an array of a function.\<close>

definition malloc :: "bool \<Rightarrow> nat \<Rightarrow> memory \<Rightarrow> ptr \<times> memory" where
  "malloc ok n m = (if ok then new_block True n m else (Null, m))"

definition local_array :: "nat \<Rightarrow> memory \<Rightarrow> ptr \<times> memory" where
  "local_array n m = new_block False n m"

definition move :: "int \<Rightarrow> ptr \<Rightarrow> ptr" where
  "move d p = (case p of Null \<Rightarrow> Null | At b o' \<Rightarrow> At b (o' + d))"

text \<open>The block and the index that a pointer may be used for.\<close>

definition resolve :: "ptr \<Rightarrow> memory \<Rightarrow> (nat \<times> nat) outcome" where
  "resolve p m =
     (case p of
        Null \<Rightarrow> Undefined Null_Deref
      | At b i \<Rightarrow>
          if \<not> (b < length m \<and> alive (m ! b)) then Undefined Dangling
          else if i < 0 \<or> int (bsize (m ! b)) \<le> i then Undefined Out_Of_Bounds
          else Value (b, nat i))"

definition store :: "ptr \<Rightarrow> char \<Rightarrow> memory \<Rightarrow> memory outcome" where
  "store p c m =
     andthen (resolve p m) (\<lambda>(b, i). Value (m[b := (m ! b)\<lparr>cells := (cells (m ! b))(i \<mapsto> c)\<rparr>]))"

definition load :: "ptr \<Rightarrow> memory \<Rightarrow> char outcome" where
  "load p m =
     andthen (resolve p m) (\<lambda>(b, i).
     case cells (m ! b) i of None \<Rightarrow> Undefined Uninitialised | Some c \<Rightarrow> Value c)"

definition kill :: "nat \<Rightarrow> memory \<Rightarrow> memory" where
  "kill b m = m[b := (m ! b)\<lparr>alive := False\<rparr>]"

definition free :: "ptr \<Rightarrow> memory \<Rightarrow> memory outcome" where
  "free p m =
     (case p of
        Null \<Rightarrow> Value m
      | At b i \<Rightarrow>
          if b < length m \<and> on_heap (m ! b) \<and> i = 0
          then (if alive (m ! b) then Value (kill b m) else Undefined Double_Free)
          else Undefined Dangling)"

text \<open>Storing a list of characters from a pointer on, as \<open>memset\<close>, \<open>strcpy\<close> and \<open>strncpy\<close> do.\<close>

fun store_all :: "ptr \<Rightarrow> string \<Rightarrow> memory \<Rightarrow> memory outcome" where
  "store_all p [] m = Value m"
| "store_all p (c # cs) m = andthen (store p c m) (store_all (move 1 p) cs)"

definition memset :: "ptr \<Rightarrow> char \<Rightarrow> nat \<Rightarrow> memory \<Rightarrow> memory outcome" where
  "memset p c n m = store_all p (replicate n c) m"

definition strcpy :: "ptr \<Rightarrow> string \<Rightarrow> memory \<Rightarrow> memory outcome" where
  "strcpy p s m = store_all p (s @ [CHR 0x00]) m"

definition strncpy :: "ptr \<Rightarrow> string \<Rightarrow> nat \<Rightarrow> memory \<Rightarrow> memory outcome" where
  "strncpy p s n m = store_all p (take n s @ replicate (n - length s) (CHR 0x00)) m"

text \<open>
  Reading a string: up to the null byte. \<open>fuel\<close> bounds the length; a block of \<open>n\<close> bytes is left or read
  to a null byte in \<open>n + 1\<close> steps, and the readers below have at least that much. \<open>%.*s\<close> reads at most
  a given number of characters.
\<close>

fun read_string :: "nat \<Rightarrow> ptr \<Rightarrow> memory \<Rightarrow> unit outcome" where
  "read_string 0 p m = Value ()"
| "read_string (Suc n) p m =
     andthen (load p m) (\<lambda>c. if c = CHR 0x00 then Value () else read_string n (move 1 p) m)"

section \<open>The test cases\<close>

text \<open>\<open>ok k\<close> says whether the \<open>k\<close>-th allocation of the function succeeds.\<close>

definition PATH_MAX :: nat where "PATH_MAX = 4096"
definition BLK_1MB :: nat where "BLK_1MB = 1048576"

definition silly_getpath :: "(nat \<Rightarrow> bool) \<Rightarrow> string option \<Rightarrow> memory \<Rightarrow> (ptr \<times> memory) outcome" where
  "silly_getpath ok path m =
     (case malloc (ok 0) PATH_MAX m of (p, m) \<Rightarrow>
        (case path of
           None \<Rightarrow> Undefined Null_Deref
         | Some s \<Rightarrow> andthen (strcpy p s m) (\<lambda>m. Value (p, m))))"

definition leakage_case3 :: "(nat \<Rightarrow> bool) \<Rightarrow> string option \<Rightarrow> bool \<Rightarrow> memory \<Rightarrow> memory outcome" where
  "leakage_case3 ok path cond m =
     andthen (silly_getpath ok path m) (\<lambda>(mypath, m).
     andthen (read_string (PATH_MAX + 1) mypath m) (\<lambda>_.
     if cond then free mypath m else Value m))"

definition amleaky :: "bool \<Rightarrow> nat \<Rightarrow> memory \<Rightarrow> memory outcome" where
  "amleaky ok mem m =
     (case malloc ok mem m of (p, m) \<Rightarrow>
        if p = Null then FATAL else memset p (CHR 0x00) mem m)"

definition leakage_case2 :: "(nat \<Rightarrow> bool) \<Rightarrow> nat \<Rightarrow> nat \<Rightarrow> memory \<Rightarrow> memory outcome" where
  "leakage_case2 ok n reps m =
     (let reps = (if reps = 0 then 1 else reps) in foldo (\<lambda>i. amleaky (ok i) n) [0..<reps] m)"

definition leakage_case1 :: "(nat \<Rightarrow> bool) \<Rightarrow> nat \<Rightarrow> memory \<Rightarrow> memory outcome" where
  "leakage_case1 ok n m = amleaky (ok 0) n m"

definition book_name :: string where
  "book_name = ''Hands-on Linux Sys Prg''"

definition doublefree :: "(nat \<Rightarrow> bool) \<Rightarrow> bool \<Rightarrow> memory \<Rightarrow> memory outcome" where
  "doublefree ok cond m =
     (case malloc (ok 0) 512 m of (p, m) \<Rightarrow>
        if p = Null then FATAL
        else
          andthen (strncpy p book_name (length book_name) m) (\<lambda>m.
          andthen (free p m) (\<lambda>m.
          if cond then
            \<comment> \<open>\<open>malloc(-1UL)\<close> never succeeds\<close>
            andthen (free p m) (\<lambda>m. Exit EXIT_FAILURE)
          else Value m)))"

definition uar :: "memory \<Rightarrow> (ptr \<times> memory) outcome" where
  "uar m =
     (case local_array 32 m of (name, m) \<Rightarrow>
        andthen (memset name (CHR 0x00) 32 m) (\<lambda>m.
        andthen (strncpy name book_name 22 m) (\<lambda>m.
        Value (name, kill (length m - 1) m))))"

definition uaf :: "(nat \<Rightarrow> bool) \<Rightarrow> memory \<Rightarrow> memory outcome" where
  "uaf ok m =
     (case malloc (ok 0) 512 m of (arr, m) \<Rightarrow>
        if arr = Null then FATAL
        else
          andthen (memset arr (CHR ''a'') 512 m) (\<lambda>m.
          andthen (store (move 511 arr) (CHR 0x00) m) (\<lambda>m.
          andthen (read_string 32 arr m) (\<lambda>_.
          case malloc (ok 1) 512 m of (nxt, m) \<Rightarrow>
            if nxt = Null then
              andthen (free arr m) (\<lambda>m. andthen (read_string 513 arr m) (\<lambda>_. FATAL))
            else
              andthen (free arr m) (\<lambda>m.
              andthen (strncpy arr book_name (length book_name) m) (\<lambda>m.
              andthen (read_string 32 arr m) (\<lambda>_. free nxt m)))))))"

definition read_underflow :: "(nat \<Rightarrow> bool) \<Rightarrow> bool \<Rightarrow> memory \<Rightarrow> memory outcome" where
  "read_underflow ok cond m =
     (case malloc (ok 0) 25 m of (dest, m) \<Rightarrow>
        if dest = Null then FATAL
        else
          andthen (strncpy dest ''abcd56789'' 9 m) (\<lambda>m.
          andthen (if cond then andthen (store (move (-1) dest) (CHR ''x'') m) (\<lambda>m. Value (move (-1) dest, m))
                   else Value (dest, m)) (\<lambda>(d, m).
          andthen (read_string 26 d m) (\<lambda>_. free dest m))))"

definition read_overflow_dynmem :: "(nat \<Rightarrow> bool) \<Rightarrow> memory \<Rightarrow> memory outcome" where
  "read_overflow_dynmem ok m =
     (case malloc (ok 0) 5 m of (arr, m) \<Rightarrow>
        if arr = Null then FATAL
        else
          andthen (memset arr (CHR ''a'') 5 m) (\<lambda>m.
          andthen (store_all (move 5 arr) ''SecreT'' m) (\<lambda>m.
          andthen (read_string 11 arr m) (\<lambda>_.
          andthen (load (move 100 arr) m) (\<lambda>_.
          andthen (load (move 10000 arr) m) (\<lambda>_. free arr m))))))"

definition read_overflow_compilemem :: "memory \<Rightarrow> memory outcome" where
  "read_overflow_compilemem m =
     (case local_array 5 m of (arr, m) \<Rightarrow>
      case local_array 8 m of (tmp, m) \<Rightarrow>
        andthen (memset arr (CHR ''a'') 5 m) (\<lambda>m.
        andthen (memset tmp (CHR ''t'') 8 m) (\<lambda>m.
        andthen (store (move 7 tmp) (CHR 0x00) m) (\<lambda>m.
        andthen (read_string 6 arr m) (\<lambda>_. Value m)))))"

definition write_underflow :: "(nat \<Rightarrow> bool) \<Rightarrow> memory \<Rightarrow> memory outcome" where
  "write_underflow ok m =
     (case malloc (ok 0) 8 m of (p, m) \<Rightarrow>
        if p = Null then FATAL
        else
          let p = move (-1) p in
          andthen (strncpy p ''abcd5678'' 8 m) (\<lambda>m. free (move 1 p) m))"

definition write_overflow_dynmem :: "(nat \<Rightarrow> bool) \<Rightarrow> memory \<Rightarrow> memory outcome" where
  "write_overflow_dynmem ok m =
     (case malloc (ok 0) 8 m of (dest, m) \<Rightarrow>
        if dest = Null then FATAL
        else andthen (strcpy dest ''abcd56789'' m) (free dest))"

text \<open>An array of five \<open>int\<close>, in cells of one element each.\<close>

definition fill_array :: "ptr \<Rightarrow> memory \<Rightarrow> memory outcome" where
  "fill_array arr m = foldo (\<lambda>i. store (move (int i) arr) (CHR ''d'')) [0..<6] m"

definition write_overflow_compilemem :: "memory \<Rightarrow> memory outcome" where
  "write_overflow_compilemem m = (case local_array 5 m of (arr, m) \<Rightarrow> fill_array arr m)"

text \<open>\<open>garr\<close> is a global array: a block that exists from the start.\<close>

definition write_overflow_globalmem :: "memory \<Rightarrow> memory outcome" where
  "write_overflow_globalmem m = fill_array (At 0 0) m"

definition uninit_var :: "memory \<Rightarrow> memory outcome" where
  "uninit_var m =
     (case local_array 1 m of (x, m) \<Rightarrow> andthen (load x m) (\<lambda>_. Value m))"

definition start_memory :: memory where
  "start_memory = [\<lparr>bsize = 5, cells = (\<lambda>i. if i < 5 then Some (CHR 0x00) else None), alive = True, on_heap = False\<rparr>]"

definition membugs_case :: "(nat \<Rightarrow> bool) \<Rightarrow> string option \<Rightarrow> int \<Rightarrow> memory outcome" where
  "membugs_case ok path n =
     (let m = start_memory in
      if n = 1 then uninit_var m
      else if n = 2 then write_overflow_compilemem m
      else if n = 3 then write_overflow_dynmem ok m
      else if n = 4 then write_underflow ok m
      else if n = 5 then read_overflow_compilemem m
      else if n = 6 then read_overflow_dynmem ok m
      else if n = 7 then andthen (read_underflow ok False m) (read_underflow (\<lambda>k. ok (1 + k)) True)
      else if n = 8 then uaf ok m
      else if n = 9 then andthen (uar m) (\<lambda>(res, m). andthen (read_string 33 res m) (\<lambda>_. Value m))
      else if n = 10 then andthen (doublefree ok False m) (doublefree (\<lambda>k. ok (1 + k)) True)
      else if n = 11 then andthen (leakage_case1 ok 32 m) (leakage_case1 (\<lambda>k. ok (1 + k)) BLK_1MB)
      else if n = 12 then andthen (leakage_case2 ok 32 100000 m) (leakage_case2 (\<lambda>k. ok (100000 + k)) BLK_1MB 12)
      else if n = 13 then andthen (leakage_case3 ok path False m) (leakage_case3 (\<lambda>k. ok (1 + k)) path True)
      else if n = 14 then write_overflow_globalmem m
      else Exit EXIT_FAILURE)"

definition process_args :: "(nat \<Rightarrow> bool) \<Rightarrow> string option \<Rightarrow> string list \<Rightarrow> memory outcome" where
  "process_args ok path argv =
     (if length argv < 2 then Exit EXIT_FAILURE
      else if length argv = 2 \<and> (strneq 2 (argv ! 1) ''-h'' \<or> strneq 6 (argv ! 1) ''--help'')
      then Exit EXIT_SUCCESS
      else if length argv = 2 then membugs_case ok path (atoi (argv ! 1))
      else Value start_memory)"

section \<open>Facts on the memory\<close>

definition fill :: "nat \<Rightarrow> string \<Rightarrow> (nat \<rightharpoonup> char) \<Rightarrow> (nat \<rightharpoonup> char)" where
  "fill i cs f = (\<lambda>k. if i \<le> k \<and> k < i + length cs then Some (cs ! (k - i)) else f k)"

definition filled :: "nat \<Rightarrow> nat \<Rightarrow> string \<Rightarrow> memory \<Rightarrow> memory" where
  "filled b i cs m = m[b := (m ! b)\<lparr>cells := fill i cs (cells (m ! b))\<rparr>]"

definition live :: "nat \<Rightarrow> memory \<Rightarrow> bool" where
  "live b m \<longleftrightarrow> b < length m \<and> alive (m ! b)"

lemma fill_Nil [simp]: "fill i [] f = f"
  by (rule ext) (auto simp: fill_def)

lemma fill_Cons: "fill (Suc i) cs (f(i \<mapsto> c)) = fill i (c # cs) f"
  by (rule ext) (auto simp: fill_def nth_Cons')

lemma filled_keeps [simp]:
  "length (filled b i cs m) = length m" "live b' (filled b i cs m) = live b' m"
  by (cases "b' = b"; auto simp: filled_def live_def)+

lemma filled_keeps_block [simp]:
  "b' < length m \<Longrightarrow> bsize (filled b i cs m ! b') = bsize (m ! b')"
  "b' < length m \<Longrightarrow> on_heap (filled b i cs m ! b') = on_heap (m ! b')"
  "b' < length m \<Longrightarrow> alive (filled b i cs m ! b') = alive (m ! b')"
  by (cases "b' = b"; simp add: filled_def)+

lemma move_At [simp]: "move d (At b i) = At b (i + d)"
  by (simp add: move_def)

lemma resolve_in:
  "live b m \<Longrightarrow> i < bsize (m ! b) \<Longrightarrow> resolve (At b (int i)) m = Value (b, i)"
  by (simp add: resolve_def live_def)

lemma resolve_out:
  "live b m \<Longrightarrow> i < 0 \<or> int (bsize (m ! b)) \<le> i \<Longrightarrow> resolve (At b i) m = Undefined Out_Of_Bounds"
  by (auto simp: resolve_def live_def)

lemma resolve_dead: "\<not> live b m \<Longrightarrow> resolve (At b i) m = Undefined Dangling"
  by (auto simp: resolve_def live_def)

lemma store_all_in:
  "live b m \<Longrightarrow> i + length cs \<le> bsize (m ! b) \<Longrightarrow> store_all (At b (int i)) cs m = Value (filled b i cs m)"
proof (induction cs arbitrary: i m)
  case Nil
  then show ?case by (simp add: filled_def)
next
  case (Cons c cs)
  let ?m = "m[b := (m ! b)\<lparr>cells := (cells (m ! b))(i \<mapsto> c)\<rparr>]"
  have st: "store (At b (int i)) c m = Value ?m" using Cons.prems by (simp add: store_def resolve_in)
  have lv: "live b ?m" "bsize (?m ! b) = bsize (m ! b)" "b < length m"
    using Cons.prems(1) by (auto simp: live_def)
  then have "store_all (At b (int (Suc i))) cs ?m = Value (filled b (Suc i) cs ?m)"
    using Cons.prems(2) by (intro Cons.IH) simp_all
  moreover have "filled b (Suc i) cs ?m = filled b i (c # cs) m"
    using lv(3) by (simp add: filled_def fill_Cons)
  ultimately show ?case using st by (simp add: add.commute)
qed

lemma store_in: "live b m \<Longrightarrow> i < bsize (m ! b) \<Longrightarrow> store (At b (int i)) c m = Value (filled b i [c] m)"
  using fill_Cons [of i "[]" _ c] by (simp add: store_def resolve_in filled_def)

lemma store_all_out:
  assumes "live b m" and "i \<le> bsize (m ! b)" and "bsize (m ! b) < i + length cs"
  shows "store_all (At b (int i)) cs m = Undefined Out_Of_Bounds"
  using assms
proof (induction cs arbitrary: i m)
  case (Cons c cs)
  show ?case
  proof (cases "i = bsize (m ! b)")
    case True
    with Cons.prems(1) show ?thesis by (simp add: store_def resolve_out)
  next
    case False
    let ?m = "m[b := (m ! b)\<lparr>cells := (cells (m ! b))(i \<mapsto> c)\<rparr>]"
    have st: "store (At b (int i)) c m = Value ?m" using Cons.prems False by (simp add: store_def resolve_in)
    have "live b ?m" "bsize (?m ! b) = bsize (m ! b)" using Cons.prems(1) by (auto simp: live_def)
    then have "store_all (At b (int (Suc i))) cs ?m = Undefined Out_Of_Bounds"
      using Cons.prems(2,3) False by (intro Cons.IH) simp_all
    then show ?thesis using st by (simp add: add.commute)
  qed
qed simp

lemma store_all_bad:
  "resolve p m = Undefined u \<Longrightarrow> cs \<noteq> [] \<Longrightarrow> store_all p cs m = Undefined u"
  by (cases cs) (simp_all add: store_def)

lemma load_in:
  "live b m \<Longrightarrow> i < bsize (m ! b) \<Longrightarrow> cells (m ! b) i = Some c \<Longrightarrow> load (At b (int i)) m = Value c"
  by (simp add: load_def resolve_in)

lemma read_string_set:
  assumes "live b m" and "i + n \<le> bsize (m ! b)" and "\<forall>k < n. cells (m ! b) (i + k) \<noteq> None"
  shows "read_string n (At b (int i)) m = Value ()"
  using assms
proof (induction n arbitrary: i)
  case (Suc n)
  obtain c where c: "cells (m ! b) i = Some c" using Suc.prems(3) by (metis add_0_right not_None_eq zero_less_Suc)
  have "read_string n (At b (int (Suc i))) m = Value ()"
    using Suc.prems by (intro Suc.IH) auto
  then show ?case using Suc.prems c load_in [of b m i c] by (simp add: add.commute)
qed simp

text \<open>A string is read up to the first byte that is out of bounds or was never set.\<close>

lemma read_string_bad:
  assumes "live b m" and "k < n" and "i + k \<le> bsize (m ! b)"
    and "\<forall>j < k. \<exists>c. cells (m ! b) (i + j) = Some c \<and> c \<noteq> CHR 0x00"
    and "load (At b (int (i + k))) m = Undefined u"
  shows "read_string n (At b (int i)) m = Undefined u"
  using assms
proof (induction k arbitrary: i n)
  case 0
  then show ?case by (cases n) simp_all
next
  case (Suc k)
  obtain n' where n: "n = Suc n'" using Suc.prems(2) by (cases n) simp_all
  obtain c where c: "cells (m ! b) i = Some c" "c \<noteq> CHR 0x00"
    using Suc.prems(4) by (metis add_0_right zero_less_Suc)
  have "read_string n' (At b (int (Suc i))) m = Undefined u"
  proof (rule Suc.IH)
    show "\<forall>j < k. \<exists>c. cells (m ! b) (Suc i + j) = Some c \<and> c \<noteq> CHR 0x00"
      using Suc.prems(4) by auto
  qed (use Suc.prems n in auto)
  then show ?case using n c Suc.prems load_in [of b m i c] by (simp add: add.commute)
qed

text \<open>The heap blocks that are still there at the end.\<close>

definition leaked :: "memory \<Rightarrow> nat" where
  "leaked m = sum_list (map bsize (filter (\<lambda>b. alive b \<and> on_heap b) m))"

definition fresh_block :: "bool \<Rightarrow> nat \<Rightarrow> block" where
  "fresh_block heap n = \<lparr>bsize = n, cells = Map.empty, alive = True, on_heap = heap\<rparr>"

lemma fresh_block_simps [simp]:
  "bsize (fresh_block heap n) = n" "alive (fresh_block heap n)" "on_heap (fresh_block heap n) = heap"
  "cells (fresh_block heap n) = Map.empty"
  by (simp_all add: fresh_block_def)

lemma new_blocks [simp]:
  "malloc True n m = (At (length m) 0, m @ [fresh_block True n])"
  "local_array n m = (At (length m) 0, m @ [fresh_block False n])"
  by (simp_all add: malloc_def local_array_def new_block_def fresh_block_def)

lemma live_new [simp]: "live (length m) (m @ [fresh_block heap n])"
  by (simp add: live_def)

section \<open>What the cases do\<close>

lemma At_0: "At b 0 = At b (int 0)"
  by simp

lemma write_all_new:
  assumes "b = length m" and "n < length cs"
  shows "store_all (At b 0) cs (m @ [fresh_block heap n]) = Undefined Out_Of_Bounds"
  using assms store_all_out [of b "m @ [fresh_block heap n]" 0 cs] by simp

lemma store_new:
  assumes "b = length m" and "length cs \<le> n"
  shows "store_all (At b 0) cs (m @ [fresh_block heap n]) = Value (filled b 0 cs (m @ [fresh_block heap n]))"
  using assms store_all_in [of b "m @ [fresh_block heap n]" 0 cs] by simp

lemma case_uninit: "uninit_var m = Undefined Uninitialised"
  by (simp add: uninit_var_def load_def resolve_def)

lemma fill_array_overflow:
  assumes "live b m" and "bsize (m ! b) = 5"
  shows "fill_array (At b 0) m = Undefined Out_Of_Bounds"
proof -
  have loop: "foldo (\<lambda>i. store (At b (int i)) (CHR ''d'')) [i..<6] m = Undefined Out_Of_Bounds"
    if "i \<le> 5" "live b m" "bsize (m ! b) = 5" for i m
    using that
  proof (induction "5 - i" arbitrary: i m)
    case 0
    then have "[i..<6] = [5]" by (simp add: upt_rec)
    with 0 show ?case by (simp add: store_def resolve_out)
  next
    case (Suc k)
    then have i: "i < 5" by simp
    let ?m = "m[b := (m ! b)\<lparr>cells := (cells (m ! b))(i \<mapsto> CHR ''d'')\<rparr>]"
    have "store (At b (int i)) (CHR ''d'') m = Value ?m"
      using Suc.prems i by (simp add: store_def resolve_in)
    moreover have "foldo (\<lambda>i. store (At b (int i)) (CHR ''d'')) [Suc i..<6] ?m = Undefined Out_Of_Bounds"
      using Suc i by (intro Suc.hyps(1)) (auto simp: live_def)
    moreover have "[i..<6] = i # [Suc i..<6]" using i by (simp add: upt_conv_Cons)
    ultimately show ?case by simp
  qed
  show ?thesis using loop [of 0 m] assms by (simp add: fill_array_def)
qed

lemma case_write_overflow_compilemem: "write_overflow_compilemem m = Undefined Out_Of_Bounds"
  by (simp add: write_overflow_compilemem_def fill_array_overflow)

lemma case_write_overflow_globalmem: "write_overflow_globalmem start_memory = Undefined Out_Of_Bounds"
  by (simp add: write_overflow_globalmem_def fill_array_overflow live_def start_memory_def)

lemma case_write_overflow_dynmem: "write_overflow_dynmem (\<lambda>k. True) m = Undefined Out_Of_Bounds"
  by (simp add: write_overflow_dynmem_def strcpy_def write_all_new del: store_all.simps)

lemma case_write_underflow: "write_underflow (\<lambda>k. True) m = Undefined Out_Of_Bounds"
proof -
  have "resolve (At (length m) (-1)) (m @ [fresh_block True 8]) = Undefined Out_Of_Bounds"
    by (rule resolve_out) simp_all
  then show ?thesis
    by (simp add: write_underflow_def strncpy_def store_all_bad Let_def del: store_all.simps)
qed

lemma case_read_overflow_dynmem: "read_overflow_dynmem (\<lambda>k. True) m = Undefined Out_Of_Bounds"
proof -
  let ?m = "filled (length m) 0 (replicate 5 (CHR ''a'')) (m @ [fresh_block True 5])"
  have "resolve (At (length m) 5) ?m = Undefined Out_Of_Bounds" by (rule resolve_out) simp_all
  then show ?thesis
    by (simp add: read_overflow_dynmem_def memset_def store_new store_all_bad del: store_all.simps)
qed

lemma case_read_overflow_compilemem: "read_overflow_compilemem m = Undefined Out_Of_Bounds"
proof -
  let ?b = "length m"
  let ?m0 = "m @ [fresh_block False 5, fresh_block False 8]"
  let ?m1 = "filled ?b 0 (replicate 5 (CHR ''a'')) ?m0"
  let ?m2 = "filled (Suc ?b) 0 (replicate 8 (CHR ''t'')) ?m1"
  let ?m3 = "filled (Suc ?b) 7 [CHR 0x00] ?m2"
  have l0: "live ?b ?m0" "live (Suc ?b) ?m0" "bsize (?m0 ! ?b) = 5" "bsize (?m0 ! Suc ?b) = 8"
    by (simp_all add: live_def nth_append)
  have s1: "store_all (At ?b 0) (replicate 5 (CHR ''a'')) ?m0 = Value ?m1"
    using store_all_in [of ?b ?m0 0] l0 by simp
  have s2: "store_all (At (Suc ?b) 0) (replicate 8 (CHR ''t'')) ?m1 = Value ?m2"
    using store_all_in [of "Suc ?b" ?m1 0] l0 by simp
  have s3: "store (At (Suc ?b) 7) (CHR 0x00) ?m2 = Value ?m3"
    using store_in [of "Suc ?b" ?m2 7] l0 by simp
  have b3: "bsize (?m3 ! ?b) = 5" using l0 by simp
  have "cells (?m3 ! ?b) j = Some (CHR ''a'')" if "j < 5" for j
    using that by (simp add: filled_def fill_def nth_append nth_list_update)
  then have "read_string 6 (At ?b (int 0)) ?m3 = Undefined Out_Of_Bounds"
    using l0 b3 by (intro read_string_bad [where k = 5]) (simp_all add: load_def resolve_out)
  then show ?thesis using s1 s2 s3
    by (simp add: read_overflow_compilemem_def memset_def del: store_all.simps read_string.simps replicate_Suc)
qed

lemma nth_filled:
  "b < length m \<Longrightarrow> filled b i cs m ! b' = (if b' = b then (m ! b)\<lparr>cells := fill i cs (cells (m ! b))\<rparr> else m ! b')"
  by (simp add: filled_def nth_list_update)

lemma case_read_underflow: "read_underflow (\<lambda>k. True) False m = Undefined Uninitialised"
proof -
  let ?m = "filled (length m) 0 ''abcd56789'' (m @ [fresh_block True 25])"
  have c: "cells (?m ! length m) k = (if k < 9 then Some (''abcd56789'' ! k) else None)" for k
    by (simp add: nth_filled fill_def)
  have nz: "''abcd56789'' ! k \<noteq> CHR 0x00" if "k < 9" for k
  proof -
    have "\<forall>c \<in> set ''abcd56789''. c \<noteq> CHR 0x00" by simp
    moreover have "''abcd56789'' ! k \<in> set ''abcd56789''" using that by (intro nth_mem) simp
    ultimately show ?thesis by blast
  qed
  have s: "store_all (At (length m) 0) ''abcd56789'' (m @ [fresh_block True 25]) = Value ?m"
    by (rule store_new) simp_all
  have "read_string 26 (At (length m) (int 0)) ?m = Undefined Uninitialised"
    using c nz by (intro read_string_bad [where k = 9]) (simp_all add: load_def resolve_def)
  then show ?thesis using s
    by (simp add: read_underflow_def strncpy_def del: store_all.simps read_string.simps)
qed

lemma case_uaf: "uaf (\<lambda>k. True) m = Undefined Dangling"
proof -
  let ?b = "length m"
  let ?m1 = "filled ?b 0 (replicate 512 (CHR ''a'')) (m @ [fresh_block True 512])"
  let ?m2 = "filled ?b 511 [CHR 0x00] ?m1"
  let ?m3 = "kill ?b (?m2 @ [fresh_block True 512])"
  have s1: "memset (At ?b 0) (CHR ''a'') 512 (m @ [fresh_block True 512]) = Value ?m1"
    unfolding memset_def by (rule store_new) simp_all
  have s2: "store (At ?b 511) (CHR 0x00) ?m1 = Value ?m2"
    using store_in [of ?b ?m1 511] by simp
  have r: "read_string 32 (At ?b 0) ?m2 = Value ()"
    using read_string_set [of ?b ?m2 0 32] by (simp add: nth_filled fill_def del: read_string.simps)
  have f: "free (At ?b 0) (?m2 @ [fresh_block True 512]) = Value ?m3"
    by (simp add: free_def nth_append)
  have "resolve (At ?b 0) ?m3 = Undefined Dangling"
    by (rule resolve_dead) (simp add: live_def kill_def nth_append)
  then have "strncpy (At ?b 0) book_name (length book_name) ?m3 = Undefined Dangling"
    unfolding strncpy_def by (rule store_all_bad) (simp add: book_name_def)
  then show ?thesis using s1 s2 r f
    by (simp add: uaf_def del: read_string.simps)
qed

lemma case_uar: "andthen (uar m) (\<lambda>(res, m). andthen (read_string 33 res m) (\<lambda>_. Value m)) = Undefined Dangling"
proof -
  let ?b = "length m"
  let ?m1 = "filled ?b 0 (replicate 32 (CHR 0x00)) (m @ [fresh_block False 32])"
  let ?m2 = "filled ?b 0 book_name ?m1"
  have l: "length book_name = 22" by (simp add: book_name_def)
  have s1: "memset (At ?b 0) (CHR 0x00) 32 (m @ [fresh_block False 32]) = Value ?m1"
    unfolding memset_def by (rule store_new) simp_all
  have s2: "strncpy (At ?b 0) book_name 22 ?m1 = Value ?m2"
    using store_all_in [of ?b ?m1 0 book_name] l by (simp add: strncpy_def)
  have "resolve (At ?b 0) (kill ?b ?m2) = Undefined Dangling"
    by (rule resolve_dead) (simp add: live_def kill_def)
  then have "read_string 33 (At ?b 0) (kill ?b ?m2) = Undefined Dangling"
    by (simp add: numeral_eq_Suc load_def)
  then show ?thesis using s1 s2 by (simp add: uar_def del: read_string.simps)
qed

lemma doublefree_first:
  assumes "l = length book_name"
  shows "malloc True 512 m = (At (length m) 0, m @ [fresh_block True 512])"
    and "strncpy (At (length m) 0) book_name l (m @ [fresh_block True 512]) =
      Value (filled (length m) 0 book_name (m @ [fresh_block True 512]))"
    and "free (At (length m) 0) (filled (length m) 0 book_name (m @ [fresh_block True 512])) =
      Value (kill (length m) (filled (length m) 0 book_name (m @ [fresh_block True 512])))"
    and "free (At (length m) 0) (kill (length m) (filled (length m) 0 book_name (m @ [fresh_block True 512]))) =
      Undefined Double_Free"
proof -
  have "length book_name = 22" by (simp add: book_name_def)
  then show "strncpy (At (length m) 0) book_name l (m @ [fresh_block True 512]) =
      Value (filled (length m) 0 book_name (m @ [fresh_block True 512]))"
    using assms by (simp add: strncpy_def store_new)
qed (simp_all add: free_def kill_def nth_filled)

lemma case_doublefree:
  "andthen (doublefree (\<lambda>k. True) False m) (doublefree (\<lambda>k. True) True) = Undefined Double_Free"
  by (simp add: doublefree_def doublefree_first del: new_blocks)

lemma amleaky_block:
  "\<exists>c. amleaky True n m = Value (m @ [\<lparr>bsize = n, cells = c, alive = True, on_heap = True\<rparr>])"
proof -
  have "memset (At (length m) 0) (CHR 0x00) n (m @ [fresh_block True n]) =
      Value (filled (length m) 0 (replicate n (CHR 0x00)) (m @ [fresh_block True n]))"
    unfolding memset_def by (rule store_new) simp_all
  then show ?thesis
    by (simp add: amleaky_def filled_def fresh_block_def del: replicate_Suc)
qed

lemma amleaky_leaks: "\<exists>m'. amleaky True n m = Value m' \<and> leaked m' = leaked m + n"
proof -
  obtain c where "amleaky True n m = Value (m @ [\<lparr>bsize = n, cells = c, alive = True, on_heap = True\<rparr>])"
    using amleaky_block by blast
  then show ?thesis by (simp add: leaked_def)
qed

lemma leak_loop:
  "\<exists>m'. foldo (\<lambda>i. amleaky True n) [0..<r] m = Value m' \<and> leaked m' = leaked m + r * n"
proof (induction r)
  case (Suc r)
  then obtain m1 where "foldo (\<lambda>i. amleaky True n) [0..<r] m = Value m1" "leaked m1 = leaked m + r * n"
    by blast
  moreover obtain m2 where "amleaky True n m1 = Value m2" "leaked m2 = leaked m1 + n"
    using amleaky_leaks by blast
  ultimately show ?case by (simp add: foldo_append)
qed simp

lemma case_leak1:
  "\<exists>m'. andthen (leakage_case1 (\<lambda>k. True) a m) (leakage_case1 (\<lambda>k. True) b) = Value m' \<and>
     leaked m' = leaked m + a + b"
  unfolding leakage_case1_def using amleaky_leaks [of a m] amleaky_leaks [of b]
  by (metis andthen.simps(1))

lemma leakage_case2_leaks:
  assumes "0 < r"
  shows "\<exists>m'. leakage_case2 (\<lambda>k. True) n r m = Value m' \<and> leaked m' = leaked m + r * n"
  using assms leak_loop [of n r m] by (simp add: leakage_case2_def)

lemma case_leak2:
  "\<exists>m'. andthen (leakage_case2 (\<lambda>k. True) 32 100000 m) (leakage_case2 (\<lambda>k. True) BLK_1MB 12) = Value m' \<and>
     leaked m' = leaked m + 100000 * 32 + 12 * BLK_1MB"
proof -
  obtain m1 where "leakage_case2 (\<lambda>k. True) 32 100000 m = Value m1" "leaked m1 = leaked m + 100000 * 32"
    using leakage_case2_leaks [of 100000 32 m] by auto
  moreover obtain m2 where "leakage_case2 (\<lambda>k. True) BLK_1MB 12 m1 = Value m2"
    "leaked m2 = leaked m1 + 12 * BLK_1MB"
    using leakage_case2_leaks [of 12 BLK_1MB m1] by auto
  ultimately show ?thesis by simp
qed

lemma read_string_stop:
  assumes "live b m" and "k < n" and "i + k < bsize (m ! b)"
    and "\<forall>j < k. \<exists>c. cells (m ! b) (i + j) = Some c \<and> c \<noteq> CHR 0x00" and "cells (m ! b) (i + k) = Some (CHR 0x00)"
  shows "read_string n (At b (int i)) m = Value ()"
  using assms
proof (induction k arbitrary: i n)
  case 0
  then obtain n' where "n = Suc n'" by (cases n) simp_all
  then show ?case using 0 load_in [of b m i "CHR 0x00"] by simp
next
  case (Suc k)
  obtain n' where n: "n = Suc n'" using Suc.prems(2) by (cases n) simp_all
  obtain c where c: "cells (m ! b) i = Some c" "c \<noteq> CHR 0x00"
    using Suc.prems(4) by (metis add_0_right zero_less_Suc)
  have "read_string n' (At b (int (Suc i))) m = Value ()"
  proof (rule Suc.IH)
    show "\<forall>j < k. \<exists>c. cells (m ! b) (Suc i + j) = Some c \<and> c \<noteq> CHR 0x00"
      using Suc.prems(4) by auto
  qed (use Suc.prems n in auto)
  then show ?case using n c Suc.prems load_in [of b m i c] by (simp add: add.commute)
qed

text \<open>A value of \<open>PATH\<close> that fits in \<open>PATH_MAX\<close> bytes.\<close>

definition path_fits :: "string \<Rightarrow> bool" where
  "path_fits s \<longleftrightarrow> length s < PATH_MAX \<and> list_all (\<lambda>c. c \<noteq> CHR 0x00) s"

lemma leakage_case3_once:
  assumes "path_fits s"
  shows "\<exists>m'. leakage_case3 (\<lambda>k. True) (Some s) cond m = Value m' \<and>
    leaked m' = leaked m + (if cond then 0 else PATH_MAX)"
proof -
  let ?b = "length m" and ?cs = "s @ [CHR 0x00]"
  let ?m = "filled ?b 0 ?cs (m @ [fresh_block True PATH_MAX])"
  have c: "cells (?m ! ?b) k = (if k \<le> length s then Some (?cs ! k) else None)" for k
    by (auto simp: nth_filled fill_def)
  have st: "strcpy (At ?b 0) s (m @ [fresh_block True PATH_MAX]) = Value ?m"
    unfolding strcpy_def using assms by (intro store_new) (simp_all add: path_fits_def)
  have rd: "read_string (PATH_MAX + 1) (At ?b (int 0)) ?m = Value ()"
    using assms c
    by (intro read_string_stop [where k = "length s"]) (auto simp: path_fits_def nth_append list_all_length)
  have m: "?m = m @ [\<lparr>bsize = PATH_MAX, cells = fill 0 ?cs Map.empty, alive = True, on_heap = True\<rparr>]"
    by (simp add: filled_def fresh_block_def)
  have fr: "free (At ?b 0) ?m = Value (kill ?b ?m)"
    unfolding m by (simp add: free_def)
  have lk: "leaked ?m = leaked m + PATH_MAX" "leaked (kill ?b ?m) = leaked m"
    unfolding m by (simp_all add: leaked_def kill_def)
  show ?thesis using st rd fr lk
    by (simp add: leakage_case3_def silly_getpath_def del: read_string.simps)
qed

lemma case_leak3:
  assumes "path_fits s"
  shows "\<exists>m'. andthen (leakage_case3 (\<lambda>k. True) (Some s) False m) (leakage_case3 (\<lambda>k. True) (Some s) True) = Value m' \<and>
    leaked m' = leaked m + PATH_MAX"
proof -
  obtain m1 where "leakage_case3 (\<lambda>k. True) (Some s) False m = Value m1" "leaked m1 = leaked m + PATH_MAX"
    using leakage_case3_once [OF assms, of False m] by auto
  moreover obtain m2 where "leakage_case3 (\<lambda>k. True) (Some s) True m1 = Value m2" "leaked m2 = leaked m1"
    using leakage_case3_once [OF assms, of True m1] by auto
  ultimately show ?thesis by simp
qed

text \<open>The check for a failed allocation looks at the wrong pointer, so the copy goes to a null pointer.\<close>

lemma silly_getpath_no_memory: "silly_getpath (\<lambda>k. False) (Some s) m = Undefined Null_Deref"
proof -
  have "store_all Null (s @ [CHR 0x00]) m = Undefined Null_Deref"
    by (rule store_all_bad) (simp_all add: resolve_def)
  then show ?thesis by (simp add: silly_getpath_def malloc_def strcpy_def)
qed

lemma leaked_start: "leaked start_memory = 0"
  by (simp add: leaked_def start_memory_def)



end
