(* ===== verification/Signals.thy ===== *)
theory Signals
  imports Common
begin

text \<open>
  Signals as the programs of chapters 11 to 13 use them: blocked and pending signals, installed actions,
  handlers that interrupt the program or each other. A handler is a list of atomic steps, so that another
  handler can come between any two of them. Standard signals are pending at most once, real-time
  signals are queued, and of the pending signals the one with the lowest number is delivered first.
  Stopping and continuing a process takes time but changes nothing else, so it is not represented.
\<close>

section \<open>Signals, sets of signals, actions\<close>

definition SIGHUP :: nat where "SIGHUP = 1"
definition SIGINT :: nat where "SIGINT = 2"
definition SIGQUIT :: nat where "SIGQUIT = 3"
definition SIGILL :: nat where "SIGILL = 4"
definition SIGABRT :: nat where "SIGABRT = 6"
definition SIGBUS :: nat where "SIGBUS = 7"
definition SIGFPE :: nat where "SIGFPE = 8"
definition SIGKILL :: nat where "SIGKILL = 9"
definition SIGUSR1 :: nat where "SIGUSR1 = 10"
definition SIGSEGV :: nat where "SIGSEGV = 11"
definition SIGALRM :: nat where "SIGALRM = 14"
definition SIGCHLD :: nat where "SIGCHLD = 17"
definition SIGSTOP :: nat where "SIGSTOP = 19"
definition SIGIO :: nat where "SIGIO = 29"
definition SIGRTMIN :: nat where "SIGRTMIN = 34"
definition SIGRTMAX :: nat where "SIGRTMAX = 64"

named_theorems sig_defs
declare SIGHUP_def [sig_defs] SIGINT_def [sig_defs] SIGQUIT_def [sig_defs] SIGILL_def [sig_defs]
  SIGABRT_def [sig_defs] SIGBUS_def [sig_defs] SIGFPE_def [sig_defs] SIGKILL_def [sig_defs]
  SIGUSR1_def [sig_defs] SIGSEGV_def [sig_defs] SIGALRM_def [sig_defs] SIGCHLD_def [sig_defs]
  SIGSTOP_def [sig_defs] SIGIO_def [sig_defs] SIGRTMIN_def [sig_defs] SIGRTMAX_def [sig_defs]

type_synonym sigset = "nat set"

definition sigfillset :: sigset where "sigfillset = {1..64}"

text \<open>The signals that can be blocked and caught.\<close>

definition catchable :: sigset where "catchable = sigfillset - {SIGKILL, SIGSTOP}"

record siginfo =
  si_signo :: nat
  si_value :: int
  si_pid :: int
  si_uid :: int

abbreviation signal :: "nat \<Rightarrow> siginfo" where
  "signal n \<equiv> \<lparr>si_signo = n, si_value = 0, si_pid = 0, si_uid = 0\<rparr>"

text \<open>A step of a handler has one register of its own besides the globals of the program.\<close>

type_synonym 'g hstep = "int \<Rightarrow> 'g \<Rightarrow> (int \<times> 'g) outcome"

record 'g sigact =
  sa_body :: "siginfo \<Rightarrow> 'g hstep list"
  sa_mask :: sigset
  sa_nodefer :: bool

datatype 'g disposition = SIG_DFL | SIG_IGN | Handler "'g sigact"

datatype default_action = Term | Ign_Default

definition default_action :: "nat \<Rightarrow> default_action" where
  "default_action n = (if n \<in> {17, 18, 19, 20, 21, 22, 23, 28} then Ign_Default else Term)"

section \<open>A process with signals\<close>

record 'g frame =
  todo :: "'g hstep list"
  reg :: int
  saved :: sigset

record 'g sigproc =
  blocked :: sigset
  pending :: "siginfo list"
  frames :: "'g frame list"
  glob :: 'g

datatype 'g status = Running "'g sigproc" | Killed nat | Left int | Broken ub

fun status_of :: "'a outcome \<Rightarrow> ('a \<Rightarrow> 'g status) \<Rightarrow> 'g status" where
  "status_of (Value a) f = f a"
| "status_of (Exit n) f = Left n"
| "status_of (Undefined u) f = Broken u"

definition is_pending :: "nat \<Rightarrow> 'g sigproc \<Rightarrow> bool" where
  "is_pending n p \<longleftrightarrow> n \<in> si_signo ` set (pending p)"

text \<open>A signal is generated: a standard signal that is pending already is lost.\<close>

definition generate :: "siginfo \<Rightarrow> 'g sigproc \<Rightarrow> 'g sigproc" where
  "generate si p =
     (if si_signo si < SIGRTMIN \<and> is_pending (si_signo si) p then p
      else p\<lparr>pending := pending p @ [si]\<rparr>)"

definition deliverable :: "'g sigproc \<Rightarrow> siginfo list" where
  "deliverable p = filter (\<lambda>si. si_signo si \<notin> blocked p) (pending p)"

text \<open>The first of those with the lowest number.\<close>

fun lowest :: "siginfo list \<Rightarrow> siginfo option" where
  "lowest [] = None"
| "lowest (x # xs) =
     (case lowest xs of None \<Rightarrow> Some x | Some y \<Rightarrow> Some (if si_signo x \<le> si_signo y then x else y))"

definition mask_during :: "'g sigact \<Rightarrow> nat \<Rightarrow> sigset \<Rightarrow> sigset" where
  "mask_during a n m = (m \<union> sa_mask a \<union> (if sa_nodefer a then {} else {n})) \<inter> catchable"

definition deliver :: "(nat \<Rightarrow> 'g disposition) \<Rightarrow> 'g sigproc \<Rightarrow> 'g status" where
  "deliver acts p =
     (case lowest (deliverable p) of
        None \<Rightarrow> Running p
      | Some si \<Rightarrow>
          let n = si_signo si; p = p\<lparr>pending := remove1 si (pending p)\<rparr> in
          (case acts n of
             SIG_IGN \<Rightarrow> Running p
           | SIG_DFL \<Rightarrow> (case default_action n of Term \<Rightarrow> Killed n | Ign_Default \<Rightarrow> Running p)
           | Handler a \<Rightarrow>
               Running (p\<lparr>frames := \<lparr>todo = sa_body a si, reg = 0, saved = blocked p\<rparr> # frames p,
                          blocked := mask_during a n (blocked p)\<rparr>)))"

text \<open>One step of the running handler; when it has none left it returns and the old mask comes back.\<close>

definition handler_step :: "'g sigproc \<Rightarrow> 'g status" where
  "handler_step p =
     (case frames p of
        [] \<Rightarrow> Running p
      | f # fs \<Rightarrow>
          (case todo f of
             [] \<Rightarrow> Running (p\<lparr>frames := fs, blocked := saved f\<rparr>)
           | h # hs \<Rightarrow>
               status_of (h (reg f) (glob p))
                 (\<lambda>(r, g). Running (p\<lparr>frames := f\<lparr>todo := hs, reg := r\<rparr> # fs, glob := g\<rparr>))))"

text \<open>One step of the main program, which runs only when no handler does.\<close>

definition in_main_step :: "('g \<Rightarrow> 'g outcome) \<Rightarrow> 'g sigproc \<Rightarrow> 'g status" where
  "in_main_step main p =
     (if frames p = [] then status_of (main (glob p)) (\<lambda>g. Running (p\<lparr>glob := g\<rparr>)) else Running p)"

datatype event = Generate siginfo | Deliver | In_Handler | In_Main

fun sig_event :: "(nat \<Rightarrow> 'g disposition) \<Rightarrow> ('g \<Rightarrow> 'g outcome) \<Rightarrow> event \<Rightarrow> 'g sigproc \<Rightarrow> 'g status" where
  "sig_event acts main (Generate si) p = Running (generate si p)"
| "sig_event acts main Deliver p = deliver acts p"
| "sig_event acts main In_Handler p = handler_step p"
| "sig_event acts main In_Main p = in_main_step main p"

fun run_events :: "(nat \<Rightarrow> 'g disposition) \<Rightarrow> ('g \<Rightarrow> 'g outcome) \<Rightarrow> event list \<Rightarrow> 'g status \<Rightarrow> 'g status" where
  "run_events acts main (e # es) (Running p) = run_events acts main es (sig_event acts main e p)"
| "run_events acts main es s = s"

definition fresh_process :: "sigset \<Rightarrow> 'g \<Rightarrow> 'g sigproc" where
  "fresh_process m g = \<lparr>blocked = m \<inter> catchable, pending = [], frames = [], glob = g\<rparr>"

section \<open>Runs\<close>

lemma run_events_stopped [simp]:
  "run_events acts main es (Killed n) = Killed n" "run_events acts main es (Left c) = Left c"
  "run_events acts main es (Broken u) = Broken u" "run_events acts main [] s = s"
  by (cases es; simp)+

lemma run_events_append:
  "run_events acts main (es @ fs) s = run_events acts main fs (run_events acts main es s)"
proof (induction es arbitrary: s)
  case (Cons e es)
  then show ?case by (cases s) simp_all
qed simp

lemma run_events_snoc:
  "run_events acts main (es @ [e]) s =
     (case run_events acts main es s of Running p \<Rightarrow> sig_event acts main e p | s' \<Rightarrow> s')"
  by (simp add: run_events_append split: status.split)

text \<open>What every event keeps of the running process holds in the end.\<close>

lemma run_events_invariant:
  assumes "\<And>e q r. e \<in> set es \<Longrightarrow> I q \<Longrightarrow> sig_event acts main e q = Running r \<Longrightarrow> I r"
    and "I p" and "run_events acts main es (Running p) = Running p'"
  shows "I p'"
  using assms
proof (induction es arbitrary: p)
  case (Cons e es)
  then obtain q where "sig_event acts main e p = Running q"
    by (cases "sig_event acts main e p") simp_all
  moreover have "I q"
    using Cons.prems(1) [of e p q] Cons.prems(2) calculation by simp
  moreover have "run_events acts main es (Running q) = Running p'"
    using Cons.prems(3) calculation(1) by simp
  ultimately show ?case
    using Cons.IH [of q] Cons.prems(1) by (metis list.set_intros(2))
qed simp

lemma lowest_None [simp]: "lowest xs = None \<longleftrightarrow> xs = []"
  by (cases xs) (auto split: option.splits)

lemma lowest_in: "lowest xs = Some x \<Longrightarrow> x \<in> set xs"
  by (induction xs arbitrary: x) (auto split: option.splits if_splits)

lemma lowest_le: "lowest xs = Some x \<Longrightarrow> y \<in> set xs \<Longrightarrow> si_signo x \<le> si_signo y"
proof (induction xs arbitrary: x)
  case (Cons z zs)
  show ?case
  proof (cases "lowest zs")
    case (Some w)
    then show ?thesis using Cons.prems Cons.IH [OF Some] by (auto split: if_splits)
  qed (use Cons.prems in auto)
qed simp

lemma lowest_deliverable:
  assumes "lowest (deliverable p) = Some si"
  shows "si \<in> set (pending p)" "si_signo si \<notin> blocked p"
  using lowest_in [OF assms] by (auto simp: deliverable_def)

section \<open>The state keeps its shape\<close>

text \<open>The masks that are restored when the handlers return, from the innermost one on, down to \<open>m\<close>.\<close>

fun mask_chain :: "sigset \<Rightarrow> sigset \<Rightarrow> 'g frame list \<Rightarrow> bool" where
  "mask_chain m cur [] \<longleftrightarrow> cur = m"
| "mask_chain m cur (f # fs) \<longleftrightarrow> saved f \<subseteq> cur \<and> mask_chain m (saved f) fs"

definition standard_pending :: "siginfo list \<Rightarrow> nat list" where
  "standard_pending q = filter (\<lambda>n. n < SIGRTMIN) (map si_signo q)"

definition well_formed :: "sigset \<Rightarrow> 'g sigproc \<Rightarrow> bool" where
  "well_formed m p \<longleftrightarrow>
     blocked p \<subseteq> catchable \<and> si_signo ` set (pending p) \<subseteq> sigfillset \<and>
     distinct (standard_pending (pending p)) \<and> mask_chain m (blocked p) (frames p)"

fun valid_event :: "event \<Rightarrow> bool" where
  "valid_event (Generate si) \<longleftrightarrow> si_signo si \<in> sigfillset"
| "valid_event e \<longleftrightarrow> True"

lemma standard_pending_remove1:
  "distinct (standard_pending q) \<Longrightarrow> distinct (standard_pending (remove1 si q))"
proof (induction q)
  case (Cons x q)
  have "set (standard_pending (remove1 si q)) \<subseteq> set (standard_pending q)"
    using set_remove1_subset [of si q] by (auto simp: standard_pending_def)
  then show ?case using Cons by (auto simp: standard_pending_def)
qed simp

lemma generate_well_formed:
  "well_formed m p \<Longrightarrow> si_signo si \<in> sigfillset \<Longrightarrow> well_formed m (generate si p)"
  by (auto simp: well_formed_def generate_def standard_pending_def is_pending_def)

lemma dequeue_well_formed:
  "well_formed m p \<Longrightarrow> well_formed m (p\<lparr>pending := remove1 si (pending p)\<rparr>)"
  using set_remove1_subset [of si "pending p"]
  by (auto simp: well_formed_def standard_pending_remove1)

lemma mask_during_mono: "m \<subseteq> catchable \<Longrightarrow> m \<subseteq> mask_during a n m \<and> mask_during a n m \<subseteq> catchable"
  by (auto simp: mask_during_def)

lemma deliver_well_formed:
  assumes "well_formed m p" and "deliver acts p = Running q"
  shows "well_formed m q"
proof (cases "lowest (deliverable p)")
  case (Some si)
  let ?p = "p\<lparr>pending := remove1 si (pending p)\<rparr>"
  have wf: "well_formed m ?p" using assms(1) by (rule dequeue_well_formed)
  show ?thesis
  proof (cases "acts (si_signo si)")
    case (Handler a)
    then have "q = ?p\<lparr>frames := \<lparr>todo = sa_body a si, reg = 0, saved = blocked p\<rparr> # frames p,
        blocked := mask_during a (si_signo si) (blocked p)\<rparr>"
      using assms(2) Some by (simp add: deliver_def Let_def)
    then show ?thesis
      using wf mask_during_mono [of "blocked p" a "si_signo si"] by (simp add: well_formed_def)
  qed (use assms(2) wf Some in \<open>auto simp: deliver_def Let_def split: default_action.splits\<close>)
qed (use assms in \<open>simp add: deliver_def\<close>)

lemma handler_step_well_formed:
  assumes "well_formed m p" and "handler_step p = Running q"
  shows "well_formed m q"
proof (cases "frames p")
  case (Cons f fs)
  show ?thesis
  proof (cases "todo f")
    case Nil
    then show ?thesis using assms Cons by (auto simp: handler_step_def well_formed_def)
  next
    case (Cons h hs)
    then show ?thesis using assms \<open>frames p = f # fs\<close>
      by (cases "h (reg f) (glob p)") (auto simp: handler_step_def well_formed_def)
  qed
qed (use assms in \<open>simp add: handler_step_def\<close>)

lemma in_main_step_running:
  "in_main_step main p = Running q \<longleftrightarrow>
     (if frames p = [] then \<exists>g. main (glob p) = Value g \<and> q = p\<lparr>glob := g\<rparr> else q = p)"
  by (cases "main (glob p)") (auto simp: in_main_step_def)

lemma sig_event_well_formed:
  assumes "well_formed m p" and "valid_event e" and "sig_event acts main e p = Running q"
  shows "well_formed m q"
proof (cases e)
  case (Generate si)
  then show ?thesis using assms by (auto intro: generate_well_formed)
next
  case In_Main
  then show ?thesis using assms by (auto simp: in_main_step_running well_formed_def split: if_splits)
qed (use assms in \<open>auto intro: deliver_well_formed handler_step_well_formed\<close>)

section \<open>Handlers that block everything\<close>

text \<open>
  The reference to compare with: a signal is handled at once, from the first step of its handler to the
  last, and the main program never sees a handler that is half done.
\<close>

fun run_body :: "'g hstep list \<Rightarrow> int \<Rightarrow> 'g \<Rightarrow> 'g outcome" where
  "run_body [] r g = Value g"
| "run_body (h # hs) r g = andthen (h r g) (\<lambda>(r, g). run_body hs r g)"

definition atomic_deliver :: "(nat \<Rightarrow> 'g disposition) \<Rightarrow> 'g sigproc \<Rightarrow> 'g status" where
  "atomic_deliver acts p =
     (case lowest (deliverable p) of
        None \<Rightarrow> Running p
      | Some si \<Rightarrow>
          let n = si_signo si; p = p\<lparr>pending := remove1 si (pending p)\<rparr> in
          (case acts n of
             SIG_IGN \<Rightarrow> Running p
           | SIG_DFL \<Rightarrow> (case default_action n of Term \<Rightarrow> Killed n | Ign_Default \<Rightarrow> Running p)
           | Handler a \<Rightarrow> status_of (run_body (sa_body a si) 0 (glob p)) (\<lambda>g. Running (p\<lparr>glob := g\<rparr>))))"

fun atomic_event :: "(nat \<Rightarrow> 'g disposition) \<Rightarrow> ('g \<Rightarrow> 'g outcome) \<Rightarrow> event \<Rightarrow> 'g sigproc \<Rightarrow> 'g status" where
  "atomic_event acts main (Generate si) p = Running (generate si p)"
| "atomic_event acts main Deliver p = atomic_deliver acts p"
| "atomic_event acts main In_Handler p = Running p"
| "atomic_event acts main In_Main p = in_main_step main p"

fun atomic_run :: "(nat \<Rightarrow> 'g disposition) \<Rightarrow> ('g \<Rightarrow> 'g outcome) \<Rightarrow> event list \<Rightarrow> 'g status \<Rightarrow> 'g status" where
  "atomic_run acts main (e # es) (Running p) = atomic_run acts main es (atomic_event acts main e p)"
| "atomic_run acts main es s = s"

lemma atomic_run_stopped [simp]:
  "atomic_run acts main es (Killed n) = Killed n" "atomic_run acts main es (Left c) = Left c"
  "atomic_run acts main es (Broken u) = Broken u" "atomic_run acts main [] s = s"
  by (cases es; simp)+

text \<open>The process once the running handler has come to its end.\<close>

definition settle :: "'g sigproc \<Rightarrow> 'g status" where
  "settle p =
     (case frames p of
        [] \<Rightarrow> Running p
      | f # fs \<Rightarrow>
          status_of (run_body (todo f) (reg f) (glob p))
            (\<lambda>g. Running (p\<lparr>frames := [], blocked := saved f, glob := g\<rparr>)))"

fun settled :: "'g status \<Rightarrow> 'g status" where
  "settled (Running p) = settle p"
| "settled s = s"

fun only_signals :: "sigset \<Rightarrow> event \<Rightarrow> bool" where
  "only_signals S (Generate si) \<longleftrightarrow> si_signo si \<in> S"
| "only_signals S e \<longleftrightarrow> True"

fun is_generate :: "event \<Rightarrow> bool" where
  "is_generate (Generate si) = True"
| "is_generate e = False"

definition serial_inv :: "sigset \<Rightarrow> 'g sigproc \<Rightarrow> bool" where
  "serial_inv S p \<longleftrightarrow>
     (\<forall>si \<in> set (pending p). si_signo si \<in> S) \<and> length (frames p) \<le> 1 \<and>
     (frames p \<noteq> [] \<longrightarrow> S \<subseteq> blocked p)"

lemma status_of_andthen: "status_of (andthen m f) k = status_of m (\<lambda>a. status_of (f a) k)"
  by (cases m) simp_all

lemma settle_generate:
  "settled (Running (generate si p)) =
     (case settle p of Running q \<Rightarrow> Running (generate si q) | s \<Rightarrow> s)"
proof (cases "frames p")
  case (Cons f fs)
  then show ?thesis
    by (cases "run_body (todo f) (reg f) (glob p)") (simp_all add: settle_def generate_def is_pending_def)
qed (simp add: settle_def generate_def)

lemma settle_handler_step:
  "length (frames p) \<le> 1 \<Longrightarrow> settled (handler_step p) = settle p"
proof (cases "frames p")
  case (Cons f fs)
  assume "length (frames p) \<le> 1"
  then have fs: "frames p = [f]" using Cons by simp
  show ?thesis
  proof (cases "todo f")
    case (Cons h hs)
    then show ?thesis using fs
      by (cases "h (reg f) (glob p)") (auto simp: handler_step_def settle_def status_of_andthen)
  qed (use fs in \<open>simp add: handler_step_def settle_def\<close>)
qed (simp add: handler_step_def settle_def)

text \<open>
  What a program promises: while the handler of one of the signals \<open>S\<close> runs, all signals of \<open>S\<close> are
  blocked, by the mask of its action or, for the signal itself, by default.
\<close>

locale serial_handlers =
  fixes acts :: "nat \<Rightarrow> 'g disposition" and S :: sigset
  assumes S_catchable: "S \<subseteq> catchable"
    and blocks_all: "n \<in> S \<Longrightarrow> acts n = Handler a \<Longrightarrow>
      S \<subseteq> sa_mask a \<union> (if sa_nodefer a then {} else {n})"
begin

lemma nothing_deliverable:
  "serial_inv S p \<Longrightarrow> frames p \<noteq> [] \<Longrightarrow> deliverable p = []"
  by (auto simp: serial_inv_def deliverable_def filter_empty_conv)

lemma deliver_serial_inv:
  assumes "serial_inv S p" and "deliver acts p = Running q"
  shows "serial_inv S q"
proof (cases "lowest (deliverable p)")
  case (Some si)
  have fr: "frames p = []" using nothing_deliverable [OF assms(1)] Some by (metis lowest_None option.distinct(1))
  have sub: "set (remove1 si (pending p)) \<subseteq> set (pending p)" by (rule set_remove1_subset)
  show ?thesis
  proof (cases "acts (si_signo si)")
    case (Handler a)
    have "si_signo si \<in> S" using assms(1) lowest_deliverable(1) [OF Some] by (simp add: serial_inv_def)
    then have "S \<subseteq> mask_during a (si_signo si) (blocked p)"
      using blocks_all [OF _ Handler] S_catchable by (fastforce simp: mask_during_def)
    then show ?thesis using assms Some sub fr Handler
      by (auto simp: deliver_def Let_def serial_inv_def)
  qed (use assms Some sub fr in \<open>auto simp: deliver_def Let_def serial_inv_def split: default_action.splits\<close>)
qed (use assms in \<open>simp add: deliver_def\<close>)

lemma handler_step_serial_inv:
  assumes "serial_inv S p" and "handler_step p = Running q"
  shows "serial_inv S q"
proof (cases "frames p")
  case (Cons f fs)
  then have fs: "fs = []" using assms(1) by (simp add: serial_inv_def)
  show ?thesis
  proof (cases "todo f")
    case Nil
    then show ?thesis using assms Cons fs by (auto simp: handler_step_def serial_inv_def)
  next
    case (Cons h hs)
    then show ?thesis using assms \<open>frames p = f # fs\<close>
      by (cases "h (reg f) (glob p)") (auto simp: handler_step_def serial_inv_def)
  qed
qed (use assms in \<open>simp add: handler_step_def\<close>)

lemma event_serial_inv:
  assumes "serial_inv S p" and "only_signals S e" and "sig_event acts main e p = Running q"
  shows "serial_inv S q"
proof (cases e)
  case (Generate si)
  then show ?thesis using assms by (auto simp: serial_inv_def generate_def split: if_splits)
next
  case In_Main
  then show ?thesis using assms by (auto simp: in_main_step_running serial_inv_def split: if_splits)
qed (use assms in \<open>auto intro: deliver_serial_inv handler_step_serial_inv\<close>)

lemma deliver_settled:
  assumes "serial_inv S p" and "frames p = []"
  shows "settled (deliver acts p) = atomic_deliver acts p"
proof (cases "lowest (deliverable p)")
  case (Some si)
  show ?thesis
  proof (cases "acts (si_signo si)")
    case (Handler a)
    then show ?thesis using assms Some
      by (cases "run_body (sa_body a si) 0 (glob p)")
        (simp_all add: deliver_def atomic_deliver_def settle_def Let_def)
  qed (use assms Some in \<open>auto simp: deliver_def atomic_deliver_def settle_def Let_def split: default_action.splits\<close>)
qed (use assms in \<open>simp add: deliver_def atomic_deliver_def settle_def\<close>)

text \<open>Every event is an event of the reference or leaves the settled process as it is.\<close>

lemma event_simulated:
  assumes "serial_inv S p"
  shows "settled (sig_event acts main e p) =
    (if is_generate e \<or> frames p = []
     then case settle p of Running q \<Rightarrow> atomic_event acts main e q | s \<Rightarrow> s else settle p)"
proof (cases "frames p = []")
  case True
  then have s: "settle p = Running p" by (simp add: settle_def)
  show ?thesis
  proof (cases e)
    case In_Main
    then show ?thesis using True s
      by (cases "main (glob p)") (simp_all add: in_main_step_def settle_def)
  next
    case (Generate si)
    then show ?thesis using settle_generate [of si p] s by simp
  next
    case Deliver
    then show ?thesis using deliver_settled [OF assms True] s True by simp
  next
    case In_Handler
    then show ?thesis using True s by (simp add: handler_step_def)
  qed
next
  case False
  have one: "length (frames p) \<le> 1" using assms by (simp add: serial_inv_def)
  show ?thesis
  proof (cases e)
    case (Generate si)
    then show ?thesis using settle_generate [of si p] by (simp split: status.splits)
  next
    case Deliver
    then show ?thesis using nothing_deliverable [OF assms False] False by (simp add: deliver_def)
  next
    case In_Handler
    then show ?thesis using settle_handler_step [OF one] False by simp
  next
    case In_Main
    then show ?thesis using False by (simp add: in_main_step_def)
  qed
qed

lemma atomic_run_over:
  "\<nexists>p. s = Running p \<Longrightarrow> atomic_run acts main es s = s"
  by (cases s) simp_all

text \<open>When the process ends with an event, so does the reference.\<close>

lemma stopped_simulated:
  assumes "sig_event acts main e p = s" and "\<nexists>q. s = Running q" and "serial_inv S p"
  shows "\<exists>es'. settled (run_events acts main (e # es) (Running p)) = atomic_run acts main es' (settle p) \<and>
    filter is_generate es' = filter is_generate (e # es)"
proof -
  have over: "run_events acts main es s = s" "settled s = s" using assms(2) by (cases s; simp)+
  have "settled (run_events acts main (e # es) (Running p)) = s" using assms(1) over by simp
  moreover have ng: "\<not> is_generate e" using assms(1,2) by (cases e) auto
  moreover have "atomic_run acts main (e # filter is_generate es) (settle p) = s"
  proof (cases "frames p = []")
    case True
    then have "settle p = Running p" by (simp add: settle_def)
    then show ?thesis
      using event_simulated [OF assms(3), of main e] True assms(1,2) over by (simp add: atomic_run_over)
  next
    case False
    then have "settle p = s"
      using event_simulated [OF assms(3), of main e] ng assms(1) over by simp
    then show ?thesis using assms(2) by (simp add: atomic_run_over)
  qed
  ultimately show ?thesis by (intro exI [of _ "e # filter is_generate es"]) simp
qed

text \<open>
  Lifted to runs: when only signals of \<open>S\<close> arrive, the process behaves as one whose handlers are atomic,
  under events in which the same signals are generated in the same order; handlers never interrupt
  each other.
\<close>

lemma run_simulated:
  assumes "serial_inv S p" and "list_all (only_signals S) es"
  shows "\<exists>es'. settled (run_events acts main es (Running p)) = atomic_run acts main es' (settle p) \<and>
    filter is_generate es' = filter is_generate es"
  using assms
proof (induction es arbitrary: p)
  case Nil
  then show ?case by (intro exI [of _ "[]"]) simp
next
  case (Cons e es)
  note sim = event_simulated [OF Cons.prems(1), of main e]
  have gen: "settled (Running (generate si p)) = settle (generate si p)" for si by simp
  show ?case
  proof (cases "sig_event acts main e p")
    case (Running q)
    have "serial_inv S q"
      using event_serial_inv [OF Cons.prems(1) _ Running] Cons.prems(2) by simp
    then obtain es' where es': "settled (run_events acts main es (Running q)) = atomic_run acts main es' (settle q)"
      "filter is_generate es' = filter is_generate es"
      using Cons.IH Cons.prems(2) by fastforce
    have q: "settled (run_events acts main (e # es) (Running p)) = atomic_run acts main es' (settle q)"
      using es'(1) Running by simp
    show ?thesis
    proof (cases "is_generate e \<or> frames p = []")
      case True
      then have "settle q = (case settle p of Running r \<Rightarrow> atomic_event acts main e r | s \<Rightarrow> s)"
        using sim Running by simp
      then have "atomic_run acts main es' (settle q) = atomic_run acts main (e # es') (settle p)"
        by (cases "settle p") simp_all
      then show ?thesis using q es'(2) by (intro exI [of _ "e # es'"]) simp
    next
      case False
      then have "settle q = settle p" using sim Running by simp
      then show ?thesis using q es'(2) False by (intro exI [of _ es']) simp
    qed
  next
    case (Killed n)
    then show ?thesis by (rule stopped_simulated [OF _ _ Cons.prems(1)]) simp
  next
    case (Left n)
    then show ?thesis by (rule stopped_simulated [OF _ _ Cons.prems(1)]) simp
  next
    case (Broken n)
    then show ?thesis by (rule stopped_simulated [OF _ _ Cons.prems(1)]) simp
  qed
qed

lemma never_nested:
  assumes "serial_inv S p" and "list_all (only_signals S) es"
    and "run_events acts main es (Running p) = Running q"
  shows "length (frames q) \<le> 1"
proof -
  have "serial_inv S q"
    using assms(2)
    by (intro run_events_invariant [where I = "serial_inv S", OF _ assms(1,3)])
      (auto simp: list_all_iff intro: event_serial_inv)
  then show ?thesis by (simp add: serial_inv_def)
qed

end

text \<open>The signals that have been generated, in their order.\<close>

fun sent_by :: "event \<Rightarrow> siginfo list" where
  "sent_by (Generate si) = [si]"
| "sent_by e = []"

definition sent :: "event list \<Rightarrow> siginfo list" where
  "sent es = concat (map sent_by es)"

lemma sent_simps [simp]: "sent [] = []" "sent (e # es) = sent_by e @ sent es" "sent (es @ fs) = sent es @ sent fs"
  by (simp_all add: sent_def)

lemma sent_filter: "sent (filter is_generate es) = sent es"
proof (induction es)
  case (Cons e es)
  then show ?case by (cases e) simp_all
qed simp

lemma sig_event_pending:
  assumes "sig_event acts main e p = Running q"
  shows "set (pending q) \<subseteq> set (pending p) \<union> set (sent_by e)"
proof (cases e)
  case (Generate si)
  then show ?thesis using assms by (auto simp: generate_def split: if_splits)
next
  case Deliver
  then show ?thesis
    using assms set_remove1_subset
    by (fastforce simp: deliver_def Let_def split: option.splits disposition.splits default_action.splits)
next
  case In_Handler
  then show ?thesis using assms
    by (cases "frames p"; cases "todo (hd (frames p))";
        cases "hd (todo (hd (frames p))) (reg (hd (frames p))) (glob p)")
      (auto simp: handler_step_def split: list.splits)
next
  case In_Main
  then show ?thesis using assms by (auto simp: in_main_step_running split: if_splits)
qed

text \<open>
  An invariant of the reference that depends on the signals generated so far, and says that the process
  goes on while there are at most \<open>K\<close> of them.
\<close>

lemma atomic_run_total:
  assumes "\<And>gs e p. e \<in> set es \<Longrightarrow> I gs p \<Longrightarrow> length (gs @ sent_by e) \<le> K \<Longrightarrow>
      \<exists>q. atomic_event acts main e p = Running q \<and> I (gs @ sent_by e) q"
    and "I gs p" and "length (gs @ sent es) \<le> K"
  shows "\<exists>q. atomic_run acts main es (Running p) = Running q \<and> I (gs @ sent es) q"
  using assms
proof (induction es arbitrary: gs p)
  case (Cons e es)
  obtain r where r: "atomic_event acts main e p = Running r" "I (gs @ sent_by e) r"
    using Cons.prems(1) [of e gs p] Cons.prems(2,3) by auto
  moreover have "\<exists>q. atomic_run acts main es (Running r) = Running q \<and> I ((gs @ sent_by e) @ sent es) q"
    using Cons.prems(1,3) r(2) by (intro Cons.IH) auto
  ultimately show ?case by simp
qed simp

lemma settled_Running: "settled s = Running q \<Longrightarrow> \<exists>p. s = Running p \<and> settle p = Running q"
  by (cases s) simp_all

lemma settle_idle: "frames p = [] \<Longrightarrow> settle p = Running p"
  by (simp add: settle_def)

text \<open>Running a handler to its end without interruption.\<close>

lemma handler_steps:
  assumes "frames p = f # fs"
  shows "run_events acts main (replicate (Suc (length (todo f))) In_Handler) (Running p) =
    status_of (run_body (todo f) (reg f) (glob p)) (\<lambda>g. Running (p\<lparr>frames := fs, blocked := saved f, glob := g\<rparr>))"
  using assms
proof (induction "todo f" arbitrary: p f)
  case Nil
  then show ?case by (simp add: handler_step_def)
next
  case (Cons h hs)
  show ?case
  proof (cases "h (reg f) (glob p)")
    case (Value a)
    obtain r g where a: "a = (r, g)" by (cases a)
    let ?f = "f\<lparr>todo := hs, reg := r\<rparr>" and ?p = "p\<lparr>frames := f\<lparr>todo := hs, reg := r\<rparr> # fs, glob := g\<rparr>"
    have "handler_step p = Running ?p" using Cons.prems Cons.hyps(2) [symmetric] Value a by (simp add: handler_step_def)
    moreover have "run_events acts main (replicate (Suc (length hs)) In_Handler) (Running ?p) =
        status_of (run_body hs r g) (\<lambda>g. Running (p\<lparr>frames := fs, blocked := saved f, glob := g\<rparr>))"
      using Cons.hyps(1) [of ?f ?p] by simp
    ultimately show ?thesis using Cons.hyps(2) [symmetric] Value a by simp
  qed (use Cons.prems Cons.hyps(2) [symmetric] in \<open>simp_all add: handler_step_def\<close>)
qed

lemma deliver_and_return:
  assumes "frames p = []" and "lowest (deliverable p) = Some si" and "acts (si_signo si) = Handler a"
    and "n = Suc (length (sa_body a si))"
  shows "run_events acts main (Deliver # replicate n In_Handler) (Running p) = atomic_deliver acts p"
proof -
  let ?f = "\<lparr>todo = sa_body a si, reg = 0, saved = blocked p\<rparr>"
  let ?p = "p\<lparr>pending := remove1 si (pending p), frames := [?f],
      blocked := mask_during a (si_signo si) (blocked p)\<rparr>"
  have "deliver acts p = Running ?p" using assms by (simp add: deliver_def Let_def)
  then show ?thesis
    using handler_steps [of ?p ?f "[]" acts main] assms
    unfolding assms(4) by (cases "run_body (sa_body a si) 0 (glob p)") (simp_all add: atomic_deliver_def Let_def)
qed

context serial_handlers
begin

lemma total_run:
  assumes "serial_inv S p" and "frames p = []" and "list_all (only_signals S) es"
    and "\<And>gs e p. only_signals S e \<Longrightarrow> I gs p \<Longrightarrow> length (gs @ sent_by e) \<le> K \<Longrightarrow>
      \<exists>q. atomic_event acts main e p = Running q \<and> I (gs @ sent_by e) q"
    and "I [] p" and "length (sent es) \<le> K"
  shows "\<exists>q q'. run_events acts main es (Running p) = Running q \<and> length (frames q) \<le> 1 \<and>
    settle q = Running q' \<and> I (sent es) q'"
proof -
  obtain es' where es': "settled (run_events acts main es (Running p)) = atomic_run acts main es' (Running p)"
    "filter is_generate es' = filter is_generate es"
    using run_simulated [OF assms(1,3), of main] assms(2) by (auto simp: settle_idle)
  have sent: "sent es' = sent es" by (metis es'(2) sent_filter)
  have "only_signals S e" if "e \<in> set es'" for e
  proof (cases "is_generate e")
    case True
    then have "e \<in> set (filter is_generate es)" unfolding es'(2) [symmetric] using that by simp
    then show ?thesis using assms(3) by (auto simp: list_all_iff)
  next
    case False
    then show ?thesis by (cases e) simp_all
  qed
  then obtain q' where q': "atomic_run acts main es' (Running p) = Running q'" "I (sent es) q'"
    using atomic_run_total [of es' I K acts main "[]" p] assms(4,5,6) sent by auto
  then obtain q where "run_events acts main es (Running p) = Running q" "settle q = Running q'"
    using es'(1) settled_Running by fastforce
  then show ?thesis using never_nested [OF assms(1,3)] q'(2) by blast
qed

end

lemma serial_inv_fresh [simp]: "serial_inv S (fresh_process m g)"
  by (simp add: serial_inv_def fresh_process_def)

lemma fresh_process_simps [simp]:
  "frames (fresh_process m g) = []" "pending (fresh_process m g) = []" "glob (fresh_process m g) = g"
  "blocked (fresh_process m g) = m \<inter> catchable"
  by (simp_all add: fresh_process_def)

section \<open>Processes that no signal ends\<close>

definition total_step :: "'g hstep \<Rightarrow> bool" where
  "total_step h \<longleftrightarrow> (\<forall>r g. \<exists>r' g'. h r g = Value (r', g'))"

text \<open>
  The signals of \<open>S\<close> are caught by handlers whose steps cannot fail, and the main program cannot fail
  either: whatever happens, the process goes on.
\<close>

locale caught_signals =
  fixes acts :: "nat \<Rightarrow> 'g disposition" and S :: sigset and main :: "'g \<Rightarrow> 'g outcome"
  assumes caught: "n \<in> S \<Longrightarrow> \<exists>a. acts n = Handler a \<and> (\<forall>si. list_all total_step (sa_body a si))"
    and main_total: "\<exists>g'. main g = Value g'"
begin

definition caught_inv :: "'g sigproc \<Rightarrow> bool" where
  "caught_inv p \<longleftrightarrow>
     (\<forall>si \<in> set (pending p). si_signo si \<in> S) \<and> (\<forall>f \<in> set (frames p). list_all total_step (todo f))"

lemma event_goes_on:
  assumes "caught_inv p" and "only_signals S e"
  shows "\<exists>q. sig_event acts main e p = Running q \<and> caught_inv q"
proof (cases e)
  case (Generate si)
  then show ?thesis using assms by (auto simp: generate_def caught_inv_def)
next
  case In_Main
  then show ?thesis using assms main_total [of "glob p"]
    by (auto simp: in_main_step_def caught_inv_def)
next
  case Deliver
  show ?thesis
  proof (cases "lowest (deliverable p)")
    case (Some si)
    then have "si_signo si \<in> S" using assms(1) lowest_deliverable(1) [OF Some] by (simp add: caught_inv_def)
    then obtain a where "acts (si_signo si) = Handler a" "\<forall>si. list_all total_step (sa_body a si)"
      using caught by blast
    then show ?thesis
      using Some assms(1) Deliver set_remove1_subset [of si "pending p"]
      by (auto simp: deliver_def Let_def caught_inv_def)
  qed (use assms Deliver in \<open>simp add: deliver_def\<close>)
next
  case In_Handler
  show ?thesis
  proof (cases "frames p")
    case (Cons f fs)
    show ?thesis
    proof (cases "todo f")
      case (Cons h hs)
      then have "total_step h" "list_all total_step hs"
        using assms(1) \<open>frames p = f # fs\<close> by (auto simp: caught_inv_def)
      moreover from this obtain r' g' where "h (reg f) (glob p) = Value (r', g')"
        unfolding total_step_def by meson
      ultimately show ?thesis
        using assms(1) Cons \<open>frames p = f # fs\<close> In_Handler by (simp add: handler_step_def caught_inv_def)
    qed (use assms Cons In_Handler in \<open>simp add: handler_step_def caught_inv_def\<close>)
  qed (use assms In_Handler in \<open>simp add: handler_step_def\<close>)
qed

lemma run_goes_on:
  assumes "caught_inv p" and "list_all (only_signals S) es"
  shows "\<exists>q. run_events acts main es (Running p) = Running q \<and> caught_inv q"
  using assms
proof (induction es arbitrary: p)
  case (Cons e es)
  then obtain q where "sig_event acts main e p = Running q" "caught_inv q"
    using event_goes_on by fastforce
  then show ?case using Cons by simp
qed simp

lemma never_ends:
  assumes "list_all (only_signals S) es"
  shows "\<exists>q. run_events acts main es (Running (fresh_process m g)) = Running q"
proof -
  have "caught_inv (fresh_process m g)" by (simp add: caught_inv_def)
  then show ?thesis using run_goes_on [OF _ assms] by blast
qed

end

end
