(* ===== verification/Signal_Programs.thy ===== *)
theory Signal_Programs
  imports Signals "HOL-Library.Multiset"
begin

text \<open>
  Programs of chapters 11 and 12 that install handlers and wait: \<open>ch11/sig2.c\<close>, \<open>query_mask.c\<close>,
  \<open>defer_or_not.c\<close>, \<open>ch12/rtsigs_waiter.c\<close> and the solutions \<open>donthup.c\<close>, \<open>atomic_A.c\<close> and \<open>atomic_B.c\<close>.
\<close>

section \<open>Looping programs that trap signals\<close>

text \<open>
  \<open>iter\<close> is the counter \<open>i\<close>, an \<open>unsigned long\<close>; \<open>outs\<close> are the messages the handlers have written, and
  \<open>wr k\<close> says whether the \<open>k\<close>-th \<open>write\<close> succeeds. The lines the main loop prints are left out.
\<close>

record looper =
  iter :: int
  outs :: "string list"
  writes :: nat

definition start_loop :: looper where
  "start_loop = \<lparr>iter = 1, outs = [], writes = 0\<rparr>"

definition write_msg :: "(nat \<Rightarrow> bool) \<Rightarrow> string \<Rightarrow> looper hstep" where
  "write_msg wr s r g =
     Value (r, g\<lparr>outs := (if wr (writes g) then outs g @ [s] else outs g), writes := Suc (writes g)\<rparr>)"

definition loop_forever :: "looper \<Rightarrow> looper outcome" where
  "loop_forever g = Value (g\<lparr>iter := to_unsigned 64 (iter g + 1)\<rparr>)"

text \<open>\<open>sigaction\<close> for one signal after the other; \<open>sa n\<close> is what the call for signal \<open>n\<close> returns.\<close>

fun trap :: "(nat \<Rightarrow> int) \<Rightarrow> nat list \<Rightarrow> 'g sigact \<Rightarrow> (nat \<Rightarrow> 'g disposition) \<Rightarrow> (nat \<Rightarrow> 'g disposition) outcome" where
  "trap sa [] a acts = Value acts"
| "trap sa (n # ns) a acts = (if sa n < 0 then FATAL else trap sa ns a (acts(n := Handler a)))"

definition no_handlers :: "nat \<Rightarrow> 'g disposition" where
  "no_handlers n = SIG_DFL"

definition sig2_siggy :: "(nat \<Rightarrow> bool) \<Rightarrow> siginfo \<Rightarrow> looper hstep list" where
  "sig2_siggy wr si =
     (if si_signo si = SIGINT then [write_msg wr (''*** siggy: handled SIGINT ***'' @ [LF])]
      else if si_signo si = SIGQUIT then [write_msg wr (''*** siggy: handled SIGQUIT ***'' @ [LF])]
      else [])"

definition sig2_main :: "(nat \<Rightarrow> bool) \<Rightarrow> (nat \<Rightarrow> int) \<Rightarrow> (nat \<Rightarrow> looper disposition) outcome" where
  "sig2_main wr sa =
     trap sa [SIGINT, SIGQUIT] \<lparr>sa_body = sig2_siggy wr, sa_mask = {}, sa_nodefer = False\<rparr> no_handlers"

definition donthup_siggy :: "(nat \<Rightarrow> bool) \<Rightarrow> siginfo \<Rightarrow> looper hstep list" where
  "donthup_siggy wr si =
     (if si_signo si = SIGHUP then [write_msg wr (''*** siggy: handled SIGHUP ***'' @ [LF])]
      else if si_signo si = SIGINT then [write_msg wr (''*** siggy: handled SIGINT ***'' @ [LF])]
      else if si_signo si = SIGQUIT then [write_msg wr (''*** siggy: handled SIGQUIT ***'' @ [LF])]
      else [])"

definition donthup_main :: "(nat \<Rightarrow> bool) \<Rightarrow> (nat \<Rightarrow> int) \<Rightarrow> (nat \<Rightarrow> looper disposition) outcome" where
  "donthup_main wr sa =
     trap sa [SIGHUP, SIGINT, SIGQUIT]
       \<lparr>sa_body = donthup_siggy wr, sa_mask = {}, sa_nodefer = False\<rparr> no_handlers"

text \<open>
  \<open>my_handler\<close> of \<open>query_mask.c\<close> prints which signals are blocked first; that call fails when
  \<open>sigprocmask\<close> does.
\<close>

definition my_handler :: "(nat \<Rightarrow> bool) \<Rightarrow> int \<Rightarrow> siginfo \<Rightarrow> looper hstep list" where
  "my_handler wr mask_query si =
     (\<lambda>r g. if mask_query < 0 then FATAL else Value (r, g)) #
     (if si_signo si = SIGINT then [write_msg wr (''*** my_handler: handled SIGINT ***'' @ [LF])]
      else if si_signo si = SIGQUIT then [write_msg wr (''*** my_handler: handled SIGQUIT ***'' @ [LF])]
      else [])"

definition query_mask_main :: "(nat \<Rightarrow> bool) \<Rightarrow> int \<Rightarrow> (nat \<Rightarrow> int) \<Rightarrow> (nat \<Rightarrow> looper disposition) outcome" where
  "query_mask_main wr mask_query sa =
     trap sa [SIGINT, SIGQUIT]
       \<lparr>sa_body = my_handler wr mask_query, sa_mask = sigfillset, sa_nodefer = False\<rparr> no_handlers"

section \<open>\<open>defer_or_not.c\<close> and \<open>rtsigs_waiter.c\<close>\<close>

text \<open>
  The globals \<open>s\<close> and \<open>t\<close>, and the signal numbers the handler has printed. \<open>s ++\<close> on a variable in memory
  is a load and a store, so each is a step of its own.
\<close>

record counters =
  cs :: int
  ct :: int
  printed :: "nat list"

definition MAX_S :: int where "MAX_S = 10"

definition start_counters :: counters where
  "start_counters = \<lparr>cs = 0, ct = 0, printed = []\<rparr>"

definition print_sig :: "nat \<Rightarrow> counters hstep" where
  "print_sig n r g = Value (r, g\<lparr>printed := printed g @ [n]\<rparr>)"

definition load_s :: "counters hstep" where "load_s r g = Value (cs g, g)"
definition load_t :: "counters hstep" where "load_t r g = Value (ct g, g)"

definition store_s :: "counters hstep" where
  "store_s r g = andthen (c_int (r + 1)) (\<lambda>v. Value (r, g\<lparr>cs := v\<rparr>))"

definition store_t :: "counters hstep" where
  "store_t r g = andthen (c_int (r + 1)) (\<lambda>v. Value (r, g\<lparr>ct := v\<rparr>))"

definition reset_s :: "counters hstep" where
  "reset_s r g = Value (r, if MAX_S \<le> r then g\<lparr>cs := 1\<rparr> else g)"

definition count_body :: "counters hstep list" where
  "count_body = [load_s, store_s, load_t, store_t, load_s, reset_s]"

definition sighdlr :: "siginfo \<Rightarrow> counters hstep list" where
  "sighdlr si = print_sig (si_signo si) # (if si_signo si = SIGUSR1 then count_body else [])"

definition defer_main :: "string list \<Rightarrow> (nat \<Rightarrow> int) \<Rightarrow> (nat \<Rightarrow> counters disposition) outcome" where
  "defer_main argv sa =
     (if length argv \<noteq> 2 then Exit EXIT_FAILURE
      else
        trap sa [SIGUSR1]
          \<lparr>sa_body = sighdlr, sa_mask = {}, sa_nodefer = (atoi (argv ! 1) = 2)\<rparr> no_handlers)"

definition rt_sighdlr :: "siginfo \<Rightarrow> counters hstep list" where
  "rt_sighdlr si =
     print_sig (si_signo si) #
     (if si_signo si = SIGRTMAX - 5 \<or> si_signo si = SIGRTMIN + 5 \<or> si_signo si = SIGRTMAX
      then count_body else [])"

definition rtsigs_main :: "(nat \<Rightarrow> int) \<Rightarrow> (nat \<Rightarrow> counters disposition) outcome" where
  "rtsigs_main sa =
     trap sa [SIGRTMAX - 5, SIGRTMIN + 5, SIGRTMAX]
       \<lparr>sa_body = rt_sighdlr, sa_mask = sigfillset, sa_nodefer = False\<rparr> no_handlers"

text \<open>\<open>pause()\<close> in a loop changes nothing.\<close>

definition pause_forever :: "'g \<Rightarrow> 'g outcome" where
  "pause_forever g = Value g"

section \<open>\<open>atomic_A.c\<close> and \<open>atomic_B.c\<close>\<close>

text \<open>\<open>kill p n\<close> is what \<open>kill(p, n)\<close> returns; the result lists the signals that were sent.\<close>

definition atomic_A_main :: "string list \<Rightarrow> (int \<Rightarrow> nat \<Rightarrow> int) \<Rightarrow> (int \<times> nat) list outcome" where
  "atomic_A_main argv kill =
     (if length argv \<noteq> 3 then Exit EXIT_FAILURE
      else if 1 < length (argv ! 1) then Exit EXIT_FAILURE
      else
        let processB = atoi (argv ! 2) in
        if kill processB 0 < 0 then FATAL
        else if kill processB SIGUSR1 < 0 then FATAL
        else Value [(processB, SIGUSR1)])"

record flagged =
  gFlag :: int
  shown :: "int list"

definition handle_sigs :: "siginfo \<Rightarrow> flagged hstep list" where
  "handle_sigs si = [\<lambda>r g. Value (r, g\<lparr>gFlag := 1\<rparr>)]"

definition atomic_B_main :: "(nat \<Rightarrow> int) \<Rightarrow> (nat \<Rightarrow> flagged disposition) outcome" where
  "atomic_B_main sa =
     trap sa [SIGUSR1] \<lparr>sa_body = handle_sigs, sa_mask = {}, sa_nodefer = False\<rparr> no_handlers"

definition atomic_B_poll :: "flagged \<Rightarrow> flagged outcome" where
  "atomic_B_poll g = Value (g\<lparr>shown := shown g @ [gFlag g]\<rparr>)"

section \<open>Facts on the programs\<close>

lemma write_msg_total [simp]: "total_step (write_msg wr s)"
  by (simp add: total_step_def write_msg_def)

text \<open>The actions after the handler \<open>a\<close> has been installed for the signals \<open>ns\<close>.\<close>

definition installed :: "nat list \<Rightarrow> 'g sigact \<Rightarrow> nat \<Rightarrow> 'g disposition" where
  "installed ns a n = (if n \<in> set ns then Handler a else SIG_DFL)"

lemma trap_acts: "trap sa ns a acts = Value acts' \<Longrightarrow> acts' n = (if n \<in> set ns then Handler a else acts n)"
  by (induction ns arbitrary: acts) (auto split: if_splits)

lemma trap_ok: "trap sa ns a no_handlers = Value acts \<Longrightarrow> acts = installed ns a"
  by (rule ext) (simp add: trap_acts installed_def no_handlers_def)

lemma trap_fails: "n \<in> set ns \<Longrightarrow> sa n < 0 \<Longrightarrow> trap sa ns a acts = FATAL"
  by (induction ns arbitrary: acts) auto

abbreviation donthup_acts :: "(nat \<Rightarrow> bool) \<Rightarrow> nat \<Rightarrow> looper disposition" where
  "donthup_acts wr \<equiv> installed [SIGHUP, SIGINT, SIGQUIT]
     \<lparr>sa_body = donthup_siggy wr, sa_mask = {}, sa_nodefer = False\<rparr>"

interpretation donthup: caught_signals "donthup_acts wr" "{SIGHUP, SIGINT, SIGQUIT}" loop_forever for wr
  by unfold_locales (auto simp: installed_def donthup_siggy_def loop_forever_def)

text \<open>
  A terminal that closes does not end \<open>donthup\<close>. Once its handlers are installed, no sequence of the
  signals for a hangup, an interrupt or a quit, whatever their number and whenever they arrive, ends the
  process, even when writing the message fails; a signal it does not catch, such as \<open>SIGTERM\<close> (15), still
  does. When a handler cannot be installed, the program gives up.
\<close>
lemma donthup_survives:
  assumes "donthup_main wr sa = Value acts" and "list_all (only_signals {SIGHUP, SIGINT, SIGQUIT}) es"
  shows "(\<exists>p. run_events acts loop_forever es (Running (fresh_process {} start_loop)) = Running p) \<and>
    run_events acts loop_forever [Generate (signal 15), Deliver] (Running (fresh_process {} start_loop)) = Killed 15 \<and>
    (\<forall>n \<in> {SIGHUP, SIGINT, SIGQUIT}. \<forall>sa'. sa' n < 0 \<longrightarrow> donthup_main wr sa' = FATAL)"
proof (intro conjI)
  have acts: "acts = donthup_acts wr"
    using assms(1) unfolding donthup_main_def by (rule trap_ok)
  show "\<exists>p. run_events acts loop_forever es (Running (fresh_process {} start_loop)) = Running p"
    unfolding acts using assms(2) by (rule donthup.never_ends)
  have "acts 15 = SIG_DFL" unfolding acts by (simp add: installed_def sig_defs)
  then show "run_events acts loop_forever [Generate (signal 15), Deliver]
      (Running (fresh_process {} start_loop)) = Killed 15"
    by (simp add: generate_def is_pending_def deliver_def deliverable_def default_action_def)
  show "\<forall>n \<in> {SIGHUP, SIGINT, SIGQUIT}. \<forall>sa'. sa' n < 0 \<longrightarrow> donthup_main wr sa' = FATAL"
    unfolding donthup_main_def by (auto intro: trap_fails)
qed

section \<open>Counting signals\<close>

text \<open>The value of \<open>s\<close> after \<open>t\<close> signals: 1 to 9 and then 1 again.\<close>

definition s_of :: "int \<Rightarrow> int" where
  "s_of t = (if t = 0 then 0 else (t - 1) mod 9 + 1)"

lemma s_of_next: "0 \<le> t \<Longrightarrow> (if MAX_S \<le> s_of t + 1 then 1 else s_of t + 1) = s_of (t + 1)"
  unfolding s_of_def MAX_S_def by (simp split: if_splits) presburger

lemma s_of_range: "0 \<le> t \<Longrightarrow> 0 \<le> s_of t \<and> s_of t < MAX_S"
  by (simp add: s_of_def MAX_S_def)

definition counted :: "counters \<Rightarrow> counters" where
  "counted g = g\<lparr>cs := s_of (ct g + 1), ct := ct g + 1\<rparr>"

lemma run_count_body:
  assumes "cs g = s_of (ct g)" and "0 \<le> ct g" and "ct g < INT_MAX"
  shows "run_body count_body r g = Value (counted g)"
proof -
  have "is_int (cs g + 1)" "is_int (ct g + 1)"
    using s_of_range [OF assms(2)] assms by (simp_all add: MAX_S_def int_range_defs)
  then show ?thesis
    using s_of_next [OF assms(2)] assms(1)
    by (auto simp: count_body_def load_s_def load_t_def store_s_def store_t_def reset_s_def counted_def
        intro!: counters.equality split: if_splits)
qed

lemma length_count_body [simp]: "length count_body = 6"
  by (simp add: count_body_def)

text \<open>
  The handlers of both programs, on the signals they count. A handler that counts \<open>S\<close> and is not
  interrupted: \<open>counting\<close> says what the globals are after the signals \<open>gs\<close>, of which some are pending.
\<close>

definition count_signal :: "siginfo \<Rightarrow> counters hstep list" where
  "count_signal si = print_sig (si_signo si) # count_body"

definition counter_ok :: "counters \<Rightarrow> bool" where
  "counter_ok g \<longleftrightarrow> ct g = int (length (printed g)) \<and> cs g = s_of (ct g)"

lemma run_count_signal:
  assumes "counter_ok g" and "length (printed g) < nat INT_MAX"
  shows "run_body (count_signal si) r g = Value (counted (g\<lparr>printed := printed g @ [si_signo si]\<rparr>)) \<and>
    counter_ok (counted (g\<lparr>printed := printed g @ [si_signo si]\<rparr>))"
  using assms run_count_body [of "g\<lparr>printed := printed g @ [si_signo si]\<rparr>" r]
  by (simp add: count_signal_def print_sig_def counter_ok_def counted_def)

text \<open>Standard signals may be lost, real-time signals are not.\<close>

definition counting :: "sigset \<Rightarrow> siginfo list \<Rightarrow> counters sigproc \<Rightarrow> bool" where
  "counting S gs p \<longleftrightarrow>
     frames p = [] \<and> blocked p = {} \<and> counter_ok (glob p) \<and> (\<forall>si \<in> set (pending p). si_signo si \<in> S) \<and>
     mset (printed (glob p)) + mset (map si_signo (pending p)) \<subseteq># mset (map si_signo gs) \<and>
     (S \<inter> {..<SIGRTMIN} = {} \<longrightarrow>
        mset (printed (glob p)) + mset (map si_signo (pending p)) = mset (map si_signo gs)) \<and>
     (gs \<noteq> [] \<longrightarrow> pending p \<noteq> [] \<or> printed (glob p) \<noteq> [])"

lemma counting_generate:
  assumes "counting S gs p" and "si_signo si \<in> S"
  shows "counting S (gs @ [si]) (generate si p)"
proof (cases "si_signo si < SIGRTMIN \<and> is_pending (si_signo si) p")
  case True
  then have "pending p \<noteq> []" "S \<inter> {..<SIGRTMIN} \<noteq> {}" using assms(2) by (auto simp: is_pending_def)
  moreover have "mset (map si_signo gs) \<subseteq># mset (map si_signo (gs @ [si]))" by simp
  ultimately show ?thesis using assms(1) True
    by (auto simp: counting_def generate_def intro: subset_mset.order_trans)
next
  case False
  then show ?thesis using assms by (auto simp: counting_def generate_def)
qed

lemma counting_length:
  assumes "counting S gs p" and "pending p \<noteq> []"
  shows "length (printed (glob p)) < length gs"
proof -
  have "size (mset (printed (glob p)) + mset (map si_signo (pending p))) \<le> size (mset (map si_signo gs))"
    using assms(1) by (intro size_mset_mono) (simp add: counting_def)
  moreover have "0 < length (pending p)" using assms(2) by simp
  ultimately show ?thesis unfolding size_union size_mset length_map by linarith
qed

lemma counting_deliver:
  assumes "counting S gs p" and "length gs \<le> nat INT_MAX"
    and "\<And>si. si_signo si \<in> S \<Longrightarrow> \<exists>a. acts (si_signo si) = Handler a \<and> sa_body a si = count_signal si"
  shows "\<exists>q. atomic_deliver acts p = Running q \<and> counting S gs q \<and>
    (pending p \<noteq> [] \<longrightarrow> (\<exists>si. lowest (pending p) = Some si \<and> pending q = remove1 si (pending p) \<and>
       printed (glob q) = printed (glob p) @ [si_signo si]))"
proof (cases "lowest (deliverable p)")
  case None
  then show ?thesis using assms(1)
    by (auto simp: atomic_deliver_def counting_def deliverable_def filter_empty_conv)
next
  case (Some si)
  have dl: "deliverable p = pending p" using assms(1) by (simp add: counting_def deliverable_def)
  have si: "si \<in> set (pending p)" using Some by (rule lowest_deliverable(1))
  then have "si_signo si \<in> S" using assms(1) by (auto simp: counting_def)
  then obtain a where a: "acts (si_signo si) = Handler a" "sa_body a si = count_signal si"
    using assms(3) by blast
  let ?g = "counted ((glob p)\<lparr>printed := printed (glob p) @ [si_signo si]\<rparr>)"
  have "length (printed (glob p)) < nat INT_MAX" using counting_length [OF assms(1)] si assms(2) by fastforce
  then have body: "run_body (count_signal si) 0 (glob p) = Value ?g" "counter_ok ?g"
    using run_count_signal [of "glob p" si 0] assms(1) by (simp_all add: counting_def)
  have pr: "printed ?g = printed (glob p) @ [si_signo si]" by (simp add: counted_def)
  have "mset (pending p) = add_mset si (mset (remove1 si (pending p)))" using si by simp
  then have ms: "mset (map si_signo (pending p)) = add_mset (si_signo si) (mset (map si_signo (remove1 si (pending p))))"
    by (metis image_mset_add_mset mset_map)
  let ?q = "p\<lparr>pending := remove1 si (pending p), glob := ?g\<rparr>"
  have "atomic_deliver acts p = Running ?q"
    using Some a body(1) by (simp add: atomic_deliver_def Let_def)
  moreover have "counting S gs ?q"
    using assms(1) body(2) pr ms set_remove1_subset [of si "pending p"] unfolding counting_def by auto
  ultimately show ?thesis using pr Some dl by auto
qed

lemma counting_event:
  assumes "only_signals S e" and "counting S gs p" and "length (gs @ sent_by e) \<le> nat INT_MAX"
    and "\<And>si. si_signo si \<in> S \<Longrightarrow> \<exists>a. acts (si_signo si) = Handler a \<and> sa_body a si = count_signal si"
  shows "\<exists>q. atomic_event acts pause_forever e p = Running q \<and> counting S (gs @ sent_by e) q"
proof (cases e)
  case (Generate si)
  then show ?thesis using assms(1,2) counting_generate by simp
next
  case Deliver
  then show ?thesis using counting_deliver [OF assms(2) _ assms(4)] assms(3) by auto
next
  case In_Handler
  then show ?thesis using assms(2) by simp
next
  case In_Main
  then show ?thesis using assms(2) by (simp add: in_main_step_def pause_forever_def counting_def)
qed

lemma counting_start: "counting S [] (fresh_process {} start_counters)"
  by (simp add: counting_def counter_ok_def start_counters_def s_of_def)

lemma settle_Running_idle: "settle p = Running q \<Longrightarrow> frames p = [] \<Longrightarrow> q = p"
  by (simp add: settle_def)

abbreviation rt_signals :: "nat list" where
  "rt_signals \<equiv> [SIGRTMAX - 5, SIGRTMIN + 5, SIGRTMAX]"

abbreviation rtsigs_acts :: "nat \<Rightarrow> counters disposition" where
  "rtsigs_acts \<equiv> installed rt_signals \<lparr>sa_body = rt_sighdlr, sa_mask = sigfillset, sa_nodefer = False\<rparr>"

interpretation rt: serial_handlers rtsigs_acts "set rt_signals"
  by unfold_locales (auto simp: installed_def catchable_def sigfillset_def sig_defs split: if_splits)

lemma rt_handles:
  "si_signo si \<in> set rt_signals \<Longrightarrow> \<exists>a. rtsigs_acts (si_signo si) = Handler a \<and> sa_body a si = count_signal si"
  by (auto simp: installed_def rt_sighdlr_def count_signal_def)

abbreviation defer_acts :: "bool \<Rightarrow> nat \<Rightarrow> counters disposition" where
  "defer_acts nodefer \<equiv> installed [SIGUSR1] \<lparr>sa_body = sighdlr, sa_mask = {}, sa_nodefer = nodefer\<rparr>"

interpretation deferred: serial_handlers "defer_acts False" "{SIGUSR1}"
  by unfold_locales (auto simp: installed_def catchable_def sigfillset_def sig_defs split: if_splits)

lemma defer_handles:
  "si_signo si \<in> {SIGUSR1} \<Longrightarrow> \<exists>a. defer_acts b (si_signo si) = Handler a \<and> sa_body a si = count_signal si"
  by (auto simp: installed_def sighdlr_def count_signal_def)

text \<open>
  C25: real-time signals are queued and none is lost. Whatever the number of the three signals (up to
  \<open>INT_MAX\<close>) and whenever they come, \<open>rtsigs_waiter\<close> never runs two handlers at a time, and whenever no
  handler is running, the signals it has printed and those still pending are together exactly those that
  were sent; \<open>total\<close> is the number of signals handled and \<open>s\<close> counts them from 1 to 9.
\<close>
theorem rtsigs_none_lost:
  assumes "rtsigs_main sa = Value acts" and "list_all (only_signals (set rt_signals)) es"
    and "length (sent es) \<le> nat INT_MAX"
  shows "\<exists>p. run_events acts pause_forever es (Running (fresh_process {} start_counters)) = Running p \<and>
    length (frames p) \<le> 1 \<and>
    (frames p = [] \<longrightarrow>
       mset (printed (glob p)) + mset (map si_signo (pending p)) = mset (map si_signo (sent es)) \<and>
       ct (glob p) = int (length (printed (glob p))) \<and> cs (glob p) = s_of (ct (glob p)))"
proof -
  have acts: "acts = rtsigs_acts" using assms(1) unfolding rtsigs_main_def by (rule trap_ok)
  have "\<exists>q q'. run_events acts pause_forever es (Running (fresh_process {} start_counters)) = Running q \<and>
      length (frames q) \<le> 1 \<and> settle q = Running q' \<and> counting (set rt_signals) (sent es) q'"
    unfolding acts
    by (rule rt.total_run [where K = "nat INT_MAX"])
      (use assms(2,3) counting_event [OF _ _ _ rt_handles] counting_start in \<open>auto simp del: set_simps\<close>)
  then obtain q q' where q: "run_events acts pause_forever es (Running (fresh_process {} start_counters)) = Running q"
      "length (frames q) \<le> 1" "settle q = Running q'" "counting (set rt_signals) (sent es) q'" by blast
  have "set rt_signals \<inter> {..<SIGRTMIN} = {}" by (simp add: sig_defs)
  then show ?thesis
    using q settle_Running_idle [OF q(3)] by (auto simp: counting_def counter_ok_def)
qed

theorem rtsigs_none_lost_witness:
  "\<exists>acts p. rtsigs_main (\<lambda>n. 0) = Value acts \<and>
     run_events acts pause_forever
       [Generate (signal 64), Deliver, Generate (signal 64), Generate (signal 64)]
       (Running (fresh_process {} start_counters)) = Running p \<and> length (frames p) \<le> 1"
proof -
  obtain acts where a: "rtsigs_main (\<lambda>n. 0) = Value acts" by (simp add: rtsigs_main_def)
  then show ?thesis
    using rtsigs_none_lost [OF a, of "[Generate (signal 64), Deliver, Generate (signal 64), Generate (signal 64)]"]
    by (auto simp: sig_defs INT_MAX_def)
qed

text \<open>Handling everything that is pending: one signal after the other, each handler to its end.\<close>

definition drain :: "nat \<Rightarrow> event list" where
  "drain n = concat (replicate n (Deliver # replicate 8 In_Handler))"

lemma drain_Suc: "drain (Suc n) = (Deliver # replicate 8 In_Handler) @ drain n"
  by (simp add: drain_def)

lemma lowest_sorted:
  assumes "lowest q = Some si"
  shows "sort (map si_signo q) = si_signo si # sort (map si_signo (remove1 si q))"
proof (rule properties_for_sort)
  have "mset q = add_mset si (mset (remove1 si q))" using lowest_in [OF assms] by simp
  then show "mset (si_signo si # sort (map si_signo (remove1 si q))) = mset (map si_signo q)"
    by (metis image_mset_add_mset mset.simps(2) mset_map mset_sort)
  have "si_signo si \<le> si_signo x" if "x \<in> set (remove1 si q)" for x
    using that lowest_le [OF assms] set_remove1_subset [of si q] by blast
  then show "sorted (si_signo si # sort (map si_signo (remove1 si q)))" by auto
qed

lemma drain_handles:
  assumes "counting (set rt_signals) gs p" and "length gs \<le> nat INT_MAX" and "n = length (pending p)"
  shows "\<exists>q. run_events rtsigs_acts pause_forever (drain n) (Running p) = Running q \<and>
    pending q = [] \<and> frames q = [] \<and>
    printed (glob q) = printed (glob p) @ sort (map si_signo (pending p))"
  using assms(1,3)
proof (induction n arbitrary: p)
  case 0
  then show ?case by (intro exI [of _ p]) (simp add: drain_def counting_def)
next
  case (Suc n)
  obtain r si where r: "atomic_deliver rtsigs_acts p = Running r" "counting (set rt_signals) gs r"
    "lowest (pending p) = Some si" "pending r = remove1 si (pending p)"
    "printed (glob r) = printed (glob p) @ [si_signo si]"
    using counting_deliver [OF Suc.prems(1) assms(2) rt_handles] Suc.prems(2) by force
  have si: "si \<in> set (pending p)" using r(3) by (rule lowest_in)
  then have "si_signo si \<in> set rt_signals" using Suc.prems(1) by (auto simp: counting_def simp del: set_simps)
  then obtain a where a: "rtsigs_acts (si_signo si) = Handler a" "sa_body a si = count_signal si"
    using rt_handles by blast
  have "deliverable p = pending p" "frames p = []" using Suc.prems(1) by (auto simp: counting_def deliverable_def)
  then have "run_events rtsigs_acts pause_forever (Deliver # replicate 8 In_Handler) (Running p) = Running r"
    using deliver_and_return [of p si rtsigs_acts a 8 pause_forever] a r(1,3)
    by (simp add: count_signal_def)
  moreover have "length (pending r) = n" using Suc.prems(2) si r(4) by (simp add: length_remove1)
  ultimately show ?case
    using Suc.IH [OF r(2)] r(3,4,5) lowest_sorted [OF r(3)]
    unfolding drain_Suc run_events_append by simp
qed

lemma generate_queued:
  "\<forall>si \<in> set b. SIGRTMIN \<le> si_signo si \<Longrightarrow>
   run_events acts main (map Generate b) (Running p) = Running (p\<lparr>pending := pending p @ b\<rparr>)"
  by (induction b arbitrary: p) (simp_all add: generate_def)

text \<open>
  Pending real-time signals are handled in the order of their numbers. While the handler for one
  signal runs, any burst of the three signals arrives; when the handler has returned and the rest is
  handled, the numbers printed after the first are those of the burst, sorted.
\<close>
lemma rtsigs_priority_order:
  assumes "rtsigs_main sa = Value acts" and "si_signo first \<in> set rt_signals"
    and "\<forall>si \<in> set burst. si_signo si \<in> set rt_signals" and "length burst < nat INT_MAX"
  shows "\<exists>p. run_events acts pause_forever
      ([Generate first, Deliver] @ map Generate burst @ replicate 8 In_Handler @ drain (length burst))
      (Running (fresh_process {} start_counters)) = Running p \<and>
    pending p = [] \<and> printed (glob p) = si_signo first # sort (map si_signo burst)"
proof -
  have acts: "acts = rtsigs_acts" using assms(1) unfolding rtsigs_main_def by (rule trap_ok)
  obtain a where a: "rtsigs_acts (si_signo first) = Handler a" "sa_body a first = count_signal first"
    using rt_handles assms(2) by blast
  let ?p0 = "fresh_process {} start_counters"
  let ?f = "\<lparr>todo = count_signal first, reg = 0, saved = {}\<rparr>"
  let ?p1 = "?p0\<lparr>frames := [?f], blocked := mask_during a (si_signo first) {}\<rparr>"
  let ?p2 = "?p1\<lparr>pending := burst\<rparr>"
  let ?g = "counted (start_counters\<lparr>printed := [si_signo first]\<rparr>)"
  let ?p3 = "?p0\<lparr>pending := burst, glob := ?g\<rparr>"
  have p1: "run_events acts pause_forever [Generate first, Deliver] (Running ?p0) = Running ?p1"
    unfolding acts using a by (simp add: generate_def is_pending_def deliver_def deliverable_def Let_def fresh_process_def)
  have "\<forall>si \<in> set burst. SIGRTMIN \<le> si_signo si" using assms(3) by (auto simp: sig_defs)
  then have p2: "run_events acts pause_forever (map Generate burst) (Running ?p1) = Running ?p2"
    by (simp add: generate_queued)
  have body: "run_body (count_signal first) 0 start_counters = Value ?g" "counter_ok ?g"
    using run_count_signal [of start_counters first 0]
    by (simp_all add: counter_ok_def start_counters_def s_of_def INT_MAX_def)
  have p3: "run_events acts pause_forever (replicate 8 In_Handler) (Running ?p2) = Running ?p3"
    using handler_steps [of ?p2 ?f "[]" acts pause_forever] body
    by (simp add: count_signal_def fresh_process_def)
  have "counting (set rt_signals) (first # burst) ?p3"
    using body(2) assms(3) by (simp add: counting_def counted_def start_counters_def)
  then obtain q where "run_events acts pause_forever (drain (length burst)) (Running ?p3) = Running q"
    "pending q = []" "printed (glob q) = printed ?g @ sort (map si_signo burst)"
    using drain_handles [of "first # burst" ?p3] assms(4) unfolding acts by auto
  then show ?thesis
    unfolding run_events_append p1 p2 p3 by (simp add: counted_def start_counters_def)
qed

text \<open>A standard signal is pending at most once.\<close>

lemma pending_once:
  assumes "list_all (only_signals {SIGUSR1}) es"
    and "run_events acts main es (Running (fresh_process {} g)) = Running p"
  shows "length (pending p) \<le> 1"
proof -
  let ?I = "\<lambda>p. well_formed {} p \<and> (\<forall>si \<in> set (pending p). si_signo si = SIGUSR1)"
  have "?I p"
  proof (rule run_events_invariant [where I = ?I, OF _ _ assms(2)])
    fix e q r
    assume e: "e \<in> set es" and q: "?I q" and s: "sig_event acts main e q = Running r"
    have ok: "only_signals {SIGUSR1} e" using e assms(1) by (simp add: list_all_iff)
    then have "valid_event e" by (cases e) (simp_all add: sigfillset_def sig_defs)
    then have wf: "well_formed {} r" using sig_event_well_formed [OF _ _ s] q by blast
    have "set (pending r) \<subseteq> set (pending q) \<union> set (sent_by e)" using sig_event_pending [OF s] .
    moreover have "\<forall>si \<in> set (sent_by e). si_signo si = SIGUSR1" using ok by (cases e) simp_all
    ultimately show "?I r" using wf q by blast
  qed (simp add: well_formed_def standard_pending_def)
  then have "standard_pending (pending p) = map si_signo (pending p)"
    "\<forall>n \<in> set (map si_signo (pending p)). n = SIGUSR1" "distinct (standard_pending (pending p))"
    by (auto simp: standard_pending_def well_formed_def sig_defs filter_id_conv)
  then have "distinct (map si_signo (pending p))" "set (map si_signo (pending p)) \<subseteq> {SIGUSR1}" by auto
  then show ?thesis
    by (metis card_mono card.empty card_insert_disjoint distinct_card empty_iff finite.emptyI finite_insert
        length_map One_nat_def)
qed

text \<open>
  The second signal arrives when the first handler has loaded \<open>t\<close> but not stored it. The nested handler
  counts itself, and then the first one stores the old value plus one.
\<close>

definition lost_count :: "event list" where
  "lost_count =
     [Generate (signal SIGUSR1), Deliver, In_Handler, In_Handler, In_Handler, In_Handler,
      Generate (signal SIGUSR1), Deliver] @ replicate 8 In_Handler @ replicate 4 In_Handler"

lemma nodefer_loses_count:
  "\<exists>p. run_events (defer_acts True) pause_forever lost_count (Running (fresh_process {} start_counters)) = Running p \<and>
     frames p = [] \<and> pending p = [] \<and> printed (glob p) = [SIGUSR1, SIGUSR1] \<and> ct (glob p) = 1"
  by (simp add: lost_count_def generate_def is_pending_def deliver_def deliverable_def Let_def installed_def
      handler_step_def sighdlr_def count_body_def print_sig_def load_s_def load_t_def store_s_def store_t_def
      reset_s_def start_counters_def c_int_def int_range_defs sig_defs fresh_process_def mask_during_def
      MAX_S_def numeral_eq_Suc)

lemma deferred_run:
  assumes "list_all (only_signals {SIGUSR1}) es" and "length (sent es) \<le> nat INT_MAX"
  shows "\<exists>q q'. run_events (defer_acts False) pause_forever es (Running (fresh_process {} start_counters)) = Running q \<and>
    length (frames q) \<le> 1 \<and> settle q = Running q' \<and> counting {SIGUSR1} (sent es) q'"
proof (rule deferred.total_run [where K = "nat INT_MAX"])
  fix gs e and p :: "counters sigproc"
  assume "only_signals {SIGUSR1} e" and "counting {SIGUSR1} gs p" and "length (gs @ sent_by e) \<le> nat INT_MAX"
  then show "\<exists>q. atomic_event (defer_acts False) pause_forever e p = Running q \<and> counting {SIGUSR1} (gs @ sent_by e) q"
    by (rule counting_event) (rule defer_handles)
qed (use assms counting_start in simp_all)

text \<open>
  What the flag \<open>SA_NODEFER\<close> changes. Without it (any option but 2) the handler of \<open>defer_or_not\<close> never
  interrupts itself; of the signals that come while it runs one is kept and the others are lost, so the
  total is at most the number of signals sent, and at least one when all is handled; \<open>total\<close> and \<open>s\<close> count
  the signals handled exactly. With the flag, a handler can interrupt another between its load and its
  store of \<open>t\<close>, and two handled signals are counted as one.
\<close>
lemma defer_or_not_counts:
  assumes "defer_main argv sa = Value acts" and "list_all (only_signals {SIGUSR1}) es"
    and "length (sent es) \<le> nat INT_MAX"
  shows "(atoi (argv ! 1) \<noteq> 2 \<longrightarrow>
      (\<exists>p. run_events acts pause_forever es (Running (fresh_process {} start_counters)) = Running p \<and>
         length (frames p) \<le> 1 \<and> length (pending p) \<le> 1 \<and>
         (frames p = [] \<longrightarrow>
            ct (glob p) = int (length (printed (glob p))) \<and> cs (glob p) = s_of (ct (glob p)) \<and>
            ct (glob p) \<le> int (length (sent es)) \<and>
            (sent es \<noteq> [] \<longrightarrow> pending p = [] \<longrightarrow> 1 \<le> ct (glob p))))) \<and>
    (atoi (argv ! 1) = 2 \<longrightarrow>
      (\<exists>p. run_events acts pause_forever lost_count (Running (fresh_process {} start_counters)) = Running p \<and>
         frames p = [] \<and> pending p = [] \<and> printed (glob p) = [SIGUSR1, SIGUSR1] \<and> ct (glob p) = 1))"
proof (intro conjI impI)
  have acts: "acts = defer_acts (atoi (argv ! 1) = 2)"
    using assms(1) unfolding defer_main_def by (auto simp del: trap.simps split: if_splits dest: trap_ok)
  {
    assume "atoi (argv ! 1) \<noteq> 2"
    then have "acts = defer_acts False" using acts by simp
    then obtain q q' where q: "run_events acts pause_forever es (Running (fresh_process {} start_counters)) = Running q"
      "length (frames q) \<le> 1" "settle q = Running q'" "counting {SIGUSR1} (sent es) q'"
      using deferred_run [OF assms(2,3)] by blast
    have "length (printed (glob q')) \<le> length (sent es)"
      using q(4) size_mset_mono [of "mset (printed (glob q')) + mset (map si_signo (pending q'))"]
      by (fastforce simp: counting_def)
    then show "\<exists>p. run_events acts pause_forever es (Running (fresh_process {} start_counters)) = Running p \<and>
         length (frames p) \<le> 1 \<and> length (pending p) \<le> 1 \<and>
         (frames p = [] \<longrightarrow>
            ct (glob p) = int (length (printed (glob p))) \<and> cs (glob p) = s_of (ct (glob p)) \<and>
            ct (glob p) \<le> int (length (sent es)) \<and>
            (sent es \<noteq> [] \<longrightarrow> pending p = [] \<longrightarrow> 1 \<le> ct (glob p)))"
      using q settle_Running_idle [OF q(3)] pending_once [OF assms(2) q(1)]
      by (auto simp: counting_def counter_ok_def Suc_le_eq)
  }
  assume "atoi (argv ! 1) = 2"
  then show "\<exists>p. run_events acts pause_forever lost_count (Running (fresh_process {} start_counters)) = Running p \<and>
         frames p = [] \<and> pending p = [] \<and> printed (glob p) = [SIGUSR1, SIGUSR1] \<and> ct (glob p) = 1"
    unfolding acts using nodefer_loses_count by simp
qed

section \<open>The other programs\<close>

interpretation sig2: caught_signals
    "installed [SIGINT, SIGQUIT] \<lparr>sa_body = sig2_siggy wr, sa_mask = {}, sa_nodefer = False\<rparr>"
    "{SIGINT, SIGQUIT}" loop_forever for wr
  by unfold_locales (auto simp: installed_def sig2_siggy_def loop_forever_def)

abbreviation query_mask_acts :: "(nat \<Rightarrow> bool) \<Rightarrow> int \<Rightarrow> nat \<Rightarrow> looper disposition" where
  "query_mask_acts wr q \<equiv> installed [SIGINT, SIGQUIT]
     \<lparr>sa_body = my_handler wr q, sa_mask = sigfillset, sa_nodefer = False\<rparr>"

interpretation query_mask: serial_handlers "query_mask_acts wr q" "{SIGINT, SIGQUIT}" for wr q
  by unfold_locales (auto simp: installed_def catchable_def sigfillset_def sig_defs split: if_splits)

text \<open>
  What \<open>query_mask\<close> shows: while its handler runs every signal that can be blocked is blocked, so the list
  that the handler prints leaves out \<open>SIGKILL\<close> and \<open>SIGSTOP\<close> only.
\<close>

lemma query_mask_blocks_all:
  assumes "deliver (query_mask_acts wr q) p = Running p'" and "frames p' \<noteq> frames p"
  shows "blocked p' = catchable"
  using assms
  by (auto simp: deliver_def Let_def installed_def mask_during_def catchable_def
      split: option.splits default_action.splits if_splits)

interpretation atomic_B: serial_handlers
    "installed [SIGUSR1] \<lparr>sa_body = handle_sigs, sa_mask = {}, sa_nodefer = False\<rparr>" "{SIGUSR1}"
  by unfold_locales (auto simp: installed_def catchable_def sigfillset_def sig_defs split: if_splits)

text \<open>
  The flag of \<open>atomic_B\<close>: what it polls is a number of zeros followed by a number of ones, and the flag is
  set exactly when a signal has been sent and is no longer pending.
\<close>

definition flag_inv :: "siginfo list \<Rightarrow> flagged sigproc \<Rightarrow> bool" where
  "flag_inv gs p \<longleftrightarrow>
     gFlag (glob p) \<in> {0, 1} \<and> sorted (shown (glob p) @ [gFlag (glob p)]) \<and> blocked p = {} \<and> frames p = [] \<and>
     (\<forall>si \<in> set (pending p). si_signo si = SIGUSR1) \<and>
     (gs = [] \<longrightarrow> gFlag (glob p) = 0 \<and> pending p = []) \<and>
     (gs \<noteq> [] \<longrightarrow> gFlag (glob p) = 1 \<or> pending p \<noteq> [])"

lemma flag_inv_deliver:
  assumes "flag_inv gs p"
  shows "\<exists>q. atomic_deliver (installed [SIGUSR1] \<lparr>sa_body = handle_sigs, sa_mask = {}, sa_nodefer = False\<rparr>) p =
    Running q \<and> flag_inv gs q"
proof (cases "lowest (deliverable p)")
  case (Some si)
  then have si: "si \<in> set (pending p)" "si_signo si = SIGUSR1"
    using assms lowest_deliverable(1) [OF Some] by (auto simp: flag_inv_def)
  have "gs \<noteq> []" using assms si(1) by (auto simp: flag_inv_def)
  moreover have "sorted (shown (glob p) @ [1])" using assms by (auto simp: flag_inv_def sorted_append)
  ultimately show ?thesis
    using Some si assms set_remove1_subset [of si "pending p"]
    by (auto simp: atomic_deliver_def Let_def installed_def handle_sigs_def flag_inv_def)
qed (use assms in \<open>simp add: atomic_deliver_def\<close>)

lemma flag_inv_event:
  assumes "only_signals {SIGUSR1} e" and "flag_inv gs p"
  shows "\<exists>q. atomic_event (installed [SIGUSR1] \<lparr>sa_body = handle_sigs, sa_mask = {}, sa_nodefer = False\<rparr>)
    atomic_B_poll e p = Running q \<and> flag_inv (gs @ sent_by e) q"
proof (cases e)
  case (Generate si)
  then show ?thesis using assms by (auto simp: flag_inv_def generate_def is_pending_def)
next
  case In_Main
  then show ?thesis using assms
    by (auto simp: flag_inv_def in_main_step_def atomic_B_poll_def sorted_append)
qed (use assms flag_inv_deliver in simp_all)

lemma atomic_B_flag:
  assumes "list_all (only_signals {SIGUSR1}) es"
  shows "\<exists>q q'. run_events (installed [SIGUSR1] \<lparr>sa_body = handle_sigs, sa_mask = {}, sa_nodefer = False\<rparr>)
      atomic_B_poll es (Running (fresh_process {} \<lparr>gFlag = 0, shown = []\<rparr>)) = Running q \<and>
    length (frames q) \<le> 1 \<and> settle q = Running q' \<and> flag_inv (sent es) q'"
  by (rule atomic_B.total_run [where K = "length (sent es)"])
    (use assms flag_inv_event in \<open>auto simp: flag_inv_def\<close>)

lemma atomic_A_signals_once:
  "atomic_A_main argv kill = Value l \<Longrightarrow> l = [(atoi (argv ! 2), SIGUSR1)] \<and> 0 \<le> kill (atoi (argv ! 2)) 0"
  by (auto simp: atomic_A_main_def Let_def split: if_splits)

end
