(* ===== verification/Signal_Messages.thy ===== *)
theory Signal_Messages
  imports Signal_Programs
begin

text \<open>
  Programs of chapter 12 that use signals to carry data or wait for them: the sender and the receiver of
  \<open>ch12/sigq_ipc\<close> and \<open>ch12/sigwt/sigwt.c\<close>.
\<close>

section \<open>The sender\<close>

definition SIG_COMM :: nat where "SIG_COMM = SIGRTMIN"

text \<open>\<open>kill\<close> and \<open>sigqueue\<close> are what the calls return; the list has what was queued, with its data item.\<close>

definition send_peer :: "(int \<Rightarrow> nat \<Rightarrow> int) \<Rightarrow> (int \<Rightarrow> nat \<Rightarrow> int \<Rightarrow> int) \<Rightarrow> int \<Rightarrow> nat \<Rightarrow> int \<Rightarrow> int \<times> (int \<times> nat \<times> int) list" where
  "send_peer kill sigqueue target sig v =
     (if kill target 0 < 0 then (-1, [])
      else if sigqueue target sig v = -1 then (-2, [])
      else (0, [(target, sig, v)]))"

text \<open>\<open>atol\<close> gives a \<open>long\<close>, of which \<open>pid_t\<close> keeps 32 bits.\<close>

definition sender_main ::
  "string list \<Rightarrow> (int \<Rightarrow> nat \<Rightarrow> int) \<Rightarrow> (int \<Rightarrow> nat \<Rightarrow> int \<Rightarrow> int) \<Rightarrow> (int \<times> nat \<times> int) list outcome" where
  "sender_main argv kill sigqueue =
     (if length argv \<noteq> 3 then Exit 1
      else
        case send_peer kill sigqueue (to_signed 32 (fst (strtol (argv ! 1)))) SIG_COMM (atoi (argv ! 2)) of
          (ret, queued) \<Rightarrow> if ret = -1 \<or> ret = -2 then FATAL else Value queued)"

section \<open>The receiver\<close>

record rcv_data =
  timestamp :: int
  signum :: nat
  sender_pid :: int
  sender_uid :: int
  data :: int

text \<open>
  \<open>pc\<close> is where the main loop is, \<open>disp\<close> holds the arguments of the display that have been read,
  \<open>displayed\<close> what has been printed.
\<close>

record receiver =
  data_recvd :: int
  recv_data :: rcv_data
  pc :: nat
  disp :: rcv_data
  displayed :: "rcv_data list"

definition no_data :: rcv_data where
  "no_data = \<lparr>timestamp = 0, signum = 0, sender_pid = 0, sender_uid = 0, data = 0\<rparr>"

definition start_receiver :: receiver where
  "start_receiver = \<lparr>data_recvd = 0, recv_data = no_data, pc = 0, disp = no_data, displayed = []\<rparr>"

text \<open>\<open>clock si\<close> is the time when the handler runs for \<open>si\<close>; when \<open>time\<close> fails, \<open>tm\<close> is never set.\<close>

definition put :: "(rcv_data \<Rightarrow> rcv_data) \<Rightarrow> receiver hstep" where
  "put f r g = Value (r, g\<lparr>recv_data := f (recv_data g)\<rparr>)"

definition read_msg :: "(siginfo \<Rightarrow> int option) \<Rightarrow> siginfo \<Rightarrow> receiver hstep list" where
  "read_msg clock si =
     [\<lambda>r g. (case clock si of None \<Rightarrow> Undefined Uninitialised | Some tm \<Rightarrow> Value (tm, g)),
      \<lambda>r g. put (\<lambda>d. d\<lparr>timestamp := r\<rparr>) r g,
      put (\<lambda>d. d\<lparr>signum := si_signo si\<rparr>),
      put (\<lambda>d. d\<lparr>sender_pid := si_pid si\<rparr>),
      put (\<lambda>d. d\<lparr>sender_uid := si_uid si\<rparr>),
      put (\<lambda>d. d\<lparr>data := si_value si\<rparr>),
      \<lambda>r g. Value (r, g\<lparr>data_recvd := 1\<rparr>)]"

text \<open>
  The main loop: sleep, test \<open>data_recvd\<close>, read the fields one after the other and print them (C leaves the
  order of the arguments open; this is the order they are written in), reset \<open>data_recvd\<close>. The handler can
  run between any two of these.
\<close>

definition receiver_step :: "receiver \<Rightarrow> receiver outcome" where
  "receiver_step g =
     (let d = recv_data g in
      Value (
        if pc g = 0 then g\<lparr>pc := 1\<rparr>
        else if pc g = 1 then g\<lparr>pc := (if data_recvd g \<noteq> 0 then 2 else 0)\<rparr>
        else if pc g = 2 then g\<lparr>disp := (disp g)\<lparr>timestamp := timestamp d\<rparr>, pc := 3\<rparr>
        else if pc g = 3 then g\<lparr>disp := (disp g)\<lparr>signum := signum d\<rparr>, pc := 4\<rparr>
        else if pc g = 4 then g\<lparr>disp := (disp g)\<lparr>sender_pid := sender_pid d\<rparr>, pc := 5\<rparr>
        else if pc g = 5 then g\<lparr>disp := (disp g)\<lparr>sender_uid := sender_uid d\<rparr>, pc := 6\<rparr>
        else if pc g = 6 then
          let e = (disp g)\<lparr>data := data d\<rparr> in g\<lparr>disp := e, displayed := displayed g @ [e], pc := 7\<rparr>
        else g\<lparr>data_recvd := 0, pc := 0\<rparr>))"

definition receiver_main :: "(siginfo \<Rightarrow> int option) \<Rightarrow> (nat \<Rightarrow> int) \<Rightarrow> (nat \<Rightarrow> receiver disposition) outcome" where
  "receiver_main clock sa =
     (if sa SIG_COMM = -1 then FATAL
      else Value (\<lambda>n. if n = SIG_COMM
        then Handler \<lparr>sa_body = read_msg clock, sa_mask = sigfillset, sa_nodefer = False\<rparr> else SIG_DFL))"

abbreviation receiver_acts :: "(siginfo \<Rightarrow> int option) \<Rightarrow> nat \<Rightarrow> receiver disposition" where
  "receiver_acts clock \<equiv> (\<lambda>n. if n = SIG_COMM
     then Handler \<lparr>sa_body = read_msg clock, sa_mask = sigfillset, sa_nodefer = False\<rparr> else SIG_DFL)"

section \<open>What is displayed\<close>

interpretation receiver: serial_handlers "receiver_acts clock" "{SIG_COMM}" for clock
  by unfold_locales (auto simp: catchable_def sigfillset_def SIG_COMM_def sig_defs split: if_splits)

definition message :: "(siginfo \<Rightarrow> int option) \<Rightarrow> siginfo \<Rightarrow> rcv_data" where
  "message clock si = \<lparr>timestamp = the (clock si), signum = si_signo si, sender_pid = si_pid si,
     sender_uid = si_uid si, data = si_value si\<rparr>"

lemma run_read_msg:
  "clock si = Some t \<Longrightarrow>
   run_body (read_msg clock si) r g = Value (g\<lparr>recv_data := message clock si, data_recvd := 1\<rparr>)"
  by (simp add: read_msg_def put_def message_def)

text \<open>Every field that has been read, and every field displayed, is a field of a message that was sent.\<close>

definition fields_of :: "(siginfo \<Rightarrow> int option) \<Rightarrow> siginfo list \<Rightarrow> nat \<Rightarrow> rcv_data \<Rightarrow> bool" where
  "fields_of clock gs k d \<longleftrightarrow>
     (2 < k \<longrightarrow> timestamp d \<in> timestamp ` message clock ` set gs) \<and>
     (3 < k \<longrightarrow> signum d \<in> signum ` message clock ` set gs) \<and>
     (4 < k \<longrightarrow> sender_pid d \<in> sender_pid ` message clock ` set gs) \<and>
     (5 < k \<longrightarrow> sender_uid d \<in> sender_uid ` message clock ` set gs) \<and>
     (6 < k \<longrightarrow> data d \<in> data ` message clock ` set gs)"

definition receiver_inv :: "(siginfo \<Rightarrow> int option) \<Rightarrow> siginfo list \<Rightarrow> receiver sigproc \<Rightarrow> bool" where
  "receiver_inv clock gs p \<longleftrightarrow>
     frames p = [] \<and> blocked p = {} \<and> set (pending p) \<subseteq> set gs \<and>
     (\<forall>si \<in> set gs. si_signo si = SIG_COMM) \<and>
     (data_recvd (glob p) \<noteq> 0 \<longrightarrow> recv_data (glob p) \<in> message clock ` set gs) \<and>
     (2 \<le> pc (glob p) \<longrightarrow> data_recvd (glob p) \<noteq> 0) \<and>
     fields_of clock gs (pc (glob p)) (disp (glob p)) \<and>
     (\<forall>d \<in> set (displayed (glob p)). fields_of clock gs 7 d)"

lemma fields_of_mono: "fields_of clock gs k d \<Longrightarrow> fields_of clock (gs @ hs) k d"
  unfolding fields_of_def by auto

lemma receiver_inv_generate:
  "receiver_inv clock gs p \<Longrightarrow> si_signo si = SIG_COMM \<Longrightarrow> receiver_inv clock (gs @ [si]) (generate si p)"
  by (auto simp: receiver_inv_def generate_def fields_of_mono)

lemma receiver_inv_deliver:
  assumes "receiver_inv clock gs p" and "\<forall>si. clock si \<noteq> None"
  shows "\<exists>q. atomic_deliver (receiver_acts clock) p = Running q \<and> receiver_inv clock gs q"
proof (cases "lowest (deliverable p)")
  case (Some si)
  then have si: "si \<in> set gs" "si_signo si = SIG_COMM"
    using assms(1) lowest_deliverable(1) [OF Some] by (auto simp: receiver_inv_def)
  obtain t where "clock si = Some t" using assms(2) by blast
  then show ?thesis
    using Some si assms(1) set_remove1_subset [of si "pending p"]
    by (auto simp: atomic_deliver_def Let_def run_read_msg receiver_inv_def)
qed (use assms in \<open>simp add: atomic_deliver_def\<close>)

lemma receiver_inv_main:
  assumes "receiver_inv clock gs p"
  shows "\<exists>q. in_main_step receiver_step p = Running q \<and> receiver_inv clock gs q"
proof -
  consider "pc (glob p) = 0" | "pc (glob p) = 1" | "pc (glob p) = 2" | "pc (glob p) = 3" | "pc (glob p) = 4"
    | "pc (glob p) = 5" | "pc (glob p) = 6" | "7 \<le> pc (glob p)" by linarith
  then show ?thesis
    using assms
    by cases (simp_all add: in_main_step_def receiver_step_def Let_def receiver_inv_def fields_of_def)
qed

lemma receiver_inv_event:
  assumes "only_signals {SIG_COMM} e" and "receiver_inv clock gs p" and "\<forall>si. clock si \<noteq> None"
  shows "\<exists>q. atomic_event (receiver_acts clock) receiver_step e p = Running q \<and>
    receiver_inv clock (gs @ sent_by e) q"
proof (cases e)
  case (Generate si)
  then show ?thesis using assms(1,2) receiver_inv_generate by simp
qed (use assms receiver_inv_deliver receiver_inv_main in simp_all)

lemma receiver_run:
  assumes "list_all (only_signals {SIG_COMM}) es" and "\<forall>si. clock si \<noteq> None"
  shows "\<exists>q q'. run_events (receiver_acts clock) receiver_step es
      (Running (fresh_process {} start_receiver)) = Running q \<and> length (frames q) \<le> 1 \<and>
    settle q = Running q' \<and> receiver_inv clock (sent es) q'"
proof (rule receiver.total_run [where K = "length (sent es)"])
  fix gs e and p :: "receiver sigproc"
  assume "only_signals {SIG_COMM} e" and "receiver_inv clock gs p"
  then show "\<exists>q. atomic_event (receiver_acts clock) receiver_step e p = Running q \<and>
      receiver_inv clock (gs @ sent_by e) q"
    using assms(2) by (rule receiver_inv_event)
qed (use assms(1) in \<open>simp_all add: receiver_inv_def start_receiver_def fields_of_def\<close>)

text \<open>A message arrives while the main loop is running and its handler runs to its end.\<close>

definition arrival :: "siginfo \<Rightarrow> event list" where
  "arrival c = Generate c # Deliver # replicate 8 In_Handler"

lemma arrival_run:
  assumes "pending q = []" "frames q = []" "blocked q = {}" "clock c = Some tc" "si_signo c = SIG_COMM"
  shows "run_events (receiver_acts clock) main (arrival c) (Running q) =
    Running (q\<lparr>glob := (glob q)\<lparr>recv_data := message clock c, data_recvd := 1\<rparr>\<rparr>)"
proof -
  let ?acts = "receiver_acts clock" and ?q = "q\<lparr>pending := [c]\<rparr>"
  have low: "lowest (deliverable ?q) = Some c" using assms by (simp add: deliverable_def)
  have "run_events ?acts main (arrival c) (Running q) = run_events ?acts main (Deliver # replicate 8 In_Handler) (Running ?q)"
    using assms by (simp add: arrival_def generate_def is_pending_def)
  also have "\<dots> = atomic_deliver ?acts ?q"
    using assms low by (intro deliver_and_return
        [where a = "\<lparr>sa_body = read_msg clock, sa_mask = sigfillset, sa_nodefer = False\<rparr>"])
      (simp_all add: read_msg_def)
  also have "\<dots> = Running (q\<lparr>glob := (glob q)\<lparr>recv_data := message clock c, data_recvd := 1\<rparr>\<rparr>)"
    using assms low by (simp add: atomic_deliver_def Let_def run_read_msg)
  finally show ?thesis .
qed

text \<open>
  A run in which the display is interrupted: the first message has been displayed up to the sender when
  the second arrives, so the line shows the sender of the one and the data of the other; the second
  message is never displayed by itself, because \<open>data_recvd\<close> is reset afterwards.
\<close>

definition torn_display :: "siginfo \<Rightarrow> siginfo \<Rightarrow> event list" where
  "torn_display a b = arrival a @ replicate 5 In_Main @ arrival b @ replicate 5 In_Main"

lemma torn_display_run:
  assumes "\<forall>si. clock si \<noteq> None" and "si_signo a = SIG_COMM" and "si_signo b = SIG_COMM"
  shows "\<exists>p. run_events (receiver_acts clock) receiver_step (torn_display a b)
      (Running (fresh_process {} start_receiver)) = Running p \<and> pending p = [] \<and>
    displayed (glob p) = [(message clock a)\<lparr>sender_uid := si_uid b, data := si_value b\<rparr>] \<and>
    data_recvd (glob p) = 0"
proof -
  obtain ta tb where t: "clock a = Some ta" "clock b = Some tb" using assms(1) by blast
  then show ?thesis
    using assms(2,3)
    by (simp add: torn_display_def run_events_append arrival_run in_main_step_def receiver_step_def
        start_receiver_def Let_def message_def numeral_eq_Suc)
qed

text \<open>
  C26: what the receiver displays. Whatever messages are sent and whenever they arrive, the receiver goes
  on, its handler is never interrupted by another message, and every field it displays was sent. When one
  message arrives and the loop then goes round, exactly this message is displayed, with the data item of
  the sender's command line. But the display itself is not protected: a second message can replace the
  first while it is being read, so that the sender of one is shown with the data of the other, and no line
  is shown for the second.
\<close>
theorem receiver_displays_sent:
  assumes "receiver_main clock sa = Value acts" and "\<forall>si. clock si \<noteq> None"
    and "list_all (only_signals {SIG_COMM}) es"
    and "sender_main argv kill sigqueue = Value [(target, SIG_COMM, v)]"
    and "si_signo a = SIG_COMM" and "si_value a = v" and "si_signo b = SIG_COMM"
  shows "(\<exists>p q. run_events acts receiver_step es (Running (fresh_process {} start_receiver)) = Running p \<and>
      length (frames p) \<le> 1 \<and> settle p = Running q \<and>
      (\<forall>d \<in> set (displayed (glob q)).
         sender_pid d \<in> si_pid ` set (sent es) \<and> sender_uid d \<in> si_uid ` set (sent es) \<and>
         data d \<in> si_value ` set (sent es))) \<and>
    (\<exists>p. run_events acts receiver_step (arrival a @ replicate 8 In_Main)
        (Running (fresh_process {} start_receiver)) = Running p \<and>
      displayed (glob p) = [message clock a] \<and> data (message clock a) = atoi (argv ! 2) \<and>
      data_recvd (glob p) = 0) \<and>
    (\<exists>p. run_events acts receiver_step (torn_display a b)
        (Running (fresh_process {} start_receiver)) = Running p \<and>
      displayed (glob p) = [(message clock a)\<lparr>sender_uid := si_uid b, data := si_value b\<rparr>] \<and>
      data_recvd (glob p) = 0)"
proof (intro conjI)
  have acts: "acts = receiver_acts clock"
    using assms(1) by (simp add: receiver_main_def split: if_splits)
  have msg: "sender_pid (message clock s) = si_pid s" "sender_uid (message clock s) = si_uid s"
    "data (message clock s) = si_value s" for s
    by (simp_all add: message_def)
  from receiver_run [OF assms(3,2)]
  show "\<exists>p q. run_events acts receiver_step es (Running (fresh_process {} start_receiver)) = Running p \<and>
      length (frames p) \<le> 1 \<and> settle p = Running q \<and>
      (\<forall>d \<in> set (displayed (glob q)).
         sender_pid d \<in> si_pid ` set (sent es) \<and> sender_uid d \<in> si_uid ` set (sent es) \<and>
         data d \<in> si_value ` set (sent es))"
    unfolding acts by (fastforce simp: receiver_inv_def fields_of_def image_image msg)
  obtain t where "clock a = Some t" using assms(2) by blast
  moreover have "v = atoi (argv ! 2)"
    using assms(4) by (auto simp: sender_main_def send_peer_def split: if_splits)
  ultimately show "\<exists>p. run_events acts receiver_step (arrival a @ replicate 8 In_Main)
        (Running (fresh_process {} start_receiver)) = Running p \<and>
      displayed (glob p) = [message clock a] \<and> data (message clock a) = atoi (argv ! 2) \<and>
      data_recvd (glob p) = 0"
    using assms(5,6)
    by (simp add: acts run_events_append arrival_run in_main_step_def receiver_step_def
        start_receiver_def Let_def message_def numeral_eq_Suc)
  show "\<exists>p. run_events acts receiver_step (torn_display a b)
        (Running (fresh_process {} start_receiver)) = Running p \<and>
      displayed (glob p) = [(message clock a)\<lparr>sender_uid := si_uid b, data := si_value b\<rparr>] \<and>
      data_recvd (glob p) = 0"
    unfolding acts using torn_display_run [OF assms(2,5,7)] by blast
qed

theorem receiver_displays_sent_witness:
  "\<exists>acts p. receiver_main (\<lambda>si. Some 1000) (\<lambda>n. 0) = Value acts \<and>
     run_events acts receiver_step
       (torn_display \<lparr>si_signo = 34, si_value = 7, si_pid = 1, si_uid = 0\<rparr>
          \<lparr>si_signo = 34, si_value = 8, si_pid = 2, si_uid = 0\<rparr>)
       (Running (fresh_process {} start_receiver)) = Running p \<and>
     map (\<lambda>d. (sender_pid d, data d)) (displayed (glob p)) = [(1, 8)]"
proof -
  let ?a = "\<lparr>si_signo = 34, si_value = 7, si_pid = 1, si_uid = 0\<rparr> :: siginfo"
    and ?b = "\<lparr>si_signo = 34, si_value = 8, si_pid = 2, si_uid = 0\<rparr> :: siginfo"
  obtain acts where a: "receiver_main (\<lambda>si. Some 1000) (\<lambda>n. 0) = Value acts" by (simp add: receiver_main_def)
  have sig: "SIG_COMM = 34" by (simp add: SIG_COMM_def sig_defs)
  have at: "to_signed 32 (fst (strtol ''42'')) = 42" "atoi ''7'' = 7" by code_simp+
  then have s: "sender_main [''send'', ''42'', ''7''] (\<lambda>t n. 0) (\<lambda>t n v. 0) = Value [(42, SIG_COMM, 7)]"
    by (simp add: sender_main_def send_peer_def)
  show ?thesis
    using receiver_displays_sent [OF a _ _ s, of "[]" ?a ?b] a by (fastforce simp: sig message_def)
qed

section \<open>\<open>sigwt.c\<close>: waiting for signals\<close>

record waiter =
  received :: "nat list"
  written :: "string list"

definition sigwt_siggy :: "bool \<Rightarrow> siginfo \<Rightarrow> waiter hstep list" where
  "sigwt_siggy wr si =
     (if si_signo si = SIGFPE
      then [\<lambda>r g. Value (r, if wr then g\<lparr>written := written g @ [''*** siggy: handled SIGFPE (8) ***'' @ [LF]]\<rparr> else g)]
      else if si_signo si = SIGSEGV
      then [\<lambda>r g. Value (r, if wr then g\<lparr>written := written g @ [''*** siggy: handled SIGSEGV (11) ***'' @ [LF]]\<rparr> else g)]
      else [])"

text \<open>The set that is blocked and waited for, the actions, and what the calls of \<open>main\<close> return.\<close>

definition sigwt_set :: "int \<Rightarrow> sigset" where
  "sigwt_set opt = (if opt = 1 then sigfillset - {SIGFPE} - {SIGSEGV} else sigfillset)"

definition sigwt_acts :: "bool \<Rightarrow> int \<Rightarrow> nat \<Rightarrow> waiter disposition" where
  "sigwt_acts wr opt n =
     (if opt = 1 \<and> n = SIGFPE
      then Handler \<lparr>sa_body = sigwt_siggy wr, sa_mask = {}, sa_nodefer = False\<rparr> else SIG_DFL)"

definition sigwt_main :: "string list \<Rightarrow> bool \<Rightarrow> int \<Rightarrow> int \<Rightarrow> (waiter sigproc \<times> (nat \<Rightarrow> waiter disposition) \<times> sigset) outcome" where
  "sigwt_main argv wr sa pm =
     (if length argv \<noteq> 2 \<or> atoi (argv ! 1) \<noteq> 0 \<and> atoi (argv ! 1) \<noteq> 1 then Exit EXIT_FAILURE
      else
        let opt = atoi (argv ! 1) in
        if opt = 1 \<and> sa < 0 then FATAL
        else if pm < 0 then FATAL
        else Value (fresh_process (sigwt_set opt) \<lparr>received = [], written = []\<rparr>, sigwt_acts wr opt, sigwt_set opt))"

text \<open>\<open>sigwait\<close> takes the lowest pending signal of the set, and waits when there is none.\<close>

definition sigwait :: "sigset \<Rightarrow> 'g sigproc \<Rightarrow> nat option \<times> 'g sigproc" where
  "sigwait S p =
     (case lowest (filter (\<lambda>si. si_signo si \<in> S) (pending p)) of
        None \<Rightarrow> (None, p)
      | Some si \<Rightarrow> (Some (si_signo si), p\<lparr>pending := remove1 si (pending p)\<rparr>))"

definition wait_round :: "sigset \<Rightarrow> waiter sigproc \<Rightarrow> waiter sigproc" where
  "wait_round S p =
     (case sigwait S p of
        (None, p) \<Rightarrow> p
      | (Some n, p) \<Rightarrow> p\<lparr>glob := (glob p)\<lparr>received := received (glob p) @ [n]\<rparr>\<rparr>)"

fun sigwt_event :: "(nat \<Rightarrow> waiter disposition) \<Rightarrow> sigset \<Rightarrow> event \<Rightarrow> waiter sigproc \<Rightarrow> waiter status" where
  "sigwt_event acts S In_Main p = Running (if frames p = [] then wait_round S p else p)"
| "sigwt_event acts S e p = sig_event acts Value e p"

fun sigwt_run :: "(nat \<Rightarrow> waiter disposition) \<Rightarrow> sigset \<Rightarrow> event list \<Rightarrow> waiter status \<Rightarrow> waiter status" where
  "sigwt_run acts S (e # es) (Running p) = sigwt_run acts S es (sigwt_event acts S e p)"
| "sigwt_run acts S es s = s"

text \<open>
  With option 0 everything that can be blocked is: no catchable signal ends the program or runs a handler,
  and what \<open>sigwait\<close> has returned and what is pending was sent. With option 1 a \<open>SIGSEGV\<close> kills it.
\<close>

definition waiting :: "siginfo list \<Rightarrow> waiter sigproc \<Rightarrow> bool" where
  "waiting gs p \<longleftrightarrow>
     frames p = [] \<and> blocked p = catchable \<and> (\<forall>si \<in> set gs. si_signo si \<in> catchable) \<and>
     mset (received (glob p)) + mset (map si_signo (pending p)) \<subseteq># mset (map si_signo gs)"

lemma waiting_pending: "waiting gs p \<Longrightarrow> si \<in> set (pending p) \<Longrightarrow> si_signo si \<in> catchable"
proof -
  assume w: "waiting gs p" and si: "si \<in> set (pending p)"
  have "mset (received (glob p)) + mset (map si_signo (pending p)) \<subseteq># mset (map si_signo gs)"
    using w by (simp add: waiting_def)
  then have "set (map si_signo (pending p)) \<subseteq> set (map si_signo gs)"
    using set_mset_mono by fastforce
  then show ?thesis using w si by (auto simp: waiting_def)
qed

lemma waiting_generate:
  assumes "waiting gs p" and "si_signo si \<in> catchable"
  shows "waiting (gs @ [si]) (generate si p)"
proof (cases "si_signo si < SIGRTMIN \<and> is_pending (si_signo si) p")
  case True
  moreover have "mset (map si_signo gs) \<subseteq># mset (map si_signo (gs @ [si]))" by simp
  ultimately show ?thesis using assms
    by (auto simp: waiting_def generate_def intro: subset_mset.order_trans)
qed (use assms in \<open>auto simp: waiting_def generate_def\<close>)

lemma waiting_round:
  assumes "waiting gs p"
  shows "waiting gs (wait_round S p)"
proof (cases "lowest (filter (\<lambda>si. si_signo si \<in> S) (pending p))")
  case (Some si)
  then have "si \<in> set (pending p)" using lowest_in [OF Some] by simp
  then have "mset (pending p) = add_mset si (mset (remove1 si (pending p)))" by simp
  then have "mset (map si_signo (pending p)) = add_mset (si_signo si) (mset (map si_signo (remove1 si (pending p))))"
    by (metis image_mset_add_mset mset_map)
  then show ?thesis using assms Some by (simp add: wait_round_def sigwait_def waiting_def)
qed (use assms in \<open>simp add: wait_round_def sigwait_def\<close>)

lemma sigwt_waits:
  assumes "waiting gs p" and "list_all (only_signals catchable) es"
  shows "\<exists>q. sigwt_run acts S es (Running p) = Running q \<and> waiting (gs @ sent es) q"
  using assms
proof (induction es arbitrary: gs p)
  case (Cons e es)
  have nd: "deliverable p = []"
    using waiting_pending [OF Cons.prems(1)] Cons.prems(1)
    by (auto simp: deliverable_def filter_empty_conv waiting_def)
  have fr: "frames p = []" using Cons.prems(1) by (simp add: waiting_def)
  have "\<exists>q. sigwt_event acts S e p = Running q \<and> waiting (gs @ sent_by e) q"
  proof (cases e)
    case (Generate si)
    then show ?thesis using Cons.prems waiting_generate by simp
  next
    case In_Main
    then show ?thesis using Cons.prems(1) fr waiting_round by simp
  qed (use Cons.prems(1) nd fr in \<open>simp_all add: deliver_def handler_step_def\<close>)
  then obtain q where q: "sigwt_event acts S e p = Running q" "waiting (gs @ sent_by e) q" by blast
  then show ?case using Cons.IH [OF q(2)] Cons.prems(2) by simp
qed simp

lemma sigwt_option_0:
  assumes "sigwt_main argv wr sa pm = Value (p, acts, S)" and "atoi (argv ! 1) = 0"
    and "list_all (only_signals catchable) es"
  shows "\<exists>q. sigwt_run acts S es (Running p) = Running q \<and> waiting (sent es) q"
proof -
  have "waiting [] p"
    using assms(1,2)
    by (auto simp: sigwt_main_def sigwt_set_def waiting_def catchable_def Let_def split: if_splits)
  from sigwt_waits [OF this assms(3)] show ?thesis by simp
qed

lemma sigwt_option_1_segv:
  assumes "sigwt_main argv wr sa pm = Value (p, acts, S)" and "atoi (argv ! 1) = 1"
  shows "sigwt_run acts S [Generate (signal SIGSEGV), Deliver] (Running p) = Killed SIGSEGV"
  using assms
  by (auto simp: sigwt_main_def sigwt_set_def sigwt_acts_def Let_def generate_def is_pending_def deliver_def
      deliverable_def default_action_def sig_defs split: if_splits)

end
