(* ===== verification/Timers.thy ===== *)
theory Timers
  imports Signal_Programs
begin

text \<open>
  Programs of chapter 13 driven by timers: the reaction time of \<open>react.c\<close>, the alternation of
  \<open>runwalk_timer.c\<close>, and the alarms of \<open>alarm1.c\<close>, \<open>alarm2_rep.c\<close> and \<open>intv_clksimple.c\<close>.
\<close>

section \<open>\<open>react.c\<close>\<close>

record itimerspec =
  it_value :: timespec
  it_interval :: timespec

text \<open>What \<open>userpress\<close> reports: a perfect reaction, a time with the count, or a later press.\<close>

datatype report = Perfect | Pressed timespec int | Again int

text \<open>
  The globals. \<open>reads\<close> counts the readings of the clock: the \<open>k\<close>-th gives \<open>now k\<close>, \<open>None\<close> when it fails.
\<close>

record reaction =
  rc :: int
  first_time :: bool
  jumped_the_gun :: bool
  gTimerRepeats :: bool
  tm_start :: timespec
  tm_end :: timespec
  reads :: nat
  reports :: "report list"

definition epoch :: timespec where
  "epoch = \<lparr>tv_sec = 0, tv_nsec = 0\<rparr>"

definition start_reaction :: reaction where
  "start_reaction = \<lparr>rc = 0, first_time = True, jumped_the_gun = True, gTimerRepeats = False,
     tm_start = epoch, tm_end = epoch, reads = 0, reports = []\<rparr>"

definition timer_handler :: "siginfo \<Rightarrow> reaction hstep list" where
  "timer_handler si =
     [\<lambda>r g. Value (rc g, g),
      \<lambda>r g. andthen (c_int (r + 1)) (\<lambda>v. Value (r, g\<lparr>rc := v\<rparr>))]"

definition read_clock :: "(nat \<Rightarrow> timespec option) \<Rightarrow> (timespec \<Rightarrow> reaction \<Rightarrow> reaction) \<Rightarrow> reaction hstep" where
  "read_clock now f r g =
     (case now (reads g) of None \<Rightarrow> FATAL | Some t \<Rightarrow> Value (r, (f t g)\<lparr>reads := Suc (reads g)\<rparr>))"

definition press_report :: "reaction \<Rightarrow> report" where
  "press_report g =
     (if first_time g
      then if rc g = 0 then Perfect else Pressed (timerspecsub (tm_end g) (tm_start g)) (rc g)
      else Again (rc g))"

definition userpress :: "(nat \<Rightarrow> timespec option) \<Rightarrow> siginfo \<Rightarrow> reaction hstep list" where
  "userpress now si =
     [read_clock now (\<lambda>t g. g\<lparr>tm_end := t\<rparr>),
      \<lambda>r g. if jumped_the_gun g then Exit EXIT_FAILURE else Value (r, g),
      \<lambda>r g. Value (r, g\<lparr>reports := reports g @ [press_report g], first_time := False\<rparr>),
      \<lambda>r g. Value (r, g\<lparr>rc := 0\<rparr>),
      \<lambda>r g. if gTimerRepeats g then Value (r, g) else Exit EXIT_SUCCESS]"

text \<open>\<open>settime\<close> is what \<open>timer_settime\<close> returns.\<close>

definition arm_timer :: "int \<Rightarrow> reaction hstep list" where
  "arm_timer settime =
     [\<lambda>r g. if settime = -1 then FATAL else Value (r, g),
      \<lambda>r g. Value (r, g\<lparr>jumped_the_gun := False\<rparr>)]"

definition startoff :: "(nat \<Rightarrow> timespec option) \<Rightarrow> int \<Rightarrow> siginfo \<Rightarrow> reaction hstep list" where
  "startoff now settime si = arm_timer settime @ [read_clock now (\<lambda>t g. g\<lparr>tm_start := t\<rparr>)]"

definition react_acts :: "(nat \<Rightarrow> timespec option) \<Rightarrow> int \<Rightarrow> nat \<Rightarrow> reaction disposition" where
  "react_acts now settime n =
     (if n = SIGRTMIN then Handler \<lparr>sa_body = timer_handler, sa_mask = {}, sa_nodefer = False\<rparr>
      else if n = SIGINT then Handler \<lparr>sa_body = userpress now, sa_mask = {}, sa_nodefer = False\<rparr>
      else if n = SIGALRM then Handler \<lparr>sa_body = startoff now settime, sa_mask = {}, sa_nodefer = False\<rparr>
      else SIG_DFL)"

text \<open>The interval of the timer; the products are computed in a \<open>long\<close>.\<close>

definition c_long :: "int \<Rightarrow> int outcome" where
  "c_long z = (if LONG_MIN \<le> z \<and> z \<le> LONG_MAX then Value z else Undefined Int_Overflow)"

definition timer_spec :: "int \<Rightarrow> itimerspec outcome" where
  "timer_spec freq_ms =
     andthen (c_long (freq_ms * 1000000)) (\<lambda>ns.
       let t = \<lparr>tv_sec = ns sdiv 1000000000, tv_nsec = ns smod 1000000000\<rparr> in
       Value \<lparr>it_value = t, it_interval = t\<rparr>)"

definition react_init ::
  "(nat \<Rightarrow> timespec option) \<Rightarrow> int \<Rightarrow> (nat \<Rightarrow> int) \<Rightarrow> int \<Rightarrow> int \<Rightarrow>
   ((nat \<Rightarrow> reaction disposition) \<times> itimerspec) outcome" where
  "react_init now settime sa timer_create freq_ms =
     (if sa SIGRTMIN = -1 then FATAL
      else if sa SIGINT = -1 then FATAL
      else if sa SIGALRM = -1 then FATAL
      else if timer_create = -1 then FATAL
      else andthen (timer_spec freq_ms) (\<lambda>itv. Value (react_acts now settime, itv)))"

text \<open>The seconds after which the surprise comes; \<open>rnd\<close> is what \<open>random()\<close> returns.\<close>

definition MIN_START_SEC :: int where "MIN_START_SEC = 1"
definition MAX_START_SEC :: int where "MAX_START_SEC = 5"

definition random_start :: "int \<Rightarrow> int \<Rightarrow> int \<Rightarrow> int" where
  "random_start rnd mn mx = to_unsigned 32 (rnd smod mx + mn)"

definition react_main ::
  "string list \<Rightarrow> (nat \<Rightarrow> timespec option) \<Rightarrow> int \<Rightarrow> (nat \<Rightarrow> int) \<Rightarrow> int \<Rightarrow> int \<Rightarrow>
   ((nat \<Rightarrow> reaction disposition) \<times> itimerspec \<times> int) outcome" where
  "react_main argv now settime sa timer_create rnd =
     (if length argv < 2 then Exit EXIT_FAILURE
      else
        let freq_ms = fst (strtol (argv ! 1)) in
        if freq_ms < 1 then Exit EXIT_FAILURE
        else andthen (react_init now settime sa timer_create freq_ms) (\<lambda>(acts, itv).
          Value (acts, itv, random_start rnd MIN_START_SEC MAX_START_SEC)))"

section \<open>Facts on \<open>react.c\<close>\<close>

lemma timer_spec_ok:
  assumes "1 \<le> f" and "f \<le> 9223372036854"
  shows "\<exists>itv. timer_spec f = Value itv \<and> it_interval itv = it_value itv \<and>
    normal_time (it_value itv) \<and> nanos (it_value itv) = f * 1000000"
proof -
  have "c_long (f * 1000000) = Value (f * 1000000)"
    using assms by (simp add: c_long_def LONG_MIN_def LONG_MAX_def)
  moreover have "0 \<le> z \<Longrightarrow> z sdiv 1000000000 * 1000000000 + z smod 1000000000 = z \<and>
      0 \<le> z smod 1000000000 \<and> z smod 1000000000 < 1000000000" for z :: int
    by (simp add: sdiv_pos smod_pos)
  from this [of "f * 1000000"] assms calculation show ?thesis
    by (simp add: timer_spec_def Let_def normal_time_def nanos_def)
qed

lemma random_start_range:
  assumes "0 \<le> rnd" and "rnd \<le> INT_MAX"
  shows "MIN_START_SEC \<le> random_start rnd MIN_START_SEC MAX_START_SEC \<and>
    random_start rnd MIN_START_SEC MAX_START_SEC \<le> MAX_START_SEC"
proof -
  have "0 \<le> rnd smod 5" "rnd smod 5 < 5" using assms by (simp_all add: smod_pos)
  then show ?thesis
    by (simp add: random_start_def MIN_START_SEC_def MAX_START_SEC_def to_unsigned_id)
qed

text \<open>A signal is delivered to the idle program and its handler runs to its end.\<close>

definition handled :: "nat \<Rightarrow> nat \<Rightarrow> event list" where
  "handled n steps = Generate (signal n) # Deliver # replicate (Suc steps) In_Handler"

lemma handled_run:
  assumes "pending p = []" and "frames p = []" and "n \<notin> blocked p" and "acts n = Handler a"
    and "length (sa_body a (signal n)) = steps"
  shows "run_events acts main (handled n steps) (Running p) =
    status_of (run_body (sa_body a (signal n)) 0 (glob p)) (\<lambda>g. Running (p\<lparr>glob := g\<rparr>))"
proof -
  let ?q = "p\<lparr>pending := [signal n]\<rparr>"
  have low: "lowest (deliverable ?q) = Some (signal n)" using assms by (simp add: deliverable_def)
  have same: "p\<lparr>pending := [], glob := g\<rparr> = p\<lparr>glob := g\<rparr>" for g using assms(1) by (cases p) simp
  have "run_events acts main (handled n steps) (Running p) =
      run_events acts main (Deliver # replicate (Suc steps) In_Handler) (Running ?q)"
    using assms by (simp add: handled_def generate_def is_pending_def del: replicate_Suc)
  also have "\<dots> = atomic_deliver acts ?q"
    using deliver_and_return [of ?q "signal n" acts a "Suc steps" main] assms low by simp
  also have "\<dots> = status_of (run_body (sa_body a (signal n)) 0 (glob p)) (\<lambda>g. Running (p\<lparr>glob := g\<rparr>))"
    using assms low by (simp add: atomic_deliver_def Let_def same)
  finally show ?thesis .
qed

definition ticks :: "nat \<Rightarrow> event list" where
  "ticks n = concat (replicate n (handled SIGRTMIN 2))"

lemma tick_run:
  assumes "pending p = []" and "frames p = []" and "blocked p = {}" and "0 \<le> rc (glob p)" and "rc (glob p) + int n \<le> INT_MAX"
  shows "run_events (react_acts now st) pause_forever (ticks n) (Running p) =
    Running (p\<lparr>glob := (glob p)\<lparr>rc := rc (glob p) + int n\<rparr>\<rparr>)"
  using assms
proof (induction n arbitrary: p)
  case 0
  then show ?case by (simp add: ticks_def)
next
  case (Suc n)
  let ?q = "p\<lparr>glob := (glob p)\<lparr>rc := rc (glob p) + 1\<rparr>\<rparr>"
  have "c_int (rc (glob p) + 1) = Value (rc (glob p) + 1)" using Suc.prems by (simp add: int_range_defs)
  then have "run_body (timer_handler si) 0 (glob p) = Value ((glob p)\<lparr>rc := rc (glob p) + 1\<rparr>)" for si
    by (simp add: timer_handler_def)
  then have "run_events (react_acts now st) pause_forever (handled SIGRTMIN 2) (Running p) = Running ?q"
    using Suc.prems handled_run [of p SIGRTMIN "react_acts now st" _ 2 pause_forever]
    by (simp add: react_acts_def timer_handler_def)
  moreover have "ticks (Suc n) = handled SIGRTMIN 2 @ ticks n" by (simp add: ticks_def)
  ultimately show ?case
    using Suc.IH [of ?q] Suc.prems by (simp add: run_events_append add.assoc)
qed

text \<open>A round of the game up to the report: the start, \<open>n\<close> expirations of the timer, the press.\<close>

definition game :: "nat \<Rightarrow> event list" where
  "game n = handled SIGALRM 3 @ ticks n @ [Generate (signal SIGINT), Deliver, In_Handler, In_Handler, In_Handler]"

lemma game_run:
  assumes "now 0 = Some t0" and "now 1 = Some t1" and "st \<noteq> -1" and "int n \<le> INT_MAX"
  shows "\<exists>p. run_events (react_acts now st) pause_forever (game n) (Running (fresh_process {} start_reaction)) = Running p \<and>
    reports (glob p) = [if n = 0 then Perfect else Pressed (timerspecsub t1 t0) (int n)] \<and>
    run_events (react_acts now st) pause_forever [In_Handler, In_Handler] (Running p) = Left EXIT_SUCCESS"
proof -
  let ?p0 = "fresh_process {} start_reaction"
  let ?g1 = "start_reaction\<lparr>jumped_the_gun := False, tm_start := t0, reads := 1\<rparr>"
  have "run_body (startoff now st si) 0 start_reaction = Value ?g1" for si
    using assms(1,3) by (simp add: startoff_def arm_timer_def read_clock_def start_reaction_def)
  then have "run_events (react_acts now st) pause_forever (handled SIGALRM 3) (Running ?p0) = Running (?p0\<lparr>glob := ?g1\<rparr>)"
    using handled_run [of ?p0 SIGALRM "react_acts now st" _ 3 pause_forever]
    by (simp add: react_acts_def startoff_def arm_timer_def sig_defs)
  moreover have "run_events (react_acts now st) pause_forever (ticks n) (Running (?p0\<lparr>glob := ?g1\<rparr>)) =
      Running (?p0\<lparr>glob := ?g1\<lparr>rc := int n\<rparr>\<rparr>)"
    using tick_run [of "?p0\<lparr>glob := ?g1\<rparr>" n now st] assms(4) by (simp add: start_reaction_def)
  ultimately show ?thesis
    using assms(2)
    by (simp add: game_def run_events_append generate_def is_pending_def deliver_def deliverable_def Let_def
        react_acts_def sig_defs handler_step_def userpress_def read_clock_def start_reaction_def press_report_def
        fresh_process_def)
qed

text \<open>
  The press comes after the timer is armed, when it has expired once, but before \<open>startoff\<close> has read
  the clock.
\<close>

definition early_press :: "event list" where
  "early_press =
     [Generate (signal SIGALRM), Deliver, In_Handler, In_Handler,
      Generate (signal SIGRTMIN), Deliver, In_Handler, In_Handler, In_Handler,
      Generate (signal SIGINT), Deliver, In_Handler, In_Handler, In_Handler]"

lemma early_press_run:
  assumes "now 0 = Some t0" and "st \<noteq> -1"
  shows "\<exists>p. run_events (react_acts now st) pause_forever early_press (Running (fresh_process {} start_reaction)) = Running p \<and>
    reports (glob p) = [Pressed (timerspecsub t0 epoch) 1]"
  using assms
  by (simp add: early_press_def generate_def is_pending_def deliver_def deliverable_def Let_def
      react_acts_def sig_defs handler_step_def userpress_def startoff_def arm_timer_def timer_handler_def
      read_clock_def start_reaction_def press_report_def fresh_process_def mask_during_def catchable_def sigfillset_def
      c_int_def int_range_defs)

text \<open>
  C27: what \<open>react\<close> reports. When the game has started, the timer then expires \<open>n\<close> times and the player
  presses, the report is a perfect reaction for \<open>n\<close> = 0 and otherwise the time between the two readings of
  the clock, exact to the nanosecond and normalised, with the count \<open>n\<close>; then the program ends with
  success. A press before the start ends it with failure. The interval of the timer is the number of
  milliseconds asked for, and the surprise comes after 1 to 5 seconds. But when the press comes between
  the arming of the timer and the first reading of the clock, the time reported is the whole time since
  the epoch.
\<close>
theorem react_reports_reaction:
  assumes "react_main argv now settime sa timer_create rnd = Value (acts, itv, secs)"
    and "fst (strtol (argv ! 1)) \<le> 9223372036854" and "0 \<le> rnd" and "rnd \<le> INT_MAX"
    and "now 0 = Some t0" and "now 1 = Some t1" and "normal_time t0" and "normal_time t1"
    and "settime \<noteq> -1" and "int n \<le> INT_MAX"
  shows "(\<exists>p d. run_events acts pause_forever (game n) (Running (fresh_process {} start_reaction)) = Running p \<and>
      reports (glob p) = [if n = 0 then Perfect else Pressed d (int n)] \<and> normal_time d \<and>
      nanos d = nanos t1 - nanos t0 \<and>
      run_events acts pause_forever [In_Handler, In_Handler] (Running p) = Left EXIT_SUCCESS) \<and>
    run_events acts pause_forever [Generate (signal SIGINT), Deliver, In_Handler, In_Handler]
      (Running (fresh_process {} start_reaction)) = Left EXIT_FAILURE \<and>
    nanos (it_value itv) = fst (strtol (argv ! 1)) * 1000000 \<and> normal_time (it_value itv) \<and>
    it_interval itv = it_value itv \<and> 1 \<le> secs \<and> secs \<le> 5 \<and>
    (\<exists>p d. run_events acts pause_forever early_press (Running (fresh_process {} start_reaction)) = Running p \<and>
      reports (glob p) = [Pressed d 1] \<and> nanos d = nanos t0)"
proof -
  have f: "1 \<le> fst (strtol (argv ! 1))" and acts: "acts = react_acts now settime"
    and itv: "timer_spec (fst (strtol (argv ! 1))) = Value itv"
    and secs: "secs = random_start rnd MIN_START_SEC MAX_START_SEC"
    using assms(1) by (auto simp: react_main_def react_init_def Let_def andthen_eq_Value split: if_splits)
  have early: "\<exists>p d. run_events acts pause_forever early_press (Running (fresh_process {} start_reaction)) = Running p \<and>
      reports (glob p) = [Pressed d 1] \<and> nanos d = nanos t0"
    using early_press_run [of now t0 settime, OF assms(5,9)] timerspecsub_nanos [of t0 epoch]
    unfolding acts by (auto simp: epoch_def nanos_def)
  have gun: "run_events acts pause_forever [Generate (signal SIGINT), Deliver, In_Handler, In_Handler]
      (Running (fresh_process {} start_reaction)) = Left EXIT_FAILURE"
    using assms(5)
    by (simp add: acts generate_def is_pending_def deliver_def deliverable_def Let_def react_acts_def sig_defs
        handler_step_def userpress_def read_clock_def start_reaction_def)
  have "\<exists>p. run_events acts pause_forever (game n) (Running (fresh_process {} start_reaction)) = Running p \<and>
      reports (glob p) = [if n = 0 then Perfect else Pressed (timerspecsub t1 t0) (int n)] \<and>
      run_events acts pause_forever [In_Handler, In_Handler] (Running p) = Left EXIT_SUCCESS"
    unfolding acts by (rule game_run [of now t0 t1 settime n, OF assms(5,6,9,10)])
  then have game: "\<exists>p d. run_events acts pause_forever (game n) (Running (fresh_process {} start_reaction)) = Running p \<and>
      reports (glob p) = [if n = 0 then Perfect else Pressed d (int n)] \<and> normal_time d \<and>
      nanos d = nanos t1 - nanos t0 \<and>
      run_events acts pause_forever [In_Handler, In_Handler] (Running p) = Left EXIT_SUCCESS"
    using timerspecsub_nanos [of t1 t0] timerspecsub_normal [OF assms(8,7)] by blast
  show ?thesis
    using game gun early timer_spec_ok [OF f assms(2)] itv random_start_range [OF assms(3,4)] secs
    by (simp add: MIN_START_SEC_def MAX_START_SEC_def)
qed

theorem react_reports_reaction_witness:
  "\<exists>acts itv secs p d.
     react_main [''react'', ''100''] (\<lambda>k. Some \<lparr>tv_sec = int k, tv_nsec = 5\<rparr>) 0 (\<lambda>n. 0) 0 3 = Value (acts, itv, secs) \<and>
     secs = 4 \<and> nanos (it_value itv) = 100000000 \<and>
     run_events acts pause_forever (game 2) (Running (fresh_process {} start_reaction)) = Running p \<and>
     reports (glob p) = [Pressed d 2] \<and> nanos d = 1000000000"
proof -
  let ?now = "\<lambda>k. Some \<lparr>tv_sec = int k, tv_nsec = 5\<rparr>"
  have f: "fst (strtol ''100'') = 100" by code_simp
  have "\<exists>itv. timer_spec 100 = Value itv" using timer_spec_ok [of 100] by auto
  then obtain itv where "timer_spec 100 = Value itv" by blast
  moreover have "random_start 3 MIN_START_SEC MAX_START_SEC = 4"
    by (simp add: random_start_def MIN_START_SEC_def MAX_START_SEC_def smod_pos to_unsigned_id)
  ultimately have m: "react_main [''react'', ''100''] ?now 0 (\<lambda>n. 0) 0 3 = Value (react_acts ?now 0, itv, 4)"
    using f by (simp add: react_main_def react_init_def)
  note react_reports_reaction [OF m, of "\<lparr>tv_sec = 0, tv_nsec = 5\<rparr>" "\<lparr>tv_sec = 1, tv_nsec = 5\<rparr>" 2]
  then show ?thesis using m f by (fastforce simp: normal_time_def INT_MAX_def nanos_def)
qed

section \<open>\<open>runwalk_timer.c\<close>\<close>

datatype rw_type = RUN | WALK

text \<open>
  \<open>itmrspec\<close> and \<open>armed\<close> are the seconds of the timer specification and those the timer was last armed
  with; \<open>buzzed\<close> has the messages of \<open>BUZZ\<close> with the seconds printed after them.
\<close>

record sRunWalk =
  trun :: int
  twalk :: int
  rtype :: rw_type
  itmrspec :: int
  armed :: int
  buzzed :: "(rw_type \<times> int) list"

definition toggle :: "rw_type \<Rightarrow> rw_type" where
  "toggle t = (case t of RUN \<Rightarrow> WALK | WALK \<Rightarrow> RUN)"

definition its_time :: "int \<Rightarrow> siginfo \<Rightarrow> sRunWalk hstep list" where
  "its_time settime si =
     [\<lambda>r g. Value (r, g\<lparr>itmrspec := 0\<rparr>),
      \<lambda>r g. Value (r,
        if rtype g = WALK then g\<lparr>itmrspec := trun g, buzzed := buzzed g @ [(RUN, trun g)]\<rparr>
        else g\<lparr>itmrspec := twalk g, buzzed := buzzed g @ [(WALK, twalk g)]\<rparr>),
      \<lambda>r g. Value (r, g\<lparr>rtype := toggle (rtype g)\<rparr>),
      \<lambda>r g. if settime < 0 then FATAL else Value (r, g\<lparr>armed := itmrspec g\<rparr>)]"

definition bye :: "siginfo \<Rightarrow> sRunWalk hstep list" where
  "bye si = [\<lambda>r g. Exit EXIT_SUCCESS]"

text \<open>The mask of \<open>SIGRTMIN\<close> is full, the one of \<open>SIGINT\<close> empty.\<close>

definition runwalk_acts :: "int \<Rightarrow> nat \<Rightarrow> sRunWalk disposition" where
  "runwalk_acts settime n =
     (if n = SIGRTMIN then Handler \<lparr>sa_body = its_time settime, sa_mask = sigfillset, sa_nodefer = False\<rparr>
      else if n = SIGINT then Handler \<lparr>sa_body = bye, sa_mask = {}, sa_nodefer = False\<rparr>
      else SIG_DFL)"

definition runwalk_timer_init_and_arm :: "(nat \<Rightarrow> int) \<Rightarrow> int \<Rightarrow> int \<Rightarrow> sRunWalk \<Rightarrow> sRunWalk outcome" where
  "runwalk_timer_init_and_arm sa timer_create settime ps =
     (if sa SIGRTMIN < 0 then FATAL
      else
        let ps = ps\<lparr>rtype := RUN, itmrspec := trun ps\<rparr> in
        if timer_create < 0 then FATAL
        else if settime < 0 then FATAL
        else Value (ps\<lparr>armed := itmrspec ps\<rparr>))"

definition runwalk_main :: "string list \<Rightarrow> (nat \<Rightarrow> int) \<Rightarrow> bool \<Rightarrow> int \<Rightarrow> int \<Rightarrow> (sRunWalk \<times> (nat \<Rightarrow> sRunWalk disposition)) outcome" where
  "runwalk_main argv sa calloc_ok timer_create settime =
     (if length argv < 3 then Exit EXIT_FAILURE
      else if length argv = 4 \<and> (atoi (argv ! 3) < 0 \<or> 2 < atoi (argv ! 3)) then Exit EXIT_FAILURE
      else if sa SIGINT < 0 then FATAL
      else if snd (strtoul (argv ! 1)) then FATAL
      else if snd (strtoul (argv ! 2)) then FATAL
      else
        let tr = to_signed 32 (fst (strtoul (argv ! 1))); tw = to_signed 32 (fst (strtoul (argv ! 2))) in
        if tr \<le> 0 \<or> tw \<le> 0 then Exit EXIT_FAILURE
        else if \<not> calloc_ok then FATAL
        else
          andthen (runwalk_timer_init_and_arm sa timer_create settime
              \<lparr>trun = tr, twalk = tw, rtype = RUN, itmrspec = 0, armed = 0, buzzed = []\<rparr>)
            (\<lambda>ps. Value (ps, runwalk_acts settime)))"

text \<open>The periods after the first one: walk, run, walk, and so on.\<close>

definition period :: "int \<Rightarrow> int \<Rightarrow> nat \<Rightarrow> rw_type \<times> int" where
  "period tr tw k = (if even k then (WALK, tw) else (RUN, tr))"

interpretation runwalk: serial_handlers "runwalk_acts settime" "{SIGRTMIN}" for settime
  by unfold_locales (auto simp: runwalk_acts_def catchable_def sigfillset_def sig_defs split: if_splits)

definition rw_state :: "int \<Rightarrow> int \<Rightarrow> nat \<Rightarrow> sRunWalk \<Rightarrow> bool" where
  "rw_state tr tw m g \<longleftrightarrow>
     trun g = tr \<and> twalk g = tw \<and> buzzed g = map (period tr tw) [0..<m] \<and>
     rtype g = (if even m then RUN else WALK) \<and> armed g = (if even m then tr else tw)"

lemma run_its_time:
  assumes "rw_state tr tw m g" and "0 \<le> settime"
  shows "\<exists>g'. run_body (its_time settime si) r g = Value g' \<and> rw_state tr tw (Suc m) g'"
  using assms by (auto simp: its_time_def rw_state_def toggle_def period_def)

definition rw_inv :: "int \<Rightarrow> int \<Rightarrow> siginfo list \<Rightarrow> sRunWalk sigproc \<Rightarrow> bool" where
  "rw_inv tr tw gs p \<longleftrightarrow>
     frames p = [] \<and> blocked p = {} \<and> (\<forall>si \<in> set (pending p). si_signo si = SIGRTMIN) \<and>
     length (pending p) \<le> length gs \<and> rw_state tr tw (length gs - length (pending p)) (glob p)"

lemma rw_inv_deliver:
  assumes "rw_inv tr tw gs p" and "0 \<le> settime"
  shows "\<exists>q. atomic_deliver (runwalk_acts settime) p = Running q \<and> rw_inv tr tw gs q"
proof (cases "lowest (deliverable p)")
  case (Some si)
  then have si: "si \<in> set (pending p)" "si_signo si = SIGRTMIN"
    using assms(1) lowest_deliverable(1) [OF Some] by (auto simp: rw_inv_def)
  obtain g' where g': "run_body (its_time settime si) 0 (glob p) = Value g'"
    "rw_state tr tw (Suc (length gs - length (pending p))) g'"
    using run_its_time assms unfolding rw_inv_def by blast
  have "0 < length (pending p)" using si(1) by (cases "pending p") auto
  moreover have "length (pending p) \<le> length gs" using assms(1) by (simp add: rw_inv_def)
  ultimately have "length gs - (length (pending p) - Suc 0) = Suc (length gs - length (pending p))"
    by linarith
  then show ?thesis
    using Some si g' assms(1) set_remove1_subset [of si "pending p"]
    by (auto simp: atomic_deliver_def Let_def runwalk_acts_def rw_inv_def length_remove1)
qed (use assms in \<open>simp add: atomic_deliver_def\<close>)

lemma rw_inv_event:
  assumes "only_signals {SIGRTMIN} e" and "rw_inv tr tw gs p" and "0 \<le> settime"
  shows "\<exists>q. atomic_event (runwalk_acts settime) pause_forever e p = Running q \<and> rw_inv tr tw (gs @ sent_by e) q"
proof (cases e)
  case (Generate si)
  then show ?thesis using assms(1,2) by (simp add: rw_inv_def generate_def Suc_diff_le)
next
  case In_Main
  then show ?thesis using assms by (simp add: in_main_step_def pause_forever_def rw_inv_def)
qed (use assms rw_inv_deliver in simp_all)

lemma runwalk_run:
  assumes "list_all (only_signals {SIGRTMIN}) es" and "0 \<le> settime" and "rw_state tr tw 0 g"
  shows "\<exists>q q'. run_events (runwalk_acts settime) pause_forever es (Running (fresh_process {} g)) = Running q \<and>
    length (frames q) \<le> 1 \<and> settle q = Running q' \<and> rw_inv tr tw (sent es) q'"
proof (rule runwalk.total_run [where K = "length (sent es)"])
  fix gs e and p :: "sRunWalk sigproc"
  assume "only_signals {SIGRTMIN} e" and "rw_inv tr tw gs p"
  then show "\<exists>q. atomic_event (runwalk_acts settime) pause_forever e p = Running q \<and> rw_inv tr tw (gs @ sent_by e) q"
    using assms(2) by (rule rw_inv_event)
qed (use assms in \<open>simp_all add: rw_inv_def\<close>)

text \<open>
  C28: the timer alternates. After the program has accepted its arguments and armed the timer for the
  running time, whatever the number of expirations and whenever their signals are delivered, no
  expiration is lost: whenever no handler is running, the buzzes so far are walk, run, walk, and so on,
  one for each expiration that is not pending, each with its number of seconds, and the timer is armed
  for the period that has just been announced. An interrupt ends the program with success.
\<close>
theorem runwalk_alternates:
  assumes "runwalk_main argv sa calloc_ok timer_create settime = Value (ps, acts)"
    and "list_all (only_signals {SIGRTMIN}) es"
  shows "0 < trun ps \<and> 0 < twalk ps \<and> armed ps = trun ps \<and>
    (\<exists>p. run_events acts pause_forever es (Running (fresh_process {} ps)) = Running p \<and> length (frames p) \<le> 1 \<and>
      (frames p = [] \<longrightarrow>
        (let m = length (sent es) - length (pending p) in
           buzzed (glob p) = map (\<lambda>k. if even k then (WALK, twalk ps) else (RUN, trun ps)) [0..<m] \<and>
           armed (glob p) = (if even m then trun ps else twalk ps)))) \<and>
    run_events acts pause_forever [Generate (signal SIGINT), Deliver, In_Handler] (Running (fresh_process {} ps)) =
      Left EXIT_SUCCESS"
proof -
  have pos: "0 < trun ps" "0 < twalk ps" and ps: "armed ps = trun ps" "rtype ps = RUN" "buzzed ps = []"
    and acts: "acts = runwalk_acts settime" and st: "0 \<le> settime"
    using assms(1)
    by (auto simp: runwalk_main_def runwalk_timer_init_and_arm_def Let_def andthen_eq_Value split: if_splits)
  have "rw_state (trun ps) (twalk ps) 0 ps" using ps by (simp add: rw_state_def)
  then obtain q q' where q: "run_events acts pause_forever es (Running (fresh_process {} ps)) = Running q"
    "length (frames q) \<le> 1" "settle q = Running q'" "rw_inv (trun ps) (twalk ps) (sent es) q'"
    using runwalk_run [OF assms(2) st] unfolding acts by blast
  moreover have "run_events acts pause_forever [Generate (signal SIGINT), Deliver, In_Handler] (Running (fresh_process {} ps)) =
      Left EXIT_SUCCESS"
    by (simp add: acts generate_def is_pending_def deliver_def deliverable_def Let_def runwalk_acts_def sig_defs
        handler_step_def bye_def)
  ultimately show ?thesis
    using pos ps(1) settle_Running_idle [OF q(3)]
    by (auto simp: rw_inv_def rw_state_def Let_def period_def)
qed

theorem runwalk_alternates_witness:
  "\<exists>ps acts p. runwalk_main [''runwalk'', ''30'', ''0x0a''] (\<lambda>n. 0) True 0 0 = Value (ps, acts) \<and>
     trun ps = 30 \<and> twalk ps = 10 \<and>
     run_events acts pause_forever [Generate (signal SIGRTMIN), Deliver, In_Handler] (Running (fresh_process {} ps)) =
       Running p"
proof -
  have s: "strtoul ''30'' = (30, False)" "strtoul ''0x0a'' = (10, False)" by code_simp+
  have t: "to_signed 32 30 = 30" "to_signed 32 10 = 10" by code_simp+
  obtain ps acts where m: "runwalk_main [''runwalk'', ''30'', ''0x0a''] (\<lambda>n. 0) True 0 0 = Value (ps, acts)"
    and "trun ps = 30" "twalk ps = 10"
    using s t by (simp add: runwalk_main_def runwalk_timer_init_and_arm_def Let_def numeral_eq_Suc)
  then show ?thesis
    using runwalk_alternates [OF m, of "[Generate (signal SIGRTMIN), Deliver, In_Handler]"]
    by (auto simp del: run_events.simps)
qed

text \<open>
  A negative number is not taken as its absolute value: it wraps in \<open>unsigned long\<close>, becomes negative again
  as an \<open>int\<close>, and is refused.
\<close>

lemma runwalk_negative:
  "runwalk_main [''runwalk'', ''-5'', ''10''] (\<lambda>n. 0) True 0 0 = Exit EXIT_FAILURE"
proof -
  have "strtoul ''-5'' = (18446744073709551611, False)" "strtoul ''10'' = (10, False)"
    "to_signed 32 18446744073709551611 = -5" by code_simp+
  then show ?thesis by (simp add: runwalk_main_def Let_def numeral_eq_Suc)
qed

section \<open>\<open>alarm1.c\<close>, \<open>alarm2_rep.c\<close> and \<open>intv_clksimple.c\<close>\<close>

text \<open>
  \<open>apc\<close> is where the main program is: 0 before \<open>alarm(n)\<close>, 1 after it, 2 in \<open>pause()\<close>, 3 after it. A handler
  that returns ends the call of \<open>pause\<close> that it interrupted.
\<close>

record alarmed =
  apc :: nat
  woken :: bool
  timeouts :: nat

definition start_alarmed :: alarmed where
  "start_alarmed = \<lparr>apc = 0, woken = False, timeouts = 0\<rparr>"

definition alarm_sig_handler :: "bool \<Rightarrow> siginfo \<Rightarrow> alarmed hstep list" where
  "alarm_sig_handler wr si =
     (if si_signo si \<noteq> SIGALRM then []
      else [\<lambda>r g. Value (r, if wr then g\<lparr>timeouts := timeouts g + 1\<rparr> else g)]) @
     [\<lambda>r g. Value (r, if apc g = 2 then g\<lparr>woken := True\<rparr> else g)]"

definition alarm_setup :: "string list \<Rightarrow> bool \<Rightarrow> int \<Rightarrow> (nat \<Rightarrow> alarmed disposition) outcome" where
  "alarm_setup argv wr sa =
     (if length argv \<noteq> 2 then Exit EXIT_FAILURE
      else if atoi (argv ! 1) \<le> 0 then Exit EXIT_FAILURE
      else if sa < 0 then FATAL
      else Value (installed [SIGALRM] \<lparr>sa_body = alarm_sig_handler wr, sa_mask = {}, sa_nodefer = False\<rparr>))"

definition alarm1_step :: "alarmed \<Rightarrow> alarmed outcome" where
  "alarm1_step g =
     (if apc g = 0 then Value (g\<lparr>apc := 1\<rparr>)
      else if apc g = 1 then Value (g\<lparr>apc := 2, woken := False\<rparr>)
      else if apc g = 2 then Value (if woken g then g\<lparr>apc := 3\<rparr> else g)
      else Exit EXIT_SUCCESS)"

definition alarm2_step :: "alarmed \<Rightarrow> alarmed outcome" where
  "alarm2_step g =
     Value (if apc g = 0 then g\<lparr>apc := 1\<rparr>
            else if apc g = 1 then g\<lparr>apc := 2, woken := False\<rparr>
            else if apc g = 2 then if woken g then g\<lparr>apc := 3\<rparr> else g
            else g\<lparr>apc := 1\<rparr>)"

text \<open>
  In \<open>alarm1\<close> the timeout ends the program when it comes while the program is in \<open>pause\<close>; when it comes
  between \<open>alarm\<close> and \<open>pause\<close>, the program waits for ever.
\<close>

lemma alarm_handled:
  assumes "alarm_setup argv wr sa = Value acts" and "pending p = []" and "frames p = []" and "blocked p = {}"
  shows "\<exists>t. run_events acts main (handled SIGALRM 2) (Running p) =
    Running (p\<lparr>glob := \<lparr>apc = apc (glob p), woken = woken (glob p) \<or> apc (glob p) = 2, timeouts = t\<rparr>\<rparr>)"
proof -
  let ?a = "\<lparr>sa_body = alarm_sig_handler wr, sa_mask = {}, sa_nodefer = False\<rparr>"
  have acts: "acts SIGALRM = Handler ?a"
    using assms(1) by (auto simp: alarm_setup_def installed_def split: if_splits)
  have "\<exists>t. run_body (alarm_sig_handler wr (signal SIGALRM)) 0 (glob p) =
      Value \<lparr>apc = apc (glob p), woken = woken (glob p) \<or> apc (glob p) = 2, timeouts = t\<rparr>"
    by (auto simp: alarm_sig_handler_def intro!: alarmed.equality)
  then obtain t where "run_body (alarm_sig_handler wr (signal SIGALRM)) 0 (glob p) =
      Value \<lparr>apc = apc (glob p), woken = woken (glob p) \<or> apc (glob p) = 2, timeouts = t\<rparr>" by blast
  moreover have "length (alarm_sig_handler wr (signal SIGALRM)) = 2" by (simp add: alarm_sig_handler_def)
  ultimately show ?thesis
    using handled_run [of p SIGALRM acts ?a 2 main] assms acts by (intro exI [of _ t]) simp
qed

lemma alarm1_waits:
  assumes "alarm_setup argv wr sa = Value acts"
  shows "run_events acts alarm1_step ([In_Main, In_Main] @ handled SIGALRM 2 @ [In_Main, In_Main])
      (Running (fresh_process {} start_alarmed)) = Left EXIT_SUCCESS"
    and "\<exists>p. run_events acts alarm1_step ([In_Main] @ handled SIGALRM 2 @ replicate k In_Main)
      (Running (fresh_process {} start_alarmed)) = Running p"
proof -
  let ?p = "\<lambda>g. fresh_process {} start_alarmed\<lparr>glob := g\<rparr>"
  let ?h = "\<lambda>k w. \<lparr>apc = k, woken = w, timeouts = 0\<rparr>"
  obtain t where "run_events acts alarm1_step (handled SIGALRM 2) (Running (?p (?h 2 False))) =
      Running (?p \<lparr>apc = 2, woken = True, timeouts = t\<rparr>)"
    using alarm_handled [OF assms, of "?p (?h 2 False)" alarm1_step] by auto
  then show "run_events acts alarm1_step ([In_Main, In_Main] @ handled SIGALRM 2 @ [In_Main, In_Main])
      (Running (fresh_process {} start_alarmed)) = Left EXIT_SUCCESS"
    by (simp add: run_events_append in_main_step_def alarm1_step_def start_alarmed_def fresh_process_def)
  obtain t where t: "run_events acts alarm1_step (handled SIGALRM 2) (Running (?p (?h 1 False))) =
      Running (?p \<lparr>apc = 1, woken = False, timeouts = t\<rparr>)"
    using alarm_handled [OF assms, of "?p (?h 1 False)" alarm1_step] by auto
  have stay: "\<exists>q. run_events acts alarm1_step (replicate k In_Main) (Running (?p \<lparr>apc = m, woken = False, timeouts = t\<rparr>)) =
      Running q" if "m = 1 \<or> m = 2" for m
    using that by (induction k arbitrary: m) (auto simp: in_main_step_def alarm1_step_def fresh_process_def)
  show "\<exists>p. run_events acts alarm1_step ([In_Main] @ handled SIGALRM 2 @ replicate k In_Main)
      (Running (fresh_process {} start_alarmed)) = Running p"
    using t stay [of 1]
    by (simp add: run_events_append in_main_step_def alarm1_step_def start_alarmed_def fresh_process_def)
qed

text \<open>
  \<open>alarm2_rep.c\<close> sets up the same handler. It goes on for ever as long as each timeout comes while it is in \<open>pause\<close>: it is back in
  \<open>pause\<close> with the alarm set again. One timeout between \<open>alarm\<close> and \<open>pause\<close>, and no further one is ever asked for.
\<close>

definition alarm2_main ::
  "string list \<Rightarrow> bool \<Rightarrow> int \<Rightarrow> event list \<Rightarrow> alarmed status outcome" where
  "alarm2_main argv wr sa evs =
     andthen (alarm_setup argv wr sa) (\<lambda>acts. Value (run_events acts alarm2_step evs (Running (fresh_process {} start_alarmed))))"

lemma alarm2_round:
  assumes "alarm_setup argv wr sa = Value acts" and "pending p = []" and "frames p = []" and "blocked p = {}" and "apc (glob p) = 2"
  shows "\<exists>t. run_events acts alarm2_step (handled SIGALRM 2 @ [In_Main, In_Main, In_Main]) (Running p) =
    Running (p\<lparr>glob := \<lparr>apc = 2, woken = False, timeouts = t\<rparr>\<rparr>)"
proof -
  obtain t where t: "run_events acts alarm2_step (handled SIGALRM 2) (Running p) =
      Running (p\<lparr>glob := \<lparr>apc = 2, woken = True, timeouts = t\<rparr>\<rparr>)"
    using alarm_handled [OF assms(1-4), of alarm2_step] assms(5) by auto
  show ?thesis using assms(3)
    by (intro exI [of _ t]) (simp add: run_events_append t in_main_step_def alarm2_step_def)
qed

lemma alarm2_goes_on:
  assumes "alarm_setup argv wr sa = Value acts"
  shows "\<exists>p. alarm2_main argv wr sa (replicate 2 In_Main @ concat (replicate k (handled SIGALRM 2 @ [In_Main, In_Main, In_Main]))) = Value (Running p) \<and>
           apc (glob p) = 2"
proof -
  let ?p = "fresh_process {} start_alarmed\<lparr>glob := \<lparr>apc = 2, woken = False, timeouts = 0\<rparr>\<rparr>"
  have "\<exists>q. run_events acts alarm2_step (concat (replicate k (handled SIGALRM 2 @ [In_Main, In_Main, In_Main]))) (Running p) = Running q \<and> apc (glob q) = 2"
    if "pending p = []" "frames p = []" "blocked p = {}" "apc (glob p) = 2" for p
    using that
  proof (induction k arbitrary: p)
    case (Suc k)
    obtain t where t: "run_events acts alarm2_step (handled SIGALRM 2 @ [In_Main, In_Main, In_Main]) (Running p) =
        Running (p\<lparr>glob := \<lparr>apc = 2, woken = False, timeouts = t\<rparr>\<rparr>)"
      using alarm2_round [OF assms Suc.prems] by blast
    show ?case using Suc.IH [of "p\<lparr>glob := \<lparr>apc = 2, woken = False, timeouts = t\<rparr>\<rparr>"] Suc.prems
      by (simp only: replicate_Suc concat.simps run_events_append [of _ _ "handled SIGALRM 2 @ [In_Main, In_Main, In_Main]"] t) simp
  qed simp
  from this [of ?p] show ?thesis using assms
    by (simp add: alarm2_main_def run_events_append in_main_step_def alarm2_step_def start_alarmed_def fresh_process_def numeral_2_eq_2)
qed

lemma alarm2_lost:
  assumes "alarm_setup argv wr sa = Value acts"
  shows "\<exists>p. alarm2_main argv wr sa ([In_Main] @ handled SIGALRM 2 @ replicate (Suc k) In_Main) = Value (Running p) \<and>
           apc (glob p) = 2 \<and> \<not> woken (glob p)"
proof -
  let ?p = "\<lambda>g. fresh_process {} start_alarmed\<lparr>glob := g\<rparr>"
  obtain t where t: "run_events acts alarm2_step (handled SIGALRM 2) (Running (?p \<lparr>apc = 1, woken = False, timeouts = 0\<rparr>)) =
      Running (?p \<lparr>apc = 1, woken = False, timeouts = t\<rparr>)"
    using alarm_handled [OF assms, of "?p \<lparr>apc = 1, woken = False, timeouts = 0\<rparr>" alarm2_step] by auto
  have "run_events acts alarm2_step (replicate k In_Main) (Running (?p \<lparr>apc = 2, woken = False, timeouts = t\<rparr>)) =
      Running (?p \<lparr>apc = 2, woken = False, timeouts = t\<rparr>)"
    by (induction k) (simp_all add: in_main_step_def alarm2_step_def fresh_process_def)
  then show ?thesis using t assms
    by (simp add: alarm2_main_def run_events_append in_main_step_def alarm2_step_def start_alarmed_def fresh_process_def)
qed

text \<open>
  The clock of \<open>intv_clksimple.c\<close>: \<open>ctime t\<close> is the text of a time, with its newline. The third component
  of the state is \<open>errno\<close>, which the handler saves and restores.
\<close>

record ticker =
  tout :: "string list"
  terrno :: int
  treads :: nat

definition ticktock ::
  "(nat \<Rightarrow> timespec option) \<Rightarrow> (int \<Rightarrow> string option) \<Rightarrow> (nat \<Rightarrow> bool) \<Rightarrow> int \<Rightarrow> siginfo \<Rightarrow> ticker hstep list" where
  "ticktock now ctime wr opt si =
     [\<lambda>r g. Value (terrno g, g),
      \<lambda>r g. (case now (treads g) of
         None \<Rightarrow> FATAL
       | Some tm \<Rightarrow>
           (case ctime (tv_sec tm) of
              None \<Rightarrow> FATAL
            | Some s \<Rightarrow>
                let g = g\<lparr>treads := Suc (treads g)\<rparr> in
                if opt = 0 then if wr (treads g) then Value (r, g\<lparr>tout := tout g @ [s]\<rparr>) else FATAL
                else if opt = 1 then
                  if s = [] then Undefined Out_Of_Bounds else Value (r, g\<lparr>tout := tout g @ [CR # butlast s]\<rparr>)
                else Value (r, g))),
      \<lambda>r g. Value (r, g\<lparr>terrno := r\<rparr>)]"

definition intv_main ::
  "string list \<Rightarrow> (nat \<Rightarrow> timespec option) \<Rightarrow> (int \<Rightarrow> string option) \<Rightarrow> (nat \<Rightarrow> bool) \<Rightarrow> int \<Rightarrow> int \<Rightarrow>
   ((nat \<Rightarrow> ticker disposition) \<times> itimerspec) outcome" where
  "intv_main argv now ctime wr sa setitimer =
     (if length argv \<noteq> 2 \<or> length (argv ! 1) \<noteq> 1 then Exit EXIT_FAILURE
      else
        let opt = atoi (argv ! 1) in
        if opt \<noteq> 0 \<and> opt \<noteq> 1 then Exit EXIT_FAILURE
        else if sa < 0 then FATAL
        else if setitimer < 0 then FATAL
        else
          Value (installed [SIGALRM] \<lparr>sa_body = ticktock now ctime wr opt, sa_mask = sigfillset, sa_nodefer = False\<rparr>,
            \<lparr>it_value = \<lparr>tv_sec = 1, tv_nsec = 0\<rparr>, it_interval = \<lparr>tv_sec = 1, tv_nsec = 0\<rparr>\<rparr>))"

interpretation intv: serial_handlers
    "installed [SIGALRM] \<lparr>sa_body = ticktock now ctime wr opt, sa_mask = sigfillset, sa_nodefer = False\<rparr>" "{SIGALRM}"
    for now ctime wr opt
  by unfold_locales (auto simp: installed_def catchable_def sigfillset_def sig_defs split: if_splits)

text \<open>A tick of the correct way prints the time and leaves \<open>errno\<close> as it was.\<close>

lemma ticktock_prints:
  assumes "now (treads g) = Some tm" and "ctime (tv_sec tm) = Some s" and "wr (Suc (treads g))"
  shows "run_body (ticktock now ctime wr 0 si) r g = Value (g\<lparr>tout := tout g @ [s], treads := Suc (treads g)\<rparr>)"
  using assms by (simp add: ticktock_def Let_def)

end
