(* ===== verification/Shell.thy ===== *)
theory Shell
  imports Common
begin

text \<open>
  The three versions of the small shell of chapter 10, \<open>ch10/simpsh_v1.c\<close>, \<open>simpsh_v2.c\<close> and
  \<open>simpsh_v3.c\<close>: reading commands, running them in children, waiting.
\<close>

section \<open>Commands\<close>

abbreviation (input) NUL :: char where "NUL \<equiv> CHR 0x00"

definition CMD_MAXLEN :: nat where "CMD_MAXLEN = 128"

text \<open>
  \<open>getcmd\<close> cuts the last character of what \<open>fgets\<close> has read, whether or not it is the newline. When the
  first byte of the line is null, \<open>strlen\<close> is 0 and the write goes to the byte before the buffer.
\<close>

definition getcmd :: "string \<Rightarrow> (string \<times> string) option outcome" where
  "getcmd input =
     (case fgets (CMD_MAXLEN - 1) input of
        None \<Rightarrow> Value None
      | Some (line, rest) \<Rightarrow>
          let cmdstr = takeWhile (\<lambda>c. c \<noteq> NUL) line in
          if cmdstr = [] then Undefined Out_Of_Bounds else Value (Some (butlast cmdstr, rest)))"

section \<open>Children\<close>

datatype wait_status = Exited int | Signaled int bool | Stopped int | Continued

definition terminated :: "wait_status \<Rightarrow> bool" where
  "terminated st = (case st of Exited n \<Rightarrow> True | Signaled n core \<Rightarrow> True | _ \<Rightarrow> False)"

text \<open>What \<open>interpret_wait\<close> prints in verbose mode.\<close>

definition interpret_wait :: "wait_status \<Rightarrow> string list" where
  "interpret_wait st =
     (case st of
        Exited n \<Rightarrow> ['' normal termination: exit status: '' @ show_int n]
      | Signaled n core \<Rightarrow>
          ['' abnormal termination: killer signal: '' @ show_int n, if core then '' : core dumped'' else []]
      | Stopped n \<Rightarrow> ['' stopped: stop signal: '' @ show_int n]
      | Continued \<Rightarrow> ['' (was stopped), resumed (SIGCONT)''])"

text \<open>
  What the system does for the \<open>k\<close>-th command: whether \<open>fork\<close>, \<open>execlp\<close> in the child and the call that waits
  succeed, and how the states of children change, in order, from the fork until that call returns. The
  number of the command stands for the process id of its child.
\<close>

record command_env =
  fork_ok :: bool
  exec_ok :: bool
  wait_ok :: bool
  changes :: "(nat \<times> wait_status) list"

text \<open>
  \<open>wait\<close> of the first two versions returns for a child that has terminated, \<open>waitpid\<close> of the third, with
  \<open>WUNTRACED | WCONTINUED\<close>, for any change. \<open>None\<close>: it does not return.
\<close>

datatype version = V1 | V2 | V3

definition reported :: "version \<Rightarrow> wait_status \<Rightarrow> bool" where
  "reported v st = (v = V3 \<or> terminated st)"

definition wait_child :: "version \<Rightarrow> (nat \<times> wait_status) list \<Rightarrow> (nat \<times> wait_status) option" where
  "wait_child v cs = find (\<lambda>(p, st). reported v st) cs"

text \<open>
  The state of the shell: the children that exist, the commands run so far (with whether the program was
  found, and how many other children there were), what verbose mode has printed, whether the command
  buffer is allocated.
\<close>

record shell =
  kids :: "nat list"
  ran :: "(string \<times> bool \<times> nat) list"
  told :: "string list"
  buffer :: bool

datatype shell_end = Returns | Exits int | Waits | Broken ub

text \<open>One command; \<open>k\<close> is its number.\<close>

definition run_command :: "version \<Rightarrow> bool \<Rightarrow> command_env \<Rightarrow> nat \<Rightarrow> string \<Rightarrow> shell \<Rightarrow> shell \<times> shell_end option" where
  "run_command v gVerbose e k cmd s =
     (if \<not> fork_ok e then (s\<lparr>buffer := False\<rparr>, Some (Exits EXIT_FAILURE))
      else
        let s = s\<lparr>kids := k # kids s, ran := ran s @ [(cmd, exec_ok e, length (kids s))]\<rparr> in
        if \<not> wait_ok e then (if v = V1 then s else s\<lparr>buffer := False\<rparr>, Some (Exits EXIT_FAILURE))
        else
          case wait_child v (changes e) of
            None \<Rightarrow> (s, Some Waits)
          | Some (p, st) \<Rightarrow>
              (s\<lparr>kids := (if terminated st then remove1 p (kids s) else kids s),
                 told := (if gVerbose \<and> v \<noteq> V1 then told s @ interpret_wait st else told s)\<rparr>, None))"

lemma getcmd_shorter: "getcmd input = Value (Some (cmd, rest)) \<Longrightarrow> length rest < length input"
  by (auto simp: getcmd_def fgets_def CMD_MAXLEN_def Let_def split: if_splits)

function simpsh_loop ::
  "version \<Rightarrow> bool \<Rightarrow> (nat \<Rightarrow> command_env) \<Rightarrow> nat \<Rightarrow> string \<Rightarrow> shell \<Rightarrow> shell \<times> shell_end" where
  "simpsh_loop v gVerbose env k input s =
     (case getcmd input of
        Undefined u \<Rightarrow> (s, Broken u)
      | Exit n \<Rightarrow> (s, Exits n)
      | Value None \<Rightarrow> (s\<lparr>buffer := False\<rparr>, Exits EXIT_FAILURE)
      | Value (Some (cmd, rest)) \<Rightarrow>
          if strneq 4 cmd ''quit'' then (s\<lparr>buffer := False\<rparr>, Returns)
          else if cmd = [] then simpsh_loop v gVerbose env k rest s
          else
            (case run_command v gVerbose (env k) k cmd s of
               (s, Some r) \<Rightarrow> (s, r)
             | (s, None) \<Rightarrow> simpsh_loop v gVerbose env (Suc k) rest s))"
  by pat_completeness auto

termination
  by (relation "measure (\<lambda>(v, g, env, k, input, s). length input)") (auto dest: getcmd_shorter)

declare simpsh_loop.simps [simp del]

definition do_simpsh :: "version \<Rightarrow> bool \<Rightarrow> (nat \<Rightarrow> command_env) \<Rightarrow> bool \<Rightarrow> string \<Rightarrow> shell \<times> shell_end" where
  "do_simpsh v gVerbose env calloc_ok input =
     (let s = \<lparr>kids = [], ran = [], told = [], buffer = calloc_ok\<rparr> in
      if \<not> calloc_ok then (s, Exits EXIT_FAILURE) else simpsh_loop v gVerbose env 0 input s)"

definition simpsh_main :: "version \<Rightarrow> string list \<Rightarrow> (nat \<Rightarrow> command_env) \<Rightarrow> bool \<Rightarrow> string \<Rightarrow> shell \<times> shell_end" where
  "simpsh_main v argv env calloc_ok input =
     (if 2 \<le> length argv \<and> strneq 6 (argv ! 1) ''--help''
      then (\<lparr>kids = [], ran = [], told = [], buffer = False\<rparr>, Exits EXIT_SUCCESS)
      else
        let gVerbose = (2 \<le> length argv \<and> strneq 2 (argv ! 1) ''-v'') in
        case do_simpsh v gVerbose env calloc_ok input of
          (s, Returns) \<Rightarrow> (s, Exits EXIT_SUCCESS)
        | (s, r) \<Rightarrow> (s, r))"

text \<open>The second and the third version.\<close>

definition do_simpsh_v2 :: "bool \<Rightarrow> (nat \<Rightarrow> command_env) \<Rightarrow> bool \<Rightarrow> string \<Rightarrow> shell \<times> shell_end" where
  "do_simpsh_v2 = do_simpsh V2"

definition simpsh_v2_main :: "string list \<Rightarrow> (nat \<Rightarrow> command_env) \<Rightarrow> bool \<Rightarrow> string \<Rightarrow> shell \<times> shell_end" where
  "simpsh_v2_main = simpsh_main V2"

definition do_simpsh_v3 :: "bool \<Rightarrow> (nat \<Rightarrow> command_env) \<Rightarrow> bool \<Rightarrow> string \<Rightarrow> shell \<times> shell_end" where
  "do_simpsh_v3 = do_simpsh V3"

definition simpsh_v3_main :: "string list \<Rightarrow> (nat \<Rightarrow> command_env) \<Rightarrow> bool \<Rightarrow> string \<Rightarrow> shell \<times> shell_end" where
  "simpsh_v3_main = simpsh_main V3"

section \<open>What the shell runs\<close>

definition good_line :: "string \<Rightarrow> bool" where
  "good_line l \<longleftrightarrow> LF \<notin> set l \<and> NUL \<notin> set l \<and> length l + 1 < CMD_MAXLEN - 1"

definition unlines :: "string list \<Rightarrow> string" where
  "unlines ls = concat (map (\<lambda>l. l @ [LF]) ls)"

definition quits :: "string \<Rightarrow> bool" where
  "quits l \<longleftrightarrow> strneq 4 l ''quit''"

definition commands_of :: "string list \<Rightarrow> string list" where
  "commands_of ls = filter (\<lambda>l. l \<noteq> []) (takeWhile (\<lambda>l. \<not> quits l) ls)"

lemma getcmd_line: "good_line l \<Longrightarrow> getcmd (l @ LF # r) = Value (Some (l, r))"
proof -
  assume l: "good_line l"
  have "takeWhile (\<lambda>c. c \<noteq> NUL) (l @ [LF]) = l @ [LF]"
    using l by (intro takeWhile_eq_all_conv [THEN iffD2]) (auto simp: good_line_def)
  then show ?thesis using l by (simp add: getcmd_def fgets_short_line good_line_def)
qed

lemma getcmd_end: "getcmd [] = Value None"
  by (simp add: getcmd_def fgets_def)

text \<open>
  A line that is too long for the buffer is cut: the first 125 of its characters are one command, the next
  character is lost, and what follows is the next command.
\<close>

lemma getcmd_long_line:
  assumes "length a = 125" and "LF \<notin> set (a @ c # b)" and "NUL \<notin> set (a @ c # b)"
  shows "getcmd (a @ c # b @ LF # r) = Value (Some (a, b @ LF # r))"
proof -
  have f: "first_line (a @ c # b @ LF # r) = a @ c # b @ [LF]"
    using first_line_LF [of "a @ c # b" r] assms(2) by simp
  have "fgets (CMD_MAXLEN - 1) (a @ c # b @ LF # r) = Some (a @ [c], b @ LF # r)"
    using assms(1) by (simp add: fgets_def Let_def f CMD_MAXLEN_def)
  moreover have "takeWhile (\<lambda>x. x \<noteq> NUL) (a @ [c]) = a @ [c]"
    using assms(3) by (intro takeWhile_eq_all_conv [THEN iffD2]) auto
  ultimately show ?thesis by (simp add: getcmd_def)
qed

text \<open>The system grants every call, and the child of each command terminates.\<close>

definition kind_env :: "(nat \<Rightarrow> command_env) \<Rightarrow> bool" where
  "kind_env env \<longleftrightarrow>
     (\<forall>k. fork_ok (env k) \<and> wait_ok (env k) \<and> (\<forall>c \<in> set (changes (env k)). fst c = k) \<and>
        (\<exists>c \<in> set (changes (env k)). terminated (snd c)))"

lemma wait_child_terminated:
  assumes "kind_env env" and "v \<noteq> V3"
  shows "\<exists>st. wait_child v (changes (env k)) = Some (k, st) \<and> terminated st"
proof -
  have ev: "\<exists>c \<in> set (changes (env k)). terminated (snd c)" "\<forall>c \<in> set (changes (env k)). fst c = k"
    using assms(1) by (auto simp: kind_env_def)
  have "wait_child v (changes (env k)) \<noteq> None"
    using ev(1) assms(2) unfolding wait_child_def reported_def find_None_iff by fastforce
  then obtain p st where w: "wait_child v (changes (env k)) = Some (p, st)" by auto
  then have "(p, st) \<in> set (changes (env k))" "reported v st"
    by (auto simp: wait_child_def find_Some_iff intro: nth_mem dest: sym)
  then show ?thesis using w ev(2) assms(2) by (auto simp: reported_def)
qed

text \<open>The shell between two commands: no child is left, and every command so far ran alone.\<close>

definition quiet :: "shell \<Rightarrow> bool" where
  "quiet s \<longleftrightarrow> kids s = [] \<and> buffer s \<and> (\<forall>r \<in> set (ran s). snd (snd r) = 0)"

lemma run_command_quiet:
  assumes "kind_env env" and "v \<noteq> V3" and "quiet s"
  shows "\<exists>s'. run_command v g (env k) k cmd s = (s', None) \<and> quiet s' \<and>
    ran s' = ran s @ [(cmd, exec_ok (env k), 0)]"
proof -
  obtain st where "wait_child v (changes (env k)) = Some (k, st)" "terminated st"
    using wait_child_terminated [OF assms(1,2)] by blast
  then show ?thesis using assms by (auto simp: run_command_def kind_env_def quiet_def Let_def)
qed

lemma simpsh_loop_runs:
  assumes "kind_env env" and "v \<noteq> V3" and "quiet s" and "\<forall>l \<in> set ls. good_line l"
  shows "\<exists>s'. simpsh_loop v g env k (unlines ls) s =
      (s', if \<exists>l \<in> set ls. quits l then Returns else Exits EXIT_FAILURE) \<and>
    map fst (ran s') = map fst (ran s) @ commands_of ls \<and>
    kids s' = [] \<and> \<not> buffer s' \<and> (\<forall>r \<in> set (ran s'). snd (snd r) = 0)"
  using assms(3,4)
proof (induction ls arbitrary: s k)
  case Nil
  then show ?case
    by (simp add: unlines_def simpsh_loop.simps [of v g env k "[]" s] getcmd_end commands_of_def quiet_def)
next
  case (Cons l ls)
  have u: "unlines (l # ls) = l @ LF # unlines ls" by (simp add: unlines_def)
  have gl: "getcmd (unlines (l # ls)) = Value (Some (l, unlines ls))"
    using Cons.prems(2) unfolding u by (intro getcmd_line) simp
  note step = simpsh_loop.simps [of v g env k "unlines (l # ls)" s]
  show ?case
  proof (cases "quits l")
    case True
    then show ?thesis using gl Cons.prems(1)
      by (simp add: step quits_def commands_of_def quiet_def)
  next
    case False
    show ?thesis
    proof (cases "l = []")
      case True
      then have "simpsh_loop v g env k (unlines (l # ls)) s = simpsh_loop v g env k (unlines ls) s"
        using gl False True by (subst step) (simp add: quits_def)
      then show ?thesis using Cons.IH [of s k] Cons.prems False True by (simp add: commands_of_def)
    next
      case nonempty: False
      obtain s1 where s1: "run_command v g (env k) k l s = (s1, None)" "quiet s1"
        "ran s1 = ran s @ [(l, exec_ok (env k), 0)]"
        using run_command_quiet [OF assms(1,2) Cons.prems(1)] by blast
      then have "simpsh_loop v g env k (unlines (l # ls)) s = simpsh_loop v g env (Suc k) (unlines ls) s1"
        using gl False nonempty by (simp add: step quits_def)
      then show ?thesis using Cons.IH [of s1 "Suc k"] Cons.prems s1 False nonempty by (simp add: commands_of_def)
    qed
  qed
qed

text \<open>A child that is stopped while the shell waits for it.\<close>

definition stopping_env :: "nat \<Rightarrow> command_env" where
  "stopping_env k = \<lparr>fork_ok = True, exec_ok = True, wait_ok = True,
     changes = [(k, if k = 0 then Stopped 20 else Exited 0), (k, Exited 0)]\<rparr>"

text \<open>
  C29: what the shell runs. When the system grants every call and every child terminates, the first two
  versions run exactly the non-empty lines of the input up to the first one that begins with \<open>quit\<close>, in
  order, each alone: the child of one command is gone before the next is started, and none is left at the
  end. The shell then exits with success if it was told to quit and with failure if the input just ended,
  and its buffer is freed. The third version, which also returns from waiting when a child is stopped, can
  start a command while the previous one still exists.
\<close>
theorem simpsh_runs_lines:
  assumes "kind_env env" and "v \<noteq> V3" and "\<forall>l \<in> set ls. good_line l" and "\<not> strneq 6 (argv ! 1) ''--help''"
  shows "(\<exists>s. simpsh_main v argv env True (unlines ls) =
        (s, Exits (if \<exists>l \<in> set ls. quits l then EXIT_SUCCESS else EXIT_FAILURE)) \<and>
      map fst (ran s) = filter (\<lambda>l. l \<noteq> []) (takeWhile (\<lambda>l. \<not> quits l) ls) \<and>
      kids s = [] \<and> \<not> buffer s \<and> (\<forall>r \<in> set (ran s). snd (snd r) = 0)) \<and>
    kind_env stopping_env \<and>
    (\<exists>s. simpsh_main V3 [''simpsh''] stopping_env True (unlines [''cat'', ''ls'', ''quit'']) = (s, Exits EXIT_SUCCESS) \<and>
      ran s = [(''cat'', True, 0), (''ls'', True, 1)] \<and> kids s = [0])"
proof (intro conjI)
  let ?s = "\<lparr>kids = [], ran = [], told = [], buffer = True\<rparr>"
  have "quiet ?s" by (simp add: quiet_def)
  then show "\<exists>s. simpsh_main v argv env True (unlines ls) =
        (s, Exits (if \<exists>l \<in> set ls. quits l then EXIT_SUCCESS else EXIT_FAILURE)) \<and>
      map fst (ran s) = filter (\<lambda>l. l \<noteq> []) (takeWhile (\<lambda>l. \<not> quits l) ls) \<and>
      kids s = [] \<and> \<not> buffer s \<and> (\<forall>r \<in> set (ran s). snd (snd r) = 0)"
    using simpsh_loop_runs [OF assms(1,2) _ assms(3), of ?s "2 \<le> length argv \<and> strneq 2 (argv ! 1) ''-v''" 0] assms(4)
    by (auto simp: simpsh_main_def do_simpsh_def Let_def commands_of_def)
  show "kind_env stopping_env" by (auto simp: kind_env_def stopping_env_def terminated_def)
  have "good_line ''cat''" "good_line ''ls''" "good_line ''quit''" by (simp_all add: good_line_def CMD_MAXLEN_def)
  then have g: "getcmd (unlines [''cat'', ''ls'', ''quit'']) = Value (Some (''cat'', unlines [''ls'', ''quit'']))"
    "getcmd (unlines [''ls'', ''quit'']) = Value (Some (''ls'', unlines [''quit'']))"
    "getcmd (unlines [''quit'']) = Value (Some (''quit'', []))"
    using getcmd_line [of "''cat''" "unlines [''ls'', ''quit'']"] getcmd_line [of "''ls''" "unlines [''quit'']"]
      getcmd_line [of "''quit''" "[]"] by (simp_all add: unlines_def)
  have "wait_child V3 (changes (stopping_env 0)) = Some (0, Stopped 20)"
    "wait_child V3 (changes (stopping_env (Suc 0))) = Some (Suc 0, Exited 0)"
    by (simp_all add: wait_child_def reported_def stopping_env_def)
  then show "\<exists>s. simpsh_main V3 [''simpsh''] stopping_env True (unlines [''cat'', ''ls'', ''quit'']) = (s, Exits EXIT_SUCCESS) \<and>
      ran s = [(''cat'', True, 0), (''ls'', True, 1)] \<and> kids s = [0]"
    using g by (simp add: simpsh_main_def do_simpsh_def Let_def simpsh_loop.simps strneq_def run_command_def
        stopping_env_def terminated_def)
qed

theorem simpsh_runs_lines_witness:
  "\<exists>s. simpsh_main V2 [''simpsh'', ''-v''] (\<lambda>k. \<lparr>fork_ok = True, exec_ok = True, wait_ok = True, changes = [(k, Exited 0)]\<rparr>)
     True (unlines [''date'', [], ''ls'', ''quit'', ''date'']) = (s, Exits EXIT_SUCCESS) \<and>
     map fst (ran s) = [''date'', ''ls'']"
proof -
  let ?ls = "[''date'', [], ''ls'', ''quit'', ''date''] :: string list"
  let ?env = "\<lambda>k. \<lparr>fork_ok = True, exec_ok = True, wait_ok = True, changes = [(k, Exited 0)]\<rparr>"
  have "kind_env ?env" by (simp add: kind_env_def terminated_def)
  moreover have "\<forall>l \<in> set ?ls. good_line l" by (simp add: good_line_def CMD_MAXLEN_def)
  moreover have "\<not> strneq 6 ([''simpsh'', ''-v''] ! 1) ''--help''" by (simp add: strneq_def)
  ultimately show ?thesis
    using simpsh_runs_lines [of ?env V2 ?ls "[''simpsh'', ''-v'']"] by (auto simp: quits_def strneq_def)
qed

text \<open>The second and the third version differ only for children that stop or continue.\<close>

lemma wait_child_same:
  "list_all (\<lambda>(p, st). terminated st) cs \<Longrightarrow> wait_child V2 cs = wait_child V3 cs"
  by (induction cs) (auto simp: wait_child_def reported_def)

lemma simpsh_loop_same:
  assumes "\<And>k. list_all (\<lambda>(p, st). terminated st) (changes (env k))"
  shows "simpsh_loop V2 g env k input s = simpsh_loop V3 g env k input s"
proof -
  have c: "run_command V2 g (env k) k cmd s = run_command V3 g (env k) k cmd s" for k cmd s
    using wait_child_same [OF assms] by (simp add: run_command_def Let_def split: option.split)
  show ?thesis
  proof (induction "length input" arbitrary: k input s rule: less_induct)
    case less
    show ?case
    proof (cases "getcmd input")
      case (Value r)
      then show ?thesis
      proof (cases r)
        case (Some x)
        obtain cmd rest where x: "x = (cmd, rest)" by (cases x)
        have "length rest < length input" using getcmd_shorter Value Some x by blast
        then show ?thesis
          by (simp add: simpsh_loop.simps [of _ _ _ _ input] Value Some x c less split: option.split prod.split)
      qed (simp add: simpsh_loop.simps [of _ _ _ _ input])
    qed (simp_all add: simpsh_loop.simps [of _ _ _ _ input])
  qed
qed

lemma v2_v3_same:
  assumes "\<And>k. list_all (\<lambda>(p, st). terminated st) (changes (env k))"
  shows "do_simpsh_v2 g env calloc_ok input = do_simpsh_v3 g env calloc_ok input"
    and "simpsh_v2_main argv env calloc_ok input = simpsh_v3_main argv env calloc_ok input"
  using simpsh_loop_same [OF assms]
  by (simp_all add: do_simpsh_v2_def do_simpsh_v3_def simpsh_v2_main_def simpsh_v3_main_def simpsh_main_def do_simpsh_def Let_def)

end
