(* ===== verification/Shared_Buffers.thy ===== *)
theory Shared_Buffers
  imports Critical_Section Common "HOL-Library.Multiset"
begin

text \<open>
  The three programs of chapter 16 that copy blocks with several threads: \<open>mt_iobuf_mtx.c\<close>, with one
  buffer and a mutex, \<open>mt_iobuf_rfct.c\<close>, with a buffer for each thread, and \<open>mt_iobuf_tls.c\<close>, with a
  thread-local buffer.
\<close>

section \<open>The threads\<close>

definition NREAD :: nat where "NREAD = 512"
definition NTHREADS :: nat where "NTHREADS = 2"

text \<open>
  \<open>taken\<close> is the number of blocks read so far, \<open>gbuf\<close> the shared buffer and \<open>gfreed\<close> whether it has been
  freed, \<open>iobuf\<close>, \<open>fnr\<close> and \<open>failed\<close> the buffer, the result of the last \<open>fread\<close> and the failure of the last
  \<open>fwrite\<close> of each thread, \<open>tries\<close> the number of calls of \<open>fwrite\<close>. \<open>over\<close> says how the process has ended,
  if it has; then nothing more happens.
\<close>

record iostate =
  taken :: nat
  outfile :: "string list"
  gbuf :: string
  gfreed :: bool
  iobuf :: "nat \<Rightarrow> string"
  fnr :: "nat \<Rightarrow> nat"
  failed :: "nat \<Rightarrow> bool"
  tries :: nat
  over :: "unit outcome option"

definition still :: "(iostate \<Rightarrow> iostate) \<Rightarrow> iostate \<Rightarrow> iostate" where
  "still f s = (if over s = None then f s else s)"

text \<open>
  \<open>rd k\<close> is the \<open>k\<close>-th block that \<open>fread\<close> gets, empty when it fails; it overwrites the front of the buffer.
  \<open>wr k\<close> says whether the \<open>k\<close>-th \<open>fwrite\<close> succeeds; when it does not, \<open>ferror\<close> is set. Both calls lock
  their stream, so they are atomic.
\<close>

definition overwrite :: "string \<Rightarrow> string \<Rightarrow> string" where
  "overwrite b buf = b @ drop (length b) buf"

definition read_shared :: "(nat \<Rightarrow> string) \<Rightarrow> nat \<Rightarrow> iostate \<Rightarrow> iostate" where
  "read_shared rd t = still (\<lambda>s.
     if gfreed s then s\<lparr>over := Some (Undefined Dangling)\<rparr>
     else s\<lparr>gbuf := overwrite (rd (taken s)) (gbuf s), fnr := (fnr s)(t := length (rd (taken s))), taken := Suc (taken s)\<rparr>)"

definition check_read :: "nat \<Rightarrow> iostate \<Rightarrow> iostate" where
  "check_read t = still (\<lambda>s. if fnr s t = 0 then s\<lparr>over := Some FATAL\<rparr> else s)"

definition write_shared :: "(nat \<Rightarrow> bool) \<Rightarrow> nat \<Rightarrow> iostate \<Rightarrow> iostate" where
  "write_shared wr t = still (\<lambda>s.
     if gfreed s then s\<lparr>over := Some (Undefined Dangling)\<rparr>
     else if wr (tries s) then s\<lparr>outfile := outfile s @ [take (fnr s t) (gbuf s)], tries := Suc (tries s)\<rparr>
     else s\<lparr>gfreed := True, failed := (failed s)(t := True), tries := Suc (tries s)\<rparr>)"

definition check_write :: "nat \<Rightarrow> iostate \<Rightarrow> iostate" where
  "check_write t = still (\<lambda>s. if failed s t then s\<lparr>over := Some FATAL\<rparr> else s)"

text \<open>One round of \<open>testit_mt_mtx\<close>: the mutex is held for each call, but not from the read to the write.\<close>

definition mtx_round :: "(nat \<Rightarrow> string) \<Rightarrow> (nat \<Rightarrow> bool) \<Rightarrow> nat \<Rightarrow> iostate act list" where
  "mtx_round rd wr t =
     [Lock, Do (read_shared rd t), Unlock, Do (check_read t),
      Lock, Do (write_shared wr t), Unlock, Do (check_write t)]"

definition testit_mt_mtx :: "(nat \<Rightarrow> string) \<Rightarrow> (nat \<Rightarrow> bool) \<Rightarrow> nat \<Rightarrow> nat \<Rightarrow> iostate act list" where
  "testit_mt_mtx rd wr numio t = concat (replicate numio (mtx_round rd wr t))"

definition read_own :: "(nat \<Rightarrow> string) \<Rightarrow> nat \<Rightarrow> iostate \<Rightarrow> iostate" where
  "read_own rd t = still (\<lambda>s.
     s\<lparr>iobuf := (iobuf s)(t := overwrite (rd (taken s)) (iobuf s t)),
       fnr := (fnr s)(t := length (rd (taken s))), taken := Suc (taken s)\<rparr>)"

definition write_own :: "(nat \<Rightarrow> bool) \<Rightarrow> nat \<Rightarrow> iostate \<Rightarrow> iostate" where
  "write_own wr t = still (\<lambda>s.
     if wr (tries s) then s\<lparr>outfile := outfile s @ [take (fnr s t) (iobuf s t)], tries := Suc (tries s)\<rparr>
     else s\<lparr>over := Some FATAL\<rparr>)"

text \<open>One round of \<open>testit_mt_refactored\<close> and \<open>testit_mt_tls\<close>.\<close>

definition own_round :: "(nat \<Rightarrow> string) \<Rightarrow> (nat \<Rightarrow> bool) \<Rightarrow> nat \<Rightarrow> iostate act list" where
  "own_round rd wr t = [Do (read_own rd t), Do (check_read t), Do (write_own wr t)]"

definition testit_mt_refactored :: "(nat \<Rightarrow> string) \<Rightarrow> (nat \<Rightarrow> bool) \<Rightarrow> nat \<Rightarrow> nat \<Rightarrow> iostate act list" where
  "testit_mt_refactored rd wr numio t = concat (replicate numio (own_round rd wr t))"

definition testit_mt_tls :: "(nat \<Rightarrow> string) \<Rightarrow> (nat \<Rightarrow> bool) \<Rightarrow> nat \<Rightarrow> nat \<Rightarrow> iostate act list" where
  "testit_mt_tls rd wr numio t = concat (replicate numio (own_round rd wr t))"

text \<open>
  \<open>main\<close>: the arguments, the files and the buffers, then two threads. Each thread computes
  \<open>NREAD * numio\<close> in \<open>int\<close> first. \<open>b0\<close> is what the memory of the buffers holds at first.
\<close>

definition io_start :: "string \<Rightarrow> iostate" where
  "io_start b0 = \<lparr>taken = 0, outfile = [], gbuf = b0, gfreed = False, iobuf = (\<lambda>t. b0), fnr = (\<lambda>t. 0),
     failed = (\<lambda>t. False), tries = 0, over = None\<rparr>"

definition io_main ::
  "(nat \<Rightarrow> nat \<Rightarrow> iostate act list) \<Rightarrow> string list \<Rightarrow> bool \<Rightarrow> bool \<Rightarrow> bool \<Rightarrow> (nat \<Rightarrow> bool) \<Rightarrow> (nat \<Rightarrow> int) \<Rightarrow> string \<Rightarrow>
   iostate machine outcome" where
  "io_main testit argv gbuf_ok wfp_ok rfp_ok calloc_ok create b0 =
     (if length argv \<noteq> 2 then Exit EXIT_FAILURE
      else
        let numio = atoi (argv ! 1) in
        if numio \<le> 0 then Exit EXIT_FAILURE
        else if \<not> gbuf_ok then FATAL
        else if \<not> wfp_ok then FATAL
        else if \<not> rfp_ok then FATAL
        else if \<exists>i < NTHREADS. \<not> calloc_ok i \<or> create i \<noteq> 0 then FATAL
        else andthen (c_int (int NREAD * numio)) (\<lambda>_.
          Value \<lparr>holder = None, progs = map (testit (nat numio)) [0..<NTHREADS], shared = io_start b0\<rparr>))"

definition mtx_main where
  "mtx_main rd wr argv gbuf_ok wfp_ok rfp_ok calloc_ok create b0 =
     io_main (testit_mt_mtx rd wr) argv gbuf_ok wfp_ok rfp_ok calloc_ok create b0"

text \<open>The other two have no buffer to allocate in \<open>main\<close>; each thread's own allocation is taken to succeed.\<close>

definition rfct_main where
  "rfct_main rd wr argv wfp_ok rfp_ok calloc_ok create b0 =
     io_main (testit_mt_refactored rd wr) argv True wfp_ok rfp_ok calloc_ok create b0"

definition tls_main where
  "tls_main rd wr argv wfp_ok rfp_ok calloc_ok create b0 =
     io_main (testit_mt_tls rd wr) argv True wfp_ok rfp_ok calloc_ok create b0"

lemmas io_mains = mtx_main_def rfct_main_def tls_main_def io_main_def

section \<open>Buffers of their own\<close>

lemma sum_fun_upd:
  fixes g :: "nat \<Rightarrow> 'a :: comm_monoid_add"
  assumes "i < n"
  shows "(\<Sum>j<n. (g(i := x)) j) + g i = (\<Sum>j<n. g j) + x"
proof -
  have "(\<Sum>j<n. (g(i := x)) j) = x + (\<Sum>j \<in> {..<n} - {i}. g j)"
    using assms by (simp add: sum.remove [of _ i])
  moreover have "(\<Sum>j<n. g j) = g i + (\<Sum>j \<in> {..<n} - {i}. g j)"
    using assms by (simp add: sum.remove [of _ i])
  ultimately show ?thesis by (simp add: ac_simps)
qed

abbreviation own_prog :: "(nat \<Rightarrow> string) \<Rightarrow> (nat \<Rightarrow> bool) \<Rightarrow> nat \<Rightarrow> nat \<Rightarrow> iostate act list" where
  "own_prog rd wr m t \<equiv> concat (replicate m (own_round rd wr t))"

lemma own_prog_length: "length (own_prog rd wr m t) = 3 * m"
  by (induction m) (simp_all add: own_round_def)

lemma own_prog_nth:
  "k < 3 * m \<Longrightarrow> own_prog rd wr m t ! k =
     (if k mod 3 = 0 then Do (read_own rd t) else if k mod 3 = 1 then Do (check_read t) else Do (write_own wr t))"
proof (induction m arbitrary: k)
  case (Suc m)
  show ?case
  proof (cases "k < 3")
    case True
    then have "k = 0 \<or> k = 1 \<or> k = 2" by linarith
    then show ?thesis by (auto simp: own_round_def)
  next
    case False
    then obtain k' where k': "k = k' + 3" by (metis add.commute le_Suc_ex not_less)
    then have "own_prog rd wr (Suc m) t ! k = own_prog rd wr m t ! k'"
      by (simp add: own_round_def nth_append)
    then show ?thesis using Suc k' by simp
  qed
qed simp

text \<open>How many blocks a thread has read when it has done \<open>k\<close> of its actions.\<close>

definition rdone :: "nat \<Rightarrow> nat" where
  "rdone k = (k + 2) div 3"

lemma rdone_Suc: "rdone (Suc k) = (if k mod 3 = 0 then Suc (rdone k) else rdone k)"
  unfolding rdone_def by (cases "k mod 3 = 0"; simp; presburger)

text \<open>The block that thread \<open>t\<close> has read and not yet written, when it has done \<open>ks t\<close> of its actions.\<close>

definition held :: "(nat \<Rightarrow> nat) \<Rightarrow> iostate \<Rightarrow> nat \<Rightarrow> string multiset" where
  "held ks s t = (if ks t mod 3 = 0 then {#} else {#take (fnr s t) (iobuf s t)#})"

definition own_state :: "(nat \<Rightarrow> string) \<Rightarrow> nat \<Rightarrow> (nat \<Rightarrow> nat) \<Rightarrow> iostate \<Rightarrow> bool" where
  "own_state rd n ks s \<longleftrightarrow>
     over s = None \<and> taken s = (\<Sum>t<n. rdone (ks t)) \<and>
     mset (outfile s) + (\<Sum>t<n. held ks s t) = mset (map rd [0..<taken s]) \<and>
     (\<forall>t<n. ks t mod 3 \<noteq> 0 \<longrightarrow> 0 < fnr s t)"

definition own_inv :: "(nat \<Rightarrow> string) \<Rightarrow> (nat \<Rightarrow> bool) \<Rightarrow> nat \<Rightarrow> nat \<Rightarrow> (nat \<Rightarrow> nat) \<Rightarrow> iostate machine \<Rightarrow> bool" where
  "own_inv rd wr n m ks M \<longleftrightarrow>
     length (progs M) = n \<and> (\<forall>t<n. ks t \<le> 3 * m \<and> progs M ! t = drop (ks t) (own_prog rd wr m t)) \<and>
     own_state rd n ks (shared M)"

lemma own_state_read:
  assumes "own_state rd n ks s" and "t < n" and "ks t mod 3 = 0" and "\<forall>k. rd k \<noteq> []"
  shows "own_state rd n (ks(t := Suc (ks t))) (read_own rd t s)"
proof -
  let ?ks = "ks(t := Suc (ks t))" and ?s = "read_own rd t s"
  have o: "over s = None" using assms(1) by (simp add: own_state_def)
  have "(\<lambda>j. rdone (?ks j)) = (\<lambda>j. rdone (ks j))(t := Suc (rdone (ks t)))"
    using assms(3) by (intro ext) (simp add: rdone_Suc)
  then have sum1: "(\<Sum>j<n. rdone (?ks j)) = Suc (taken s)"
    using sum_fun_upd [OF assms(2), of "\<lambda>j. rdone (ks j)" "Suc (rdone (ks t))"] assms(1)
    unfolding own_state_def by (metis add_Suc_right add_right_cancel add_Suc)
  have "Suc (ks t) mod 3 \<noteq> 0" using assms(3) by presburger
  then have "held ?ks ?s = (held ks s)(t := {#rd (taken s)#})"
    using o by (intro ext) (simp add: held_def read_own_def still_def overwrite_def)
  then have sum2: "(\<Sum>j<n. held ?ks ?s j) = (\<Sum>j<n. held ks s j) + {#rd (taken s)#}"
    using sum_fun_upd [OF assms(2), of "held ks s" "{#rd (taken s)#}"] assms(3) by (simp add: held_def [of ks s t])
  show ?thesis
    using assms o sum1 sum2 by (auto simp: own_state_def read_own_def still_def)
qed

lemma own_state_check:
  assumes "own_state rd n ks s" and "t < n" and "ks t mod 3 = 1"
  shows "own_state rd n (ks(t := Suc (ks t))) (check_read t s)"
proof -
  let ?ks = "ks(t := Suc (ks t))"
  have same: "check_read t s = s"
    using assms by (auto simp: check_read_def still_def own_state_def)
  have m: "Suc (ks t) mod 3 = 2" using assms(3) by presburger
  have a: "rdone (?ks j) = rdone (ks j)" for j using assms(3) by (simp add: rdone_Suc)
  have b: "held ?ks s j = held ks s j" for j using assms(3) m by (simp add: held_def)
  show ?thesis
    using assms m unfolding same own_state_def a b by auto
qed

lemma own_state_write:
  assumes "own_state rd n ks s" and "t < n" and "ks t mod 3 = 2" and "\<forall>k. wr k"
  shows "own_state rd n (ks(t := Suc (ks t))) (write_own wr t s)"
proof -
  let ?ks = "ks(t := Suc (ks t))" and ?s = "write_own wr t s" and ?b = "take (fnr s t) (iobuf s t)"
  have o: "over s = None" using assms(1) by (simp add: own_state_def)
  have m: "Suc (ks t) mod 3 = 0" using assms(3) by presburger
  have a: "rdone (?ks j) = rdone (ks j)" for j using assms(3) by (simp add: rdone_Suc)
  have "held ?ks ?s = (held ks s)(t := {#})"
    using o m assms(4) by (intro ext) (simp add: held_def write_own_def still_def)
  then have "(\<Sum>j<n. held ks s j) = {#?b#} + (\<Sum>j<n. held ?ks ?s j)"
    using sum_fun_upd [OF assms(2), of "held ks s" "{#}"] assms(3) by (simp add: held_def [of ks s t])
  moreover have "outfile ?s = outfile s @ [?b]" "taken ?s = taken s" "over ?s = None" "fnr ?s = fnr s"
    using o assms(4) by (simp_all add: write_own_def still_def)
  ultimately show ?thesis
    using assms(1) m unfolding own_state_def a by auto
qed

lemma own_inv_step:
  assumes "own_inv rd wr n m ks M" and "\<forall>k. rd k \<noteq> []" and "\<forall>k. wr k" and "t < n" and "ks t < 3 * m"
  shows "own_inv rd wr n m (ks(t := Suc (ks t))) (turn M t)"
proof -
  let ?k = "ks t" and ?p = "own_prog rd wr m t"
  have p: "progs M ! t = ?p ! ?k # drop (Suc ?k) ?p" "t < length (progs M)"
    using assms(4,5) assms(1) own_prog_length [of m rd wr t] by (auto simp: own_inv_def Cons_nth_drop_Suc)
  obtain f where f: "?p ! ?k = Do f" "own_state rd n (ks(t := Suc ?k)) (f (shared M))"
  proof -
    have st: "own_state rd n ks (shared M)" using assms(1) by (simp add: own_inv_def)
    consider "?k mod 3 = 0" | "?k mod 3 = 1" | "?k mod 3 = 2" by linarith
    then show thesis
    proof cases
      case 1
      then show thesis using that own_prog_nth [of ?k m rd wr t] own_state_read [OF st _ _ assms(2)] assms(4,5) by simp
    next
      case 2
      then show thesis using that own_prog_nth [of ?k m rd wr t] own_state_check [OF st] assms(4,5) by simp
    next
      case 3
      then show thesis using that own_prog_nth [of ?k m rd wr t] own_state_write [OF st _ _ assms(3)] assms(4,5) by simp
    qed
  qed
  have "turn M t = (advance t (drop (Suc ?k) ?p) M)\<lparr>shared := f (shared M)\<rparr>"
    using p f(1) by (simp add: turn_def)
  then show ?thesis
    using assms(1) assms(4,5) f(2) by (auto simp: own_inv_def advance_def nth_list_update)
qed

lemma own_inv_turn:
  assumes "own_inv rd wr n m ks M" and "\<forall>k. rd k \<noteq> []" and "\<forall>k. wr k"
  shows "\<exists>ks'. own_inv rd wr n m ks' (turn M t)"
proof (cases "t < n \<and> ks t < 3 * m")
  case False
  then have "turn M t = M"
    using assms(1) own_prog_length [of m rd wr t] by (auto simp: own_inv_def turn_def not_less)
  then show ?thesis using assms(1) by metis
next
  case True
  then show ?thesis using own_inv_step [OF assms] by blast
qed

text \<open>Some schedule finishes.\<close>

lemma own_inv_finishes:
  assumes "own_inv rd wr n m ks M" and "\<forall>k. rd k \<noteq> []" and "\<forall>k. wr k"
  shows "\<exists>ts. finished (run_turns M ts)"
  using assms(1)
proof (induction "\<Sum>t<n. 3 * m - ks t" arbitrary: M ks rule: less_induct)
  case less
  show ?case
  proof (cases "\<forall>t<n. ks t = 3 * m")
    case True
    then have "finished M"
      using less.prems own_prog_length [of m rd wr] by (auto simp: own_inv_def finished_def list_all_length)
    then show ?thesis by (intro exI [of _ "[]"]) (simp add: run_turns_def)
  next
    case False
    then obtain t where t: "t < n" "ks t < 3 * m" using less.prems by (force simp: own_inv_def)
    let ?ks = "ks(t := Suc (ks t))"
    have inv: "own_inv rd wr n m ?ks (turn M t)" using own_inv_step [OF less.prems assms(2,3) t] .
    have "(\<Sum>j<n. 3 * m - ?ks j) < (\<Sum>j<n. 3 * m - ks j)"
      using t by (intro sum_strict_mono_ex1) auto
    then obtain ts where "finished (run_turns (turn M t) ts)" using less.hyps inv by blast
    then show ?thesis by (intro exI [of _ "t # ts"]) (simp add: run_turns_def)
  qed
qed

lemma own_inv_run:
  assumes "own_inv rd wr n m ks M" and "\<forall>k. rd k \<noteq> []" and "\<forall>k. wr k"
  shows "\<exists>ks'. own_inv rd wr n m ks' (run_turns M ts)"
  using assms(1)
proof (induction ts arbitrary: M ks)
  case (Cons t ts)
  then obtain ks' where "own_inv rd wr n m ks' (turn M t)"
    using own_inv_turn [OF _ assms(2,3)] by blast
  then show ?case using Cons.IH by (auto simp: run_turns_def)
qed (auto simp: run_turns_def)

lemma own_inv_start:
  "own_inv rd wr n m (\<lambda>t. 0) \<lparr>holder = None, progs = map (own_prog rd wr m) [0..<n], shared = io_start b0\<rparr>"
  by (simp add: own_inv_def own_state_def io_start_def rdone_def held_def)

lemma own_inv_finished:
  assumes "own_inv rd wr n m ks M" and "finished M"
  shows "mset (outfile (shared M)) = mset (map rd [0..<n * m])"
proof -
  have k: "ks t = 3 * m" if "t < n" for t
  proof -
    have "progs M ! t = []" using assms that by (auto simp: own_inv_def finished_def list_all_length)
    then show ?thesis using assms(1) that own_prog_length [of m rd wr t] by (auto simp: own_inv_def)
  qed
  then have h: "(\<Sum>t<n. held ks (shared M) t) = {#}" by (simp add: held_def)
  have "rdone (3 * m) = m" by (simp add: rdone_def)
  then have "taken (shared M) = n * m" using assms(1) k by (simp add: own_inv_def own_state_def)
  then show ?thesis using assms(1) h by (simp add: own_inv_def own_state_def)
qed

section \<open>One buffer and a mutex\<close>

text \<open>Both threads read before either writes.\<close>

definition overlap :: "nat list" where
  "overlap = replicate 4 0 @ replicate 4 1 @ replicate 4 0 @ replicate 4 1"

lemma mtx_overlap:
  assumes "length (rd 0) = length (rd 1)" and "rd 0 \<noteq> []" and "\<forall>k. wr k"
  shows "finished (run_turns \<lparr>holder = None, progs = map (testit_mt_mtx rd wr 1) [0..<2], shared = io_start b0\<rparr> overlap) \<and>
    outfile (shared (run_turns \<lparr>holder = None, progs = map (testit_mt_mtx rd wr 1) [0..<2], shared = io_start b0\<rparr> overlap)) =
      [rd 1, rd 1]"
proof -
  have "rd (Suc 0) \<noteq> []" using assms(1,2) by (metis One_nat_def length_0_conv)
  then show ?thesis
    using assms
    by (simp add: overlap_def run_turns_def testit_mt_mtx_def mtx_round_def turn_def advance_def io_start_def
        read_shared_def write_shared_def check_read_def check_write_def still_def overwrite_def finished_def
        numeral_eq_Suc upt_rec)
qed

text \<open>When a write fails, the buffer is freed while the other thread goes on using it.\<close>

lemma mtx_use_after_free:
  assumes "rd 0 \<noteq> []" and "\<not> wr 0"
  shows "over (shared (run_turns \<lparr>holder = None, progs = map (testit_mt_mtx rd wr 1) [0..<2], shared = io_start b0\<rparr>
      ([0, 0, 0, 0, 0, 0, 0] @ [1, 1]))) = Some (Undefined Dangling)"
  using assms
  by (simp add: run_turns_def testit_mt_mtx_def mtx_round_def turn_def advance_def io_start_def
      read_shared_def write_shared_def check_read_def check_write_def still_def numeral_eq_Suc upt_rec)

text \<open>
  C30: which of the programs is thread safe. With a buffer for each thread, or a thread-local one, as long
  as reading and writing succeed, every schedule of the two threads keeps the process going, and when
  both have finished, the file has each of the blocks that were read exactly once. With one buffer and
  the mutex, which is released between the read and the write, there is a schedule that writes the second
  block twice and loses the first. A number of rounds of 4194304 or more overflows an \<open>int\<close> in all of them.
\<close>
theorem iobuf_thread_safety:
  assumes "\<forall>k. rd k \<noteq> [] \<and> length (rd k) = NREAD" and "\<forall>k. wr k"
    and "rfct_main rd wr argv True True c cr b0 = Value M"
  shows "tls_main rd wr argv True True c cr b0 = Value M \<and>
    over (shared (run_turns M ts)) = None \<and>
    (finished (run_turns M ts) \<longrightarrow>
       mset (outfile (shared (run_turns M ts))) = mset (map rd [0..<NTHREADS * nat (atoi (argv ! 1))])) \<and>
    (\<exists>ts'. finished (run_turns M ts')) \<and>
    atoi (argv ! 1) < 4194304 \<and>
    (atoi (argv ! 1) = 1 \<longrightarrow>
       (\<exists>M' ts'. mtx_main rd wr argv True True True c cr b0 = Value M' \<and>
          finished (run_turns M' ts') \<and> outfile (shared (run_turns M' ts')) = [rd 1, rd 1]))"
proof -
  have ne: "\<forall>k. rd k \<noteq> []" using assms(1) by blast
  define m where "m = nat (atoi (argv ! 1))"
  have M: "M = \<lparr>holder = None, progs = map (own_prog rd wr m) [0..<NTHREADS], shared = io_start b0\<rparr>"
    and main: "length argv = 2" "0 < atoi (argv ! 1)" "\<not> (\<exists>i < NTHREADS. \<not> c i \<or> cr i \<noteq> 0)"
      "c_int (int NREAD * atoi (argv ! 1)) = Value (int NREAD * atoi (argv ! 1))"
    using assms(3)
    by (auto simp: io_mains Let_def testit_mt_refactored_def m_def andthen_eq_Value c_int_eq_Value
        split: if_splits)
  have inv: "own_inv rd wr NTHREADS m (\<lambda>t. 0) M" unfolding M by (rule own_inv_start)
  then obtain ks where ks: "own_inv rd wr NTHREADS m ks (run_turns M ts)"
    using own_inv_run [OF _ ne assms(2)] by blast
  have "testit_mt_tls = testit_mt_refactored"
    by (intro ext) (simp add: testit_mt_tls_def testit_mt_refactored_def)
  moreover have "over (shared (run_turns M ts)) = None" using ks by (simp add: own_inv_def own_state_def)
  moreover have "atoi (argv ! 1) < 4194304"
    using main(4) by (simp add: c_int_eq_Value int_range_defs NREAD_def)
  moreover have "\<exists>M' ts'. mtx_main rd wr argv True True True c cr b0 = Value M' \<and>
      finished (run_turns M' ts') \<and> outfile (shared (run_turns M' ts')) = [rd 1, rd 1]"
    if "atoi (argv ! 1) = 1"
  proof -
    have "mtx_main rd wr argv True True True c cr b0 =
        Value \<lparr>holder = None, progs = map (testit_mt_mtx rd wr 1) [0..<2], shared = io_start b0\<rparr>"
      using main that by (simp add: io_mains NTHREADS_def)
    then show ?thesis using mtx_overlap [of rd wr b0] assms(1,2) by auto
  qed
  ultimately show ?thesis
    using assms(3) own_inv_finished [OF ks] own_inv_finishes [OF inv ne assms(2)]
    by (simp add: m_def rfct_main_def tls_main_def)
qed

theorem iobuf_thread_safety_witness:
  "\<exists>M ts. rfct_main (\<lambda>k. replicate NREAD (CHR ''r'')) (\<lambda>k. True) [''iobuf'', ''1'']
     True True (\<lambda>i. True) (\<lambda>i. 0) [] = Value M \<and> finished (run_turns M ts)"
proof -
  have a: "atoi ''1'' = 1" by code_simp
  obtain M where M: "rfct_main (\<lambda>k. replicate NREAD (CHR ''r'')) (\<lambda>k. True) [''iobuf'', ''1'']
     True True (\<lambda>i. True) (\<lambda>i. 0) [] = Value M"
    using a by (simp add: io_mains c_int_def int_range_defs NREAD_def)
  have "\<forall>k :: nat. replicate NREAD (CHR ''r'') \<noteq> [] \<and> length (replicate NREAD (CHR ''r'')) = NREAD"
    by (simp add: NREAD_def)
  from iobuf_thread_safety [OF this _ M] M show ?thesis by simp
qed

end
