(* ===== verification/Shared_Memory.thy ===== *)
theory Shared_Memory
  imports Critical_Section Advanced_IO
begin

text \<open>
  \<open>booksrc/ch15/pshared_mutex_demo.c\<close>: a thread and a child process write into one buffer in shared
  memory under a mutex that is shared between processes.
\<close>

section \<open>The program\<close>

definition GBUFSIZE :: nat where "GBUFSIZE = 128"
definition NUM_PSMUTEX :: nat where "NUM_PSMUTEX = 1"

text \<open>What the worker thread of the parent \<open>p\<close> and what the child \<open>c\<close> do with the lock held.\<close>

definition psworker :: "int \<Rightarrow> (string \<Rightarrow> string) list" where
  "psworker p =
     [overlay 25 (replicate 5 (CHR ''t'')),
      overlay 31 (snprintf 32 (''thread '' @ show_int p @ '' here!'' @ [LF]) @ [CHR 0x00])]"

definition pschild :: "int \<Rightarrow> (string \<Rightarrow> string) list" where
  "pschild c =
     [overlay 0 (replicate 5 (CHR ''c'')),
      overlay 6 (snprintf 32 (''child '' @ show_int c @ '' here!'' @ [LF]) @ [CHR 0x00])]"

text \<open>A line of the display of the buffer: offset, sixteen bytes in hexadecimal, the same as text.\<close>

definition print_line :: "string \<Rightarrow> nat \<Rightarrow> nat \<Rightarrow> string" where
  "print_line buf start numbytes =
     (let bs = take numbytes (drop start buf); n = show_nat start in
      replicate (8 - length n) (CHR ''0'') @ n @ ''  '' @
      concat (map (\<lambda>c. hex2 (of_char c) @ '' '') bs) @ replicate 10 (CHR '' '') @
      map (\<lambda>c. printable (of_char c)) bs @ [LF])"

definition showbuf :: "string \<Rightarrow> string list" where
  "showbuf buf = map (\<lambda>i. print_line buf (i * 16) 16) [0..<GBUFSIZE div 16]"

text \<open>
  \<open>shmem_setup\<close> on what its calls return: the first \<open>shmget\<close>, the second one when that fails, \<open>shmat\<close>
  (\<open>None\<close> when it fails).
\<close>

definition shmem_setup :: "int \<Rightarrow> int \<Rightarrow> nat option \<Rightarrow> (int \<times> nat) outcome" where
  "shmem_setup get1 get2 attach =
     (let shmid = (if get1 < 0 then get2 else get1) in
      if shmid < 0 then FATAL
      else case attach of None \<Rightarrow> FATAL | Some a \<Rightarrow> Value (shmid, a))"

definition init_mutex :: "int \<Rightarrow> int \<Rightarrow> int \<Rightarrow> unit outcome" where
  "init_mutex attr_init setpshared mutex_init =
     (if attr_init \<noteq> 0 then FATAL
      else if setpshared \<noteq> 0 then FATAL
      else if mutex_init \<noteq> 0 then FATAL
      else Value ())"

text \<open>
  The first segment has room for the mutex (40 bytes), 32 bytes of padding and the variable for
  \<open>pthread_once\<close> (4 bytes). The pointer to that variable is computed in units of the variable.
\<close>

definition segment_size :: nat where "segment_size = NUM_PSMUTEX * 40 + 32 + 4"

definition once_offset :: nat where "once_offset = 4 * (NUM_PSMUTEX * 40 + 32)"

text \<open>What the calls of \<open>main\<close> return; \<open>p\<close> is the process, \<open>fork\<close> is -1 or the child.\<close>

record pscalls =
  seg1 :: "int \<times> int \<times> nat option"
  seg2 :: "int \<times> int \<times> nat option"
  once :: int
  mutex_calls :: "int \<times> int \<times> int"
  attr :: int
  thread_create :: int
  forked :: int
  child_once :: int
  rmid1 :: int
  rmid2 :: int

definition setup_seg :: "int \<times> int \<times> nat option \<Rightarrow> (int \<times> nat) outcome" where
  "setup_seg s = (case s of (a, b, c) \<Rightarrow> shmem_setup a b c)"

text \<open>
  \<open>main\<close> up to the point where the thread and the child run, as a machine with both. A segment attached
  at address 0 is taken for a failure. A child whose \<open>pthread_once\<close> fails ends without writing.
\<close>

definition ps_start :: "int \<Rightarrow> pscalls \<Rightarrow> string machine outcome" where
  "ps_start p c =
     andthen (setup_seg (seg1 c)) (\<lambda>(id1, shmaddr).
     if shmaddr = 0 then FATAL else
     andthen (setup_seg (seg2 c)) (\<lambda>(id2, gshmbuf).
     if gshmbuf = 0 then FATAL else
     andthen (case mutex_calls c of (a, b, m) \<Rightarrow> init_mutex a b m) (\<lambda>_.
     if once c \<noteq> 0 then FATAL
     else if attr c \<noteq> 0 then FATAL
     else if thread_create c \<noteq> 0 then FATAL
     else if forked c = -1 then FATAL
     else Value (start_threads protected_section
       (psworker p # (if child_once c \<noteq> 0 then [] else [pschild (forked c)]))
       (replicate GBUFSIZE (CHR 0x00))))))"

text \<open>What follows when both have ended: the display of the buffer and the removal of the segments.\<close>

definition ps_end :: "pscalls \<Rightarrow> string \<Rightarrow> string list \<times> unit outcome" where
  "ps_end c buf =
     (showbuf buf, if rmid1 c < 0 then FATAL else if rmid2 c < 0 then FATAL else Value ())"

section \<open>The result does not depend on the order\<close>

definition window :: "nat \<Rightarrow> nat \<Rightarrow> string \<Rightarrow> string" where
  "window j n b = take n (drop j b)"

lemma length_overlay [simp]: "i + length s \<le> length b \<Longrightarrow> length (overlay i s b) = length b"
  by (simp add: overlay_def)

lemma window_same: "i + length s \<le> length b \<Longrightarrow> n = length s \<Longrightarrow> window i n (overlay i s b) = s"
  by (simp add: window_def overlay_def)

lemma window_left: "j + n \<le> i \<Longrightarrow> i + length s \<le> length b \<Longrightarrow> window j n (overlay i s b) = window j n b"
  by (auto simp: window_def overlay_def min_def drop_take)

lemma window_right: "i + length s \<le> j \<Longrightarrow> i + length s \<le> length b \<Longrightarrow> window j n (overlay i s b) = window j n b"
  by (simp add: window_def overlay_def)

definition child_text :: "int \<Rightarrow> string" where
  "child_text c = ''child '' @ show_int c @ '' here!'' @ [LF]"

definition thread_text :: "int \<Rightarrow> string" where
  "thread_text p = ''thread '' @ show_int p @ '' here!'' @ [LF]"

text \<open>Both signatures and both messages, with their null bytes, are in the buffer.\<close>

definition intact :: "int \<Rightarrow> int \<Rightarrow> string \<Rightarrow> bool" where
  "intact p c b \<longleftrightarrow>
     length b = GBUFSIZE \<and>
     window 0 5 b = replicate 5 (CHR ''c'') \<and>
     window 6 (length (child_text c) + 1) b = child_text c @ [CHR 0x00] \<and>
     window 25 5 b = replicate 5 (CHR ''t'') \<and>
     window 31 (length (thread_text p) + 1) b = thread_text p @ [CHR 0x00]"

text \<open>A process id with at most \<open>n\<close> digits.\<close>

definition short_pid :: "nat \<Rightarrow> int \<Rightarrow> bool" where
  "short_pid n p \<longleftrightarrow> length (show_int p) \<le> n"

lemma texts_fit:
  "short_pid 5 c \<Longrightarrow> length (child_text c) \<le> 18" "short_pid 7 p \<Longrightarrow> length (thread_text p) \<le> 21"
  by (simp_all add: child_text_def thread_text_def short_pid_def)

lemma psworker_short:
  assumes "short_pid 7 p"
  shows "psworker p = [overlay 25 (replicate 5 (CHR ''t'')), overlay 31 (thread_text p @ [CHR 0x00])]"
proof -
  have "snprintf 32 (thread_text p) = thread_text p" using texts_fit(2) [OF assms] by (simp add: snprintf_def)
  then show ?thesis by (simp only: psworker_def thread_text_def)
qed

lemma pschild_short:
  assumes "short_pid 5 c"
  shows "pschild c = [overlay 0 (replicate 5 (CHR ''c'')), overlay 6 (child_text c @ [CHR 0x00])]"
proof -
  have "snprintf 32 (child_text c) = child_text c" using texts_fit(1) [OF assms] by (simp add: snprintf_def)
  then show ?thesis by (simp only: pschild_def child_text_def)
qed

lemma intact_serial:
  assumes "short_pid 7 p" and "short_pid 5 c" and "order = [0, 1] \<or> order = [1, 0]"
  shows "intact p c (serial [psworker p, pschild c] (replicate GBUFSIZE (CHR 0x00)) order)"
proof -
  note t = texts_fit(2) [OF assms(1)] and u = texts_fit(1) [OF assms(2)]
  show ?thesis
    using assms(3) t u
    by (auto simp: serial_def apply_all_def psworker_short [OF assms(1)] pschild_short [OF assms(2)] intact_def
        GBUFSIZE_def window_same window_left window_right simp del: One_nat_def)
qed

lemma order_free_short:
  assumes "short_pid 7 p" and "short_pid 5 c"
  shows "order_free [psworker p, pschild c] (replicate GBUFSIZE (CHR 0x00)) (intact p c)"
proof
  fix order :: "nat list"
  assume "distinct order" and "set order = {..<length [psworker p, pschild c]}"
  then have "order = [0, 1] \<or> order = [1, 0]" by (intro orders_2) (simp_all add: numeral_2_eq_2)
  then show "intact p c (serial [psworker p, pschild c] (replicate GBUFSIZE (CHR 0x00)) order)"
    by (rule intact_serial [OF assms])
qed

lemma ps_start_machine:
  assumes "ps_start p c = Value m" and "child_once c = 0"
  shows "m = start_threads protected_section [psworker p, pschild (forked c)] (replicate GBUFSIZE (CHR 0x00))"
  using assms by (auto simp: ps_start_def andthen_eq_Value split: prod.splits if_splits)

text \<open>
  C31: the buffer in shared memory. When the program gets as far as starting the thread and the child,
  and the id of the child has at most five digits (that of the parent at most seven), every schedule of
  the two that runs both to their end leaves both signatures and both messages in the buffer whole,
  whichever took the mutex first, and no schedule blocks both.
\<close>
theorem pshared_buffer_intact:
  assumes "ps_start p c = Value m" and "child_once c = 0"
    and "short_pid 7 p" and "short_pid 5 (forked c)"
  shows "(finished (run_turns m ts) \<longrightarrow> intact p (forked c) (shared (run_turns m ts))) \<and>
    (\<not> finished (run_turns m ts) \<longrightarrow> (\<exists>t < 2. turn (run_turns m ts) t \<noteq> run_turns m ts))"
proof -
  note f = order_free_short [OF assms(3,4)]
  show ?thesis
    using order_free.result [OF f, of ts] order_free.progress [OF f, of ts]
    unfolding ps_start_machine [OF assms(1,2)] by (auto simp: numeral_2_eq_2)
qed

definition ps_calls :: "int \<Rightarrow> pscalls" where
  "ps_calls child = \<lparr>seg1 = (1, 0, Some 4096), seg2 = (2, 0, Some 8192), once = 0, mutex_calls = (0, 0, 0), attr = 0,
     thread_create = 0, forked = child, child_once = 0, rmid1 = 0, rmid2 = 0\<rparr>"

lemma ps_calls_start:
  "child \<noteq> -1 \<Longrightarrow> ps_start p (ps_calls child) = Value (start_threads protected_section [psworker p, pschild child]
     (replicate GBUFSIZE (CHR 0x00)))"
  by (simp add: ps_start_def ps_calls_def setup_seg_def shmem_setup_def init_mutex_def)

lemma child_first_finishes:
  "finished (run_turns (start_threads protected_section [psworker p, pschild c] b) [1, 1, 1, 1, 0, 0, 0, 0])"
  by (simp add: finished_def run_turns_def start_threads_def protected_section_def psworker_def pschild_def
      turn_def advance_def)

lemma thread_first_finishes:
  "finished (run_turns (start_threads protected_section [psworker p, pschild c] b) [0, 0, 0, 0, 1, 1, 1, 1])"
  by (simp add: finished_def run_turns_def start_threads_def protected_section_def psworker_def pschild_def
      turn_def advance_def)

lemma pids:
  "show_int 4711 = ''4711''" "show_int 4712 = ''4712''" "show_int 123456 = ''123456''"
  by (simp_all add: show_int_def show_nat.simps digit_char_def char_of_def bit_0)

theorem pshared_buffer_intact_witness:
  "intact 4711 4712 (shared (run_turns (start_threads protected_section [psworker 4711, pschild 4712]
     (replicate GBUFSIZE (CHR 0x00))) [1, 1, 1, 1, 0, 0, 0, 0]))"
proof -
  have s: "short_pid 7 4711" "short_pid 5 4712" by (simp_all add: short_pid_def pids)
  then show ?thesis
    using pshared_buffer_intact [OF ps_calls_start [of 4712 4711], of "[1, 1, 1, 1, 0, 0, 0, 0]"]
      child_first_finishes by (simp add: ps_calls_def)
qed

text \<open>
  With six digits the null byte behind the message of the child falls on the first byte of the thread's
  signature: one of the two is overwritten, which one depends on who came first.
\<close>

lemma pshared_long_pid:
  "\<not> intact 4711 123456 (shared (run_turns (start_threads protected_section [psworker 4711, pschild 123456]
     (replicate GBUFSIZE (CHR 0x00))) [1, 1, 1, 1, 0, 0, 0, 0]))"
  "\<not> intact 4711 123456 (shared (run_turns (start_threads protected_section [psworker 4711, pschild 123456]
     (replicate GBUFSIZE (CHR 0x00))) [0, 0, 0, 0, 1, 1, 1, 1]))"
  by (simp_all add: run_turns_def start_threads_def protected_section_def psworker_def pschild_def turn_def
      advance_def intact_def window_def overlay_def pids child_text_def thread_text_def snprintf_def GBUFSIZE_def
      numeral_eq_Suc)

text \<open>The variable for \<open>pthread_once\<close> lies outside the segment.\<close>

lemma once_outside: "segment_size \<le> once_offset"
  by (simp add: segment_size_def once_offset_def NUM_PSMUTEX_def)

interpretation pshared: order_free "[psworker 4711, pschild 4712]" "replicate GBUFSIZE (CHR 0x00)" "intact 4711 4712"
  by (rule order_free_short) (simp_all add: short_pid_def pids)

end
