(* ===== verification/Fork_Join.thy ===== *)
theory Fork_Join
  imports Common
begin

text \<open>
  The shape of the programs of chapter 14 in which \<open>main\<close> creates a number of threads in one loop and joins
  them in another: the machine that runs them under any schedule, and the interface \<open>fork_join\<close> of those
  in which each thread works on a part of the store of its own.
\<close>

section \<open>The machine\<close>

text \<open>
  Where \<open>main\<close> is: about to prepare what thread \<open>k\<close> gets, to create it, to join it, to release what it got.
\<close>

datatype mainpos = Prepare nat | Create nat | Join nat | Release nat | Ended | Failed

record 's fjprog =
  nthreads :: nat
  prep :: "nat \<Rightarrow> 's \<Rightarrow> 's"
  body :: "nat \<Rightarrow> ('s \<Rightarrow> 's) list"
  release :: "nat \<Rightarrow> 's \<Rightarrow> 's"
  alloc_ok :: "nat \<Rightarrow> bool"
  create_ok :: "nat \<Rightarrow> bool"

text \<open>\<open>pcs i\<close> is the number of actions thread \<open>i\<close> has done, \<open>joined i\<close> whether joining it succeeded.\<close>

record 's fj =
  pos :: mainpos
  pcs :: "nat \<Rightarrow> nat"
  joined :: "nat \<Rightarrow> bool option"
  store :: 's

datatype fjevent = Main | Timeout | Worker nat

fun spawned :: "mainpos \<Rightarrow> nat \<Rightarrow> bool" where
  "spawned (Prepare k) i \<longleftrightarrow> i < k"
| "spawned (Create k) i \<longleftrightarrow> i < k"
| "spawned Failed i \<longleftrightarrow> False"
| "spawned _ i \<longleftrightarrow> True"

definition next_join :: "'s fjprog \<Rightarrow> nat \<Rightarrow> mainpos" where
  "next_join p k = (if Suc k < nthreads p then Join (Suc k) else Ended)"

definition fj_main :: "'s fjprog \<Rightarrow> 's fj \<Rightarrow> 's fj" where
  "fj_main p m =
     (case pos m of
        Prepare k \<Rightarrow> if alloc_ok p k then m\<lparr>pos := Create k, store := prep p k (store m)\<rparr> else m\<lparr>pos := Failed\<rparr>
      | Create k \<Rightarrow>
          if create_ok p k then m\<lparr>pos := if Suc k < nthreads p then Prepare (Suc k) else Join 0\<rparr>
          else m\<lparr>pos := Failed\<rparr>
      | Join k \<Rightarrow>
          if pcs m k = length (body p k) then m\<lparr>pos := Release k, joined := (joined m)(k \<mapsto> True)\<rparr> else m
      | Release k \<Rightarrow> m\<lparr>pos := next_join p k, store := release p k (store m)\<rparr>
      | _ \<Rightarrow> m)"

text \<open>
  An event that is not possible changes nothing: a step of \<open>main\<close> that has to wait, of a thread that does
  not run, a timeout when \<open>main\<close> is not joining. When \<open>main\<close> has ended with \<open>pthread_exit\<close> the threads go on.
\<close>

definition fj_event :: "'s fjprog \<Rightarrow> fjevent \<Rightarrow> 's fj \<Rightarrow> 's fj" where
  "fj_event p ev m =
     (case ev of
        Main \<Rightarrow> fj_main p m
      | Timeout \<Rightarrow> (case pos m of Join k \<Rightarrow> m\<lparr>pos := next_join p k, joined := (joined m)(k \<mapsto> False)\<rparr> | _ \<Rightarrow> m)
      | Worker i \<Rightarrow>
          if i < nthreads p \<and> spawned (pos m) i \<and> pcs m i < length (body p i)
          then m\<lparr>store := (body p i ! pcs m i) (store m), pcs := (pcs m)(i := Suc (pcs m i))\<rparr>
          else m)"

definition fj_start :: "'s \<Rightarrow> 's fj" where
  "fj_start s = \<lparr>pos = Prepare 0, pcs = (\<lambda>i. 0), joined = Map.empty, store = s\<rparr>"

definition fj_run :: "'s fjprog \<Rightarrow> fjevent list \<Rightarrow> 's fj \<Rightarrow> 's fj" where
  "fj_run p evs m = fold (fj_event p) evs m"

lemma fj_run_simps [simp]:
  "fj_run p [] m = m" "fj_run p (ev # evs) m = fj_run p evs (fj_event p ev m)"
  "fj_run p (evs @ evs') m = fj_run p evs' (fj_run p evs m)"
  by (simp_all add: fj_run_def)

section \<open>Threads with parts of their own\<close>

fun prepared :: "mainpos \<Rightarrow> nat \<Rightarrow> bool" where
  "prepared (Prepare k) i \<longleftrightarrow> i < k"
| "prepared (Create k) i \<longleftrightarrow> i \<le> k"
| "prepared _ i \<longleftrightarrow> True"

fun passed :: "mainpos \<Rightarrow> nat \<Rightarrow> bool" where
  "passed (Join k) i \<longleftrightarrow> i < k"
| "passed (Release k) i \<longleftrightarrow> i \<le> k"
| "passed Ended i \<longleftrightarrow> True"
| "passed _ i \<longleftrightarrow> False"

fun pos_ok :: "nat \<Rightarrow> mainpos \<Rightarrow> bool" where
  "pos_ok n (Prepare k) \<longleftrightarrow> k < n"
| "pos_ok n (Create k) \<longleftrightarrow> k < n"
| "pos_ok n (Join k) \<longleftrightarrow> k < n"
| "pos_ok n (Release k) \<longleftrightarrow> k < n"
| "pos_ok n _ \<longleftrightarrow> True"

fun weight :: "nat \<Rightarrow> mainpos \<Rightarrow> nat" where
  "weight n (Prepare k) = 2 * (n - k) + 2 * n + 1"
| "weight n (Create k) = 2 * (n - k) + 2 * n"
| "weight n (Join k) = 2 * (n - k)"
| "weight n (Release k) = 2 * (n - k) - 1"
| "weight n _ = 0"

text \<open>What is left to do; every event that is possible makes it smaller.\<close>

definition work :: "'s fjprog \<Rightarrow> 's fj \<Rightarrow> nat" where
  "work p m = weight (nthreads p) (pos m) + (\<Sum>i<nthreads p. length (body p i) - pcs m i)"

text \<open>
  \<open>part i\<close> is the part of the store that belongs to thread \<open>i\<close>; \<open>eprep\<close>, \<open>ebody\<close> and \<open>erelease\<close> are the
  effects on it. Nothing that is done for or by one thread touches the part of another.
\<close>

locale fork_join =
  fixes p :: "'s fjprog" and part :: "nat \<Rightarrow> 's \<Rightarrow> 'p"
    and eprep :: "nat \<Rightarrow> 'p \<Rightarrow> 'p" and ebody :: "nat \<Rightarrow> ('p \<Rightarrow> 'p) list" and erelease :: "nat \<Rightarrow> 'p \<Rightarrow> 'p"
  assumes some_thread: "0 < nthreads p"
    and ebody_length: "i < nthreads p \<Longrightarrow> length (ebody i) = length (body p i)"
    and prep_part: "i < nthreads p \<Longrightarrow> j < nthreads p \<Longrightarrow>
      part j (prep p i s) = (if j = i then eprep i (part i s) else part j s)"
    and body_part: "i < nthreads p \<Longrightarrow> j < nthreads p \<Longrightarrow> k < length (body p i) \<Longrightarrow>
      part j ((body p i ! k) s) = (if j = i then (ebody i ! k) (part i s) else part j s)"
    and release_part: "i < nthreads p \<Longrightarrow> j < nthreads p \<Longrightarrow>
      part j (release p i s) = (if j = i then erelease i (part i s) else part j s)"
begin

text \<open>The part of thread \<open>i\<close> that was \<open>q\<close> at first, as the positions of \<open>main\<close> and the thread determine it.\<close>

definition expected :: "'s fj \<Rightarrow> 'p \<Rightarrow> nat \<Rightarrow> 'p" where
  "expected m q i =
     (let r = (if prepared (pos m) i then eprep i q else q); w = fold id (take (pcs m i) (ebody i)) r in
      if joined m i = Some True \<and> pos m \<noteq> Release i then erelease i w else w)"

definition thread_ok :: "'s \<Rightarrow> 's fj \<Rightarrow> nat \<Rightarrow> bool" where
  "thread_ok s m i \<longleftrightarrow>
     part i (store m) = expected m (part i s) i \<and> pcs m i \<le> length (body p i) \<and>
     (0 < pcs m i \<longrightarrow> spawned (pos m) i) \<and> (joined m i \<noteq> None \<longleftrightarrow> passed (pos m) i) \<and>
     (pos m = Release i \<longrightarrow> joined m i = Some True) \<and>
     (joined m i = Some True \<longrightarrow> pcs m i = length (body p i))"

definition fj_inv :: "'s \<Rightarrow> 's fj \<Rightarrow> bool" where
  "fj_inv s m \<longleftrightarrow> pos m = Failed \<or> pos_ok (nthreads p) (pos m) \<and> (\<forall>i < nthreads p. thread_ok s m i)"

lemma fj_inv_start: "fj_inv s (fj_start s)"
  using some_thread by (simp add: fj_inv_def fj_start_def thread_ok_def expected_def)

lemma main_inv:
  assumes "fj_inv s m" and "pos m \<noteq> Failed"
  shows "fj_inv s (fj_main p m)"
proof -
  have ok: "\<And>i. i < nthreads p \<Longrightarrow> thread_ok s m i" and at: "pos_ok (nthreads p) (pos m)"
    using assms by (auto simp: fj_inv_def)
  show ?thesis
  proof (cases "pos m")
    case (Prepare k)
    have "thread_ok s (m\<lparr>pos := Create k, store := prep p k (store m)\<rparr>) i" if "i < nthreads p" for i
      using ok [OF that] that at Prepare prep_part [of k i "store m"]
      by (auto simp: thread_ok_def expected_def Let_def)
    then show ?thesis using Prepare at by (simp add: fj_main_def fj_inv_def)
  next
    case (Create k)
    have "thread_ok s (m\<lparr>pos := if Suc k < nthreads p then Prepare (Suc k) else Join 0\<rparr>) i" if "i < nthreads p" for i
      using ok [OF that] that at Create
      by (auto simp: thread_ok_def expected_def Let_def less_Suc_eq_le)
    then show ?thesis using Create some_thread by (auto simp: fj_main_def fj_inv_def)
  next
    case (Join k)
    have "thread_ok s (m\<lparr>pos := Release k, joined := (joined m)(k \<mapsto> True)\<rparr>) i"
      if "i < nthreads p" "pcs m k = length (body p k)" for i
      using ok [OF that(1)] that at Join by (auto simp: thread_ok_def expected_def Let_def)
    then show ?thesis using Join assms at by (simp add: fj_main_def fj_inv_def)
  next
    case (Release k)
    have "thread_ok s (m\<lparr>pos := next_join p k, store := release p k (store m)\<rparr>) i" if "i < nthreads p" for i
      using ok [OF that] that at Release release_part [of k i "store m"]
      by (auto simp: thread_ok_def expected_def Let_def next_join_def)
    then show ?thesis using Release by (auto simp: fj_main_def fj_inv_def next_join_def)
  qed (use assms in \<open>simp_all add: fj_main_def\<close>)
qed

lemma timeout_inv:
  assumes "fj_inv s m" and "pos m = Join k"
  shows "fj_inv s (m\<lparr>pos := next_join p k, joined := (joined m)(k \<mapsto> False)\<rparr>)"
proof -
  have "thread_ok s (m\<lparr>pos := next_join p k, joined := (joined m)(k \<mapsto> False)\<rparr>) i" if "i < nthreads p" for i
  proof -
    have "thread_ok s m i" using assms that by (auto simp: fj_inv_def)
    then show ?thesis using assms(2) that by (auto simp: thread_ok_def expected_def Let_def next_join_def)
  qed
  then show ?thesis by (auto simp: fj_inv_def next_join_def)
qed

lemma worker_inv:
  assumes "fj_inv s m" and "i < nthreads p" and "spawned (pos m) i" and "pcs m i < length (body p i)"
  shows "fj_inv s (m\<lparr>store := (body p i ! pcs m i) (store m), pcs := (pcs m)(i := Suc (pcs m i))\<rparr>)"
proof -
  have run: "pos m \<noteq> Failed" using assms(3) by auto
  have "thread_ok s (m\<lparr>store := (body p i ! pcs m i) (store m), pcs := (pcs m)(i := Suc (pcs m i))\<rparr>) j"
    if "j < nthreads p" for j
  proof -
    have "thread_ok s m j" using assms(1) run that by (auto simp: fj_inv_def)
    then show ?thesis
      using assms(2-4) that body_part [of i j "pcs m i" "store m"] ebody_length [of i]
      by (auto simp: thread_ok_def expected_def Let_def take_Suc_conv_app_nth)
  qed
  then show ?thesis using assms(1) run by (simp add: fj_inv_def)
qed

lemma event_inv: "fj_inv s m \<Longrightarrow> fj_inv s (fj_event p ev m)"
proof (cases "pos m = Failed")
  case True
  then show ?thesis by (cases ev) (simp_all add: fj_event_def fj_main_def fj_inv_def)
next
  case False
  moreover assume "fj_inv s m"
  ultimately show ?thesis
    using main_inv timeout_inv worker_inv
    by (cases ev) (simp_all add: fj_event_def split: mainpos.split)
qed

lemma run_inv: "fj_inv s m \<Longrightarrow> fj_inv s (fj_run p evs m)"
  by (induction evs arbitrary: m) (simp_all add: event_inv)

lemmas reachable_inv = run_inv [OF fj_inv_start]

text \<open>Without timeouts every thread that has been passed was joined.\<close>

lemma joined_True:
  assumes "Timeout \<notin> set evs"
  shows "joined (fj_run p evs (fj_start s)) i \<noteq> Some False"
  using assms
proof (induction evs rule: rev_induct)
  case (snoc ev evs)
  then show ?case
    by (cases ev) (auto simp: fj_event_def fj_main_def split: mainpos.split)
qed (simp add: fj_start_def)

lemma result:
  assumes "pos (fj_run p evs (fj_start s)) = Ended" and "i < nthreads p"
    and "joined (fj_run p evs (fj_start s)) i = Some True"
  shows "part i (store (fj_run p evs (fj_start s))) = erelease i (fold id (ebody i) (eprep i (part i s)))"
  using reachable_inv [of s evs] assms ebody_length [of i]
  by (simp add: fj_inv_def thread_ok_def expected_def)

lemma all_joined:
  assumes "pos (fj_run p evs (fj_start s)) = Ended" and "i < nthreads p" and "Timeout \<notin> set evs"
  shows "joined (fj_run p evs (fj_start s)) i = Some True"
  using reachable_inv [of s evs] assms joined_True [OF assms(3), of s i]
  by (auto simp: fj_inv_def thread_ok_def)

text \<open>While \<open>main\<close> has not ended, it or the thread it waits for can go on, and there is less to do then.\<close>

lemma work_less:
  assumes "fj_inv s m" and "pos m \<noteq> Ended" and "pos m \<noteq> Failed"
  shows "\<exists>ev. ev \<noteq> Timeout \<and> work p (fj_event p ev m) < work p m"
proof (cases "\<exists>k. pos m = Join k \<and> pcs m k \<noteq> length (body p k)")
  case True
  then obtain k where k: "pos m = Join k" "pcs m k \<noteq> length (body p k)" by blast
  then have l: "k < nthreads p" "pcs m k < length (body p k)"
    using assms(1) by (simp_all add: fj_inv_def thread_ok_def le_neq_implies_less)
  have "(\<Sum>i<nthreads p. length (body p i) - ((pcs m)(k := Suc (pcs m k))) i) < (\<Sum>i<nthreads p. length (body p i) - pcs m i)"
  proof (rule sum_strict_mono_ex1)
    show "\<exists>i \<in> {..<nthreads p}. length (body p i) - ((pcs m)(k := Suc (pcs m k))) i < length (body p i) - pcs m i"
      using l by (intro bexI [of _ k]) simp_all
  qed (simp_all add: diff_le_mono2)
  then have "work p (fj_event p (Worker k) m) < work p m"
    using k l by (simp add: work_def fj_event_def)
  then show ?thesis by blast
next
  case False
  then have "work p (fj_event p Main m) < work p m"
    using assms by (cases "pos m") (auto simp: work_def fj_event_def fj_main_def next_join_def fj_inv_def)
  then show ?thesis by blast
qed

lemma finishes_or_fails:
  "fj_inv s m \<Longrightarrow> \<exists>evs. Timeout \<notin> set evs \<and> (pos (fj_run p evs m) = Ended \<or> pos (fj_run p evs m) = Failed)"
proof (induction "work p m" arbitrary: m rule: less_induct)
  case less
  show ?case
  proof (cases "pos m = Ended \<or> pos m = Failed")
    case True
    then show ?thesis by (intro exI [of _ "[]"]) simp
  next
    case False
    then obtain ev where ev: "ev \<noteq> Timeout" "work p (fj_event p ev m) < work p m"
      using work_less [OF less.prems] by blast
    then obtain evs where "Timeout \<notin> set evs"
      "pos (fj_run p evs (fj_event p ev m)) = Ended \<or> pos (fj_run p evs (fj_event p ev m)) = Failed"
      using less.hyps event_inv [OF less.prems] by blast
    then show ?thesis using ev(1) by (intro exI [of _ "ev # evs"]) simp
  qed
qed

lemma never_fails:
  assumes "\<forall>i. alloc_ok p i \<and> create_ok p i" and "pos m \<noteq> Failed"
  shows "pos (fj_run p evs m) \<noteq> Failed"
  using assms(2)
proof (induction evs arbitrary: m)
  case (Cons ev evs)
  have "pos (fj_event p ev m) \<noteq> Failed"
    using Cons.prems assms(1)
    by (auto simp: fj_event_def fj_main_def next_join_def split: fjevent.split mainpos.split)
  then show ?case using Cons.IH by simp
qed simp

lemma can_finish:
  assumes "\<forall>i. alloc_ok p i \<and> create_ok p i"
  shows "\<exists>evs'. Timeout \<notin> set evs' \<and> pos (fj_run p evs' (fj_run p evs (fj_start s))) = Ended"
proof -
  have "pos (fj_run p evs (fj_start s)) \<noteq> Failed" using never_fails [OF assms] by (simp add: fj_start_def)
  then show ?thesis using finishes_or_fails [OF reachable_inv] never_fails [OF assms] by metis
qed

end

end
