(* ===== verification/Thread_Params.thy ===== *)
theory Thread_Params
  imports Fork_Join "HOL-Library.Sublist"
begin

text \<open>
  Threads and what they are passed: \<open>booksrc/ch14/pthreads_joiner1.c\<close> and \<open>pthreads_joiner2.c\<close>, which pass
  a number, \<open>booksrc/ch14/param_passing/struct_as_param.c\<close> and the solutions \<open>ch14/pthreads_joiner3.c\<close> and
  \<open>pthreads_joiner4.c\<close>, which pass a structure of its own to each thread, and \<open>pthreads_joiner_BUGGY_3.c\<close>, which
  passes the same structure to all.
\<close>

section \<open>The store\<close>

text \<open>
  The structures on the heap (\<open>None\<close>: not allocated), and for each thread its variables and what it has printed,
  or how it went wrong.
\<close>

record wlocal =
  arg_sleeptm :: int
  slptm :: int
  wlines :: "string list"

record 'a tstore =
  cells :: "nat \<Rightarrow> 'a option"
  locals :: "nat \<Rightarrow> wlocal outcome"

definition access :: "('a \<Rightarrow> wlocal \<Rightarrow> wlocal outcome) \<Rightarrow> 'a option \<Rightarrow> wlocal outcome \<Rightarrow> wlocal outcome" where
  "access f c l = andthen l (\<lambda>w. case c of None \<Rightarrow> Undefined Dangling | Some a \<Rightarrow> f a w)"

definition through :: "nat \<Rightarrow> nat \<Rightarrow> ('a \<Rightarrow> wlocal \<Rightarrow> wlocal outcome) \<Rightarrow> 'a tstore \<Rightarrow> 'a tstore" where
  "through c i f s = s\<lparr>locals := (locals s)(i := access f (cells s c) (locals s i))\<rparr>"

definition tstart :: "'a tstore" where
  "tstart = \<lparr>cells = (\<lambda>i. None), locals = (\<lambda>i. Value \<lparr>arg_sleeptm = 0, slptm = 0, wlines = []\<rparr>)\<rparr>"

definition out :: "string \<Rightarrow> wlocal \<Rightarrow> wlocal outcome" where
  "out line w = Value (w\<lparr>wlines := wlines w @ [line]\<rparr>)"

definition fill_cell :: "(nat \<Rightarrow> 'a) \<Rightarrow> nat \<Rightarrow> 'a tstore \<Rightarrow> 'a tstore" where
  "fill_cell v i s = s\<lparr>cells := (cells s)(i \<mapsto> v i)\<rparr>"

definition free_cell :: "nat \<Rightarrow> 'a tstore \<Rightarrow> 'a tstore" where
  "free_cell i s = s\<lparr>cells := (cells s)(i := None)\<rparr>"

section \<open>The programs\<close>

definition NTHREADS :: nat where "NTHREADS = 3"

record passit =
  thrdnum :: int
  sleeptm :: int

definition will_sleep :: "int \<Rightarrow> int \<Rightarrow> string" where
  "will_sleep n t = '' worker #'' @ show_int n @ '': will sleep for '' @ show_int t @ ''s now ...'' @ [LF]"

definition work_done :: "int \<Rightarrow> string" where
  "work_done n = '' worker #'' @ show_int n @ '': work (eyeroll) done, exiting now'' @ [LF]"

definition got :: "int \<Rightarrow> int \<Rightarrow> string" where
  "got n t = ''*********** arg->thrdnum='' @ show_int n @ '' arg->sleeptm='' @ show_int t @ [LF]"

text \<open>
  What \<open>worker\<close> does with its argument, access by access. In \<open>pthreads_joiner4.c\<close> it does not print what it got.
\<close>

definition load_sleeptm :: "passit \<Rightarrow> wlocal \<Rightarrow> wlocal outcome" where
  "load_sleeptm a w = Value (w\<lparr>arg_sleeptm := sleeptm a\<rparr>)"

definition load_thrdnum :: "passit \<Rightarrow> wlocal \<Rightarrow> wlocal outcome" where
  "load_thrdnum a w = andthen (c_int (arg_sleeptm w - thrdnum a)) (\<lambda>t. Value (w\<lparr>slptm := t\<rparr>))"

definition worker3 :: "(passit \<Rightarrow> wlocal \<Rightarrow> wlocal outcome) list" where
  "worker3 =
     [load_sleeptm, load_thrdnum, \<lambda>a. out (got (thrdnum a) (sleeptm a)),
      \<lambda>a w. out (will_sleep (thrdnum a) (slptm w)) w, \<lambda>a. out (work_done (thrdnum a))]"

definition worker4 :: "(passit \<Rightarrow> wlocal \<Rightarrow> wlocal outcome) list" where
  "worker4 =
     [load_sleeptm, load_thrdnum, \<lambda>a w. out (will_sleep (thrdnum a) (slptm w)) w, \<lambda>a. out (work_done (thrdnum a))]"

text \<open>A program that passes thread \<open>i\<close> a structure \<open>v i\<close> of its own and frees it when the thread is joined.\<close>

definition own_cells ::
  "(nat \<Rightarrow> 'a) \<Rightarrow> ('a \<Rightarrow> wlocal \<Rightarrow> wlocal outcome) list \<Rightarrow> (nat \<Rightarrow> bool) \<Rightarrow> (nat \<Rightarrow> bool) \<Rightarrow> 'a tstore fjprog" where
  "own_cells v worker alloc create =
     \<lparr>nthreads = NTHREADS, prep = fill_cell v, body = (\<lambda>i. map (through i i) worker), release = free_cell,
      alloc_ok = alloc, create_ok = create\<rparr>"

definition joiner3_main ::
  "string list \<Rightarrow> (nat \<Rightarrow> bool) \<Rightarrow> (nat \<Rightarrow> bool) \<Rightarrow> passit tstore fjprog outcome" where
  "joiner3_main argv alloc create =
     (if length argv \<noteq> 2 then Exit EXIT_FAILURE
      else
        let t = atoi (argv ! 1) in
        if t \<le> int NTHREADS - 1 then Exit EXIT_FAILURE
        else Value (own_cells (\<lambda>i. \<lparr>thrdnum = int i, sleeptm = t\<rparr>) worker3 alloc create))"

definition joiner4_main ::
  "string list \<Rightarrow> (nat \<Rightarrow> bool) \<Rightarrow> (nat \<Rightarrow> bool) \<Rightarrow> passit tstore fjprog outcome" where
  "joiner4_main argv alloc create =
     (if length argv \<noteq> 3 then Exit EXIT_FAILURE
      else
        let t = atoi (argv ! 1); join_tmout = atoi (argv ! 2) in
        if t \<le> int NTHREADS - 1 \<or> join_tmout \<le> int NTHREADS - 1 then Exit EXIT_FAILURE
        else Value (own_cells (\<lambda>i. \<lparr>thrdnum = int i, sleeptm = t\<rparr>) worker4 alloc create))"

text \<open>In the faulty version there is one structure, cell 0, allocated first and freed last.\<close>

definition joiner_BUGGY_main ::
  "string list \<Rightarrow> bool \<Rightarrow> (nat \<Rightarrow> bool) \<Rightarrow> passit tstore fjprog outcome" where
  "joiner_BUGGY_main argv alloc create =
     (if length argv \<noteq> 2 then Exit EXIT_FAILURE
      else
        let t = atoi (argv ! 1) in
        if t \<le> int NTHREADS - 1 then Exit EXIT_FAILURE
        else Value
          \<lparr>nthreads = NTHREADS, prep = (\<lambda>i. fill_cell (\<lambda>_. \<lparr>thrdnum = int i, sleeptm = t\<rparr>) 0),
           body = (\<lambda>i. map (through 0 i) worker3),
           release = (\<lambda>i. if i = NTHREADS - 1 then free_cell 0 else id), alloc_ok = (\<lambda>i. alloc), create_ok = create\<rparr>)"

text \<open>The programs that pass the number of the thread by value; the second has them sleep for different times.\<close>

definition worker1 :: "(nat \<Rightarrow> int) \<Rightarrow> nat \<Rightarrow> (wlocal \<Rightarrow> wlocal outcome) list" where
  "worker1 slp i = [out (will_sleep (int i) (slp i)), out (work_done (int i))]"

definition by_value :: "(nat \<Rightarrow> int) \<Rightarrow> (nat \<Rightarrow> bool) \<Rightarrow> unit tstore fjprog" where
  "by_value slp create =
     \<lparr>nthreads = NTHREADS, prep = (\<lambda>i s. s),
      body = (\<lambda>i. map (\<lambda>f s. s\<lparr>locals := (locals s)(i := andthen (locals s i) f)\<rparr>) (worker1 slp i)),
      release = (\<lambda>i s. s), alloc_ok = (\<lambda>i. True), create_ok = create\<rparr>"

definition joiner1_main where "joiner1_main = by_value (\<lambda>i. 8)"
definition joiner2_main where "joiner2_main = by_value (\<lambda>i. 8 - int i)"

text \<open>
  \<open>struct_as_param.c\<close>. Coordinates are kept in units of 1/10000, the precision they are printed with.
\<close>

record Airport =
  IATA_code :: string
  city :: string
  latitude :: nat
  longitude :: nat
  altitude :: nat

definition city_airports :: "Airport list" where
  "city_airports =
     [\<lparr>IATA_code = ''BLR'', city = ''Bangalore International'', latitude = 131986, longitude = 777066, altitude = 904\<rparr>,
      \<lparr>IATA_code = ''BNE'', city = ''Brisbane International'', latitude = 273942, longitude = 1531218, altitude = 4\<rparr>,
      \<lparr>IATA_code = ''BRU'', city = ''Brussels National'', latitude = 509010, longitude = 44856, altitude = 58\<rparr>]"

definition pad_left :: "nat \<Rightarrow> string \<Rightarrow> string" where
  "pad_left n s = replicate (n - length s) (CHR '' '') @ s"

definition show_4f :: "nat \<Rightarrow> string" where
  "show_4f n = pad_left 9 (show_nat (n div 10000) @ ''.'' @ tl (show_nat (10000 + n mod 10000)))"

definition airport_details :: "Airport \<Rightarrow> string" where
  "airport_details a =
     [LF] @ ''----------- Airports Details ---------------'' @ [LF] @
     ''  IATA code : '' @ take 3 (IATA_code a) @ ''           '' @ pad_left 32 (city a) @ [LF] @
     ''  Latitude, Longitude, Altitude : '' @ show_4f (latitude a) @ '' '' @ show_4f (longitude a) @ '' '' @
     pad_left 9 (show_nat (altitude a)) @ ''m'' @ [LF]"

definition airport_worker :: "(Airport \<Rightarrow> wlocal \<Rightarrow> wlocal outcome) list" where
  "airport_worker =
     [\<lambda>a. out (airport_details a), \<lambda>a. out ('' worker : will sleep for 8s now ...'' @ [LF]),
      \<lambda>a. out ('' worker : work done, exiting now'' @ [LF])]"

definition struct_as_param_main :: "(nat \<Rightarrow> bool) \<Rightarrow> (nat \<Rightarrow> bool) \<Rightarrow> Airport tstore fjprog" where
  "struct_as_param_main alloc create = own_cells (\<lambda>i. city_airports ! i) airport_worker alloc create"

section \<open>Structures of their own\<close>

definition own_part :: "nat \<Rightarrow> 'a tstore \<Rightarrow> 'a option \<times> wlocal outcome" where
  "own_part i s = (cells s i, locals s i)"

definition own_access :: "('a \<Rightarrow> wlocal \<Rightarrow> wlocal outcome) \<Rightarrow> 'a option \<times> wlocal outcome \<Rightarrow> 'a option \<times> wlocal outcome" where
  "own_access f = (\<lambda>(c, l). (c, access f c l))"

interpretation own: fork_join "own_cells v worker alloc create" own_part "\<lambda>i. map_prod (\<lambda>_. Some (v i)) id"
    "\<lambda>i. map own_access worker" "\<lambda>i. map_prod (\<lambda>_. None) id"
  by unfold_locales
    (auto simp: own_cells_def NTHREADS_def own_part_def own_access_def fill_cell_def free_cell_def through_def)

interpretation val: fork_join "by_value slp create" "\<lambda>i s. locals s i" "\<lambda>i l. l"
    "\<lambda>i. map (\<lambda>f l. andthen l f) (worker1 slp i)" "\<lambda>i l. l"
  by unfold_locales (auto simp: by_value_def NTHREADS_def)

text \<open>What a thread with the structure \<open>a\<close> has done after some of its accesses.\<close>

primrec done_by :: "('a \<Rightarrow> wlocal \<Rightarrow> wlocal outcome) list \<Rightarrow> 'a \<Rightarrow> wlocal outcome \<Rightarrow> wlocal outcome" where
  "done_by [] a l = l"
| "done_by (f # fs) a l = done_by fs a (andthen l (f a))"

lemma fold_own_access: "fold id (map own_access fs) (Some a, l) = (Some a, done_by fs a l)"
  by (induction fs arbitrary: l) (simp_all add: own_access_def access_def)

abbreviation wstart :: "wlocal outcome" where
  "wstart \<equiv> Value \<lparr>arg_sleeptm = 0, slptm = 0, wlines = []\<rparr>"

lemma tstart_parts: "cells tstart i = None" "locals tstart i = wstart"
  by (simp_all add: tstart_def)

lemma own_cells_sel [simp]:
  "nthreads (own_cells v worker alloc create) = NTHREADS"
  "length (body (own_cells v worker alloc create) i) = length worker"
  "alloc_ok (own_cells v worker alloc create) = alloc" "create_ok (own_cells v worker alloc create) = create"
  by (simp_all add: own_cells_def)

lemma own_thread_ok:
  assumes "i < NTHREADS" and "m = fj_run (own_cells v worker alloc create) evs (fj_start tstart)"
    and "pos m \<noteq> Failed"
  shows "own.thread_ok v worker alloc create tstart m i"
  using own.reachable_inv [of v worker alloc create tstart evs] assms by (simp add: own.fj_inv_def)

text \<open>At any moment, whatever the schedule, and whether or not joins time out.\<close>

lemma own_locals:
  assumes "i < NTHREADS" and "m = fj_run (own_cells v worker alloc create) evs (fj_start tstart)"
    and "pos m \<noteq> Failed"
  shows "locals (store m) i = done_by (take (pcs m i) worker) (v i) wstart"
    and "cells (store m) i =
      (if \<not> prepared (pos m) i \<or> (joined m i = Some True \<and> pos m \<noteq> Release i) then None else Some (v i))"
proof -
  have e: "own_part i (store m) = own.expected v worker m (own_part i tstart) i"
    and c: "\<not> prepared (pos m) i \<Longrightarrow> pcs m i = 0" "joined m i = Some True \<Longrightarrow> prepared (pos m) i"
    using own_thread_ok [OF assms] unfolding own.thread_ok_def by (cases "pos m"; auto)+
  show "locals (store m) i = done_by (take (pcs m i) worker) (v i) wstart"
    using e c by (auto simp: own_part_def own.expected_def take_map fold_own_access tstart_parts
        Let_def split: if_splits)
  show "cells (store m) i =
      (if \<not> prepared (pos m) i \<or> (joined m i = Some True \<and> pos m \<noteq> Release i) then None else Some (v i))"
    using e c by (auto simp: own_part_def own.expected_def take_map fold_own_access tstart_parts
        Let_def split: if_splits)
qed

definition lines3 :: "int \<Rightarrow> int \<Rightarrow> string list" where
  "lines3 n t = [got n t, will_sleep n (t - n), work_done n]"

definition lines4 :: "int \<Rightarrow> int \<Rightarrow> string list" where
  "lines4 n t = [will_sleep n (t - n), work_done n]"

lemmas worker_defs = load_sleeptm_def load_thrdnum_def out_def

lemma done3:
  assumes "is_int (t - n)"
  shows "\<exists>w. done_by (take k worker3) \<lparr>thrdnum = n, sleeptm = t\<rparr> wstart = Value w \<and> prefix (wlines w) (lines3 n t)"
    and "\<exists>w. done_by worker3 \<lparr>thrdnum = n, sleeptm = t\<rparr> wstart = Value w \<and> wlines w = lines3 n t"
proof -
  show all: "\<exists>w. done_by worker3 \<lparr>thrdnum = n, sleeptm = t\<rparr> wstart = Value w \<and> wlines w = lines3 n t"
    using assms by (simp add: worker3_def worker_defs lines3_def)
  show "\<exists>w. done_by (take k worker3) \<lparr>thrdnum = n, sleeptm = t\<rparr> wstart = Value w \<and> prefix (wlines w) (lines3 n t)"
  proof (cases "k < 5")
    case True
    then have "k = 0 \<or> k = 1 \<or> k = 2 \<or> k = 3 \<or> k = 4" by linarith
    then show ?thesis using assms by (auto simp: worker3_def worker_defs lines3_def)
  next
    case False
    then show ?thesis using all by (auto simp: worker3_def)
  qed
qed

lemma done4:
  assumes "is_int (t - n)"
  shows "\<exists>w. done_by (take k worker4) \<lparr>thrdnum = n, sleeptm = t\<rparr> wstart = Value w \<and> prefix (wlines w) (lines4 n t)"
    and "\<exists>w. done_by worker4 \<lparr>thrdnum = n, sleeptm = t\<rparr> wstart = Value w \<and> wlines w = lines4 n t"
proof -
  show all: "\<exists>w. done_by worker4 \<lparr>thrdnum = n, sleeptm = t\<rparr> wstart = Value w \<and> wlines w = lines4 n t"
    using assms by (simp add: worker4_def worker_defs lines4_def)
  show "\<exists>w. done_by (take k worker4) \<lparr>thrdnum = n, sleeptm = t\<rparr> wstart = Value w \<and> prefix (wlines w) (lines4 n t)"
  proof (cases "k < 4")
    case True
    then have "k = 0 \<or> k = 1 \<or> k = 2 \<or> k = 3" by linarith
    then show ?thesis using assms by (auto simp: worker4_def worker_defs lines4_def)
  next
    case False
    then show ?thesis using all by (auto simp: worker4_def)
  qed
qed

lemma sleep_times: "int NTHREADS - 1 < atoi a \<Longrightarrow> i < NTHREADS \<Longrightarrow> is_int (atoi a - int i)"
  using atoi_range [of a] by (simp add: int_range_defs NTHREADS_def)

text \<open>When a thread has been joined it has done everything.\<close>

lemma own_joined:
  assumes "i < NTHREADS" and "m = fj_run (own_cells v worker alloc create) evs (fj_start tstart)"
    and "pos m = Ended" and "joined m i = Some True"
  shows "locals (store m) i = done_by worker (v i) wstart \<and> cells (store m) i = None"
proof -
  have "pcs m i = length worker" using own_thread_ok [OF assms(1,2)] assms(3,4) by (simp add: own.thread_ok_def)
  then show ?thesis using own_locals [OF assms(1,2)] assms(3,4) by simp
qed

text \<open>
  The solution with timed joins: a structure is freed only when its thread was joined. A thread whose join timed
  out keeps a valid structure, also when \<open>main\<close> has ended; that structure is never freed.
\<close>

lemma joiner4_timeouts:
  assumes "joiner4_main argv alloc create = Value p" and "m = fj_run p evs (fj_start tstart)"
    and "pos m = Ended" and "i < NTHREADS"
  shows "\<exists>w. locals (store m) i = Value w \<and> prefix (wlines w) (lines4 (int i) (atoi (argv ! 1))) \<and>
    (case joined m i of
       Some True \<Rightarrow> wlines w = lines4 (int i) (atoi (argv ! 1)) \<and> cells (store m) i = None
     | _ \<Rightarrow> cells (store m) i \<noteq> None)"
proof -
  let ?v = "\<lambda>i. \<lparr>thrdnum = int i, sleeptm = atoi (argv ! 1)\<rparr>"
  have p: "p = own_cells ?v worker4 alloc create" "int NTHREADS - 1 < atoi (argv ! 1)"
    using assms(1) by (auto simp: joiner4_main_def Let_def split: if_splits)
  note r = sleep_times [OF p(2) assms(4)] and l = own_locals [OF assms(4) assms(2) [unfolded p(1)]]
  show ?thesis
  proof (cases "joined m i = Some True")
    case True
    then show ?thesis
      using own_joined [OF assms(4) assms(2) [unfolded p(1)] assms(3)] done4(2) [OF r] by auto
  next
    case False
    then show ?thesis
      using l assms(3) done4(1) [OF r, of "pcs m i"] by (auto split: option.split bool.split)
  qed
qed

lemma struct_as_param_lines:
  assumes "m = fj_run (struct_as_param_main alloc create) evs (fj_start tstart)" and "pos m = Ended"
    and "i < NTHREADS" and "joined m i = Some True"
  shows "\<exists>w. locals (store m) i = Value w \<and> wlines w ! 0 = airport_details (city_airports ! i) \<and> cells (store m) i = None"
  using own_joined [OF assms(3) assms(1) [unfolded struct_as_param_main_def] assms(2,4)]
  by (simp add: airport_worker_def out_def)

text \<open>The number passed by value.\<close>

lemma by_value_lines:
  assumes "m = fj_run (by_value slp create) evs (fj_start tstart)" and "pos m = Ended"
    and "i < NTHREADS" and "Timeout \<notin> set evs"
  shows "\<exists>w. locals (store m) i = Value w \<and> wlines w = [will_sleep (int i) (slp i), work_done (int i)]"
proof -
  have n: "i < nthreads (by_value slp create)" using assms(3) by (simp add: by_value_def)
  from val.result [OF _ n val.all_joined [OF _ n assms(4)], of tstart] assms(1,2)
  have "locals (store m) i = fold id (map (\<lambda>f l. andthen l f) (worker1 slp i)) wstart" by (simp add: tstart_parts)
  then show ?thesis by (simp add: worker1_def out_def)
qed

lemmas joiner1_lines = by_value_lines [of _ "\<lambda>i. 8", folded joiner1_main_def]
lemmas joiner2_lines = by_value_lines [of _ "\<lambda>i. 8 - int i", folded joiner2_main_def]

section \<open>One structure for all\<close>

text \<open>All threads are created before the first one runs.\<close>

definition late_schedule :: "fjevent list" where
  "late_schedule =
     replicate 6 Main @ replicate 5 (Worker 0) @ replicate 5 (Worker 1) @ replicate 5 (Worker 2) @ replicate 6 Main"

lemma BUGGY_late:
  assumes "joiner_BUGGY_main argv True (\<lambda>i. True) = Value p"
  shows "pos (fj_run p late_schedule (fj_start tstart)) = Ended \<and>
    (\<forall>i < NTHREADS. \<exists>w. locals (store (fj_run p late_schedule (fj_start tstart))) i = Value w \<and>
       wlines w = lines3 2 (atoi (argv ! 1)))"
proof -
  define t where "t = atoi (argv ! 1)"
  have p: "p = \<lparr>nthreads = 3, prep = (\<lambda>i. fill_cell (\<lambda>_. \<lparr>thrdnum = int i, sleeptm = t\<rparr>) 0),
           body = (\<lambda>i. map (through 0 i) worker3),
           release = (\<lambda>i. if i = 2 then free_cell 0 else id), alloc_ok = (\<lambda>i. True), create_ok = (\<lambda>i. True)\<rparr>"
    and g: "int NTHREADS - 1 < t"
    using assms by (auto simp: joiner_BUGGY_main_def Let_def t_def NTHREADS_def split: if_splits)
  have r: "is_int (t - 2)"
    using sleep_times [OF g [unfolded t_def], of 2] by (simp add: t_def NTHREADS_def)
  have "pos (fj_run p late_schedule (fj_start tstart)) = Ended \<and>
    (\<forall>i \<in> {0, 1, 2}. \<exists>w. locals (store (fj_run p late_schedule (fj_start tstart))) i = Value w \<and> wlines w = lines3 2 t)"
    using r unfolding p t_def
    by (simp add: late_schedule_def fj_start_def tstart_def fj_event_def fj_main_def next_join_def fill_cell_def
        through_def access_def worker3_def worker_defs free_cell_def lines3_def numeral_eq_Suc)
  moreover have "i \<in> {0, 1, 2}" if "i < NTHREADS" for i using that by (auto simp: NTHREADS_def)
  ultimately show ?thesis unfolding t_def by blast
qed



end
