(* ===== verification/Matrix_Mul.thy ===== *)
theory Matrix_Mul
  imports Fork_Join
begin

text \<open>
  The multiplication of matrices in one process and with a thread for each core:
  \<open>booksrc/ch14/speed_multiprcs_vs_multithrd_simple/matrixmul/prcs_matrixmul.c\<close> and \<open>thrd_matrixmul.c\<close>.
\<close>

section \<open>The programs\<close>

definition N :: nat where "N = 1024"
definition NCORES :: nat where "NCORES = 4"

type_synonym matrix = "nat \<Rightarrow> nat \<Rightarrow> int"

text \<open>
  The global \<open>c\<close>; an entry whose computation overflowed is \<open>Undefined\<close>. \<open>row\<close> is what \<open>main\<close> passes to each thread.
\<close>

record mstore =
  c :: "nat \<Rightarrow> nat \<Rightarrow> int outcome"
  row :: "nat \<Rightarrow> nat"

text \<open>\<open>c[i][j] = c[i][j] + a[i][k] * b[k][j]\<close>\<close>

definition multiply_add :: "matrix \<Rightarrow> matrix \<Rightarrow> nat \<Rightarrow> nat \<Rightarrow> nat \<Rightarrow> int outcome \<Rightarrow> int outcome" where
  "multiply_add a b i j k v = andthen v (\<lambda>x. andthen (c_int (a i k * b k j)) (\<lambda>y. c_int (x + y)))"

definition mul_step :: "matrix \<Rightarrow> matrix \<Rightarrow> nat \<times> nat \<times> nat \<Rightarrow> (nat \<Rightarrow> nat \<Rightarrow> int outcome) \<Rightarrow> nat \<Rightarrow> nat \<Rightarrow> int outcome" where
  "mul_step a b = (\<lambda>(i, j, k) c. c(i := (c i)(j := multiply_add a b i j k (c i j))))"

text \<open>The three loops over some rows.\<close>

definition mul_loops :: "nat \<Rightarrow> nat list \<Rightarrow> (nat \<times> nat \<times> nat) list" where
  "mul_loops n rows = concat (map (\<lambda>i. concat (map (\<lambda>j. map (\<lambda>k. (i, j, k)) [0..<n]) [0..<n])) rows)"

definition zeros :: "nat \<Rightarrow> nat \<Rightarrow> int outcome" where
  "zeros = (\<lambda>i j. Value 0)"

definition prcs_matrixmul :: "matrix \<Rightarrow> matrix \<Rightarrow> nat \<Rightarrow> nat \<Rightarrow> int outcome" where
  "prcs_matrixmul a b = fold (mul_step a b) (mul_loops N [0..<N]) zeros"

text \<open>The rows of thread \<open>t\<close>, which starts at \<open>row[t] = t * (N / NCORES)\<close>.\<close>

definition thread_rows :: "nat \<Rightarrow> nat list" where
  "thread_rows r = [r..<r + N div NCORES]"

definition threadfun :: "matrix \<Rightarrow> matrix \<Rightarrow> nat \<Rightarrow> (mstore \<Rightarrow> mstore) list" where
  "threadfun a b t =
     map (\<lambda>ijk s. s\<lparr>c := mul_step a b ijk (c s)\<rparr>) (mul_loops N (thread_rows (t * (N div NCORES))))"

definition thrd_matrixmul :: "matrix \<Rightarrow> matrix \<Rightarrow> mstore fjprog" where
  "thrd_matrixmul a b =
     \<lparr>nthreads = NCORES, prep = (\<lambda>i s. s\<lparr>row := (row s)(i := i * (N div NCORES))\<rparr>), body = threadfun a b,
      release = (\<lambda>i s. s), alloc_ok = (\<lambda>i. True), create_ok = (\<lambda>i. True)\<rparr>"

definition mstart :: mstore where
  "mstart = \<lparr>c = zeros, row = (\<lambda>i. 0)\<rparr>"

text \<open>The matrices of both programs.\<close>

definition mat_a :: matrix where "mat_a = (\<lambda>i j. 2)"
definition mat_b :: matrix where "mat_b = (\<lambda>i j. 3)"

section \<open>What the loops compute\<close>

text \<open>An entry of the product, summed up in the order of the inner loop.\<close>

definition dot :: "matrix \<Rightarrow> matrix \<Rightarrow> nat \<Rightarrow> nat \<Rightarrow> nat \<Rightarrow> int outcome" where
  "dot a b n i j = fold (multiply_add a b i j) [0..<n] (Value 0)"

definition at_entry :: "nat \<Rightarrow> nat \<Rightarrow> nat \<times> nat \<times> nat \<Rightarrow> bool" where
  "at_entry i j ijk \<longleftrightarrow> fst ijk = i \<and> fst (snd ijk) = j"

lemma at_entry_simp [simp]: "at_entry i j (i', j', k) \<longleftrightarrow> i' = i \<and> j' = j"
  by (simp add: at_entry_def)

lemma fold_mul_step:
  "fold (mul_step a b) ijks m i j =
     fold (multiply_add a b i j) (map (snd \<circ> snd) (filter (at_entry i j) ijks)) (m i j)"
proof (induction ijks arbitrary: m)
  case (Cons ijk ijks)
  obtain i' j' k where "ijk = (i', j', k)" by (cases ijk)
  then show ?case using Cons.IH by (simp add: mul_step_def)
qed simp

lemma filter_row:
  "j < n \<Longrightarrow> filter (at_entry i j) (concat (map (\<lambda>j. map (\<lambda>k. (r, j, k)) ks) [0..<n])) =
     (if r = i then map (\<lambda>k. (i, j, k)) ks else [])"
proof (induction n)
  case (Suc n)
  have f: "filter (at_entry i j) (map (\<lambda>k. (r, m, k)) ks) =
      (if r = i \<and> m = j then map (\<lambda>k. (i, j, k)) ks else [])" for m
    by (auto simp: filter_map o_def)
  have "filter (at_entry i j) (concat (map (\<lambda>j. map (\<lambda>k. (r, j, k)) ks) [0..<n])) = []" if "j = n"
    using that by (auto simp: filter_empty_conv)
  then show ?case using Suc f by (auto simp: less_Suc_eq)
qed simp

lemma filter_loops:
  assumes "distinct rows" and "j < n"
  shows "filter (at_entry i j) (mul_loops n rows) =
     (if i \<in> set rows then map (\<lambda>k. (i, j, k)) [0..<n] else [])"
  using assms(1)
  by (induction rows) (auto simp: mul_loops_def filter_row [OF assms(2)])

lemma loops_entry:
  assumes "distinct rows" and "j < n" and "i \<in> set rows" and "m i j = Value 0"
  shows "fold (mul_step a b) (mul_loops n rows) m i j = dot a b n i j"
  using assms by (simp add: fold_mul_step filter_loops dot_def o_def)

lemma prcs_matrixmul_entry: "i < N \<Longrightarrow> j < N \<Longrightarrow> prcs_matrixmul a b i j = dot a b N i j"
  unfolding prcs_matrixmul_def by (rule loops_entry) (simp_all add: zeros_def)

text \<open>As long as every product and every partial sum is in range, the entry is the sum of the products.\<close>

lemma dot_sum:
  assumes "\<forall>k < n. is_int (a i k * b k j)" and "\<forall>m \<le> n. is_int (\<Sum>k<m. a i k * b k j)"
  shows "dot a b n i j = Value (\<Sum>k<n. a i k * b k j)"
  using assms
proof (induction n)
  case (Suc n)
  then have "dot a b n i j = Value (\<Sum>k<n. a i k * b k j)" by simp
  moreover have "is_int (\<Sum>k<Suc n. a i k * b k j)" using Suc.prems(2) by blast
  ultimately show ?case using Suc.prems(1) by (simp add: dot_def multiply_add_def)
qed (simp add: dot_def)

section \<open>The threads\<close>

text \<open>The rows of thread \<open>t\<close>.\<close>

definition rows_part :: "nat \<Rightarrow> mstore \<Rightarrow> nat \<Rightarrow> nat \<Rightarrow> int outcome" where
  "rows_part t s = (\<lambda>i. if i div (N div NCORES) = t then c s i else zeros i)"

lemma rows_part_step:
  "i div (N div NCORES) = t \<Longrightarrow>
     rows_part u (s\<lparr>c := mul_step a b (i, j, k) (c s)\<rparr>) =
       (if u = t then mul_step a b (i, j, k) (rows_part t s) else rows_part u s)"
  by (auto simp: rows_part_def mul_step_def)

lemma thread_rows_div: "i \<in> set (thread_rows (t * (N div NCORES))) \<longleftrightarrow> i div (N div NCORES) = t"
  by (auto simp: thread_rows_def N_def NCORES_def)

lemma mul_loops_row: "(i, j, k) \<in> set (mul_loops n rows) \<Longrightarrow> i \<in> set rows"
  by (auto simp: mul_loops_def)

interpretation thrd: fork_join "thrd_matrixmul a b" rows_part "\<lambda>t m. m"
    "\<lambda>t. map (mul_step a b) (mul_loops N (thread_rows (t * (N div NCORES))))" "\<lambda>t m. m"
proof
  fix t u k s
  assume "k < length (body (thrd_matrixmul a b) t)"
  then have k: "k < length (mul_loops N (thread_rows (t * (N div NCORES))))"
    by (simp add: thrd_matrixmul_def threadfun_def)
  obtain i j l where ijk: "mul_loops N (thread_rows (t * (N div NCORES))) ! k = (i, j, l)" by (cases rule: prod_cases3)
  then have "i div (N div NCORES) = t"
    using nth_mem [OF k] mul_loops_row thread_rows_div by metis
  then show "rows_part u ((body (thrd_matrixmul a b) t ! k) s) =
      (if u = t then (map (mul_step a b) (mul_loops N (thread_rows (t * (N div NCORES)))) ! k) (rows_part t s)
       else rows_part u s)"
    using k ijk by (simp add: thrd_matrixmul_def threadfun_def rows_part_step)
qed (auto simp: thrd_matrixmul_def NCORES_def threadfun_def rows_part_def)



end
