(* ===== verification/Processes.thy ===== *)
theory Processes
  imports Common File_Copy
begin

text \<open>
  Processes that fork: a table of processes that run the same program, each with variables of its own, under
  any schedule, with \<open>wait\<close>, exit statuses and zombies, and with one open file that they share.
\<close>

section \<open>Programs\<close>

text \<open>
  A program is a function from its points of control, which also hold its variables, to what it does there.
  \<open>Say\<close> prints lines, given its process id; \<open>Wait\<close> goes on with the child that ended and its status, or with
  \<open>None\<close> when there is no child; \<open>Pause\<close> sleeps for ever (or as long as we look).
\<close>

datatype 'q act =
    Fork "int \<Rightarrow> 'q"
  | Say "int \<Rightarrow> string list" 'q
  | Wait "(int \<times> nat) option \<Rightarrow> 'q"
  | Lseek nat 'q
  | Write string 'q
  | Nocldwait 'q
  | Pause
  | Exits int

text \<open>
  \<open>pids\<close> are all processes there have been, \<open>running\<close> those that run, with the lines they are about to print,
  \<open>zombie\<close> those that have ended and have not been waited for, with their status. \<open>ppid\<close> is 1 when the parent has ended.
  \<open>nocldwait\<close> says that children of a process do not become zombies.
\<close>

record 'q psys =
  pids :: "int list"
  running :: "int \<Rightarrow> (string list \<times> 'q) option"
  ppid :: "int \<Rightarrow> int"
  zombie :: "int \<Rightarrow> nat option"
  nocldwait :: "int \<Rightarrow> bool"
  fresh_pid :: int
  printed :: "(int \<times> string) list"
  content :: string
  offset :: nat

definition init_process :: "int \<Rightarrow> 'q \<Rightarrow> 'q psys" where
  "init_process p q =
     \<lparr>pids = [p], running = [p \<mapsto> ([], q)], ppid = (\<lambda>c. 1), zombie = Map.empty, nocldwait = (\<lambda>c. False),
      fresh_pid = p + 1, printed = [], content = [], offset = 0\<rparr>"

definition kids_of :: "'q psys \<Rightarrow> int \<Rightarrow> int list" where
  "kids_of s p = filter (\<lambda>c. ppid s c = p \<and> (running s c \<noteq> None \<or> zombie s c \<noteq> None)) (pids s)"

text \<open>A process ends with a status: its zombies go, its children get process 1 as their parent.\<close>

definition end_process :: "int \<Rightarrow> nat \<Rightarrow> 'q psys \<Rightarrow> 'q psys" where
  "end_process p n s =
     s\<lparr>running := (running s)(p := None),
       zombie := (\<lambda>c. if c = p then (if running s (ppid s p) = None \<or> nocldwait s (ppid s p) then None else Some n)
                     else if ppid s c = p then None else zombie s c),
       ppid := (\<lambda>c. if ppid s c = p then 1 else ppid s c)\<rparr>"

definition goes_to :: "int \<Rightarrow> 'q \<Rightarrow> 'q psys \<Rightarrow> 'q psys" where
  "goes_to p q s = s\<lparr>running := (running s)(p \<mapsto> ([], q))\<rparr>"

definition perform :: "int \<Rightarrow> 'q act \<Rightarrow> 'q psys \<Rightarrow> 'q psys" where
  "perform p a s =
     (case a of
        Fork k \<Rightarrow>
          s\<lparr>pids := pids s @ [fresh_pid s],
            running := (running s)(p \<mapsto> ([], k (fresh_pid s)), fresh_pid s \<mapsto> ([], k 0)),
            ppid := (ppid s)(fresh_pid s := p), fresh_pid := fresh_pid s + 1\<rparr>
      | Say f q \<Rightarrow> s\<lparr>running := (running s)(p \<mapsto> (f p, q))\<rparr>
      | Wait k \<Rightarrow> if kids_of s p = [] then goes_to p (k None) s else s
      | Lseek n q \<Rightarrow> (goes_to p q s)\<lparr>offset := n\<rparr>
      | Write d q \<Rightarrow> (goes_to p q s)\<lparr>content := write_at (offset s) d (content s), offset := offset s + length d\<rparr>
      | Nocldwait q \<Rightarrow> (goes_to p q s)\<lparr>nocldwait := (nocldwait s)(p := True)\<rparr>
      | Pause \<Rightarrow> s
      | Exits n \<Rightarrow> end_process p (nat (n mod 256) * 256) s)"

text \<open>
  A process does its next step, its \<open>fork\<close> fails, its \<open>wait\<close> gets the status of a child, a signal \<open>sig\<close> from outside
  ends it. An event that is not possible changes nothing.
\<close>

datatype pevent = Runs int | Fork_fails int | Reaps int int | Killed int nat

fun sys_event :: "('q \<Rightarrow> 'q act) \<Rightarrow> pevent \<Rightarrow> 'q psys \<Rightarrow> 'q psys" where
  "sys_event code (Runs p) s =
     (case running s p of
        None \<Rightarrow> s
      | Some (l # ls, q) \<Rightarrow> s\<lparr>running := (running s)(p \<mapsto> (ls, q)), printed := printed s @ [(p, l)]\<rparr>
      | Some ([], q) \<Rightarrow> perform p (code q) s)"
| "sys_event code (Fork_fails p) s =
     (case running s p of
        Some ([], q) \<Rightarrow> (case code q of Fork k \<Rightarrow> goes_to p (k (-1)) s | _ \<Rightarrow> s)
      | _ \<Rightarrow> s)"
| "sys_event code (Reaps p c) s =
     (case (running s p, zombie s c) of
        (Some ([], q), Some n) \<Rightarrow>
          (case code q of
             Wait k \<Rightarrow>
               if ppid s c = p then (goes_to p (k (Some (c, n))) s)\<lparr>zombie := (zombie s)(c := None)\<rparr> else s
           | _ \<Rightarrow> s)
      | _ \<Rightarrow> s)"
| "sys_event code (Killed p sig) s =
     (if running s p = None \<or> sig \<notin> {1..64} then s else end_process p sig s)"

definition sys_run :: "('q \<Rightarrow> 'q act) \<Rightarrow> pevent list \<Rightarrow> 'q psys \<Rightarrow> 'q psys" where
  "sys_run code evs s = fold (sys_event code) evs s"

lemma sys_run_simps [simp]:
  "sys_run code [] s = s" "sys_run code (ev # evs) s = sys_run code evs (sys_event code ev s)"
  "sys_run code (evs @ evs') s = sys_run code evs' (sys_run code evs s)"
  by (simp_all add: sys_run_def)

lemma sys_run_invariant:
  assumes "I s" and "\<And>s ev. I s \<Longrightarrow> ok ev \<Longrightarrow> I (sys_event code ev s)" and "list_all ok evs"
  shows "I (sys_run code evs s)"
  using assms(1,3) by (induction evs arbitrary: s) (simp_all add: assms(2))

section \<open>The table is well formed\<close>

text \<open>
  Process ids are distinct and below the next one; only processes that have been created run or are zombies, no
  process is both; the parent of a zombie runs; a parent that runs was created before its child.
\<close>

definition sys_wf :: "'q psys \<Rightarrow> bool" where
  "sys_wf s \<longleftrightarrow>
     1 < fresh_pid s \<and> distinct (pids s) \<and> (\<forall>p \<in> set (pids s). 1 < p \<and> p < fresh_pid s) \<and>
     (\<forall>c. running s c \<noteq> None \<longrightarrow> c \<in> set (pids s) \<and> zombie s c = None) \<and>
     (\<forall>c. zombie s c \<noteq> None \<longrightarrow> c \<in> set (pids s) \<and> running s (ppid s c) \<noteq> None) \<and>
     (\<forall>c. c \<in> set (pids s) \<longrightarrow> ppid s c < c \<and> (ppid s c = 1 \<or> ppid s c \<in> set (pids s))) \<and>
     (\<forall>c. c \<notin> set (pids s) \<longrightarrow> ppid s c = 1)"

lemma init_wf: "1 < p \<Longrightarrow> sys_wf (init_process p q)"
  by (simp add: sys_wf_def init_process_def)

lemma sys_wfD:
  assumes "sys_wf s"
  shows "running s c \<noteq> None \<Longrightarrow> c \<in> set (pids s)" "running s c \<noteq> None \<Longrightarrow> zombie s c = None"
    "zombie s c \<noteq> None \<Longrightarrow> c \<in> set (pids s)" "zombie s c \<noteq> None \<Longrightarrow> running s (ppid s c) \<noteq> None"
    "c \<in> set (pids s) \<Longrightarrow> 1 < c" "c \<in> set (pids s) \<Longrightarrow> ppid s c < c" "c \<in> set (pids s) \<Longrightarrow> c < fresh_pid s"
  using assms by (simp_all add: sys_wf_def)

lemma init_not_running: "sys_wf s \<Longrightarrow> running s 1 = None"
  using sys_wfD(1,5) by (metis less_irrefl)

lemma fresh_unused:
  assumes "sys_wf s"
  shows "fresh_pid s \<notin> set (pids s)" "running s (fresh_pid s) = None" "zombie s (fresh_pid s) = None"
    "ppid s c \<noteq> fresh_pid s"
proof -
  show f: "fresh_pid s \<notin> set (pids s)" using sys_wfD(7) [OF assms] by blast
  then show "running s (fresh_pid s) = None" "zombie s (fresh_pid s) = None"
    using sys_wfD(1,3) [OF assms] by blast+
  show "ppid s c \<noteq> fresh_pid s" using f assms unfolding sys_wf_def by (metis less_irrefl)
qed

lemma end_process_wf:
  assumes "sys_wf s" and "running s p \<noteq> None"
  shows "sys_wf (end_process p n s)"
proof -
  have "p \<in> set (pids s)" using sys_wfD(1) assms by blast
  then have "ppid s p \<noteq> p" "p \<noteq> 1" using sys_wfD(5,6) [OF assms(1)] by fastforce+
  then show ?thesis using assms unfolding sys_wf_def end_process_def by (auto split: if_splits)
qed

lemma running_wf:
  assumes "sys_wf s" and "running s p \<noteq> None"
  shows "sys_wf (s\<lparr>running := (running s)(p \<mapsto> x)\<rparr>)"
  using assms unfolding sys_wf_def by auto

lemma fork_wf:
  assumes "sys_wf s" and "running s p \<noteq> None"
  shows "sys_wf (perform p (Fork k) s)"
proof -
  have "p \<in> set (pids s)" using sys_wfD(1) assms by blast
  moreover have "p < fresh_pid s" using sys_wfD(7) [OF assms(1)] calculation by blast
  ultimately show ?thesis
    using assms fresh_unused [OF assms(1)] unfolding sys_wf_def perform_def
    by (auto simp: less_Suc_eq add_strict_increasing2)
qed

lemma reap_wf: "sys_wf s \<Longrightarrow> sys_wf (s\<lparr>zombie := (zombie s)(c := None)\<rparr>)"
  by (auto simp: sys_wf_def)

lemma unrelated_wf [simp]:
  "sys_wf (s\<lparr>printed := x\<rparr>) = sys_wf s" "sys_wf (s\<lparr>offset := n\<rparr>) = sys_wf s"
  "sys_wf (s\<lparr>content := t\<rparr>) = sys_wf s" "sys_wf (s\<lparr>nocldwait := b\<rparr>) = sys_wf s"
  by (simp_all add: sys_wf_def)

lemma perform_wf:
  assumes "sys_wf s" and "running s p \<noteq> None"
  shows "sys_wf (perform p a s)"
proof (cases a)
  case (Fork k)
  then show ?thesis using fork_wf [OF assms] by simp
qed (use assms in \<open>simp_all add: perform_def goes_to_def end_process_wf running_wf\<close>)

lemma event_wf: "sys_wf s \<Longrightarrow> sys_wf (sys_event code ev s)"
proof (cases ev)
  case (Runs p)
  assume wf: "sys_wf s"
  show ?thesis
  proof (cases "running s p")
    case (Some x)
    then show ?thesis using wf Runs perform_wf [OF wf, of p] running_wf [OF wf, of p]
      by (auto split: prod.split list.split)
  qed (use wf Runs in simp)
next
  case (Reaps p c)
  assume wf: "sys_wf s"
  have "sys_wf ((goes_to p q s)\<lparr>zombie := (zombie s)(c := None)\<rparr>)" if "running s p \<noteq> None" for q
    using reap_wf [OF running_wf [OF wf that], of "([], q)" c] by (simp add: goes_to_def)
  then show ?thesis using wf Reaps by (auto split: option.split prod.split list.split act.split)
qed (auto simp: goes_to_def running_wf end_process_wf split: option.split prod.split list.split act.split)

lemma run_wf: "sys_wf s \<Longrightarrow> sys_wf (sys_run code evs s)"
  by (rule sys_run_invariant [where ok = "\<lambda>ev. True"]) (simp_all add: event_wf list_all_iff)

text \<open>A quantity summed over the processes when one of them changes.\<close>

lemma sum_update:
  fixes h :: "'b \<Rightarrow> nat"
  assumes "finite A" and "p \<in> A"
  shows "(\<Sum>x\<in>A. h ((f(p := y)) x)) + h (f p) = (\<Sum>x\<in>A. h (f x)) + h y"
proof -
  have "(\<Sum>x\<in>A. h ((f(p := y)) x)) = h y + (\<Sum>x\<in>A - {p}. h (f x))"
    using assms by (subst sum.remove [of _ p]) (auto intro: sum.cong)
  moreover have "(\<Sum>x\<in>A. h (f x)) = h (f p) + (\<Sum>x\<in>A - {p}. h (f x))"
    using assms by (rule sum.remove)
  ultimately show ?thesis by simp
qed

lemma sum_fork:
  fixes h :: "'b \<Rightarrow> nat"
  assumes "finite A" and "p \<in> A" and "c \<notin> A"
  shows "(\<Sum>x\<in>insert c A. h ((f(p := y, c := z)) x)) + h (f p) = (\<Sum>x\<in>A. h (f x)) + h y + h z"
proof -
  have "(\<Sum>x\<in>A. h ((f(p := y, c := z)) x)) = (\<Sum>x\<in>A. h ((f(p := y)) x))"
    using assms(3) by (intro sum.cong) auto
  then have "(\<Sum>x\<in>insert c A. h ((f(p := y, c := z)) x)) = h z + (\<Sum>x\<in>A. h ((f(p := y)) x))"
    using assms(1,3) by (subst sum.insert) simp_all
  then show ?thesis using sum_update [OF assms(1,2), of h f y] by simp
qed

text \<open>The lines that process \<open>p\<close> has printed.\<close>

definition lines_of :: "'q psys \<Rightarrow> int \<Rightarrow> string list" where
  "lines_of s p = map snd (filter (\<lambda>x. fst x = p) (printed s))"

lemma lines_of_simps [simp]:
  "lines_of (s\<lparr>running := r\<rparr>) p = lines_of s p" "lines_of (s\<lparr>zombie := z\<rparr>) p = lines_of s p"
  "lines_of (s\<lparr>printed := printed s @ [(c, l)]\<rparr>) p = lines_of s p @ (if c = p then [l] else [])"
  "lines_of (goes_to c q s) p = lines_of s p" "lines_of (end_process c n s) p = lines_of s p"
  by (simp_all add: lines_of_def goes_to_def end_process_def)

lemma lines_of_print [simp]:
  "lines_of (s\<lparr>running := r, printed := printed s @ [(c, l)]\<rparr>) p = lines_of s p @ (if c = p then [l] else [])"
  by (simp add: lines_of_def)

section \<open>Invariants of programs\<close>

text \<open>
  What a program has to show for an invariant \<open>I\<close> under the events that satisfy \<open>ok\<close>: it is kept by each kind of
  change of the table.
\<close>

locale program_invariant =
  fixes code :: "'q \<Rightarrow> 'q act" and I :: "'q psys \<Rightarrow> bool" and ok :: "pevent \<Rightarrow> bool"
  assumes prints: "I s \<Longrightarrow> running s p = Some (l # ls, q) \<Longrightarrow>
      I (s\<lparr>running := (running s)(p \<mapsto> (ls, q)), printed := printed s @ [(p, l)]\<rparr>)"
    and acts: "I s \<Longrightarrow> running s p = Some ([], q) \<Longrightarrow> I (perform p (code q) s)"
    and fork_fails: "I s \<Longrightarrow> ok (Fork_fails p) \<Longrightarrow> running s p = Some ([], q) \<Longrightarrow> code q = Fork k \<Longrightarrow>
      I (goes_to p (k (-1)) s)"
    and reaps: "I s \<Longrightarrow> running s p = Some ([], q) \<Longrightarrow> code q = Wait w \<Longrightarrow> zombie s c = Some n \<Longrightarrow> ppid s c = p \<Longrightarrow>
      I ((goes_to p (w (Some (c, n))) s)\<lparr>zombie := (zombie s)(c := None)\<rparr>)"
    and killed: "I s \<Longrightarrow> ok (Killed p sig) \<Longrightarrow> running s p \<noteq> None \<Longrightarrow> sig \<in> {1..64} \<Longrightarrow> I (end_process p sig s)"
begin

lemma kept:
  assumes "I s" and "ok ev"
  shows "I (sys_event code ev s)"
proof (cases ev)
  case (Runs p)
  then show ?thesis
    using assms prints [OF assms(1), of p] acts [OF assms(1), of p]
    by (auto split: option.split prod.split list.split)
next
  case (Fork_fails p)
  then show ?thesis
    using assms fork_fails [OF assms(1), of p] by (auto split: option.split prod.split list.split act.split)
next
  case (Reaps p c)
  then show ?thesis
    using assms(1) reaps [OF assms(1), of p] by (auto split: option.split prod.split list.split act.split)
next
  case (Killed p sig)
  then show ?thesis using assms killed [OF assms(1), of p sig] by auto
qed

lemma always: "I s \<Longrightarrow> list_all ok evs \<Longrightarrow> I (sys_run code evs s)"
  by (rule sys_run_invariant [where I = I and ok = ok]) (simp_all add: kept)

end

section \<open>What a process prints\<close>

text \<open>No \<open>fork\<close> fails and no process is killed.\<close>

fun undisturbed :: "pevent \<Rightarrow> bool" where
  "undisturbed (Fork_fails p) = False"
| "undisturbed (Killed p sig) = False"
| "undisturbed _ = True"

text \<open>
  Programs in which it is known at some point what the process will print from there on: \<open>rest q p\<close>, which is \<open>None\<close> as
  long as the process still has to fork or to wait.
\<close>

locale line_program =
  fixes code :: "'q \<Rightarrow> 'q act" and rest :: "'q \<Rightarrow> int \<Rightarrow> string list option"
  assumes rest_Say: "code q = Say f q' \<Longrightarrow> rest q p = map_option (\<lambda>ls. f p @ ls) (rest q' p)"
    and rest_Exits: "code q = Exits n \<Longrightarrow> rest q p = Some []"
    and rest_same: "code q = Lseek n' q' \<or> code q = Write d q' \<or> code q = Nocldwait q' \<Longrightarrow> rest q p = rest q' p"
    and rest_Fork: "code q = Fork k \<Longrightarrow> rest q p = None"
    and rest_Wait: "code q = Wait w \<Longrightarrow> rest q p = None"
begin

definition prints_all :: "int \<Rightarrow> string list \<Rightarrow> 'q psys \<Rightarrow> bool" where
  "prints_all p T s \<longleftrightarrow>
     sys_wf s \<and> p \<in> set (pids s) \<and>
     (case running s p of
        None \<Rightarrow> lines_of s p = T
      | Some (ls, q) \<Rightarrow> (case rest q p of None \<Rightarrow> False | Some r \<Rightarrow> lines_of s p @ ls @ r = T))"

lemma prints_all_other:
  assumes "prints_all p T s" and "running t p = running s p" and "lines_of t p = lines_of s p" and "sys_wf t"
    and "set (pids s) \<subseteq> set (pids t)"
  shows "prints_all p T t"
  using assms by (cases "running s p") (auto simp: prints_all_def split: option.splits)

lemma prints_all_own:
  assumes "prints_all p T s" and "running s p = Some ([], q)"
  shows "prints_all p T (perform p (code q) s)"
proof -
  have wf: "sys_wf s" and p: "p \<in> set (pids s)" using assms(1) by (simp_all add: prints_all_def)
  obtain r where r: "rest q p = Some r" "lines_of s p @ r = T"
    using assms by (auto simp: prints_all_def split: option.splits)
  have w: "sys_wf (perform p (code q) s)" using perform_wf [OF wf] assms(2) by simp
  show ?thesis
  proof (cases "code q")
    case (Say f q')
    then show ?thesis using w p r rest_Say [OF Say, of p] by (auto simp: prints_all_def perform_def)
  next
    case (Exits n)
    then show ?thesis
      using w p r rest_Exits [OF Exits, of p] by (simp add: prints_all_def perform_def end_process_def lines_of_def)
  next
    case (Lseek n q')
    then show ?thesis using w p r rest_same [of q n q' _ p] by (simp add: prints_all_def perform_def goes_to_def lines_of_def)
  next
    case (Write d q')
    then show ?thesis using w p r rest_same [of q _ q' d p] by (simp add: prints_all_def perform_def goes_to_def lines_of_def)
  next
    case (Nocldwait q')
    then show ?thesis using w p r rest_same [of q _ q' _ p] by (simp add: prints_all_def perform_def goes_to_def lines_of_def)
  next
    case Pause
    then show ?thesis using assms(1) by (simp add: perform_def)
  next
    case (Fork k)
    then show ?thesis using rest_Fork r(1) by simp
  next
    case (Wait w')
    then show ?thesis using rest_Wait r(1) by simp
  qed
qed

lemma perform_other:
  assumes "sys_wf s" and "p \<in> set (pids s)" and "c \<noteq> p"
  shows "running (perform c a s) p = running s p" and "lines_of (perform c a s) p = lines_of s p"
    and "set (pids s) \<subseteq> set (pids (perform c a s))"
  using assms fresh_unused(1) [OF assms(1)]
  by (cases a; auto simp: perform_def goes_to_def end_process_def lines_of_def)+

end

sublocale line_program \<subseteq> told: program_invariant code "prints_all p T" undisturbed for p T
proof
  fix s c l ls q
  assume a: "prints_all p T s" "running s c = Some (l # ls, q)"
  let ?t = "s\<lparr>running := (running s)(c \<mapsto> (ls, q)), printed := printed s @ [(c, l)]\<rparr>"
  have wf: "sys_wf ?t" using a running_wf [of s c "(ls, q)"] by (simp add: prints_all_def)
  show "prints_all p T ?t"
  proof (cases "c = p")
    case True
    then show ?thesis using a wf by (auto simp: prints_all_def split: option.splits)
  next
    case False
    then show ?thesis using prints_all_other [OF a(1), of ?t] wf by simp
  qed
next
  fix s c q
  assume a: "prints_all p T s" "running s c = Some ([], q)"
  show "prints_all p T (perform c (code q) s)"
  proof (cases "c = p")
    case True
    then show ?thesis using prints_all_own a by simp
  next
    case False
    have s: "sys_wf s" "p \<in> set (pids s)" using a(1) by (simp_all add: prints_all_def)
    show ?thesis
      using prints_all_other [OF a(1)] perform_other [OF s False] perform_wf [OF s(1), of c] a(2) by simp
  qed
next
  fix s c q w d n
  assume a: "prints_all p T s" "running s c = Some ([], q)" "code q = Wait w" "zombie s d = Some n"
  have "c \<noteq> p" using a rest_Wait by (auto simp: prints_all_def)
  moreover have "sys_wf ((goes_to c (w (Some (d, n))) s)\<lparr>zombie := (zombie s)(d := None)\<rparr>)"
    using reap_wf [OF running_wf [of s c], of "([], w (Some (d, n)))" d] a(1,2) by (simp add: prints_all_def goes_to_def)
  ultimately show "prints_all p T ((goes_to c (w (Some (d, n))) s)\<lparr>zombie := (zombie s)(d := None)\<rparr>)"
    using a(1) by (intro prints_all_other [OF a(1)]) (simp_all add: goes_to_def lines_of_def)
qed simp_all

text \<open>A program that forks once: what each of the two processes prints does not depend on the schedule.\<close>

context line_program
begin

lemma fork_once:
  assumes "code q = Fork k" and "rest (k (p + 1)) p = Some T" and "rest (k 0) (p + 1) = Some T'" and "1 < p"
    and "list_all undisturbed evs" and "s = sys_run code evs (init_process p q)"
  shows "s = init_process p q \<or> prints_all p T s \<and> prints_all (p + 1) T' s"
  using assms(5,6)
proof (induction evs arbitrary: s rule: rev_induct)
  case (snoc ev evs)
  define t where "t = sys_run code evs (init_process p q)"
  have s: "s = sys_event code ev t" and ok: "undisturbed ev" using snoc.prems by (simp_all add: t_def)
  from snoc.IH [OF _ t_def] snoc.prems(1) consider "t = init_process p q" | "prints_all p T t" "prints_all (p + 1) T' t"
    by auto
  then show ?case
  proof cases
    case 1
    have wf: "sys_wf s" unfolding s 1 by (intro event_wf init_wf assms(4))
    show ?thesis
    proof (cases "ev = Runs p")
      case True
      then show ?thesis
        using wf assms(1-4) unfolding s 1
        by (simp add: init_process_def perform_def prints_all_def lines_of_def)
    next
      case False
      then show ?thesis using ok unfolding s 1 by (cases ev) (simp_all add: init_process_def)
    qed
  next
    case 2
    then show ?thesis using told.kept ok by (simp add: s)
  qed
qed simp

lemma fork_once_lines:
  assumes "code q = Fork k" and "rest (k (p + 1)) p = Some T" and "rest (k 0) (p + 1) = Some T'" and "1 < p"
    and "list_all undisturbed evs" and "s = sys_run code evs (init_process p q)"
  shows "(running s p = None \<longrightarrow> lines_of s p = T) \<and>
    (p + 1 \<in> set (pids s) \<and> running s (p + 1) = None \<longrightarrow> lines_of s (p + 1) = T')"
  using fork_once [OF assms] by (auto simp: prints_all_def init_process_def)

end

end
