(* ===== verification/Fork_Programs.thy ===== *)
theory Fork_Programs
  imports Processes
begin

text \<open>
  Programs that fork, of chapters 10 and 11 of the book and of its solutions: \<open>smallbomb.c\<close>, \<open>forkbomb.c\<close>,
  \<open>fork2c.c\<close>, \<open>zombie.c\<close>, \<open>zombies_clear_linux26.c\<close>, \<open>fork5.c\<close>, \<open>fork_malloc_test.c\<close> and \<open>fork_r6_of.c\<close>.
  What \<open>FATAL\<close> and \<open>perror\<close> print is left out.
\<close>

section \<open>A small fork bomb\<close>

text \<open>\<open>n\<close> uses of \<open>FORK_AND_PRINT\<close> to go, or inside one, with the result of \<open>fork\<close> and \<open>n\<close> to go after it.\<close>

datatype smallbomb = SB_Fork nat | SB_Check int nat

fun smallbomb_code :: "smallbomb \<Rightarrow> smallbomb act" where
  "smallbomb_code (SB_Fork 0) = Pause"
| "smallbomb_code (SB_Fork (Suc n)) = Fork (\<lambda>r. SB_Check r n)"
| "smallbomb_code (SB_Check r n) =
     (if r < 0 then Exits EXIT_FAILURE else Say (\<lambda>pid. [''PID '' @ show_int pid @ [LF]]) (SB_Fork n))"

definition smallbomb_main :: "int \<Rightarrow> smallbomb psys" where
  "smallbomb_main p = init_process p (SB_Fork 3)"

section \<open>A fork bomb with limits\<close>

text \<open>
  \<open>i\<close> is the variable of the loop, \<open>num\<close> its limit, which is the first argument and not the second. The result of
  \<open>setup_rlimits\<close> is not used; the memory that each process allocates is taken to be there. A sleep of a month is
  a \<open>Pause\<close>.
\<close>

definition setup_rlimits :: "int \<Rightarrow> int \<Rightarrow> int" where
  "setup_rlimits prlimit_nproc prlimit_data =
     (if prlimit_nproc = -1 then -1 else if prlimit_data = -1 then -1 else 0)"

datatype forkbomb = FB_Loop nat | FB_Check int nat | FB_Sleep

definition indent :: "nat \<Rightarrow> int \<Rightarrow> string" where
  "indent i pid = replicate (i mod 80 div 2) (CHR '' '') @ ''| [i='' @ show_nat i @ '', PID '' @ show_int pid @ '']'' @ [LF]"

fun forkbomb_code :: "nat \<Rightarrow> forkbomb \<Rightarrow> forkbomb act" where
  "forkbomb_code num (FB_Loop i) = (if i \<le> num then Fork (\<lambda>r. FB_Check r i) else Exits EXIT_SUCCESS)"
| "forkbomb_code num (FB_Check cpid i) =
     (if cpid < 0 then Exits EXIT_FAILURE
      else if cpid \<noteq> 0 then Say (\<lambda>pid. [indent i pid]) FB_Sleep
      else Say (\<lambda>pid. []) (FB_Loop (Suc i)))"
| "forkbomb_code num FB_Sleep = Pause"

definition forkbomb_main :: "int \<Rightarrow> string list \<Rightarrow> (nat \<times> forkbomb psys) outcome" where
  "forkbomb_main p argv =
     (if length argv \<noteq> 3 then Exit EXIT_FAILURE
      else
        let maxtasks = atoi (argv ! 1); num = atoi (argv ! 1) in
        if maxtasks = 0 then Exit EXIT_FAILURE
        else if num < 1 then Exit EXIT_FAILURE
        else Value (nat num, init_process p (FB_Loop 1)))"

section \<open>Two children\<close>

text \<open>The macros of \<open>wait(2)\<close> on a status word.\<close>

definition WTERMSIG :: "nat \<Rightarrow> nat" where "WTERMSIG st = st mod 128"
definition WEXITSTATUS :: "nat \<Rightarrow> nat" where "WEXITSTATUS st = st div 256 mod 256"
definition WIFEXITED :: "nat \<Rightarrow> nat" where "WIFEXITED st = of_bool (WTERMSIG st = 0)"
definition WIFSIGNALED :: "nat \<Rightarrow> nat" where "WIFSIGNALED st = of_bool (WTERMSIG st \<noteq> 0 \<and> WTERMSIG st \<noteq> 127)"
definition WIFSTOPPED :: "nat \<Rightarrow> nat" where "WIFSTOPPED st = of_bool (st mod 256 = 127)"
definition WCOREDUMP :: "nat \<Rightarrow> nat" where "WCOREDUMP st = (if st div 128 mod 2 = 1 then 128 else 0)"
definition WIFCONTINUED :: "nat \<Rightarrow> nat" where "WIFCONTINUED st = of_bool (st = 65535)"

definition displayChildStatus :: "nat \<Rightarrow> int \<Rightarrow> string" where
  "displayChildStatus st cpid =
     [LF] @ ''Child '' @ show_int cpid @ '' just died!'' @ [LF] @
     ''WIFEXITED : '' @ show_nat (WIFEXITED st) @ [LF] @
     ''Exit status: '' @ show_nat (WEXITSTATUS st) @ [LF] @
     ''WIFSIGNALED : '' @ show_nat (WIFSIGNALED st) @ [LF] @
     ''Termination signal: '' @ show_nat (WTERMSIG st) @ [LF] @
     ''WIFSTOPPED : '' @ show_nat (WIFSTOPPED st) @ [LF] @
     ''Stop signal: '' @ show_nat (WEXITSTATUS st) @ [LF] @
     ''WCOREDUMP: '' @ show_nat (WCOREDUMP st) @ [LF] @
     ''WIFCONTINUED: '' @ show_nat (WIFCONTINUED st) @ [LF]"

definition chkrange :: "int \<Rightarrow> int \<Rightarrow> int \<Rightarrow> int" where
  "chkrange num mn mx = (if num < mn then -2 else if num > mx then -3 else 0)"

text \<open>\<open>C2_Nap\<close> is a child asleep, \<open>C2_Wait\<close> the parent in its loop, \<open>C2_Show\<close> when it has got a status.\<close>

datatype fork2c = C2_Main | C2_First int | C2_Second int | C2_Nap | C2_Wait | C2_Show int nat | C2_Dead | C2_Over

definition nap_line :: "string \<Rightarrow> int \<Rightarrow> nat \<Rightarrow> string" where
  "nap_line n pid t = ''Child '' @ n @ '' PID '' @ show_int pid @ '' sleeping for '' @ show_nat t @ ''s...'' @ [LF]"

definition all_dead :: string where
  "all_dead = [LF] @ ''Parent: all children dead, exiting...'' @ [LF]"

fun fork2c_code :: "nat \<Rightarrow> nat \<Rightarrow> fork2c \<Rightarrow> fork2c act" where
  "fork2c_code c1 c2 C2_Main = Fork C2_First"
| "fork2c_code c1 c2 (C2_First r) =
     (if r = -1 then Exits 1
      else if r = 0 then Say (\<lambda>pid. [nap_line ''1'' pid c1]) C2_Nap
      else Fork C2_Second)"
| "fork2c_code c1 c2 (C2_Second r) =
     (if r = -1 then Exits 1
      else if r = 0 then Say (\<lambda>pid. [nap_line ''2'' pid c2]) C2_Nap
      else Say (\<lambda>pid. []) C2_Wait)"
| "fork2c_code c1 c2 C2_Nap = Exits 0"
| "fork2c_code c1 c2 C2_Wait = Wait (\<lambda>r. case r of None \<Rightarrow> C2_Dead | Some (c, st) \<Rightarrow> C2_Show c st)"
| "fork2c_code c1 c2 (C2_Show c st) = Say (\<lambda>pid. [displayChildStatus st c]) C2_Wait"
| "fork2c_code c1 c2 C2_Dead = Say (\<lambda>pid. [all_dead]) C2_Over"
| "fork2c_code c1 c2 C2_Over = Exits EXIT_SUCCESS"

text \<open>The times are of type \<open>unsigned short\<close>: they are cut to 16 bits before they are checked.\<close>

definition fork2c_main :: "int \<Rightarrow> string list \<Rightarrow> (nat \<times> nat \<times> fork2c psys) outcome" where
  "fork2c_main p argv =
     (if length argv = 3 then
        let c1 = to_unsigned 16 (atoi (argv ! 1)); c2 = to_unsigned 16 (atoi (argv ! 2)) in
        if chkrange c1 1 60 < 0 then Exit EXIT_FAILURE
        else if chkrange c2 1 60 < 0 then Exit EXIT_FAILURE
        else Value (nat c1, nat c2, init_process p C2_Main)
      else Value (3, 7, init_process p C2_Main))"

section \<open>Zombies\<close>

datatype zpoint = Z_Main | Z_Switch int | Z_Over

fun zombie_code :: "zpoint \<Rightarrow> zpoint act" where
  "zombie_code Z_Main = Fork Z_Switch"
| "zombie_code (Z_Switch p) =
     (if p = -1 then Exits EXIT_FAILURE
      else if p = 0 then
        Say (\<lambda>pid. [''Child pid '' @ show_int pid @ '' : p=0; exiting now ...'' @ [LF]]) Z_Over
      else
        Say (\<lambda>pid. [''Parent pid '' @ show_int pid @ '' : p='' @ show_int p @
            ''; sleeping now for 300s withoutwait()-ing (resulting in a zombie!)..'' @ [LF],
          ''Parent: sleep done, exiting. Notice how (on Linux) the zombie is now cleared!'' @ [LF]]) Z_Over)"
| "zombie_code Z_Over = Exits EXIT_SUCCESS"

definition zombie_main :: "int \<Rightarrow> zpoint psys" where
  "zombie_main p = init_process p Z_Main"

datatype zcpoint = ZC_Main | ZC_Say | ZC_Fork | ZC_Switch int | ZC_Pause | ZC_Over

text \<open>
  With option 1 the flag \<open>SA_NOCLDWAIT\<close>, with option 2 ignoring \<open>SIGCHLD\<close> keeps children from becoming zombies. The
  handler of option 1, which prints a line, is left out.
\<close>

fun zombies_clear_code :: "zcpoint \<Rightarrow> zcpoint act" where
  "zombies_clear_code ZC_Main = Nocldwait ZC_Say"
| "zombies_clear_code ZC_Say = Say (\<lambda>pid. [''parent: '' @ show_int pid @ [LF]]) ZC_Fork"
| "zombies_clear_code ZC_Fork = Fork ZC_Switch"
| "zombies_clear_code (ZC_Switch r) =
     (if r = -1 then Exits EXIT_FAILURE
      else if r = 0 then Say (\<lambda>pid. (''child: '' @ show_int pid @ [LF]) # replicate 25 ''c'') ZC_Over
      else Say (\<lambda>pid. []) ZC_Pause)"
| "zombies_clear_code ZC_Pause = Pause"
| "zombies_clear_code ZC_Over = Exits 0"

definition zombies_clear_main :: "int \<Rightarrow> string list \<Rightarrow> bool \<Rightarrow> zcpoint psys outcome" where
  "zombies_clear_main p argv sigaction_ok =
     (if length argv \<noteq> 2 then Exit EXIT_FAILURE
      else if atoi (argv ! 1) \<noteq> 1 \<and> atoi (argv ! 1) \<noteq> 2 then Exit EXIT_FAILURE
      else if \<not> sigaction_ok then FATAL
      else Value (init_process p ZC_Main))"

section \<open>Variables and memory after fork\<close>

text \<open>\<open>loc\<close> and \<open>g\<close> are the local and the global variable.\<close>

datatype fork5 = F5_Main int int | F5_Switch int int int | F5_Child int int | F5_Parent int int | F5_Over

definition vars_line :: "int \<Rightarrow> int \<Rightarrow> string" where
  "vars_line loc g = '' loc='' @ show_int loc @ '' g='' @ show_int g @ [LF]"

fun fork5_code :: "fork5 \<Rightarrow> fork5 act" where
  "fork5_code (F5_Main loc g) = Fork (\<lambda>ret. F5_Switch ret loc g)"
| "fork5_code (F5_Switch ret loc g) =
     (if ret = -1 then Exits EXIT_FAILURE
      else if ret = 0 then Say (\<lambda>pid. [''Child process, PID '' @ show_int pid @ '':'' @ [LF]]) (F5_Child loc g)
      else Say (\<lambda>pid. [''Parent process, PID '' @ show_int pid @ '':'' @ [LF]]) (F5_Parent loc g))"
| "fork5_code (F5_Child loc g) =
     Say (\<lambda>pid. [vars_line (loc + 1) (g - 1), ''Child ('' @ show_int pid @ '') done, exiting ...'' @ [LF]]) F5_Over"
| "fork5_code (F5_Parent loc g) =
     Say (\<lambda>pid. [vars_line (loc - 1) (g + 1), ''Parent ('' @ show_int pid @ '') will exit now...'' @ [LF]]) F5_Over"
| "fork5_code F5_Over = Exits EXIT_SUCCESS"

definition fork5_main :: "int \<Rightarrow> fork5 psys" where
  "fork5_main p = init_process p (F5_Main 8 7)"

text \<open>
  \<open>fork_malloc_test.c\<close>: \<open>mem\<close> is the allocated memory, \<open>None\<close> when it has been freed; \<open>a\<close> are the addresses of the memory
  and the variables as they are printed, which are the same in both processes.
\<close>

datatype forkmem =
    FM_Main "string option" int int
  | FM_Switch int "string option" int int
  | FM_Work bool "string option" int int
  | FM_Over

record addresses =
  a_gptr :: string
  a_loc :: string
  a_g :: string

definition memsz :: nat where "memsz = 2048"

definition disp_few :: "string \<Rightarrow> string \<Rightarrow> string" where
  "disp_few a p = '' malloc gptr='' @ a @ [LF] @ '' '' @ take 16 p @ [LF]"

definition WORK_ON_MEM :: "addresses \<Rightarrow> bool \<Rightarrow> int \<Rightarrow> int \<Rightarrow> string" where
  "WORK_ON_MEM a child loc g =
     (let loc = (if child then loc + 1 else loc - 1); g = (if child then g - 1 else g + 1) in
      '' loc='' @ show_int loc @ '', g='' @ show_int g @ [LF] @ '' &loc='' @ a_loc a @ '', &g='' @ a_g a @ [LF])"

definition work_lines :: "addresses \<Rightarrow> bool \<Rightarrow> bool \<Rightarrow> string option \<Rightarrow> int \<Rightarrow> int \<Rightarrow> int \<Rightarrow> string list" where
  "work_lines a v child mem loc g pid =
     (case mem of None \<Rightarrow> [] | Some m \<Rightarrow> [disp_few (a_gptr a) m]) @
     (if v then [WORK_ON_MEM a child loc g] else []) @
     [if child then ''Child ('' @ show_int pid @ '') done, exiting ...'' @ [LF]
      else ''Parent ('' @ show_int pid @ '') will exit now...'' @ [LF]]"

fun fork_malloc_code :: "addresses \<Rightarrow> bool \<Rightarrow> forkmem \<Rightarrow> forkmem act" where
  "fork_malloc_code a show_vars (FM_Main mem loc g) = Fork (\<lambda>ret. FM_Switch ret mem loc g)"
| "fork_malloc_code a show_vars (FM_Switch ret mem loc g) =
     (if ret = -1 then Exits EXIT_FAILURE
      else if ret = 0 then
        Say (\<lambda>pid. [[LF] @ ''Child process, PID '' @ show_int pid @ '':'' @ [LF]])
          (FM_Work True (map_option (\<lambda>m. replicate memsz (CHR ''c'')) mem) loc g)
      else
        Say (\<lambda>pid. [[LF] @ ''Parent process, PID '' @ show_int pid @ '':'' @ [LF]])
          (FM_Work False (map_option (\<lambda>m. replicate memsz (CHR ''p'')) mem) loc g))"
| "fork_malloc_code a show_vars (FM_Work child mem loc g) = Say (work_lines a show_vars child mem loc g) FM_Over"
| "fork_malloc_code a show_vars FM_Over = Exits EXIT_SUCCESS"

definition fork_malloc_main :: "int \<Rightarrow> string list \<Rightarrow> string option \<Rightarrow> (bool \<times> forkmem psys) outcome" where
  "fork_malloc_main p argv malloc_result =
     (case malloc_result of
        None \<Rightarrow> FATAL
      | Some m \<Rightarrow> Value (1 < length argv, init_process p (FM_Main (Some m) 8 5)))"

section \<open>An open file that is shared\<close>

text \<open>\<open>R6_Lines ch n\<close>: \<open>n\<close> lines of the character \<open>ch\<close> still to be written. Seeking and writing succeed.\<close>

datatype fork_r6 = R6_Main | R6_Switch int | R6_Seek bool | R6_Lines char nat | R6_Over

definition seekto :: nat where "seekto = 10"
definition lnsize :: nat where "lnsize = 80"
definition numlines :: nat where "numlines = 100"

definition file_line :: "char \<Rightarrow> string" where
  "file_line ch = replicate (lnsize - 1) ch @ [LF]"

definition r6_title :: "bool \<Rightarrow> int \<Rightarrow> string" where
  "r6_title child pid = (if child then ''Child process, PID '' else ''Parent process, PID '') @ show_int pid @ '':'' @ [LF]"

fun work_on_file :: "fork_r6 \<Rightarrow> fork_r6 act" where
  "work_on_file (R6_Seek child) =
     (if child then Lseek seekto (R6_Lines (CHR ''c'') numlines)
      else Lseek (seekto + lnsize * numlines) (R6_Lines (CHR ''p'') numlines))"
| "work_on_file (R6_Lines ch (Suc n)) = Write (file_line ch) (R6_Lines ch n)"
| "work_on_file _ = Say (\<lambda>pid. []) R6_Over"

fun do_work :: "fork_r6 \<Rightarrow> fork_r6 act" where
  "do_work R6_Main = Fork R6_Switch"
| "do_work (R6_Switch ret) =
     (if ret = -1 then Exits EXIT_FAILURE
      else Say (\<lambda>pid. [r6_title (ret = 0) pid]) (R6_Seek (ret = 0)))"
| "do_work R6_Over = Exits EXIT_SUCCESS"
| "do_work q = work_on_file q"

definition fork_r6_of_main :: "int \<Rightarrow> string list \<Rightarrow> bool \<Rightarrow> fork_r6 psys outcome" where
  "fork_r6_of_main p argv open_ok =
     (if length argv \<noteq> 2 then Exit EXIT_FAILURE
      else if \<not> open_ok then FATAL
      else Value (init_process p R6_Main))"

section \<open>The small bomb makes eight processes\<close>

text \<open>The processes that a process stands for in the end, itself included, and the lines that are still to come.\<close>

fun sb_procs :: "(string list \<times> smallbomb) option \<Rightarrow> nat" where
  "sb_procs None = 0"
| "sb_procs (Some (ls, SB_Fork n)) = 2 ^ n"
| "sb_procs (Some (ls, SB_Check r n)) = 2 ^ n"

fun sb_lines :: "(string list \<times> smallbomb) option \<Rightarrow> nat" where
  "sb_lines None = 0"
| "sb_lines (Some (ls, SB_Fork n)) = length ls + (2 * 2 ^ n - 2)"
| "sb_lines (Some (ls, SB_Check r n)) = 2 * 2 ^ n - 1"

fun sb_fine :: "(string list \<times> smallbomb) option \<Rightarrow> bool" where
  "sb_fine None = False"
| "sb_fine (Some (ls, SB_Fork n)) = True"
| "sb_fine (Some (ls, SB_Check r n)) = (0 \<le> r \<and> ls = [])"

definition sb_inv :: "smallbomb psys \<Rightarrow> bool" where
  "sb_inv s \<longleftrightarrow>
     sys_wf s \<and> (\<forall>p \<in> set (pids s). sb_fine (running s p)) \<and>
     (\<Sum>p \<in> set (pids s). sb_procs (running s p)) = 8 \<and>
     length (printed s) + (\<Sum>p \<in> set (pids s). sb_lines (running s p)) = 14"

lemma sb_inv_step:
  assumes "sb_inv s" and "running s p = Some x"
  shows "sb_inv (sys_event smallbomb_code (Runs p) s)"
proof -
  have wf: "sys_wf s" using assms(1) by (simp add: sb_inv_def)
  have p: "p \<in> set (pids s)" using sys_wfD(1) [OF wf] assms(2) by blast
  have fin: "finite (set (pids s))" by simp
  note u = sum_update [OF fin p, of _ "running s"] and k = sum_fork [OF fin p fresh_unused(1) [OF wf], of _ "running s"]
  note w = event_wf [OF wf, of smallbomb_code "Runs p"] and f = sys_wfD(5,7) [OF wf]
  obtain ls q where x: "x = (ls, q)" by (cases x)
  have fine: "sb_fine (Some (ls, q))" using assms p x unfolding sb_inv_def by metis
  show ?thesis
  proof (cases ls)
    case (Cons l ls')
    then obtain n where q: "q = SB_Fork n" using fine by (cases q) simp_all
    show ?thesis
      using assms Cons x q w u [of sb_procs "Some (ls', q)"] u [of sb_lines "Some (ls', q)"]
      by (auto simp: sb_inv_def)
  next
    case Nil
    show ?thesis
    proof (cases q)
      case (SB_Check r n)
      let ?y = "Some ([''PID '' @ show_int p @ [LF]], SB_Fork n)"
      have "0 \<le> r" using fine SB_Check by simp
      moreover have "2 * 2 ^ n - Suc 0 = Suc (2 * 2 ^ n - 2)"
        using one_le_power [of "2 :: nat" n] by linarith
      ultimately show ?thesis
        using assms Nil x SB_Check w u [of sb_procs ?y] u [of sb_lines ?y]
        by (auto simp: sb_inv_def perform_def)
    next
      case (SB_Fork m)
      show ?thesis
      proof (cases m)
        case (Suc n)
        let ?y = "Some ([], SB_Check (fresh_pid s) n)" and ?z = "Some ([], SB_Check 0 n)"
        have "0 \<le> fresh_pid s" using f(1,2) [OF p] by linarith
        moreover obtain j where "(2 :: nat) ^ n = Suc j" by (metis not0_implies_Suc power_not_zero zero_neq_numeral)
        ultimately show ?thesis
          using assms Nil x SB_Fork Suc w k [of sb_procs ?y ?z] k [of sb_lines ?y ?z]
          by (auto simp: sb_inv_def perform_def simp del: One_nat_def)
      qed (use assms Nil x SB_Fork in \<open>simp add: perform_def\<close>)
    qed
  qed
qed

interpretation smallbomb: program_invariant smallbomb_code sb_inv undisturbed
proof
  fix s :: "smallbomb psys" and p l ls q
  assume "sb_inv s" and "running s p = Some (l # ls, q)"
  then show "sb_inv (s\<lparr>running := (running s)(p \<mapsto> (ls, q)), printed := printed s @ [(p, l)]\<rparr>)"
    using sb_inv_step [of s p] by simp
next
  fix s :: "smallbomb psys" and p q
  assume "sb_inv s" and "running s p = Some ([], q)"
  then show "sb_inv (perform p (smallbomb_code q) s)" using sb_inv_step [of s p] by simp
next
  fix q k
  assume "smallbomb_code q = Wait k"
  then show "sb_inv s" for s by (cases q rule: smallbomb_code.cases) (simp_all split: if_splits)
qed simp_all

lemma sb_inv_start: "1 < p \<Longrightarrow> sb_inv (smallbomb_main p)"
  using init_wf [of p "SB_Fork 3"] by (simp add: sb_inv_def smallbomb_main_def init_process_def)

text \<open>A process that cannot go on pauses.\<close>

lemma sb_stuck:
  assumes "sb_inv s" and "p \<in> set (pids s)" and "sys_event smallbomb_code (Runs p) s = s"
  shows "running s p = Some ([], SB_Fork 0)"
proof -
  obtain ls q where x: "running s p = Some (ls, q)" and fine: "sb_fine (Some (ls, q))"
    using assms(1,2) unfolding sb_inv_def by (metis sb_fine.simps(1) option.exhaust prod.exhaust)
  have "ls = []"
  proof (cases ls)
    case (Cons l ls')
    then have "printed (sys_event smallbomb_code (Runs p) s) \<noteq> printed s" using x by simp
    then show ?thesis using assms(3) by simp
  qed
  moreover have "q = SB_Fork 0"
  proof (cases q)
    case (SB_Fork m)
    have "m = 0"
    proof (cases m)
      case (Suc n)
      then have "pids (sys_event smallbomb_code (Runs p) s) \<noteq> pids s"
        using x SB_Fork calculation by (simp add: perform_def)
      then show ?thesis using assms(3) by simp
    qed
    then show ?thesis using SB_Fork by simp
  next
    case (SB_Check r n)
    then have "running (sys_event smallbomb_code (Runs p) s) p \<noteq> running s p"
      using x fine calculation by (simp add: perform_def)
    then show ?thesis using assms(3) by simp
  qed
  ultimately show ?thesis using x by simp
qed

lemma smallbomb_counts:
  assumes "1 < p" and "list_all undisturbed evs" and "s = sys_run smallbomb_code evs (smallbomb_main p)"
  shows "length (pids s) \<le> 8 \<and> length (printed s) \<le> 14 \<and>
    ((\<forall>q. sys_event smallbomb_code (Runs q) s = s) \<longrightarrow> length (pids s) = 8 \<and> length (printed s) = 14)"
proof -
  have inv: "sb_inv s"
    unfolding assms(3) by (rule smallbomb.always [OF sb_inv_start [OF assms(1)] assms(2)])
  then have len: "length (pids s) = card (set (pids s))"
    by (simp add: sb_inv_def sys_wf_def distinct_card)
  have "1 \<le> sb_procs (running s q)" if "q \<in> set (pids s)" for q
    using inv that unfolding sb_inv_def by (cases "running s q" rule: sb_procs.cases) auto
  then have "card (set (pids s)) \<le> (\<Sum>q \<in> set (pids s). sb_procs (running s q))"
    using sum_mono [of "set (pids s)" "\<lambda>q. 1" "\<lambda>q. sb_procs (running s q)"] by simp
  moreover have "card (set (pids s)) = 8 \<and> length (printed s) = 14" if "\<forall>q. sys_event smallbomb_code (Runs q) s = s"
  proof -
    have "running s q = Some ([], SB_Fork 0)" if "q \<in> set (pids s)" for q
      using sb_stuck [OF inv that] \<open>\<forall>q. sys_event smallbomb_code (Runs q) s = s\<close> by blast
    then have "(\<Sum>q \<in> set (pids s). sb_procs (running s q)) = card (set (pids s))"
      "(\<Sum>q \<in> set (pids s). sb_lines (running s q)) = 0" by simp_all
    then show ?thesis using inv by (simp add: sb_inv_def)
  qed
  ultimately show ?thesis using inv len by (auto simp: sb_inv_def)
qed

section \<open>Zombies\<close>

lemma zombies_clear_no_Wait: "zombies_clear_code q \<noteq> Wait k"
  by (cases q rule: zombies_clear_code.cases) simp_all

lemma zombie_no_Wait: "zombie_code q \<noteq> Wait k"
  by (cases q rule: zombie_code.cases) simp_all

text \<open>Whoever has a child or is about to fork has asked for no zombies.\<close>

definition zc_inv :: "zcpoint psys \<Rightarrow> bool" where
  "zc_inv s \<longleftrightarrow>
     sys_wf s \<and> (\<forall>c. zombie s c = None) \<and>
     (\<forall>c. running s (ppid s c) \<noteq> None \<longrightarrow> nocldwait s (ppid s c)) \<and>
     (\<forall>q ls. running s q = Some (ls, ZC_Fork) \<or> running s q = Some (ls, ZC_Say) \<longrightarrow> nocldwait s q)"

lemma zc_inv_end: "zc_inv s \<Longrightarrow> running s p \<noteq> None \<Longrightarrow> zc_inv (end_process p n s)"
  using end_process_wf [of s p n] init_not_running [of s] by (auto simp: zc_inv_def end_process_def)

lemma zc_inv_perform:
  assumes "zc_inv s" and "running s p = Some ([], q)"
  shows "zc_inv (perform p (zombies_clear_code q) s)"
proof -
  have wf: "sys_wf s" using assms(1) by (simp add: zc_inv_def)
  note w = perform_wf [OF wf, of p "zombies_clear_code q"] and f = fresh_unused [OF wf]
  show ?thesis
  proof (cases q)
    case ZC_Fork
    then show ?thesis using assms w f by (auto simp: zc_inv_def perform_def)
  next
    case (ZC_Switch r)
    then show ?thesis using assms w zc_inv_end [OF assms(1), of p] by (auto simp: zc_inv_def perform_def)
  next
    case ZC_Over
    then show ?thesis using assms zc_inv_end [OF assms(1), of p] by (simp add: perform_def)
  qed (use assms w in \<open>auto simp: zc_inv_def perform_def goes_to_def\<close>)
qed

interpretation zombies_clear: program_invariant zombies_clear_code zc_inv "\<lambda>ev. True"
proof
  fix s :: "zcpoint psys" and p l ls q
  assume "zc_inv s" and "running s p = Some (l # ls, q)"
  then show "zc_inv (s\<lparr>running := (running s)(p \<mapsto> (ls, q)), printed := printed s @ [(p, l)]\<rparr>)"
    using running_wf [of s p "(ls, q)"] by (auto simp: zc_inv_def)
next
  fix s :: "zcpoint psys" and p q k
  assume "zc_inv s" and "running s p = Some ([], q)" and "zombies_clear_code q = Fork k"
  moreover from this(3) have "k = ZC_Switch" by (cases q rule: zombies_clear_code.cases) (auto split: if_splits)
  ultimately show "zc_inv (goes_to p (k (-1)) s)"
    using running_wf [of s p "([], ZC_Switch (-1))"] by (auto simp: zc_inv_def goes_to_def)
qed (simp_all add: zc_inv_perform zombies_clear_no_Wait zc_inv_end)

lemma zombies_clear_none:
  assumes "zombies_clear_main p argv ok = Value s" and "1 < p"
  shows "zombie (sys_run zombies_clear_code evs s) c = None"
proof -
  have "s = init_process p ZC_Main"
    using assms(1) by (auto simp: zombies_clear_main_def split: if_splits)
  then have "zc_inv s" using init_wf [OF assms(2), of ZC_Main] assms(2) by (simp add: zc_inv_def init_process_def)
  then have "zc_inv (sys_run zombies_clear_code evs s)"
    by (rule zombies_clear.always) (simp add: list_all_iff)
  then show ?thesis by (simp add: zc_inv_def)
qed

section \<open>Copies of variables and memory\<close>

fun fork5_rest :: "fork5 \<Rightarrow> int \<Rightarrow> string list option" where
  "fork5_rest (F5_Main loc g) pid = None"
| "fork5_rest (F5_Switch ret loc g) pid =
     (if ret = -1 then Some []
      else if ret = 0 then Some [''Child process, PID '' @ show_int pid @ '':'' @ [LF], vars_line (loc + 1) (g - 1),
        ''Child ('' @ show_int pid @ '') done, exiting ...'' @ [LF]]
      else Some [''Parent process, PID '' @ show_int pid @ '':'' @ [LF], vars_line (loc - 1) (g + 1),
        ''Parent ('' @ show_int pid @ '') will exit now...'' @ [LF]])"
| "fork5_rest (F5_Child loc g) pid =
     Some [vars_line (loc + 1) (g - 1), ''Child ('' @ show_int pid @ '') done, exiting ...'' @ [LF]]"
| "fork5_rest (F5_Parent loc g) pid =
     Some [vars_line (loc - 1) (g + 1), ''Parent ('' @ show_int pid @ '') will exit now...'' @ [LF]]"
| "fork5_rest F5_Over pid = Some []"

interpretation fork5: line_program fork5_code fork5_rest
  by (unfold_locales; (elim disjE)?; erule fork5_code.elims; auto split: if_splits)

lemma fork5_values:
  assumes "1 < p" and "list_all undisturbed evs" and "s = sys_run fork5_code evs (fork5_main p)"
  shows "(running s p = None \<longrightarrow> lines_of s p ! 1 = vars_line 7 8) \<and>
    (p + 1 \<in> set (pids s) \<and> running s (p + 1) = None \<longrightarrow> lines_of s (p + 1) ! 1 = vars_line 9 6)"
  using fork5.fork_once_lines [OF _ _ _ assms(1,2), of "F5_Main 8 7" "\<lambda>ret. F5_Switch ret 8 7"] assms(1,3)
  by (auto simp: fork5_main_def)

fun fork_malloc_rest :: "addresses \<Rightarrow> bool \<Rightarrow> forkmem \<Rightarrow> int \<Rightarrow> string list option" where
  "fork_malloc_rest a v (FM_Main mem loc g) pid = None"
| "fork_malloc_rest a v (FM_Switch ret mem loc g) pid =
     (if ret = -1 then Some []
      else if ret = 0 then
        Some (([LF] @ ''Child process, PID '' @ show_int pid @ '':'' @ [LF]) #
          work_lines a v True (map_option (\<lambda>m. replicate memsz (CHR ''c'')) mem) loc g pid)
      else
        Some (([LF] @ ''Parent process, PID '' @ show_int pid @ '':'' @ [LF]) #
          work_lines a v False (map_option (\<lambda>m. replicate memsz (CHR ''p'')) mem) loc g pid))"
| "fork_malloc_rest a v (FM_Work child mem loc g) pid = Some (work_lines a v child mem loc g pid)"
| "fork_malloc_rest a v FM_Over pid = Some []"

interpretation fork_malloc: line_program "fork_malloc_code a v" "fork_malloc_rest a v"
  by (unfold_locales; (elim disjE)?; erule fork_malloc_code.elims; auto split: if_splits)

text \<open>Each process sees its own copy of the memory, at the same address.\<close>

lemma fork_malloc_copies:
  assumes "fork_malloc_main p argv (Some m) = Value (v, s0)" and "1 < p" and "list_all undisturbed evs"
    and "s = sys_run (fork_malloc_code a v) evs s0"
  shows "(running s p = None \<longrightarrow> lines_of s p ! 1 = disp_few (a_gptr a) (replicate memsz (CHR ''p''))) \<and>
    (p + 1 \<in> set (pids s) \<and> running s (p + 1) = None \<longrightarrow>
       lines_of s (p + 1) ! 1 = disp_few (a_gptr a) (replicate memsz (CHR ''c'')))"
proof -
  have s0: "s0 = init_process p (FM_Main (Some m) 8 5)" using assms(1) by (auto simp: fork_malloc_main_def)
  show ?thesis
    using fork_malloc.fork_once_lines [OF _ _ _ assms(2,3), of a v "FM_Main (Some m) 8 5" "\<lambda>ret. FM_Switch ret (Some m) 8 5"]
      assms(2,4) by (auto simp: s0 work_lines_def)
qed

section \<open>The fork bomb stays within its limit\<close>

text \<open>How many processes a process of the bomb can still bring about.\<close>

fun fb_left :: "nat \<Rightarrow> (string list \<times> forkbomb) option \<Rightarrow> nat" where
  "fb_left num None = 0"
| "fb_left num (Some (ls, FB_Loop i)) = Suc num - i"
| "fb_left num (Some (ls, FB_Check cpid i)) = (if cpid = 0 then num - i else 0)"
| "fb_left num (Some (ls, FB_Sleep)) = 0"

definition fb_inv :: "nat \<Rightarrow> forkbomb psys \<Rightarrow> bool" where
  "fb_inv num s \<longleftrightarrow> sys_wf s \<and> length (pids s) + (\<Sum>p \<in> set (pids s). fb_left num (running s p)) \<le> Suc num"

lemma fb_inv_less:
  assumes "fb_inv num s" and "running s p \<noteq> None" and "fb_left num x \<le> fb_left num (running s p)"
    and "sys_wf t" and "pids t = pids s" and "running t = (running s)(p := x)"
  shows "fb_inv num t"
proof -
  have "p \<in> set (pids s)" using assms(1,2) sys_wfD(1) by (auto simp: fb_inv_def)
  then show ?thesis
    using assms sum_update [of "set (pids s)" p "fb_left num" "running s" x] by (simp add: fb_inv_def)
qed

lemma fb_forks:
  assumes "fb_inv num s" and "running s p = Some ([], FB_Loop i)" and "i \<le> num"
  shows "fb_inv num (perform p (Fork (\<lambda>r. FB_Check r i)) s)"
proof -
  have wf: "sys_wf s" using assms(1) by (simp add: fb_inv_def)
  have p: "p \<in> set (pids s)" using sys_wfD(1) [OF wf] assms(2) by simp
  then have f: "fresh_pid s \<noteq> 0" using sys_wfD(5,7) [OF wf, of p] by linarith
  let ?t = "perform p (Fork (\<lambda>r. FB_Check r i)) s"
  have t: "running ?t = (running s)(p := Some ([], FB_Check (fresh_pid s) i), fresh_pid s := Some ([], FB_Check 0 i))"
    "set (pids ?t) = insert (fresh_pid s) (set (pids s))" "length (pids ?t) = Suc (length (pids s))"
    by (simp_all add: perform_def)
  have "(\<Sum>x \<in> set (pids ?t). fb_left num (running ?t x)) + (Suc num - i) =
      (\<Sum>x \<in> set (pids s). fb_left num (running s x)) + (num - i)"
    using sum_fork [OF _ p fresh_unused(1) [OF wf], of "fb_left num" "running s" "Some ([], FB_Check (fresh_pid s) i)"
        "Some ([], FB_Check 0 i)"] assms(2) f unfolding t by simp
  moreover have "Suc num - i = Suc (num - i)" using assms(3) by simp
  ultimately have "Suc (\<Sum>x \<in> set (pids ?t). fb_left num (running ?t x)) = (\<Sum>x \<in> set (pids s). fb_left num (running s x))"
    by linarith
  then show ?thesis
    using assms(1,2) perform_wf [OF wf, of p "Fork (\<lambda>r. FB_Check r i)"] t(3) unfolding fb_inv_def by simp
qed

interpretation forkbomb: program_invariant "forkbomb_code num" "fb_inv num" "\<lambda>ev. True"
proof
  fix s p l ls q
  assume a: "fb_inv num s" "running s p = Some (l # ls, q)"
  have "fb_left num (Some (ls, q)) = fb_left num (running s p)" using a(2) by (cases q) simp_all
  then show "fb_inv num (s\<lparr>running := (running s)(p \<mapsto> (ls, q)), printed := printed s @ [(p, l)]\<rparr>)"
    using running_wf [of s p "(ls, q)"] a
    by (intro fb_inv_less [OF a(1), of p "Some (ls, q)"]) (simp_all add: fb_inv_def)
next
  fix s p q
  assume a: "fb_inv num s" "running s p = Some ([], q)"
  have wf: "sys_wf (perform p (forkbomb_code num q) s)"
    using a perform_wf [of s p] by (simp add: fb_inv_def)
  have ends: "fb_inv num (perform p (Exits n) s)" if "forkbomb_code num q = Exits n" for n
    using wf a(2) that by (intro fb_inv_less [OF a(1), of p None]) (simp_all add: perform_def end_process_def)
  have says: "fb_inv num (perform p (Say f q') s)"
    if "forkbomb_code num q = Say f q'" "fb_left num (Some (f p, q')) \<le> fb_left num (Some ([], q))" for f q'
    using wf a(2) that by (intro fb_inv_less [OF a(1), of p "Some (f p, q')"]) (simp_all add: perform_def)
  show "fb_inv num (perform p (forkbomb_code num q) s)"
  proof (cases q)
    case (FB_Loop i)
    then show ?thesis using fb_forks [OF a(1)] a(2) ends by auto
  next
    case (FB_Check cpid i)
    then show ?thesis using ends says by auto
  next
    case FB_Sleep
    then show ?thesis using a(1) by (simp add: perform_def)
  qed
next
  fix s p q k
  assume a: "fb_inv num s" "running s p = Some ([], q)" "forkbomb_code num q = Fork k"
  have "fb_left num (Some ([], k (-1))) = 0" using a(3) by (cases q) (auto split: if_splits)
  then show "fb_inv num (goes_to p (k (-1)) s)"
    using a running_wf [of s p "([], k (-1))"]
    by (intro fb_inv_less [OF a(1), of p "Some ([], k (-1))"]) (simp_all add: goes_to_def fb_inv_def)
next
  fix q w
  assume "forkbomb_code num q = Wait w"
  then show "fb_inv num s" for s by (cases q) (auto split: if_splits)
next
  fix s p and sig :: nat
  assume a: "fb_inv num s" "running s p \<noteq> None"
  then show "fb_inv num (end_process p sig s)"
    using end_process_wf [of s p sig]
    by (intro fb_inv_less [OF a(1), of p None]) (simp_all add: end_process_def fb_inv_def)
qed

text \<open>
  However it goes, there are never more than the first argument says, plus the process that was started. The second
  argument plays no part.
\<close>

lemma forkbomb_bound:
  assumes "forkbomb_main p argv = Value (num, s0)" and "1 < p"
  shows "length (pids (sys_run (forkbomb_code num) evs s0)) \<le> Suc num \<and> num = nat (atoi (argv ! 1))"
proof -
  have s0: "s0 = init_process p (FB_Loop 1)" "num = nat (atoi (argv ! 1))"
    using assms(1) by (auto simp: forkbomb_main_def Let_def split: if_splits)
  have "fb_inv num s0" using init_wf [OF assms(2), of "FB_Loop 1"] by (simp add: fb_inv_def s0(1) init_process_def)
  then have "fb_inv num (sys_run (forkbomb_code num) evs s0)" by (rule forkbomb.always) (simp add: list_all_iff)
  then show ?thesis using s0 by (simp add: fb_inv_def)
qed

section \<open>A child that nobody waits for\<close>

definition zb_inv :: "int \<Rightarrow> zpoint psys \<Rightarrow> bool" where
  "zb_inv p s \<longleftrightarrow>
     sys_wf s \<and> (\<forall>c. \<not> nocldwait s c) \<and> (\<forall>c ls. running s c = Some (ls, Z_Main) \<longrightarrow> c = p \<and> fresh_pid s = p + 1) \<and>
     (running s p \<noteq> None \<and> p + 1 \<in> set (pids s) \<longrightarrow>
        ppid s (p + 1) = p \<and> (running s (p + 1) \<noteq> None \<or> zombie s (p + 1) \<noteq> None))"

lemma zb_runs:
  assumes "zb_inv p s" and "running s c \<noteq> None" and "snd x \<noteq> Z_Main \<or> running s c = Some ([], Z_Main)"
  shows "zb_inv p (s\<lparr>running := (running s)(c \<mapsto> x)\<rparr>)"
  using assms running_wf [of s c x] by (cases x) (auto simp: zb_inv_def)

lemma zb_ends:
  assumes "zb_inv p s" and "running s c \<noteq> None"
  shows "zb_inv p (end_process c n s)"
proof -
  have wf: "sys_wf s" using assms(1) by (simp add: zb_inv_def)
  have "c \<noteq> p \<Longrightarrow> running s p \<noteq> None \<Longrightarrow> p + 1 \<in> set (pids s) \<Longrightarrow> ppid s (p + 1) \<noteq> c"
    using assms(1) by (auto simp: zb_inv_def)
  moreover have "running s p \<noteq> None \<Longrightarrow> ppid s p \<noteq> p" using sys_wfD(1,6) [OF wf, of p] by auto
  ultimately show ?thesis
    using assms end_process_wf [OF wf assms(2), of n] by (auto simp: zb_inv_def end_process_def)
qed

lemma zb_acts:
  assumes "zb_inv p s" and "running s c = Some ([], q)"
  shows "zb_inv p (perform c (zombie_code q) s)"
proof (cases q)
  case Z_Main
  have wf: "sys_wf s" using assms(1) by (simp add: zb_inv_def)
  have c: "c = p" "fresh_pid s = p + 1" using assms Z_Main by (auto simp: zb_inv_def)
  show ?thesis
    using assms perform_wf [OF wf, of c "zombie_code q"] Z_Main c fresh_unused [OF wf]
    by (auto simp: zb_inv_def perform_def split: if_splits)
next
  case (Z_Switch r)
  then show ?thesis
    using assms zb_ends [OF assms(1)] zb_runs [OF assms(1)] by (auto simp: perform_def)
next
  case Z_Over
  then show ?thesis using assms zb_ends [OF assms(1)] by (simp add: perform_def)
qed

interpretation zombie: program_invariant zombie_code "zb_inv p" "\<lambda>ev. True"
proof
  fix s c l ls q
  assume a: "zb_inv p s" "running s c = Some (l # ls, q)"
  have "zb_inv p (s\<lparr>running := (running s)(c \<mapsto> (ls, q))\<rparr>)"
    using a running_wf [of s c "(ls, q)"] by (auto simp: zb_inv_def)
  then show "zb_inv p (s\<lparr>running := (running s)(c \<mapsto> (ls, q)), printed := printed s @ [(c, l)]\<rparr>)"
    by (simp add: zb_inv_def)
next
  fix s c q k
  assume a: "zb_inv p s" "running s c = Some ([], q)" "zombie_code q = Fork k"
  have "k = Z_Switch" using a(3) by (cases q) (auto split: if_splits)
  then show "zb_inv p (goes_to c (k (-1)) s)" using zb_runs [OF a(1), of c] a(2) by (simp add: goes_to_def)
qed (simp_all add: zb_acts zb_ends zombie_no_Wait)

text \<open>As long as the parent runs, its child is there: first running, then a zombie.\<close>

lemma zombie_stays:
  assumes "1 < p" and "s = sys_run zombie_code evs (zombie_main p)" and "running s p \<noteq> None" and "p + 1 \<in> set (pids s)"
  shows "running s (p + 1) \<noteq> None \<or> zombie s (p + 1) \<noteq> None"
proof -
  have "zb_inv p (zombie_main p)"
    using init_wf [OF assms(1), of Z_Main] by (simp add: zb_inv_def zombie_main_def init_process_def)
  then have "zb_inv p s" unfolding assms(2) by (rule zombie.always) (simp add: list_all_iff)
  then show ?thesis using assms(3,4) by (simp add: zb_inv_def)
qed

section \<open>All tables are well formed\<close>



end
