(* ===== verification/Two_Children.thy ===== *)
theory Two_Children
  imports Fork_Programs
begin

text \<open>
  \<open>fork2c.c\<close>: the parent of two children shows the status of each of them exactly once.
\<close>

section \<open>The parent of two children\<close>

text \<open>
  Whether a process runs or is a zombie; a status as it can come from a child that exits with 0 or is killed.
\<close>

definition there :: "'q psys \<Rightarrow> int \<Rightarrow> bool" where
  "there s c \<longleftrightarrow> running s c \<noteq> None \<or> zombie s c \<noteq> None"

definition ok_status :: "nat \<Rightarrow> bool" where
  "ok_status st \<longleftrightarrow> st = 0 \<or> st \<in> {1..64}"

abbreviation f2_kids :: "int \<Rightarrow> int set" where
  "f2_kids p \<equiv> {p + 1, p + 2}"

text \<open>\<open>R\<close> are the children that the parent has got, with their statuses.\<close>

definition f2_ledger :: "int \<Rightarrow> (int \<Rightarrow> bool) \<Rightarrow> (int \<times> nat) list \<Rightarrow> bool" where
  "f2_ledger p A R \<longleftrightarrow>
     distinct (map fst R) \<and> (\<forall>x \<in> set R. ok_status (snd x)) \<and> fst ` set R = {c \<in> f2_kids p. \<not> A c}"

definition shown :: "(int \<times> nat) list \<Rightarrow> string list" where
  "shown R = map (\<lambda>(c, st). displayChildStatus st c) R"

fun f2_parent :: "int \<Rightarrow> int list \<Rightarrow> string list \<Rightarrow> (int \<Rightarrow> bool) \<Rightarrow> string list \<Rightarrow> fork2c \<Rightarrow> bool" where
  "f2_parent p P L A ls C2_Main \<longleftrightarrow> ls = [] \<and> P = [p] \<and> L = []"
| "f2_parent p P L A ls (C2_First r) \<longleftrightarrow>
     ls = [] \<and> L = [] \<and> (r = -1 \<and> P = [p] \<or> r = p + 1 \<and> P = [p, p + 1] \<and> A (p + 1))"
| "f2_parent p P L A ls (C2_Second r) \<longleftrightarrow>
     ls = [] \<and> L = [] \<and> (r = -1 \<or> r = p + 2 \<and> P = [p, p + 1, p + 2] \<and> f2_ledger p A [])"
| "f2_parent p P L A ls C2_Nap \<longleftrightarrow> False"
| "f2_parent p P L A ls C2_Wait \<longleftrightarrow>
     P = [p, p + 1, p + 2] \<and> (\<exists>R. f2_ledger p A R \<and> L @ ls = shown R)"
| "f2_parent p P L A ls (C2_Show c st) \<longleftrightarrow>
     ls = [] \<and> P = [p, p + 1, p + 2] \<and> (\<exists>R. f2_ledger p A (R @ [(c, st)]) \<and> L = shown R)"
| "f2_parent p P L A ls C2_Dead \<longleftrightarrow>
     ls = [] \<and> P = [p, p + 1, p + 2] \<and> (\<exists>R. f2_ledger p A R \<and> fst ` set R = f2_kids p \<and> L = shown R)"
| "f2_parent p P L A ls C2_Over \<longleftrightarrow>
     P = [p, p + 1, p + 2] \<and> (\<exists>R. f2_ledger p A R \<and> fst ` set R = f2_kids p \<and> L @ ls = shown R @ [all_dead])"

text \<open>The parent has shown the status of each child once, and neither is left.\<close>

definition f2_complete :: "int \<Rightarrow> string list \<Rightarrow> (int \<Rightarrow> bool) \<Rightarrow> bool" where
  "f2_complete p L A \<longleftrightarrow>
     (\<exists>R. L = shown R @ [all_dead] \<and> distinct (map fst R) \<and> (\<forall>x \<in> set R. ok_status (snd x)) \<and>
        fst ` set R = f2_kids p \<and> (\<forall>c \<in> f2_kids p. \<not> A c))"

definition f2_base :: "int \<Rightarrow> fork2c psys \<Rightarrow> bool" where
  "f2_base p s \<longleftrightarrow>
     sys_wf s \<and> p \<in> set (pids s) \<and> ppid s p = 1 \<and> (\<forall>c. \<not> nocldwait s c) \<and> fresh_pid s = p + int (length (pids s)) \<and>
     (\<forall>c st. zombie s c = Some st \<longrightarrow> ok_status st) \<and>
     (\<forall>c ls q. c \<noteq> p \<and> running s c = Some (ls, q) \<longrightarrow> q = C2_First 0 \<or> q = C2_Second 0 \<or> q = C2_Nap)"

definition all_kids :: "int \<Rightarrow> 'q psys \<Rightarrow> bool" where
  "all_kids p s \<longleftrightarrow> (\<forall>c \<in> set (pids s). c \<noteq> p \<longrightarrow> ppid s c = p)"

definition f2_at :: "int \<Rightarrow> (string list \<times> fork2c) option \<Rightarrow> bool \<Rightarrow> int list \<Rightarrow> string list \<Rightarrow> (int \<Rightarrow> bool) \<Rightarrow> bool" where
  "f2_at p x K P L A \<longleftrightarrow>
     (case x of Some (ls, q) \<Rightarrow> K \<and> f2_parent p P L A ls q | None \<Rightarrow> all_dead \<in> set L \<longrightarrow> f2_complete p L A)"

definition f2_inv :: "int \<Rightarrow> fork2c psys \<Rightarrow> bool" where
  "f2_inv p s \<longleftrightarrow> f2_base p s \<and> f2_at p (running s p) (all_kids p s) (pids s) (lines_of s p) (there s)"

lemma all_dead_not_shown: "all_dead \<notin> set (shown R)"
proof -
  have "displayChildStatus st c ! 1 = CHR ''C''" for st c by (simp add: displayChildStatus_def)
  moreover have "all_dead ! 1 = CHR ''P''" by (simp add: all_dead_def)
  moreover have "CHR ''C'' \<noteq> CHR ''P''" by simp
  ultimately have "all_dead \<noteq> displayChildStatus st c" for st c by metis
  then show ?thesis by (auto simp: shown_def)
qed

lemma append_last_eq: "L @ ls = M @ [x] \<Longrightarrow> x \<in> set L \<Longrightarrow> x \<notin> set M \<Longrightarrow> ls = [] \<and> L = M @ [x]"
  by (cases ls rule: rev_cases) auto

text \<open>The parent ends, by itself or killed.\<close>

lemma f2_parent_ends:
  assumes "f2_parent p P L A ls q" and "all_dead \<in> set L" and "\<And>c. A' c \<Longrightarrow> A c"
  shows "f2_complete p L A'"
proof (cases q)
  case C2_Over
  then obtain R where R: "f2_ledger p A R" "fst ` set R = f2_kids p" "L @ ls = shown R @ [all_dead]"
    using assms(1) unfolding C2_Over f2_parent.simps by blast
  then have "L = shown R @ [all_dead]" using append_last_eq [OF R(3) assms(2) all_dead_not_shown] by blast
  moreover have "c \<in> fst ` set R \<Longrightarrow> \<not> A' c" for c using R(1) assms(3) [of c] unfolding f2_ledger_def by blast
  ultimately show ?thesis using R(1,2) unfolding f2_complete_def f2_ledger_def by (intro exI [of _ R]) simp
next
  case C2_Wait
  then obtain R where "L @ ls = shown R" using assms(1) unfolding C2_Wait f2_parent.simps by blast
  then have "all_dead \<in> set (shown R)" using assms(2) by (metis Un_iff set_append)
  then show ?thesis using all_dead_not_shown by blast
next
  case (C2_Show c st)
  then show ?thesis using assms(1,2) all_dead_not_shown unfolding C2_Show f2_parent.simps by blast
next
  case C2_Dead
  then show ?thesis using assms(1,2) all_dead_not_shown unfolding C2_Dead f2_parent.simps by blast
qed (use assms(1,2) in simp_all)

text \<open>How the views of a table change.\<close>

lemma there_running: "running s c \<noteq> None \<Longrightarrow> there (s\<lparr>running := (running s)(c \<mapsto> x)\<rparr>) = there s"
  by (auto simp: there_def fun_eq_iff)

lemma unrelated_views [simp]:
  "there (s\<lparr>printed := x\<rparr>) = there s" "all_kids p (s\<lparr>printed := x\<rparr>) = all_kids p s"
  "all_kids p (s\<lparr>running := r\<rparr>) = all_kids p s" "all_kids p (s\<lparr>zombie := z\<rparr>) = all_kids p s"
  by (simp_all add: there_def fun_eq_iff all_kids_def)

lemma f2_base_child:
  assumes "f2_base p s" and "c \<noteq> p" and "running s c \<noteq> None" and "q = C2_First 0 \<or> q = C2_Second 0 \<or> q = C2_Nap"
  shows "f2_base p (s\<lparr>running := (running s)(c \<mapsto> (ls, q))\<rparr>)"
  using assms running_wf [of s c "(ls, q)"] by (auto simp: f2_base_def)

lemma f2_base_parent:
  assumes "f2_base p s" and "running s p \<noteq> None"
  shows "f2_base p (s\<lparr>running := (running s)(p \<mapsto> x)\<rparr>)"
  using assms running_wf [of s p x] by (auto simp: f2_base_def)

lemma f2_base_print [simp]: "f2_base p (s\<lparr>printed := x\<rparr>) = f2_base p s"
  by (simp add: f2_base_def)

text \<open>A step of a child that keeps it there changes nothing for the parent.\<close>

lemma f2_child_runs:
  assumes "f2_inv p s" and "c \<noteq> p" and "running s c \<noteq> None" and "q = C2_First 0 \<or> q = C2_Second 0 \<or> q = C2_Nap"
  shows "f2_inv p (s\<lparr>running := (running s)(c \<mapsto> (ls, q))\<rparr>)"
  using assms f2_base_child [of p s c q ls] there_running [of s c "(ls, q)"] by (simp add: f2_inv_def)

lemma f2_parent_prints: "f2_parent p P L A (l # ls) q \<Longrightarrow> f2_parent p P (L @ [l]) A ls q"
  by (cases q) simp_all

lemma f2_prints:
  assumes "f2_inv p s" and "running s c = Some (l # ls, q)"
  shows "f2_inv p (s\<lparr>running := (running s)(c \<mapsto> (ls, q)), printed := printed s @ [(c, l)]\<rparr>)"
proof (cases "c = p")
  case True
  have t: "there (s\<lparr>running := (running s)(p \<mapsto> (ls, q))\<rparr>) = there s"
    using there_running [of s p] assms(2) True by simp
  show ?thesis
    using assms True f2_base_parent [of p s "(ls, q)"] f2_parent_prints [of p "pids s" "lines_of s p" "there s" l ls q]
    by (simp add: f2_inv_def f2_at_def t)
next
  case False
  then have q: "q = C2_First 0 \<or> q = C2_Second 0 \<or> q = C2_Nap"
    using assms unfolding f2_inv_def f2_base_def by blast
  show ?thesis using f2_child_runs [OF assms(1) False _ q, of ls] assms(2) False by (simp add: f2_inv_def)
qed

text \<open>A child ends: it becomes a zombie when the parent is there.\<close>

lemma f2_complete_mono: "f2_complete p L A \<Longrightarrow> (\<And>c. A' c \<Longrightarrow> A c) \<Longrightarrow> f2_complete p L A'"
  unfolding f2_complete_def by blast

lemma f2_base_ends:
  assumes "f2_base p s" and "running s c \<noteq> None" and "ok_status n"
  shows "f2_base p (end_process c n s)"
proof -
  have wf: "sys_wf s" using assms(1) by (simp add: f2_base_def)
  then have "ppid s p = 1" "c \<noteq> 1" using assms(1) sys_wfD(1,5) [OF wf, of c] assms(2) by (auto simp: f2_base_def)
  then show ?thesis
    using assms end_process_wf [OF wf assms(2), of n] by (auto simp: f2_base_def end_process_def split: if_splits)
qed

lemma f2_child_ends:
  assumes "f2_inv p s" and "c \<noteq> p" and "running s c \<noteq> None" and "ok_status n"
  shows "f2_inv p (end_process c n s)"
proof -
  have base: "f2_base p s" and wf: "sys_wf s" using assms(1) by (simp_all add: f2_inv_def f2_base_def)
  have c: "c \<in> set (pids s)" using sys_wfD(1) [OF wf] assms(3) by blast
  have r: "running (end_process c n s) p = running s p" "pids (end_process c n s) = pids s"
    using assms(2) by (simp_all add: end_process_def)
  show ?thesis
  proof (cases "running s p")
    case None
    have "there (end_process c n s) d \<Longrightarrow> there s d" for d
      using assms(3) by (auto simp: there_def end_process_def split: if_splits)
    then have "f2_complete p (lines_of s p) (there s) \<Longrightarrow> f2_complete p (lines_of s p) (there (end_process c n s))"
      using f2_complete_mono by blast
    then show ?thesis
      using assms(1) f2_base_ends [OF base assms(3,4)] None by (simp add: f2_inv_def f2_at_def r)
  next
    case (Some x)
    have kids: "all_kids p s" using assms(1) Some by (auto simp: f2_inv_def f2_at_def split: prod.splits)
    then have "ppid s c = p" using c assms(2) by (simp add: all_kids_def)
    moreover have "ppid s d \<noteq> c" for d
    proof (cases "d \<in> set (pids s) \<and> d \<noteq> p")
      case True
      then show ?thesis using kids assms(2) by (simp add: all_kids_def)
    next
      case False
      then have "ppid s d = 1" using wf base unfolding sys_wf_def f2_base_def by blast
      then show ?thesis using sys_wfD(5) [OF wf c] by simp
    qed
    ultimately have "there (end_process c n s) = there s" "all_kids p (end_process c n s) = all_kids p s"
      using assms(2,3) base Some by (auto simp: there_def end_process_def f2_base_def all_kids_def fun_eq_iff)
    then show ?thesis using assms(1) f2_base_ends [OF base assms(3,4)] by (simp add: f2_inv_def r)
  qed
qed

text \<open>The parent.\<close>

lemma f2_parent_runs:
  assumes "f2_inv p s" and "running s p \<noteq> None" and "f2_parent p (pids s) (lines_of s p) (there s) ls q"
  shows "f2_inv p (s\<lparr>running := (running s)(p \<mapsto> (ls, q))\<rparr>)"
proof -
  have "all_kids p s" using assms(1,2) by (auto simp: f2_inv_def f2_at_def)
  then show ?thesis
    using assms f2_base_parent [of p s "(ls, q)"] there_running [OF assms(2), of "(ls, q)"]
    by (simp add: f2_inv_def f2_at_def)
qed

lemma f2_parent_over:
  assumes "f2_inv p s" and "running s p \<noteq> None"
  shows "f2_inv p (end_process p n s)"
proof -
  have base: "f2_base p s" and wf: "sys_wf s" using assms(1) by (simp_all add: f2_inv_def f2_base_def)
  have "running s (ppid s p) = None" using base init_not_running [OF wf] by (simp add: f2_base_def)
  then have z: "zombie (end_process p n s) p = None" "\<And>c st. zombie (end_process p n s) c = Some st \<Longrightarrow> zombie s c = Some st"
    by (auto simp: end_process_def split: if_splits)
  have same: "pids (end_process p n s) = pids s" "nocldwait (end_process p n s) = nocldwait s"
    "fresh_pid (end_process p n s) = fresh_pid s" "running (end_process p n s) = (running s)(p := None)"
    "ppid (end_process p n s) p = 1"
    using base by (simp_all add: end_process_def f2_base_def)
  have b: "f2_base p (end_process p n s)"
    using base end_process_wf [OF wf assms(2), of n] z(2) unfolding f2_base_def same
    by (metis fun_upd_other)
  have sub: "there s c" if "there (end_process p n s) c" for c
    using that z(2) [of c] by (auto simp: there_def end_process_def split: if_splits)
  obtain ls q where "running s p = Some (ls, q)" using assms(2) by auto
  then have "f2_parent p (pids s) (lines_of s p) (there s) ls q" using assms(1) by (simp add: f2_inv_def f2_at_def)
  then have "all_dead \<in> set (lines_of s p) \<Longrightarrow> f2_complete p (lines_of s p) (there (end_process p n s))"
    using f2_parent_ends sub by blast
  then show ?thesis using b by (simp add: f2_inv_def f2_at_def end_process_def lines_of_def)
qed

lemma f2_forks:
  assumes "f2_inv p s" and "running s p = Some ([], q)" and "k = C2_First \<or> k = C2_Second"
    and "f2_parent p (pids s @ [fresh_pid s]) (lines_of s p) ((there s)(fresh_pid s := True)) [] (k (fresh_pid s))"
  shows "f2_inv p (perform p (Fork k) s)"
proof -
  have base: "f2_base p s" and wf: "sys_wf s" using assms(1) by (simp_all add: f2_inv_def f2_base_def)
  have kids: "all_kids p s" using assms(1,2) by (simp add: f2_inv_def f2_at_def)
  have p: "p \<noteq> fresh_pid s" using fresh_unused(1) [OF wf] base by (auto simp: f2_base_def)
  have "f2_base p (perform p (Fork k) s)"
    using base p assms(2,3) perform_wf [OF wf, of p "Fork k"] by (auto simp: f2_base_def perform_def)
  moreover have "there (perform p (Fork k) s) = (there s)(fresh_pid s := True)"
    using assms(2) by (auto simp: there_def perform_def fun_eq_iff)
  moreover have "all_kids p (perform p (Fork k) s)"
    using kids p fresh_unused(1) [OF wf] by (auto simp: all_kids_def perform_def)
  moreover have "pids (perform p (Fork k) s) = pids s @ [fresh_pid s]" "lines_of (perform p (Fork k) s) p = lines_of s p"
    "running (perform p (Fork k) s) p = Some ([], k (fresh_pid s))"
    using p by (simp_all add: perform_def lines_of_def)
  ultimately show ?thesis using assms(4) by (simp add: f2_inv_def f2_at_def)
qed

lemma no_kids: "kids_of s p = [] \<Longrightarrow> c \<in> set (pids s) \<Longrightarrow> ppid s c = p \<Longrightarrow> \<not> there s c"
  by (auto simp: kids_of_def there_def filter_empty_conv)

lemma f2_parent_acts:
  assumes "f2_inv p s" and "running s p = Some ([], q)"
  shows "f2_inv p (perform p (fork2c_code c1 c2 q) s)"
proof -
  have base: "f2_base p s" and wf: "sys_wf s" using assms(1) by (simp_all add: f2_inv_def f2_base_def)
  have par: "f2_parent p (pids s) (lines_of s p) (there s) [] q" and kids: "all_kids p s"
    using assms by (simp_all add: f2_inv_def f2_at_def)
  have p: "1 < p" "fresh_pid s = p + int (length (pids s))" using base sys_wfD(5) [OF wf] by (auto simp: f2_base_def)
  note over = f2_parent_over [OF assms(1)] and runs = f2_parent_runs [OF assms(1)]
  show ?thesis
  proof (cases q)
    case C2_Main
    then show ?thesis using f2_forks [OF assms, of C2_First] par p by simp
  next
    case (C2_First r)
    then show ?thesis
      using f2_forks [OF assms, of C2_Second] over par p assms(2)
      by (auto simp: perform_def f2_ledger_def)
  next
    case (C2_Second r)
    then show ?thesis
      using over runs [of "[]" C2_Wait] par p assms(2) by (auto simp: perform_def shown_def intro: exI [of _ "[]"])
  next
    case C2_Wait
    then obtain R where R: "pids s = [p, p + 1, p + 2]" "f2_ledger p (there s) R" "lines_of s p = shown R"
      using par by auto
    have "fst ` set R = f2_kids p" if "kids_of s p = []"
    proof -
      have "\<not> there s (p + 1)" "\<not> there s (p + 2)"
        using no_kids [OF that] R(1) kids by (simp_all add: all_kids_def)
      then show ?thesis using R(2) by (auto simp: f2_ledger_def)
    qed
    then show ?thesis
      using C2_Wait assms runs [of "[]" C2_Dead] R by (auto simp: perform_def goes_to_def)
  next
    case (C2_Show c st)
    then obtain R where "f2_ledger p (there s) (R @ [(c, st)])" "lines_of s p = shown R" "pids s = [p, p + 1, p + 2]"
      using par by auto
    then have "f2_parent p (pids s) (lines_of s p) (there s) [displayChildStatus st c] C2_Wait"
      by (auto simp: shown_def intro!: exI [of _ "R @ [(c, st)]"])
    then show ?thesis using C2_Show assms(2) runs by (simp add: perform_def)
  next
    case C2_Dead
    then show ?thesis using par assms(2) runs [of "[all_dead]" C2_Over] by (simp add: perform_def)
  next
    case C2_Over
    then show ?thesis using assms(2) over by (simp add: perform_def)
  qed (use par in simp)
qed

lemma f2_points:
  "f2_inv p s \<Longrightarrow> running s c = Some (ls, q) \<Longrightarrow> c = p \<or> q = C2_First 0 \<or> q = C2_Second 0 \<or> q = C2_Nap"
  unfolding f2_inv_def f2_base_def by blast

lemma f2_child_acts:
  assumes "f2_inv p s" and "c \<noteq> p" and "running s c = Some ([], q)"
  shows "f2_inv p (perform c (fork2c_code c1 c2 q) s)"
proof -
  have "q = C2_First 0 \<or> q = C2_Second 0 \<or> q = C2_Nap" using f2_points [OF assms(1,3)] assms(2) by blast
  then show ?thesis
    using assms f2_child_runs [OF assms(1,2), of C2_Nap] f2_child_ends [OF assms(1,2), of 0]
    by (auto simp: perform_def ok_status_def)
qed

text \<open>The parent takes the status of a child.\<close>

lemma f2_reaps:
  assumes "f2_inv p s" and "running s p = Some ([], C2_Wait)" and "zombie s c = Some n" and "ppid s c = p"
  shows "f2_inv p ((goes_to p (C2_Show c n) s)\<lparr>zombie := (zombie s)(c := None)\<rparr>)"
proof -
  have base: "f2_base p s" and wf: "sys_wf s" using assms(1) by (simp_all add: f2_inv_def f2_base_def)
  obtain R where R: "pids s = [p, p + 1, p + 2]" "f2_ledger p (there s) R" "lines_of s p = shown R" and kids: "all_kids p s"
    using assms(1,2) by (auto simp: f2_inv_def f2_at_def)
  have c: "c \<in> set (pids s)" "c \<noteq> p" "running s c = None"
    using sys_wfD(2,3,6) [OF wf, of c] assms(3,4) by (auto, metis option.distinct(1))
  then have ck: "c \<in> f2_kids p" using R(1) by simp
  let ?s = "(goes_to p (C2_Show c n) s)\<lparr>zombie := (zombie s)(c := None)\<rparr>"
  have t: "there ?s = (there s)(c := False)"
    using c assms(2) by (auto simp: there_def goes_to_def fun_eq_iff)
  have "c \<notin> fst ` set R" using R(2) assms(3) by (auto simp: f2_ledger_def there_def)
  moreover have "ok_status n" using base assms(3) unfolding f2_base_def by blast
  ultimately have l: "f2_ledger p ((there s)(c := False)) (R @ [(c, n)])"
    using R(2) ck unfolding f2_ledger_def by auto
  have "sys_wf ?s"
    using reap_wf [OF running_wf [OF wf, of p "([], C2_Show c n)"], of c] assms(2) by (simp add: goes_to_def)
  then have "f2_base p ?s" using base by (auto simp: f2_base_def goes_to_def)
  moreover have "f2_parent p (pids s) (lines_of s p) ((there s)(c := False)) [] (C2_Show c n)" using R l by auto
  moreover have "running ?s p = Some ([], C2_Show c n)" "all_kids p ?s" "pids ?s = pids s" "lines_of ?s p = lines_of s p"
    using kids by (simp_all add: goes_to_def lines_of_def all_kids_def)
  ultimately show ?thesis by (simp add: f2_inv_def f2_at_def t)
qed

lemma Wait_only: "fork2c_code c1 c2 q = Wait w \<Longrightarrow>
    q = C2_Wait \<and> w = (\<lambda>r. case r of None \<Rightarrow> C2_Dead | Some (c, st) \<Rightarrow> C2_Show c st)"
  by (cases q) (auto split: if_splits)

lemma Fork_only: "fork2c_code c1 c2 q = Fork k \<Longrightarrow>
    q = C2_Main \<and> k = C2_First \<or> (\<exists>r. q = C2_First r \<and> r \<noteq> -1 \<and> r \<noteq> 0 \<and> k = C2_Second)"
  by (cases q) (auto split: if_splits)

interpretation two_children: program_invariant "fork2c_code c1 c2" "f2_inv p" "\<lambda>ev. True"
proof
  fix s c l ls q
  assume "f2_inv p s" and "running s c = Some (l # ls, q)"
  then show "f2_inv p (s\<lparr>running := (running s)(c \<mapsto> (ls, q)), printed := printed s @ [(c, l)]\<rparr>)" by (rule f2_prints)
next
  fix s c q
  assume "f2_inv p s" and "running s c = Some ([], q)"
  then show "f2_inv p (perform c (fork2c_code c1 c2 q) s)"
    using f2_parent_acts f2_child_acts by (cases "c = p") simp_all
next
  fix s c q k
  assume a: "f2_inv p s" "running s c = Some ([], q)" "fork2c_code c1 c2 q = Fork k"
  have "c = p" using f2_points [OF a(1,2)] Fork_only [OF a(3)] by auto
  moreover from this have "f2_parent p (pids s) (lines_of s p) (there s) [] (k (-1))"
    using a Fork_only [OF a(3)] by (auto simp: f2_inv_def f2_at_def)
  ultimately show "f2_inv p (goes_to c (k (-1)) s)"
    using f2_parent_runs [OF a(1)] a(2) by (simp add: goes_to_def)
next
  fix s c q w d n
  assume a: "f2_inv p s" "running s c = Some ([], q)" "fork2c_code c1 c2 q = Wait w" "zombie s d = Some n" "ppid s d = c"
  have "c = p" using f2_points [OF a(1,2)] Wait_only [OF a(3)] by auto
  then show "f2_inv p ((goes_to c (w (Some (d, n))) s)\<lparr>zombie := (zombie s)(d := None)\<rparr>)"
    using f2_reaps a Wait_only [OF a(3)] by simp
next
  fix s c and sig :: nat
  assume "f2_inv p s" "running s c \<noteq> None" "sig \<in> {1..64}"
  then show "f2_inv p (end_process c sig s)"
    using f2_parent_over f2_child_ends by (cases "c = p") (simp_all add: ok_status_def)
qed

lemma f2_start: "1 < p \<Longrightarrow> f2_inv p (init_process p C2_Main)"
  using init_wf [of p C2_Main]
  by (simp add: f2_inv_def f2_at_def f2_base_def all_kids_def init_process_def lines_of_def)

section \<open>What the parent prints\<close>

text \<open>As long as the parent runs, some process can go on.\<close>

lemma f2_progress:
  assumes "f2_inv p s" and "running s p \<noteq> None"
  shows "\<exists>c d. sys_event (fork2c_code c1 c2) (Runs c) s \<noteq> s \<or> sys_event (fork2c_code c1 c2) (Reaps c d) s \<noteq> s"
proof -
  obtain ls q where q: "running s p = Some (ls, q)" using assms(2) by auto
  have moves: "sys_event (fork2c_code c1 c2) (Runs c) s \<noteq> s"
    if "running (sys_event (fork2c_code c1 c2) (Runs c) s) c \<noteq> running s c" for c using that by auto
  show ?thesis
  proof (cases "ls = [] \<and> q = C2_Wait \<and> kids_of s p \<noteq> []")
    case False
    have "running (sys_event (fork2c_code c1 c2) (Runs p) s) p \<noteq> running s p"
      using q False by (cases ls; cases q) (auto simp: perform_def goes_to_def end_process_def)
    then show ?thesis using moves by blast
  next
    case True
    then obtain c where c: "ppid s c = p" "running s c \<noteq> None \<or> zombie s c \<noteq> None"
      by (auto simp: kids_of_def filter_empty_conv)
    show ?thesis
    proof (cases "zombie s c")
      case (Some n)
      then have "zombie (sys_event (fork2c_code c1 c2) (Reaps p c) s) c \<noteq> zombie s c"
        using True q c(1) by (simp add: goes_to_def)
      then show ?thesis by (metis)
    next
      case None
      then obtain ls' q' where r: "running s c = Some (ls', q')" using c(2) by auto
      have "c \<noteq> p" using c(1) assms(1) sys_wfD(6) [of s p] by (auto simp: f2_inv_def f2_base_def)
      then have "q' = C2_First 0 \<or> q' = C2_Second 0 \<or> q' = C2_Nap" using f2_points [OF assms(1) r] by blast
      then have "running (sys_event (fork2c_code c1 c2) (Runs c) s) c \<noteq> running s c"
        using r by (cases ls') (auto simp: perform_def end_process_def)
      then show ?thesis using moves by blast
    qed
  qed
qed

text \<open>The children end one after the other, then the parent gets them.\<close>

definition orderly :: "int \<Rightarrow> pevent list" where
  "orderly p = replicate 3 (Runs p) @ replicate 3 (Runs (p + 1)) @ replicate 3 (Runs (p + 2)) @
     [Reaps p (p + 1), Runs p, Runs p, Reaps p (p + 2), Runs p, Runs p, Runs p, Runs p, Runs p, Runs p]"

lemma orderly_run:
  assumes "1 < p"
  shows "lines_of (sys_run (fork2c_code c1 c2) (orderly p) (init_process p C2_Main)) p =
    [displayChildStatus 0 (p + 1), displayChildStatus 0 (p + 2), all_dead]"
  using assms
  by (simp add: orderly_def numeral_eq_Suc init_process_def perform_def goes_to_def end_process_def kids_of_def lines_of_def)



end
