(* ===== verification/Shared_Offset.thy ===== *)
theory Shared_Offset
  imports Fork_Programs
begin

text \<open>
  \<open>fork_r6_of.c\<close>: parent and child write to one open file, whose offset they share. What the file holds depends on
  when each of them seeks.
\<close>

section \<open>A process that writes alone\<close>

definition file_lines :: "char list \<Rightarrow> string" where
  "file_lines cs = concat (map file_line cs)"

lemma file_line_length [simp]: "length (file_line ch) = 80"
  by (simp add: file_line_def lnsize_def)

lemma file_lines_simps [simp]:
  "file_lines [] = []" "file_lines (c # cs) = file_line c @ file_lines cs"
  "file_lines (cs @ ds) = file_lines cs @ file_lines ds" "length (file_lines cs) = 80 * length cs"
  by (induction cs) (simp_all add: file_lines_def)

text \<open>A file that ends where the offset is, or before it, when a hole is left.\<close>

definition hole :: "nat \<Rightarrow> string \<Rightarrow> string" where
  "hole n f = f @ replicate (n - length f) (CHR 0x00)"

lemma write_at_append: "length f \<le> off \<Longrightarrow> d \<noteq> [] \<Longrightarrow> write_at off d f = hole off f @ d"
  by (simp add: write_at_def hole_def)

lemma hole_full [simp]: "length f = n \<Longrightarrow> hole n f = f"
  by (simp add: hole_def)

definition writes_lines :: "int \<Rightarrow> char \<Rightarrow> nat \<Rightarrow> fork_r6 psys \<Rightarrow> fork_r6 psys" where
  "writes_lines p ch n s =
     s\<lparr>running := (running s)(p \<mapsto> ([], R6_Lines ch 0)), offset := offset s + 80 * n,
       content := (if n = 0 then content s else hole (offset s) (content s) @ file_lines (replicate n ch))\<rparr>"

lemma alone:
  assumes "running s p = Some ([], R6_Lines ch n)" and "length (content s) \<le> offset s"
  shows "sys_run do_work (replicate n (Runs p)) s = writes_lines p ch n s"
  using assms
proof (induction n arbitrary: s)
  case 0
  then show ?case by (cases s) (simp add: writes_lines_def fun_upd_idem)
next
  case (Suc n)
  let ?t = "(goes_to p (R6_Lines ch n) s)\<lparr>content := hole (offset s) (content s) @ file_line ch, offset := offset s + 80\<rparr>"
  have ne: "file_line ch \<noteq> []" by (simp add: file_line_def)
  have step: "sys_event do_work (Runs p) s = ?t"
    using Suc.prems write_at_append [OF Suc.prems(2) ne] by (simp add: perform_def)
  have l: "length (content ?t) = offset ?t" using Suc.prems(2) by (simp add: hole_def)
  have "sys_run do_work (replicate n (Runs p)) ?t = writes_lines p ch n ?t"
    using l by (intro Suc.IH) (simp_all add: goes_to_def)
  also have "\<dots> = writes_lines p ch (Suc n) s"
    using l by (simp add: writes_lines_def goes_to_def)
  finally show ?case using step by simp
qed

section \<open>One after the other\<close>

text \<open>The child is done before the parent seeks.\<close>

definition child_first :: "int \<Rightarrow> pevent list" where
  "child_first p = [Runs p, Runs (p + 1), Runs (p + 1), Runs (p + 1)] @ replicate 100 (Runs (p + 1)) @
     [Runs (p + 1), Runs (p + 1), Runs p, Runs p, Runs p] @ replicate 100 (Runs p) @ [Runs p, Runs p]"

lemmas r6_step = init_process_def perform_def goes_to_def end_process_def seekto_def numlines_def lnsize_def

lemma child_first_run:
  assumes "1 < p"
  shows "content (sys_run do_work (child_first p) (init_process p R6_Main)) =
    replicate 10 (CHR 0x00) @ file_lines (replicate 100 (CHR ''c'')) @ file_lines (replicate 100 (CHR ''p''))"
proof -
  let ?s1 = "sys_run do_work [Runs p, Runs (p + 1), Runs (p + 1), Runs (p + 1)] (init_process p R6_Main)"
  have s1: "running ?s1 (p + 1) = Some ([], R6_Lines (CHR ''c'') 100)" "content ?s1 = []" "offset ?s1 = 10"
    "running ?s1 p = Some ([], R6_Switch (p + 1))"
    using assms by (simp_all add: r6_step)
  define s2 where "s2 = writes_lines (p + 1) (CHR ''c'') 100 ?s1"
  have r2: "sys_run do_work (replicate 100 (Runs (p + 1))) ?s1 = s2"
    unfolding s2_def using s1 by (intro alone) simp_all
  have s2: "running s2 (p + 1) = Some ([], R6_Lines (CHR ''c'') 0)" "running s2 p = Some ([], R6_Switch (p + 1))"
    "content s2 = replicate 10 (CHR 0x00) @ file_lines (replicate 100 (CHR ''c''))"
    using s1 by (simp_all add: s2_def writes_lines_def hole_def)
  define s3 where "s3 = sys_run do_work [Runs (p + 1), Runs (p + 1), Runs p, Runs p, Runs p] s2"
  have s3: "running s3 p = Some ([], R6_Lines (CHR ''p'') 100)" "content s3 = content s2" "offset s3 = 8010"
    using s2 assms by (simp_all add: s3_def r6_step)
  define s4 where "s4 = writes_lines p (CHR ''p'') 100 s3"
  have r4: "sys_run do_work (replicate 100 (Runs p)) s3 = s4"
    unfolding s4_def using s3 s2 by (intro alone) simp_all
  have s4: "content s4 = content s2 @ file_lines (replicate 100 (CHR ''p''))" "running s4 p = Some ([], R6_Lines (CHR ''p'') 0)"
    using s3 s2 by (simp_all add: s4_def writes_lines_def)
  have "content (sys_run do_work [Runs p, Runs p] s4) = content s4" using s4 by (simp add: r6_step)
  then show ?thesis
    using s2 s4 r2 r4 s3_def unfolding child_first_def by (simp only: sys_run_simps append_assoc)
qed

section \<open>Both seek first\<close>

definition both_seek :: "int \<Rightarrow> pevent list" where
  "both_seek p = [Runs p, Runs p, Runs p, Runs (p + 1), Runs (p + 1), Runs (p + 1), Runs p]"

text \<open>The lines that a process still has to write.\<close>

fun r6_left :: "char \<Rightarrow> (string list \<times> fork_r6) option \<Rightarrow> nat option" where
  "r6_left ch None = Some 0"
| "r6_left ch (Some ([], R6_Lines c n)) = (if c = ch then Some n else None)"
| "r6_left ch (Some ([], R6_Over)) = Some 0"
| "r6_left ch _ = None"

definition r6_inv :: "int \<Rightarrow> fork_r6 psys \<Rightarrow> bool" where
  "r6_inv p s \<longleftrightarrow>
     (\<forall>q. q \<noteq> p \<and> q \<noteq> p + 1 \<longrightarrow> running s q = None) \<and>
     (\<exists>cs a b. set cs \<subseteq> {CHR ''c'', CHR ''p''} \<and>
        r6_left (CHR ''p'') (running s p) = Some a \<and> count_list cs (CHR ''p'') + a = numlines \<and>
        r6_left (CHR ''c'') (running s (p + 1)) = Some b \<and> count_list cs (CHR ''c'') + b = numlines \<and>
        offset s = 8010 + 80 * length cs \<and>
        content s = (if cs = [] then [] else replicate 8010 (CHR 0x00) @ file_lines cs))"

lemma r6_keeps:
  assumes "r6_inv p s" and "r6_left (CHR ''p'') (running t p) = r6_left (CHR ''p'') (running s p)"
    and "r6_left (CHR ''c'') (running t (p + 1)) = r6_left (CHR ''c'') (running s (p + 1))"
    and "\<forall>q. running s q = None \<longrightarrow> running t q = None" and "offset t = offset s" and "content t = content s"
  shows "r6_inv p t"
  using assms unfolding r6_inv_def by metis

lemma r6_writes:
  assumes "r6_inv p s" and "running s q = Some ([], R6_Lines ch (Suc n))"
  shows "r6_inv p (perform q (Write (file_line ch) (R6_Lines ch n)) s)"
proof -
  obtain cs a b where cs: "set cs \<subseteq> {CHR ''c'', CHR ''p''}"
    "r6_left (CHR ''p'') (running s p) = Some a" "count_list cs (CHR ''p'') + a = numlines"
    "r6_left (CHR ''c'') (running s (p + 1)) = Some b" "count_list cs (CHR ''c'') + b = numlines"
    "offset s = 8010 + 80 * length cs" "content s = (if cs = [] then [] else replicate 8010 (CHR 0x00) @ file_lines cs)"
    and none: "\<forall>q. q \<noteq> p \<and> q \<noteq> p + 1 \<longrightarrow> running s q = None"
    using assms(1) unfolding r6_inv_def by blast
  let ?t = "perform q (Write (file_line ch) (R6_Lines ch n)) s"
  have ne: "file_line ch \<noteq> []" by (simp add: file_line_def)
  have "length (content s) \<le> offset s" using cs(6,7) by simp
  from write_at_append [OF this ne] have t: "content ?t = replicate 8010 (CHR 0x00) @ file_lines (cs @ [ch])"
    "offset ?t = 8010 + 80 * length (cs @ [ch])" "running ?t = (running s)(q \<mapsto> ([], R6_Lines ch n))"
    using cs(6,7) by (simp_all add: perform_def goes_to_def hole_def)
  consider "q = p" | "q = p + 1" using assms(2) none by force
  then show ?thesis
  proof cases
    case 1
    then have "ch = CHR ''p''" "a = Suc n" using cs(2) assms(2) by (simp_all split: if_splits)
    then show ?thesis
      using cs t none 1 unfolding r6_inv_def
      by (intro conjI exI [of _ "cs @ [ch]"] exI [of _ n] exI [of _ b]) simp_all
  next
    case 2
    then have "ch = CHR ''c''" "b = Suc n" using cs(4) assms(2) by (simp_all split: if_splits)
    then show ?thesis
      using cs t none 2 unfolding r6_inv_def
      by (intro conjI exI [of _ "cs @ [ch]"] exI [of _ a] exI [of _ n]) simp_all
  qed
qed

lemma r6_running:
  assumes "r6_inv p s" and "running s q = Some (ls, r)"
  shows "ls = [] \<and> (r = R6_Over \<or> (\<exists>ch n. r = R6_Lines ch n))"
proof -
  consider "q = p" | "q = p + 1" using assms unfolding r6_inv_def by force
  then show ?thesis
  proof cases
    case 1
    then have "\<exists>ch a. r6_left ch (Some (ls, r)) = Some a" using assms unfolding r6_inv_def by metis
    then show ?thesis by (auto elim!: r6_left.elims split: if_splits)
  next
    case 2
    then have "\<exists>ch a. r6_left ch (Some (ls, r)) = Some a" using assms unfolding r6_inv_def by metis
    then show ?thesis by (auto elim!: r6_left.elims split: if_splits)
  qed
qed

lemma r6_acts:
  assumes "r6_inv p s" and "running s q = Some ([], r)"
  shows "r6_inv p (perform q (do_work r) s)"
proof -
  from r6_running [OF assms] consider "r = R6_Over" | ch n where "r = R6_Lines ch (Suc n)" | ch where "r = R6_Lines ch 0"
    by (metis not0_implies_Suc)
  then show ?thesis
  proof cases
    case 1
    show ?thesis
      by (rule r6_keeps [OF assms(1)]) (use 1 assms(2) in \<open>auto simp: perform_def end_process_def\<close>)
  next
    case 2
    then show ?thesis using r6_writes [OF assms(1)] assms(2) by simp
  next
    case 3
    have "r6_left c (running s q) \<noteq> None \<Longrightarrow> r6_left c (Some ([], R6_Over)) = r6_left c (running s q)" for c
      using 3 assms(2) by (simp split: if_splits)
    moreover have "q = p \<or> q = p + 1" "r6_left (CHR ''p'') (running s p) \<noteq> None" "r6_left (CHR ''c'') (running s (p + 1)) \<noteq> None"
      using assms unfolding r6_inv_def by force+
    ultimately show ?thesis
      by (intro r6_keeps [OF assms(1)]) (use 3 assms(2) in \<open>auto simp: perform_def\<close>)
  qed
qed

lemma r6_no_Fork_Wait: "r6_inv p s \<Longrightarrow> running s q = Some ([], r) \<Longrightarrow> do_work r \<noteq> Fork k \<and> do_work r \<noteq> Wait w"
  using r6_running [of p s q "[]" r] by (cases r rule: work_on_file.cases) auto

interpretation shared_offset: program_invariant do_work "r6_inv p" undisturbed
proof
  fix s q l ls r
  assume "r6_inv p s" and "running s q = Some (l # ls, r)"
  then show "r6_inv p (s\<lparr>running := (running s)(q \<mapsto> (ls, r)), printed := printed s @ [(q, l)]\<rparr>)"
    using r6_running by blast
qed (use r6_acts r6_no_Fork_Wait in \<open>auto simp: list_all_iff\<close>)

lemma both_seek_inv:
  assumes "1 < p"
  shows "r6_inv p (sys_run do_work (both_seek p) (init_process p R6_Main))"
  using assms unfolding r6_inv_def
  by (intro conjI exI [of _ "[]"] exI [of _ numlines]) (auto simp: both_seek_def r6_step r6_title_def)

text \<open>Both processes write all their lines and end.\<close>

lemma writes_and_ends:
  assumes "running s q = Some ([], R6_Lines ch n)" and "length (content s) \<le> offset s"
  shows "running (sys_run do_work (replicate n (Runs q) @ [Runs q, Runs q]) s) = (running s)(q := None)"
    and "length (content (sys_run do_work (replicate n (Runs q) @ [Runs q, Runs q]) s)) \<le>
      offset (sys_run do_work (replicate n (Runs q) @ [Runs q, Runs q]) s)"
  using alone [OF assms] assms(2) by (auto simp: writes_lines_def r6_step hole_def)

lemma both_end:
  assumes "1 < p"
  shows "\<exists>evs. list_all undisturbed evs \<and>
    running (sys_run do_work (both_seek p @ evs) (init_process p R6_Main)) p = None \<and>
    running (sys_run do_work (both_seek p @ evs) (init_process p R6_Main)) (p + 1) = None"
proof -
  define s where "s = sys_run do_work (both_seek p) (init_process p R6_Main)"
  define e where "e q = replicate 100 (Runs q) @ [Runs q, Runs q]" for q :: int
  have s: "running s p = Some ([], R6_Lines (CHR ''p'') 100)" "running s (p + 1) = Some ([], R6_Lines (CHR ''c'') 100)"
    "content s = []"
    using assms by (simp_all add: s_def both_seek_def r6_step)
  define t where "t = sys_run do_work (e p) s"
  have t: "running t = (running s)(p := None)" "length (content t) \<le> offset t"
    using writes_and_ends [OF s(1)] s(3) by (simp_all only: t_def e_def) simp_all
  then have "running (sys_run do_work (e (p + 1)) t) = (running t)(p + 1 := None)"
    using writes_and_ends(1) [of t "p + 1" "CHR ''c''" 100] s(2) by (simp only: e_def) simp
  then have "running (sys_run do_work (both_seek p @ e p @ e (p + 1)) (init_process p R6_Main)) = (running t)(p + 1 := None)"
    by (simp add: t_def s_def)
  then show ?thesis
    using t(1) by (intro exI [of _ "e p @ e (p + 1)"]) (simp add: e_def list_all_iff)
qed



end
