(* ===== verification/Unit_Tests.thy ===== *)
theory Unit_Tests
  imports Request_Queue Lab_Input
begin

text \<open>
  The unit tests of the repository, \<open>M9Lab/M9/test_queue.c\<close> and \<open>M4lab/test_input.c\<close>, run on the models of the code
  they test.
\<close>

section \<open>Assertions and mocks\<close>

text \<open>An assertion of \<open>cmocka\<close> that fails leaves the test; the exit code is the line of the assertion.\<close>

definition assert_at :: "nat \<Rightarrow> bool \<Rightarrow> unit outcome" where
  "assert_at line b = (if b then Value () else Exit (int line))"

text \<open>
  The values that \<open>will_return\<close> has put aside for \<open>pthread_mutex_lock\<close> and \<open>pthread_mutex_unlock\<close>, which the linker
  replaces. A call with no value left and a value left at the end both make the test fail.
\<close>

type_synonym mocks = "int list \<times> int list"

definition will_return :: "mocks \<Rightarrow> mocks" where
  "will_return m = (fst m @ [0], snd m @ [0])"

definition mocked :: "(int \<Rightarrow> int \<Rightarrow> 'a outcome) \<Rightarrow> mocks \<Rightarrow> ('a \<times> mocks) outcome" where
  "mocked f m =
     (case m of
        (l # ls, u # us) \<Rightarrow> andthen (f l u) (\<lambda>x. Value (x, (ls, us)))
      | _ \<Rightarrow> Exit 255)"

definition all_used :: "mocks \<Rightarrow> 'a \<Rightarrow> 'a outcome" where
  "all_used m x = (if m = ([], []) then Value x else Exit 255)"

section \<open>The tests of the queue\<close>

text \<open>Each test on the addresses that its allocations return; the result is the heap it leaves behind.\<close>

definition test_queue_init :: "addr \<Rightarrow> addr \<Rightarrow> addr \<Rightarrow> heap \<Rightarrow> heap outcome" where
  "test_queue_init hdr mutex cond_var h =
     andthen (queue_init True hdr mutex cond_var h) (\<lambda>(que, h).
     andthen (assert_at 43 (q_mutex que = mutex)) (\<lambda>_.
     andthen (assert_at 44 (q_cond_var que = cond_var)) (\<lambda>_.
     andthen (assert_at 45 (\<not> q_isclosed que)) (\<lambda>_.
     andthen (assert_at 46 (q_size que = 0)) (\<lambda>_.
     andthen (assert_at 47 (q_header que \<noteq> NULL)) (\<lambda>_.
     andthen (assert_at 48 (q_header que = q_tail que)) (\<lambda>_.
     free_node (q_header que) h)))))))"

definition enqueue_and_check :: "nat \<Rightarrow> int \<Rightarrow> addr \<Rightarrow> addr \<Rightarrow> qstate \<times> mocks \<Rightarrow> (qstate \<times> mocks) outcome" where
  "enqueue_and_check line n node data = (\<lambda>(s, m).
     andthen (mocked (\<lambda>l u. queue_enqueue l u node data s) (will_return m)) (\<lambda>(s, m).
     andthen (assert_at line (q_size (fst s) = n)) (\<lambda>_. Value (s, m))))"

definition dequeue_and_check :: "nat \<Rightarrow> int \<Rightarrow> qstate \<times> mocks \<Rightarrow> (qstate \<times> mocks) outcome" where
  "dequeue_and_check line n = (\<lambda>(s, m).
     andthen (mocked (\<lambda>l u. queue_dequeue l u s) (will_return m)) (\<lambda>((d, s), m).
     andthen (assert_at line (q_size (fst s) = n)) (\<lambda>_. Value (s, m))))"

text \<open>The operations that both larger tests begin with; \<open>line\<close> is the first assertion.\<close>

definition two_in_two_out :: "nat \<Rightarrow> addr \<Rightarrow> addr \<Rightarrow> addr \<Rightarrow> addr \<Rightarrow> addr \<Rightarrow> heap \<Rightarrow> (qstate \<times> mocks) outcome" where
  "two_in_two_out line hdr n1 n2 d1 d2 h =
     andthen (queue_init True hdr 1 2 h) (\<lambda>s.
     andthen (enqueue_and_check line 1 n1 d1 (s, ([], []))) (\<lambda>s.
     andthen (enqueue_and_check line 2 n2 d2 s) (\<lambda>s.
     andthen (dequeue_and_check line 1 s) (\<lambda>s.
     dequeue_and_check line 0 s))))"

definition test_queue_dequeue :: "addr \<Rightarrow> addr \<Rightarrow> addr \<Rightarrow> addr \<Rightarrow> addr \<Rightarrow> heap \<Rightarrow> heap outcome" where
  "test_queue_dequeue hdr n1 n2 d1 d2 h =
     andthen (two_in_two_out 68 hdr n1 n2 d1 d2 h) (\<lambda>(s, m).
     andthen (queue_destroy s) (\<lambda>h. all_used m h))"

definition test_que_is_close :: "addr \<Rightarrow> addr \<Rightarrow> addr \<Rightarrow> addr \<Rightarrow> addr \<Rightarrow> heap \<Rightarrow> heap outcome" where
  "test_que_is_close hdr n1 n2 d1 d2 h =
     andthen (two_in_two_out 104 hdr n1 n2 d1 d2 h) (\<lambda>((q, h), m).
     andthen (mocked (\<lambda>l u. queue_close l u q) (will_return m)) (\<lambda>(q, m).
     andthen (assert_at 129 (queue_isclose q)) (\<lambda>_.
     andthen (queue_destroy (q, h)) (\<lambda>h. all_used m h))))"

definition test_queue_enqueue_when_q_empty :: "addr \<Rightarrow> addr \<Rightarrow> addr \<Rightarrow> heap \<Rightarrow> heap outcome" where
  "test_queue_enqueue_when_q_empty hdr n d h =
     andthen (queue_init True hdr 1 2 h) (\<lambda>s.
     andthen (enqueue_and_check 148 1 n d (s, ([], []))) (\<lambda>((q, h), m). all_used m h))"

lemmas test_defs = test_queue_init_def two_in_two_out_def test_queue_dequeue_def test_que_is_close_def
  test_queue_enqueue_when_q_empty_def enqueue_and_check_def dequeue_and_check_def assert_at_def mocked_def
  will_return_def all_used_def

lemmas queue_defs = queue_init_def queue_enqueue_def queue_dequeue_def queue_close_def queue_isclose_def queue_destroy_def
  LOCK_MTX_def UNLOCK_MTX_def enqueue_links_def dequeue_pass_def dequeue_unlink_def load_node_def set_data_def
  set_next_def alloc_node_def free_node_def

text \<open>
  All tests pass, whatever distinct unused addresses the allocator returns. Three of them leave the heap as it was; the
  last one loses the header and the node.
\<close>

lemma queue_tests_pass:
  assumes "fresh hdr h" and "fresh n1 h" and "fresh n2 h" and "distinct [hdr, n1, n2]"
  shows "test_queue_init hdr mutex cond_var h = Value h"
    and "test_queue_dequeue hdr n1 n2 d1 d2 h = Value h"
    and "test_que_is_close hdr n1 n2 d1 d2 h = Value h"
    and "\<exists>h'. test_queue_enqueue_when_q_empty hdr n1 d1 h = Value h' \<and> dom h' = dom h \<union> {hdr, n1}"
  using assms
  by (auto simp: test_defs queue_defs fresh_def int_range_defs fun_upd_idem_iff)

section \<open>The tests of the validated input\<close>

definition test_validate_double_when_vaild :: "bool" where
  "test_validate_double_when_vaild \<longleftrightarrow> validate_double id (''5.5'' @ [LF]) 0 10 = Accepted (11 / 2)"

definition test_validate_double_when_out_of_range :: bool where
  "test_validate_double_when_out_of_range \<longleftrightarrow> validate_double id (''15.5'' @ [LF]) 0 10 =
     Rejected ''Entry must be greater than 0.00 and less than or equal to 10.00. Please try again.''"

definition test_validate_double_when_not_Greater_equal_to :: bool where
  "test_validate_double_when_not_Greater_equal_to \<longleftrightarrow>
     (case validate_double id (''0.0'' @ [LF] @ '' '') 0 10 of Rejected m \<Rightarrow> True | Accepted v \<Rightarrow> False)"

definition test_validate_double_when_not_a_double :: bool where
  "test_validate_double_when_not_a_double \<longleftrightarrow>
     validate_double id (''five'' @ [LF] @ '' '') 0 10 = Rejected ''Entry must be numeric. Please try again.''"

definition test_validate_double_when_its_a_integer :: bool where
  "test_validate_double_when_its_a_integer \<longleftrightarrow> validate_double id (''2'' @ [LF]) 0 10 = Accepted 2"

definition test_validate_double_when_its_multiple_values_are_pass :: bool where
  "test_validate_double_when_its_multiple_values_are_pass \<longleftrightarrow>
     validate_double id (''5 4'' @ [LF]) 0 10 = Rejected ''Entry must be a single numeric value. Please try again.''"

lemmas scan_defs = validate_double_def scan_lf_def scan_digits_def scan_fraction_def scan_exponent_def split_sign_def

lemma input_tests_pass:
  "test_validate_double_when_vaild" "test_validate_double_when_out_of_range" "test_validate_double_when_not_Greater_equal_to" "test_validate_double_when_not_a_double"
  "test_validate_double_when_its_a_integer" "test_validate_double_when_its_multiple_values_are_pass"
  by code_simp+

text \<open>
  The third test is about a number that is not greater than the lower limit, but the space after its newline makes it fail
  for another reason. Without it the number is accepted.
\<close>

lemma not_greater_accepted:
  "validate_double id (''0.0'' @ [LF]) 0 10 = Accepted 0"
  "validate_double id (''0.0'' @ [LF] @ '' '') 0 10 = Rejected ''Entry must be a single numeric value. Please try again.''"
  by code_simp+

section \<open>The test programs\<close>

text \<open>The result of running a group of tests is the number of those that fail.\<close>

definition failed_tests :: "bool list \<Rightarrow> nat" where
  "failed_tests passed = length (filter Not passed)"

fun passes :: "'a outcome \<Rightarrow> bool" where
  "passes (Value v) = True"
| "passes (Exit n) = False"
| "passes (Undefined u) = False"

definition test_queue_main :: "addr \<Rightarrow> addr \<Rightarrow> addr \<Rightarrow> addr \<Rightarrow> addr \<Rightarrow> addr \<Rightarrow> addr \<Rightarrow> heap \<Rightarrow> nat" where
  "test_queue_main hdr n1 n2 mutex cond_var d1 d2 h =
     failed_tests [passes (test_queue_init hdr mutex cond_var h), passes (test_queue_enqueue_when_q_empty hdr n1 d1 h),
       passes (test_queue_dequeue hdr n1 n2 d1 d2 h), passes (test_que_is_close hdr n1 n2 d1 d2 h)]"

definition test_input_main :: nat where
  "test_input_main =
     failed_tests [test_validate_double_when_vaild, test_validate_double_when_out_of_range,
       test_validate_double_when_not_Greater_equal_to, test_validate_double_when_not_a_double,
       test_validate_double_when_its_a_integer, test_validate_double_when_its_multiple_values_are_pass]"

lemma test_queue_main_succeeds:
  assumes "fresh hdr h" and "fresh n1 h" and "fresh n2 h" and "distinct [hdr, n1, n2]"
  shows "test_queue_main hdr n1 n2 mutex cond_var d1 d2 h = 0"
proof -
  obtain h' where "test_queue_enqueue_when_q_empty hdr n1 d1 h = Value h'" using queue_tests_pass(4) [OF assms] by blast
  then show ?thesis by (simp add: test_queue_main_def failed_tests_def queue_tests_pass(1-3) [OF assms])
qed

lemma test_input_main_succeeds: "test_input_main = 0"
  by (simp add: test_input_main_def failed_tests_def input_tests_pass)

end
