(* ===== verification/Thread_Cancellation.thy ===== *)
theory Thread_Cancellation
  imports Common
begin

text \<open>
  Cancelling threads: \<open>booksrc/ch16/cancelit.c\<close>, with a part in which cancellation is disabled, and
  \<open>booksrc/ch16/cleanup_hdlr.c\<close>, with a cleanup handler that frees a buffer.
\<close>

section \<open>A thread that can be cancelled\<close>

text \<open>
  \<open>Point\<close> is a call that is a cancellation point. \<open>Push\<close> installs a cleanup handler, \<open>Pop\<close> removes the last one
  and runs it if its argument says so.
\<close>

datatype 'v cstep =
  Plain "'v \<Rightarrow> 'v" | Point "'v \<Rightarrow> 'v" | Set_Cancel bool | Push "'v \<Rightarrow> 'v" | Pop bool | Exit_Process

datatype ending = Returned | Cancelled | Process_Exited

record 'v cthread =
  enabled :: bool
  handlers :: "('v \<Rightarrow> 'v) list"
  vars :: 'v

text \<open>The handlers run last in, first out, when the thread is cancelled or calls \<open>pthread_exit\<close>.\<close>

definition clean_up :: "'v cthread \<Rightarrow> 'v" where
  "clean_up t = fold (\<lambda>f v. f v) (handlers t) (vars t)"

fun do_step :: "'v cstep \<Rightarrow> 'v cthread \<Rightarrow> 'v cthread" where
  "do_step (Plain f) t = t\<lparr>vars := f (vars t)\<rparr>"
| "do_step (Point f) t = t\<lparr>vars := f (vars t)\<rparr>"
| "do_step (Set_Cancel b) t = t\<lparr>enabled := b\<rparr>"
| "do_step (Push f) t = t\<lparr>handlers := f # handlers t\<rparr>"
| "do_step (Pop execute) t =
     (if execute then t\<lparr>handlers := tl (handlers t), vars := (hd (handlers t)) (vars t)\<rparr>
      else t\<lparr>handlers := tl (handlers t)\<rparr>)"
| "do_step Exit_Process t = t"

text \<open>
  \<open>k\<close> is the number of steps after which the request arrives, \<open>None\<close> if there is none. It takes effect at the
  next cancellation point at which cancellation is enabled. \<open>exit\<close> ends the process: no handler runs.
\<close>

fun stops :: "nat option \<Rightarrow> 'v cstep \<Rightarrow> 'v cthread \<Rightarrow> ending option" where
  "stops k (Point f) t = (if k = Some 0 \<and> enabled t then Some Cancelled else None)"
| "stops k Exit_Process t = Some Process_Exited"
| "stops k _ t = None"

fun run_thread :: "nat option \<Rightarrow> 'v cstep list \<Rightarrow> 'v cthread \<Rightarrow> 'v \<times> ending" where
  "run_thread k [] t = (clean_up t, Returned)"
| "run_thread k (s # ss) t =
     (case stops k s t of
        Some Process_Exited \<Rightarrow> (vars t, Process_Exited)
      | Some e \<Rightarrow> (clean_up t, e)
      | None \<Rightarrow> run_thread (map_option (\<lambda>n. n - 1) k) ss (do_step s t))"

lemma stops_not_returned: "stops k s t \<noteq> Some Returned"
  by (cases s) simp_all

lemma run_thread_append:
  "run_thread k (xs @ ys) t =
     (if snd (run_thread k xs t) = Returned
      then run_thread (map_option (\<lambda>n. n - length xs) k) ys (fold do_step xs t)
      else run_thread k xs t)"
proof (induction xs arbitrary: k t)
  case Nil
  show ?case by (cases k) simp_all
next
  case (Cons x xs)
  have "map_option (\<lambda>n. n - length xs) (map_option (\<lambda>n. n - 1) k) = map_option (\<lambda>n. n - length (x # xs)) k"
    by (cases k) simp_all
  then show ?case using Cons.IH stops_not_returned [of k x t]
    by (simp split: option.splits ending.splits)
qed

text \<open>While cancellation is disabled nothing is cancelled.\<close>

definition quiet :: "'v cstep \<Rightarrow> bool" where
  "quiet s \<longleftrightarrow> (\<exists>f. s = Plain f \<or> s = Point f)"

lemma disabled_runs:
  "\<not> enabled t \<Longrightarrow> list_all quiet ss \<Longrightarrow> snd (run_thread k ss t) = Returned \<and> \<not> enabled (fold do_step ss t) \<and>
     handlers (fold do_step ss t) = handlers t"
proof (induction ss arbitrary: k t)
  case (Cons s ss)
  then obtain f where "s = Plain f \<or> s = Point f" by (auto simp: quiet_def)
  then show ?case using Cons by auto
qed simp

text \<open>
  What every step keeps holds of the variables when the process exits, and with the handlers run when the thread
  ends; if the thread gets through the steps, it also holds after them.
\<close>

lemma run_thread_keeps:
  assumes "\<And>t s. s \<in> set ss \<Longrightarrow> I t \<Longrightarrow> I (do_step s t)" and "I t"
  shows "\<exists>t' e. I t' \<and> run_thread k ss t = (case e of Process_Exited \<Rightarrow> vars t' | _ \<Rightarrow> clean_up t', e)"
    and "I (fold do_step ss t)"
  using assms by (induction ss arbitrary: k t) (auto split: option.splits ending.splits simp: stops_not_returned)

section \<open>Cancellation disabled for a while\<close>

text \<open>What thread A has printed, character by character and line by line.\<close>

definition NUMLOOPS :: nat where "NUMLOOPS = 100"

definition put_out :: "string \<Rightarrow> string list \<Rightarrow> string list" where
  "put_out s out = out @ [s]"

definition worker_line :: "int \<Rightarrow> string \<Rightarrow> string" where
  "worker_line datum text = '' worker #'' @ show_int datum @ '': '' @ text @ [LF]"

definition DELAY_POINTS :: "int \<Rightarrow> nat \<Rightarrow> string list cstep list" where
  "DELAY_POINTS val loop_count = replicate loop_count (Point (put_out [char_of (nat val)]))"

definition critical_part :: "int \<Rightarrow> string list cstep list" where
  "critical_part datum =
     [Point (put_out (worker_line datum ''disabling Cancellation: will 'work' now...'')), Set_Cancel False] @
     DELAY_POINTS (datum + 48) NUMLOOPS @
     [Point (put_out (LF # worker_line datum ''enabling Cancellation'')), Set_Cancel True]"

definition cancelit_worker :: "int \<Rightarrow> string list cstep list" where
  "cancelit_worker datum =
     (if datum = 0 then critical_part datum else []) @
     [Point (put_out (worker_line datum ''will sleep for 8s now ...'')),
      Point id,
      Point (put_out (worker_line datum ''work (eyeroll) done, exiting now''))]"

definition new_thread :: "'v \<Rightarrow> 'v cthread" where
  "new_thread v = \<lparr>enabled = True, handlers = [], vars = v\<rparr>"

lemma new_thread_simps:
  "enabled (new_thread v)" "handlers (new_thread v) = []" "vars (new_thread v) = v"
  "(new_thread v)\<lparr>vars := w\<rparr> = new_thread w" "clean_up (new_thread v) = v"
  by (simp_all add: new_thread_def clean_up_def)

definition join_line :: "nat \<Rightarrow> ending \<Rightarrow> string" where
  "join_line i e =
     ''Thread #'' @ show_nat i @ '' successfully joined; it terminated with status='' @
     (if e = Cancelled then ''-1'' else ''0'') @ [LF] @
     (if e = Cancelled then ''   *** Was CANCELLED ***'' @ [LF] else [])"

text \<open>\<open>main\<close>: the request to thread A comes after \<open>k\<close> of its steps.\<close>

definition cancelit_main :: "(nat \<Rightarrow> int) \<Rightarrow> int \<Rightarrow> nat \<Rightarrow> (string list \<times> string list \<times> string list) outcome" where
  "cancelit_main create cancel_ret k =
     (if create 0 \<noteq> 0 then FATAL
      else if create 1 \<noteq> 0 then FATAL
      else if cancel_ret \<noteq> 0 then FATAL
      else
        let (outA, cA) = run_thread (Some k) (cancelit_worker 0) (new_thread []);
            (outB, cB) = run_thread None (cancelit_worker 1) (new_thread []) in
        Value (outA, outB, [join_line 0 cA, join_line 1 cB]))"

definition work_of :: "int \<Rightarrow> string list" where
  "work_of datum =
     worker_line datum ''disabling Cancellation: will 'work' now...'' #
     replicate NUMLOOPS [char_of (nat (datum + 48))] @ [LF # worker_line datum ''enabling Cancellation'']"

lemma fold_put_out:
  "fold do_step (replicate n (Point (put_out s))) t = t\<lparr>vars := vars t @ replicate n s\<rparr>"
  by (induction n arbitrary: t) (simp_all add: put_out_def)

lemma critical_part_fold: "fold do_step (critical_part datum) (new_thread []) = new_thread (work_of datum)"
  by (simp add: critical_part_def DELAY_POINTS_def work_of_def new_thread_def fold_put_out put_out_def
      del: fold_replicate)

lemma critical_part_ends:
  "snd (run_thread k (critical_part datum) (new_thread [])) = (if k = Some 0 then Cancelled else Returned)"
proof -
  let ?t = "\<lparr>enabled = False, handlers = [], vars = [worker_line datum ''disabling Cancellation: will 'work' now...'']\<rparr>"
  let ?tail = "[Point (put_out (LF # worker_line datum ''enabling Cancellation''))]"
  have q: "list_all quiet (DELAY_POINTS (datum + 48) NUMLOOPS @ ?tail)"
    by (simp add: DELAY_POINTS_def quiet_def list_all_iff)
  have r: "snd (run_thread j (DELAY_POINTS (datum + 48) NUMLOOPS @ ?tail @ [Set_Cancel True]) ?t) = Returned" for j
    using disabled_runs [OF _ q, of ?t] run_thread_append [of j "DELAY_POINTS (datum + 48) NUMLOOPS @ ?tail" "[Set_Cancel True]" ?t]
    by simp
  show ?thesis
    using r by (simp add: critical_part_def new_thread_def put_out_def)
qed

text \<open>
  The work of thread A is never cut: whenever the request arrives, the thread has printed all 100 characters and
  both messages around them, or nothing at all. The request is honoured exactly if it arrives before the sleep ends.
\<close>

lemma cancelit_work_whole:
  "run_thread (Some k) (cancelit_worker 0) (new_thread []) =
     (if k = 0 then ([], Cancelled)
      else (work_of 0 @
             (if k \<le> length (critical_part 0) then [] else [worker_line 0 ''will sleep for 8s now ...'']) @
             (if k \<le> length (critical_part 0) + 2 then [] else [worker_line 0 ''work (eyeroll) done, exiting now'']),
            if k \<le> length (critical_part 0) + 2 then Cancelled else Returned))"
proof (cases "k = 0")
  case True
  then show ?thesis by (simp add: cancelit_worker_def critical_part_def new_thread_def clean_up_def)
next
  case False
  have e: "snd (run_thread (Some k) (critical_part 0) (new_thread [])) = Returned"
    using critical_part_ends [of "Some k" 0] False by simp
  consider "k \<le> length (critical_part 0)" | "k = length (critical_part 0) + 1" | "k = length (critical_part 0) + 2"
    | "k > length (critical_part 0) + 2" by linarith
  then show ?thesis
    using False e
    by cases (simp_all add: cancelit_worker_def run_thread_append critical_part_fold new_thread_simps put_out_def)
qed

section \<open>A cleanup handler\<close>

text \<open>The buffer of a thread: \<open>Abused\<close> once it is freed twice, or used when it is not allocated.\<close>

datatype buffer = Unallocated | Live | Freed | Abused

datatype wrote = Wrote | At_Eof | Write_Error | Wrote_Nothing

record io_vars =
  iobuf :: buffer
  written :: "nat list"

definition free_buf :: "io_vars \<Rightarrow> io_vars" where
  "free_buf v = v\<lparr>iobuf := (if iobuf v = Live then Freed else Abused)\<rparr>"

definition use_buf :: "io_vars \<Rightarrow> io_vars" where
  "use_buf v = v\<lparr>iobuf := (if iobuf v = Live then Live else Abused)\<rparr>"

definition write_buf :: "nat \<Rightarrow> wrote \<Rightarrow> io_vars \<Rightarrow> io_vars" where
  "write_buf fnr w v = (use_buf v)\<lparr>written := written v @ (if w = Wrote then [fnr] else [])\<rparr>"

text \<open>
  \<open>FATAL\<close> prints to \<open>stderr\<close>, which is a cancellation point, before it exits. Each round of the loop is given by the
  result of \<open>fread\<close> and that of \<open>fwrite\<close> with the state of the stream.
\<close>

fun testit_mt_refactored :: "(nat \<times> wrote) list \<Rightarrow> io_vars cstep list" where
  "testit_mt_refactored [] = []"
| "testit_mt_refactored ((fnr, w) # rounds) =
     Point use_buf #
     (if fnr = 0 then [Point id, Exit_Process]
      else Point (write_buf fnr w) #
        (case w of
           At_Eof \<Rightarrow> []
         | Write_Error \<Rightarrow> [Plain free_buf, Point id, Exit_Process]
         | _ \<Rightarrow> testit_mt_refactored rounds))"

definition cleanup_handler :: "io_vars \<Rightarrow> io_vars" where
  "cleanup_handler v = free_buf v"

definition wrapper_testit_mt_refactored :: "bool \<Rightarrow> (nat \<times> wrote) list \<Rightarrow> io_vars cstep list" where
  "wrapper_testit_mt_refactored malloc_ok rounds =
     (if \<not> malloc_ok then [Point id, Exit_Process]
      else [Plain (\<lambda>v. v\<lparr>iobuf := Live\<rparr>), Push cleanup_handler] @
           Point id # testit_mt_refactored rounds @
           [Pop False, Plain free_buf])"

definition no_buffer :: "io_vars cthread" where
  "no_buffer = new_thread \<lparr>iobuf = Unallocated, written = []\<rparr>"

definition cleanup_main ::
  "string list \<Rightarrow> bool \<Rightarrow> bool \<Rightarrow> (nat \<Rightarrow> bool) \<Rightarrow> (nat \<Rightarrow> int) \<Rightarrow> int \<Rightarrow> (nat \<Rightarrow> bool) \<Rightarrow> (nat \<Rightarrow> nat \<Rightarrow> nat \<times> wrote) \<Rightarrow>
    nat \<Rightarrow> (io_vars \<times> ending) list outcome" where
  "cleanup_main argv wfp_ok rfp_ok calloc_ok create cancel_ret malloc_ok io k =
     (if length argv \<noteq> 3 then Exit EXIT_FAILURE
      else
        let numio = atoi (argv ! 1) in
        if numio \<le> 0 then Exit EXIT_FAILURE
        else if \<not> wfp_ok then FATAL
        else if \<not> rfp_ok then FATAL
        else if \<not> calloc_ok 0 then FATAL
        else if create 0 \<noteq> 0 then FATAL
        else if \<not> calloc_ok 1 then FATAL
        else if create 1 \<noteq> 0 then FATAL
        else if atoi (argv ! 2) = 1 \<and> cancel_ret \<noteq> 0 then FATAL
        else
          let request = (\<lambda>i. if atoi (argv ! 2) = 1 \<and> i = 0 then Some k else None);
              ends = map (\<lambda>i. run_thread (request i)
                        (wrapper_testit_mt_refactored (malloc_ok i) (map (io i) [0..<nat numio])) no_buffer) [0, 1] in
          if Process_Exited \<in> snd ` set ends then FATAL else Value ends)"

text \<open>While no write reports an error every step of the loop keeps the buffer and the handler that frees it.\<close>

lemma testit_steps_keep:
  assumes "Write_Error \<notin> snd ` set rounds" and "s \<in> set (testit_mt_refactored rounds)"
    and "handlers t = [cleanup_handler] \<and> iobuf (vars t) = Live"
  shows "handlers (do_step s t) = [cleanup_handler] \<and> iobuf (vars (do_step s t)) = Live"
  using assms
proof (induction rounds rule: testit_mt_refactored.induct)
  case (2 fnr w rounds)
  then show ?case
    by (auto simp: use_buf_def write_buf_def split: if_splits wrote.splits)
qed simp

lemma guarded_buffer:
  assumes keep: "\<And>s t. s \<in> set mid \<Longrightarrow> handlers t = [cleanup_handler] \<and> iobuf (vars t) = Live \<Longrightarrow>
             handlers (do_step s t) = [cleanup_handler] \<and> iobuf (vars (do_step s t)) = Live"
    and start: "handlers t = [cleanup_handler] \<and> iobuf (vars t) = Live"
  shows "iobuf (fst (run_thread k (mid @ [Pop False, Plain free_buf]) t)) =
           (if snd (run_thread k (mid @ [Pop False, Plain free_buf]) t) = Process_Exited then Live else Freed)"
proof (cases "snd (run_thread k mid t)")
  case Returned
  have "handlers (fold do_step mid t) = [cleanup_handler] \<and> iobuf (vars (fold do_step mid t)) = Live"
    by (rule run_thread_keeps(2)) (use keep start in blast)+
  then show ?thesis using Returned
    by (simp add: run_thread_append clean_up_def free_buf_def)
next
  case Cancelled
  obtain t' e where "handlers t' = [cleanup_handler] \<and> iobuf (vars t') = Live"
    "run_thread k mid t = (case e of Process_Exited \<Rightarrow> vars t' | _ \<Rightarrow> clean_up t', e)"
    using run_thread_keeps(1) [of mid "\<lambda>t. handlers t = [cleanup_handler] \<and> iobuf (vars t) = Live" t k, OF keep start] by blast
  then show ?thesis using Cancelled
    by (simp add: run_thread_append clean_up_def cleanup_handler_def free_buf_def)
next
  case Process_Exited
  obtain t' e where "handlers t' = [cleanup_handler] \<and> iobuf (vars t') = Live"
    "run_thread k mid t = (case e of Process_Exited \<Rightarrow> vars t' | _ \<Rightarrow> clean_up t', e)"
    using run_thread_keeps(1) [of mid "\<lambda>t. handlers t = [cleanup_handler] \<and> iobuf (vars t) = Live" t k, OF keep start] by blast
  then show ?thesis using Process_Exited by (simp add: run_thread_append)
qed

lemma wrapper_run:
  "run_thread k (wrapper_testit_mt_refactored True rounds) no_buffer =
     run_thread (map_option (\<lambda>n. n - 1) (map_option (\<lambda>n. n - 1) k))
       ((Point id # testit_mt_refactored rounds) @ [Pop False, Plain free_buf])
       (no_buffer\<lparr>vars := \<lparr>iobuf = Live, written = []\<rparr>, handlers := [cleanup_handler]\<rparr>)"
  by (simp add: wrapper_testit_mt_refactored_def no_buffer_def new_thread_def)



text \<open>
  The write error: the buffer is freed before \<open>FATAL\<close>, whose output is a cancellation point, with the handler still
  installed. A request that is pending there frees it again.
\<close>

lemma write_error_frees_twice:
  "iobuf (fst (run_thread (Some 6) (wrapper_testit_mt_refactored True [(512, Write_Error)]) no_buffer)) = Abused"
  by code_simp

text \<open>Without \<open>Pop\<close>, or if \<open>Pop False\<close> left the handler for \<open>pthread_exit\<close>, the buffer would be freed twice.\<close>

lemma unpopped_frees_twice:
  "iobuf (fst (run_thread None (Plain (\<lambda>v. v\<lparr>iobuf := Live\<rparr>) # Push cleanup_handler #
     testit_mt_refactored [(512, Wrote)] @ [Plain free_buf]) no_buffer)) = Abused"
  by code_simp

end
