(* ===== verification/Capabilities.thy ===== *)
theory Capabilities
  imports Credentials
begin

text \<open>
  The programs on capabilities, \<open>booksrc/ch8/set_pcap.c\<close> and \<open>booksrc/ch8/query_pcap.c\<close>. The capability sets of a
  thread follow the documented rules, also when its user ids change.
\<close>

section \<open>Capability sets\<close>

datatype cap = CAP_SETUID | CAP_SYS_ADMIN | Other_Cap nat

record capset =
  permitted :: "cap set"
  effective :: "cap set"
  inheritable :: "cap set"

text \<open>A process: its user ids and its capabilities, the objects of type \<open>cap_t\<close> it holds, what it has printed.\<close>

record capproc =
  pid :: int
  ids :: creds
  capabilities :: capset
  objects :: "string list"
  lines :: "string list"

definition says :: "string \<Rightarrow> capproc \<Rightarrow> capproc" where
  "says s p = p\<lparr>lines := lines p @ [s]\<rparr>"

text \<open>\<open>cap_set_proc\<close> never adds to the permitted set, and the effective set stays within it.\<close>

definition cap_set_proc :: "capset \<Rightarrow> capproc \<Rightarrow> capproc option" where
  "cap_set_proc new p =
     (if permitted new \<subseteq> permitted (capabilities p) \<and> effective new \<subseteq> permitted new \<and>
         inheritable new \<subseteq> inheritable (capabilities p) \<union> permitted (capabilities p)
      then Some (p\<lparr>capabilities := new\<rparr>) else None)"

text \<open>
  A change of the user ids changes the capabilities: when the last of the three ids leaves 0 the permitted and the
  effective set are cleared; when the effective id leaves 0 the effective set is cleared; when it becomes 0 the permitted
  set becomes effective.
\<close>

definition root_id :: "creds \<Rightarrow> bool" where
  "root_id c \<longleftrightarrow> ruid c = 0 \<or> euid c = 0 \<or> suid c = 0"

definition change_ids :: "creds \<Rightarrow> capproc \<Rightarrow> capproc" where
  "change_ids c p =
     (let old = ids p; k = capabilities p;
          k = (if root_id old \<and> \<not> root_id c then k\<lparr>permitted := {}, effective := {}\<rparr> else k);
          k = (if euid old = 0 \<and> euid c \<noteq> 0 then k\<lparr>effective := {}\<rparr>
               else if euid old \<noteq> 0 \<and> euid c = 0 then k\<lparr>effective := permitted k\<rparr> else k)
      in p\<lparr>ids := c, capabilities := k\<rparr>)"

definition cap_seteuid :: "int \<Rightarrow> capproc \<Rightarrow> capproc option" where
  "cap_seteuid u p =
     (let c = ids p in
      if CAP_SETUID \<in> effective (capabilities p) \<or> u = ruid c \<or> u = euid c \<or> u = suid c
      then Some (change_ids (c\<lparr>euid := u\<rparr>) p) else None)"

definition cap_setuid :: "int \<Rightarrow> capproc \<Rightarrow> capproc option" where
  "cap_setuid u p =
     (let c = ids p in
      if CAP_SETUID \<in> effective (capabilities p) then Some (change_ids (c\<lparr>ruid := u, euid := u, suid := u\<rparr>) p)
      else if u = ruid c \<or> u = suid c then Some (change_ids (c\<lparr>euid := u\<rparr>) p) else None)"

definition no_caps :: capset where
  "no_caps = \<lparr>permitted = {}, effective = {}, inheritable = {}\<rparr>"

definition new_object :: "string \<Rightarrow> capproc \<Rightarrow> capproc" where
  "new_object x p = p\<lparr>objects := objects p @ [x]\<rparr>"

definition cap_free :: "string \<Rightarrow> capproc \<Rightarrow> capproc" where
  "cap_free x p = p\<lparr>objects := remove1 x (objects p)\<rparr>"

section \<open>Setting and dropping capabilities\<close>

definition id_line :: "capproc \<Rightarrow> string" where
  "id_line p = ''RUID = '' @ show_int (ruid (ids p)) @ '' EUID = '' @ show_int (euid (ids p))"

definition test_setuid :: "capproc \<Rightarrow> capproc" where
  "test_setuid p =
     (let p = says (id_line p) (says ''test_setuid:'' p);
          p = (case cap_seteuid 0 p of None \<Rightarrow> says ''seteuid(0) failed...'' p | Some p' \<Rightarrow> p')
      in says (id_line p) p)"

definition drop_caps_be_normal :: "bool \<Rightarrow> capproc \<Rightarrow> capproc outcome" where
  "drop_caps_be_normal init_ok p =
     (if \<not> init_ok then FATAL
      else
        case cap_set_proc no_caps (new_object ''none'' p) of
          None \<Rightarrow> FATAL
        | Some p \<Rightarrow>
            (let p = cap_free ''none'' p in
             case cap_setuid (ruid (ids p)) p of None \<Rightarrow> FATAL | Some p \<Rightarrow> Value p))"

text \<open>What the environment answers.\<close>

record cap_env =
  first_init :: bool
  signals_ok :: bool
  supported :: "cap \<Rightarrow> bool"
  get_proc :: bool
  set_flag :: bool
  clear_flag :: bool
  second_init :: bool

definition all_well :: cap_env where
  "all_well = \<lparr>first_init = True, signals_ok = True, supported = (\<lambda>x. True), get_proc = True, set_flag = True,
     clear_flag = True, second_init = True\<rparr>"

datatype stage = Paused_1 capproc | Paused_2 capproc | Done capproc

definition wanted :: "int \<Rightarrow> capset \<Rightarrow> capset" where
  "wanted opt k =
     (if opt = 1 then k\<lparr>effective := effective k \<union> {CAP_SETUID} - {CAP_SYS_ADMIN}\<rparr>
      else k\<lparr>effective := effective k \<union> {CAP_SETUID, CAP_SYS_ADMIN}\<rparr>)"

text \<open>
  \<open>main\<close> up to the first pause. An object that is not freed stays in the list. A failing \<open>assert\<close> aborts.
\<close>

definition raise_caps :: "cap_env \<Rightarrow> string list \<Rightarrow> capproc \<Rightarrow> capproc outcome" where
  "raise_caps env argv p =
     (let p = (if first_init env then new_object ''init'' p else p) in
      if length argv < 2 then Exit EXIT_FAILURE
      else
        let opt = atoi (argv ! 1) in
        if opt \<noteq> 1 \<and> opt \<noteq> 2 then Exit EXIT_FAILURE
        else if \<not> signals_ok env then FATAL
        else if \<not> supported env CAP_SETUID then FATAL
        else if opt = 2 \<and> \<not> supported env CAP_SYS_ADMIN then FATAL
        else if \<not> first_init env then ABORT
        else if \<not> get_proc env then FATAL
        else if \<not> set_flag env then FATAL
        else if opt = 1 \<and> \<not> clear_flag env then FATAL
        else
          case cap_set_proc (wanted opt (capabilities p)) (new_object ''proc'' p) of
            None \<Rightarrow> FATAL
          | Some p \<Rightarrow>
              Value (says ''Pausing #1 ...''
                (says (''PID '' @ show_int (pid p) @
                       (if opt = 1 then '' now has CAP_SETUID capability.''
                        else '' now has CAP_SETUID,CAP_SYS_ADMIN capability.'')) p)))"

text \<open>\<open>n\<close> is the number of signals that end a pause.\<close>

definition set_pcap_main :: "cap_env \<Rightarrow> nat \<Rightarrow> string list \<Rightarrow> capproc \<Rightarrow> stage outcome" where
  "set_pcap_main env n argv p =
     andthen (raise_caps env argv p) (\<lambda>p.
       if n = 0 then Value (Paused_1 p)
       else
         let p = says ''Now dropping all capabilities and reverting to original self...''
                   (cap_free ''proc'' (test_setuid (says ''*(boing!)*'' p))) in
         andthen (drop_caps_be_normal (second_init env) p) (\<lambda>p.
           let p = says ''Pausing #2 ...'' (test_setuid p) in
           if n = 1 then Value (Paused_2 p)
           else Value (Done (says ''.. done, exiting.'' (says ''*(boing!)*'' p)))))"

section \<open>Querying the capabilities of a process\<close>

definition query_pcap_main ::
  "bool \<Rightarrow> (int \<Rightarrow> capset option) \<Rightarrow> (capset \<Rightarrow> string option) \<Rightarrow> string list \<Rightarrow> (string \<times> string list) outcome" where
  "query_pcap_main init_ok cap_get_pid cap_to_text argv =
     (if length argv < 2 then Exit EXIT_FAILURE
      else if \<not> init_ok then ABORT
      else
        let pid_arg = atoi (argv ! 1) in
        case cap_get_pid pid_arg of
          None \<Rightarrow> FATAL
        | Some k \<Rightarrow>
            (case cap_to_text k of
               None \<Rightarrow> FATAL
             | Some text \<Rightarrow> Value (''Process '' @ show_int pid_arg @ '' : capabilities are: '' @ text @ [LF], [''init'', ''pid''])))"

section \<open>Correctness\<close>

text \<open>The calls with which a process can change its ids and capabilities; a failing call changes nothing.\<close>

datatype cap_call = Seteuid int | Setuid int | Set_Caps capset

fun do_call :: "cap_call \<Rightarrow> capproc \<Rightarrow> capproc" where
  "do_call (Seteuid u) p = (case cap_seteuid u p of None \<Rightarrow> p | Some p' \<Rightarrow> p')"
| "do_call (Setuid u) p = (case cap_setuid u p of None \<Rightarrow> p | Some p' \<Rightarrow> p')"
| "do_call (Set_Caps k) p = (case cap_set_proc k p of None \<Rightarrow> p | Some p' \<Rightarrow> p')"

text \<open>The effective set always stays within the permitted set.\<close>

definition caps_wf :: "capproc \<Rightarrow> bool" where
  "caps_wf p \<longleftrightarrow> effective (capabilities p) \<subseteq> permitted (capabilities p)"

lemma do_call_wf: "caps_wf p \<Longrightarrow> caps_wf (do_call c p)"
  by (cases c) (auto simp: caps_wf_def cap_seteuid_def cap_setuid_def cap_set_proc_def change_ids_def Let_def split: option.splits)

text \<open>The permitted set only shrinks.\<close>

lemma do_call_permitted: "permitted (capabilities (do_call c p)) \<subseteq> permitted (capabilities p)"
  by (cases c) (auto simp: cap_seteuid_def cap_setuid_def cap_set_proc_def change_ids_def Let_def)

text \<open>A process with no capability and no id 0 can never get either.\<close>

definition powerless :: "capproc \<Rightarrow> bool" where
  "powerless p \<longleftrightarrow> \<not> root_id (ids p) \<and> permitted (capabilities p) = {} \<and> effective (capabilities p) = {}"

lemma powerless_call: "powerless p \<Longrightarrow> powerless (do_call c p)"
  by (cases c) (auto simp: powerless_def root_id_def cap_seteuid_def cap_setuid_def cap_set_proc_def change_ids_def Let_def)

lemma powerless_calls: "powerless p \<Longrightarrow> powerless (fold do_call cs p)"
  by (induction cs arbitrary: p) (simp_all add: powerless_call)

text \<open>The first part needs the capabilities in the permitted set: without them it fails.\<close>

lemma raise_caps_outcome:
  assumes "length argv \<ge> 2" and "atoi (argv ! 1) \<in> {1, 2}" and "caps_wf p"
  shows "(\<exists>q. raise_caps all_well argv p = Value q) \<longleftrightarrow>
           (if atoi (argv ! 1) = 1 then {CAP_SETUID} else {CAP_SETUID, CAP_SYS_ADMIN}) \<subseteq> permitted (capabilities p)"
  using assms
  by (auto simp: raise_caps_def all_well_def cap_set_proc_def new_object_def wanted_def caps_wf_def Let_def
      split: option.splits)

lemma raise_caps_value:
  assumes "raise_caps env argv p = Value q"
  shows "ids q = ids p" and "objects q = objects p @ [''init'', ''proc'']"
    and "CAP_SETUID \<in> effective (capabilities q)" and "permitted (capabilities q) = permitted (capabilities p)"
    and "effective (capabilities q) \<subseteq> permitted (capabilities q)"
    and "atoi (argv ! 1) = 1 \<Longrightarrow> CAP_SYS_ADMIN \<notin> effective (capabilities q)"
  using assms
  by (auto simp: raise_caps_def cap_set_proc_def says_def new_object_def wanted_def Let_def split: if_splits)

text \<open>With the capability the first test becomes user 0, and every permitted capability becomes effective.\<close>

lemma test_setuid_granted:
  assumes "CAP_SETUID \<in> effective (capabilities p)" and "euid (ids p) \<noteq> 0"
  shows "ids (test_setuid p) = (ids p)\<lparr>euid := 0\<rparr>"
    and "capabilities (test_setuid p) = (capabilities p)\<lparr>effective := permitted (capabilities p)\<rparr>"
    and "objects (test_setuid p) = objects p"
  using assms by (simp_all add: test_setuid_def cap_seteuid_def change_ids_def says_def root_id_def Let_def id_line_def)

lemma test_setuid_refused:
  assumes "powerless p"
  shows "ids (test_setuid p) = ids p" and "capabilities (test_setuid p) = capabilities p"
    and "objects (test_setuid p) = objects p"
    and "lines (test_setuid p) = lines p @ [''test_setuid:'', id_line p, ''seteuid(0) failed...'', id_line p]"
  using assms by (simp_all add: test_setuid_def cap_seteuid_def says_def root_id_def powerless_def Let_def id_line_def)

lemma drop_caps_value:
  assumes "drop_caps_be_normal i p = Value q" and "ruid (ids p) \<noteq> 0" and "suid (ids p) \<noteq> 0"
    and "''none'' \<notin> set (objects p)"
  shows "powerless q" and "capabilities q = no_caps" and "ids q = (ids p)\<lparr>euid := ruid (ids p)\<rparr>"
    and "objects q = objects p" and "lines q = lines p"
  using assms
  by (auto simp: drop_caps_be_normal_def cap_set_proc_def cap_setuid_def change_ids_def no_caps_def powerless_def root_id_def
      new_object_def cap_free_def remove1_append Let_def split: if_splits)

lemma set_pcap_main_done:
  assumes "set_pcap_main env n argv p = Value (Done q)"
  obtains p1 p2 where "raise_caps env argv p = Value p1"
    and "drop_caps_be_normal (second_init env)
           (says ''Now dropping all capabilities and reverting to original self...''
             (cap_free ''proc'' (test_setuid (says ''*(boing!)*'' p1)))) = Value p2"
    and "q = says ''.. done, exiting.'' (says ''*(boing!)*'' (says ''Pausing #2 ...'' (test_setuid p2)))"
  using assms
  by (cases "raise_caps env argv p")
    (auto simp: set_pcap_main_def Let_def split: if_splits outcome.splits elim!: andthen.elims)

text \<open>Dropping never fails, and a process with the capabilities gets to the end.\<close>

lemma drop_caps_succeeds: "\<exists>q. drop_caps_be_normal True p = Value q"
  by (simp add: drop_caps_be_normal_def cap_set_proc_def no_caps_def cap_setuid_def Let_def)

lemma set_pcap_main_succeeds:
  assumes "length argv \<ge> 2" and "atoi (argv ! 1) \<in> {1, 2}" and "caps_wf p" and "n \<ge> 2"
    and "(if atoi (argv ! 1) = 1 then {CAP_SETUID} else {CAP_SETUID, CAP_SYS_ADMIN}) \<subseteq> permitted (capabilities p)"
  shows "\<exists>q. set_pcap_main all_well n argv p = Value (Done q)"
proof -
  obtain p1 where p1: "raise_caps all_well argv p = Value p1"
    using raise_caps_outcome [OF assms(1-3)] assms(5) by blast
  have "second_init all_well" by (simp add: all_well_def)
  then obtain p2 where "drop_caps_be_normal (second_init all_well)
      (says ''Now dropping all capabilities and reverting to original self...''
        (cap_free ''proc'' (test_setuid (says ''*(boing!)*'' p1)))) = Value p2"
    using drop_caps_succeeds by metis
  then show ?thesis using p1 assms(4) by (simp add: set_pcap_main_def Let_def)
qed


definition file_caps :: capproc where
  "file_caps =
     \<lparr>pid = 77, ids = \<lparr>ruid = 1000, euid = 1000, suid = 1000, rgid = 1000, egid = 1000\<rparr>,
      capabilities = \<lparr>permitted = {CAP_SETUID, CAP_SYS_ADMIN}, effective = {CAP_SETUID, CAP_SYS_ADMIN}, inheritable = {}\<rparr>,
      objects = [], lines = []\<rparr>"


text \<open>
  With option 1 \<open>CAP_SYS_ADMIN\<close> is cleared from the effective set, but becoming user 0 in the first test makes every
  permitted capability effective again.
\<close>

lemma sys_admin_returns:
  assumes "raise_caps env argv p = Value q" and "atoi (argv ! 1) = 1" and "euid (ids p) \<noteq> 0"
    and "CAP_SYS_ADMIN \<in> permitted (capabilities p)"
  shows "CAP_SYS_ADMIN \<notin> effective (capabilities q)" and "CAP_SYS_ADMIN \<in> effective (capabilities (test_setuid q))"
  using raise_caps_value [OF assms(1)] assms test_setuid_granted(2) [of q] by simp_all

text \<open>
  The capabilities are dropped before \<open>setuid\<close>, which without \<open>CAP_SETUID\<close> leaves the saved id: a process whose saved id
  is 0 becomes user 0 again in the second test.
\<close>

lemma drop_keeps_saved: "drop_caps_be_normal i p = Value q \<Longrightarrow> suid (ids q) = suid (ids p)"
  by (auto simp: drop_caps_be_normal_def cap_set_proc_def cap_setuid_def change_ids_def no_caps_def
      new_object_def cap_free_def Let_def split: if_splits)

lemma test_setuid_saved: "suid (ids p) = 0 \<Longrightarrow> euid (ids (test_setuid p)) = 0"
  by (simp add: test_setuid_def cap_seteuid_def change_ids_def says_def Let_def)

lemma saved_root_returns:
  "drop_caps_be_normal i p = Value q \<Longrightarrow> suid (ids p) = 0 \<Longrightarrow> euid (ids (test_setuid q)) = 0"
  by (simp add: test_setuid_saved drop_keeps_saved)

text \<open>Text that is no number stands for process 0, which is the calling process itself.\<close>

lemma query_pcap_not_a_number:
  assumes "atoi text = 0" and "cap_get_pid 0 = Some k" and "cap_to_text k = Some t"
  shows "query_pcap_main True cap_get_pid cap_to_text [name, text] =
           Value (''Process 0 : capabilities are: '' @ t @ [LF], [''init'', ''pid''])"
proof -
  have "show_int 0 = ''0''" by code_simp
  then show ?thesis using assms by (simp add: query_pcap_main_def)
qed

end
