(* ===== verification/Alternate_Stack.thy ===== *)
theory Alternate_Stack
  imports Signals
begin

text \<open>
  Handlers on an alternate stack: \<open>booksrc/ch11/altstack.c\<close>, \<open>booksrc/solutions_to_assgn/ch12/segv_altstack.c\<close>, and
  \<open>booksrc/ch12/handle_segv.c\<close>, which sets up such a stack for a handler of \<open>SIGSEGV\<close>.
\<close>

section \<open>Where a handler runs\<close>

definition SIGUSR2 :: nat where "SIGUSR2 = 12"

lemmas alt_signals = SIGUSR1_def SIGUSR2_def SIGSEGV_def SIGABRT_def

datatype sa_flag = SA_NODEFER | SA_ONSTACK | SA_RESTART | SA_SIGINFO

record sigconf =
  flags_of :: "nat \<Rightarrow> sa_flag set"
  mask_of :: "nat \<Rightarrow> nat set"

text \<open>
  The addresses of both stacks, which grow downwards, and the number of bytes that a signal frame and its handler need
  together.
\<close>

record layout =
  alt_base :: int
  alt_size :: int
  main_sp :: int
  main_room :: int
  frame_size :: int

text \<open>The handlers that run, the innermost first, each with its signal and whether it runs on the alternate stack.\<close>

type_synonym frames = "(nat \<times> bool) list"

definition on_alt :: "frames \<Rightarrow> nat" where
  "on_alt fs = length (filter snd fs)"

definition on_main :: "frames \<Rightarrow> nat" where
  "on_main fs = length (filter (Not \<circ> snd) fs)"

definition stack_pointer :: "layout \<Rightarrow> frames \<Rightarrow> int" where
  "stack_pointer l fs =
     (if fs \<noteq> [] \<and> snd (hd fs) then alt_base l + alt_size l - frame_size l * int (on_alt fs)
      else main_sp l - frame_size l * int (on_main fs))"

text \<open>
  A handler with \<open>SA_ONSTACK\<close> runs on the alternate stack; one without it runs where the interrupted code runs. Without
  room for its frame it cannot run.
\<close>

definition place :: "layout \<Rightarrow> sigconf \<Rightarrow> nat \<Rightarrow> frames \<Rightarrow> frames option" where
  "place l conf sig fs =
     (let fs' = (sig, SA_ONSTACK \<in> flags_of conf sig \<or> fs \<noteq> [] \<and> snd (hd fs)) # fs in
      if snd (hd fs')
      then (if frame_size l * int (on_alt fs') \<le> alt_size l then Some fs' else None)
      else (if frame_size l * int (on_main fs') \<le> main_room l then Some fs' else None))"

definition blocked_now :: "sigconf \<Rightarrow> nat \<Rightarrow> frames \<Rightarrow> bool" where
  "blocked_now conf sig fs \<longleftrightarrow>
     (\<exists>(f, b) \<in> set fs. sig \<in> mask_of conf f \<or> sig = f \<and> SA_NODEFER \<notin> flags_of conf f)"

section \<open>A process that counts signals\<close>

datatype alt_line = Usr1_Line int int int | Usr2_Line nat int int int | Fatal_Line nat int int int int string

record altproc =
  frames :: frames
  sig_s :: int
  sig_t :: int
  stk_start :: int
  stk :: int
  alt_out :: "alt_line list"

datatype alt_status = Alive altproc | Dead nat altproc

definition MAX_S :: int where "MAX_S = 9"

definition delta :: "altproc \<Rightarrow> int" where
  "delta p = to_signed 64 (stk_start p - stk p)"

text \<open>
  \<open>sighdlr\<close> up to the delay. Signals arrive while it waits, or between handlers. The counter \<open>t\<close> does not overflow
  with fewer than \<open>2 ^ 31\<close> signals.
\<close>

definition sighdlr :: "layout \<Rightarrow> nat \<Rightarrow> altproc \<Rightarrow> altproc" where
  "sighdlr l signum p =
     (let sp = stack_pointer l (frames p);
          p = (if sig_t p = 0 then p\<lparr>stk_start := sp\<rparr> else p) in
      if signum = SIGUSR1 then
        let p = p\<lparr>stk := sp, sig_s := sig_s p + 1, sig_t := sig_t p + 1\<rparr>;
            p = (if sig_s p \<ge> MAX_S then p\<lparr>sig_s := 1\<rparr> else p)
        in p\<lparr>alt_out := alt_out p @ [Usr1_Line (sig_s p) (sig_t p) sp]\<rparr>
      else if signum = SIGUSR2 then p\<lparr>alt_out := alt_out p @ [Usr2_Line signum (stk_start p) (stk p) (delta p)]\<rparr>
      else p)"

text \<open>The last lines of both programs: \<open>altstack\<close> aborts, \<open>segv_altstack\<close> raises the signal again.\<close>

definition fatal_abort :: "layout \<Rightarrow> int \<Rightarrow> int \<Rightarrow> altproc \<Rightarrow> alt_status" where
  "fatal_abort l code addr p =
     (let p = (if sig_t p = 0 then p\<lparr>stk_start := stack_pointer l (frames p)\<rparr> else p)
      in Dead SIGABRT (p\<lparr>alt_out := alt_out p @ [Usr2_Line SIGSEGV (stk_start p) (stk p) (delta p)]\<rparr>))"

definition SEGV_MAPERR :: int where "SEGV_MAPERR = 1"
definition SEGV_ACCERR :: int where "SEGV_ACCERR = 2"

definition fatal_sig_handler :: "layout \<Rightarrow> int \<Rightarrow> int \<Rightarrow> altproc \<Rightarrow> alt_status" where
  "fatal_sig_handler l code addr p =
     Dead SIGSEGV (p\<lparr>alt_out := alt_out p @ [Fatal_Line SIGSEGV (stk_start p) (stk p) (delta p) (sig_t p)
       (if code = SEGV_MAPERR then ''SEGV_MAPERR : Address not mapped to object.''
        else if code = SEGV_ACCERR then ''SEGV_ACCERR : Invalid permissions for mapped object.'' else [])]\<rparr>)"

text \<open>
  When a handler cannot run for want of room the kernel sends \<open>SIGSEGV\<close>, whose handler needs room too; otherwise
  the process dies.
\<close>

definition force_segv ::
  "layout \<Rightarrow> sigconf \<Rightarrow> (layout \<Rightarrow> int \<Rightarrow> int \<Rightarrow> altproc \<Rightarrow> alt_status) \<Rightarrow> int \<Rightarrow> int \<Rightarrow> altproc \<Rightarrow> alt_status" where
  "force_segv l conf fatal code addr p =
     (if blocked_now conf SIGSEGV (frames p) then Dead SIGSEGV p
      else
        case place l conf SIGSEGV (frames p) of
          None \<Rightarrow> Dead SIGSEGV p
        | Some fs \<Rightarrow> fatal l code addr (p\<lparr>frames := fs\<rparr>))"

datatype alt_event = Arrives nat | Returns

definition SI_KERNEL :: int where "SI_KERNEL = 128"

fun alt_step ::
  "layout \<Rightarrow> sigconf \<Rightarrow> (layout \<Rightarrow> int \<Rightarrow> int \<Rightarrow> altproc \<Rightarrow> alt_status) \<Rightarrow> alt_event \<Rightarrow> alt_status \<Rightarrow> alt_status" where
  "alt_step l conf fatal ev (Dead sig p) = Dead sig p"
| "alt_step l conf fatal Returns (Alive p) = Alive (p\<lparr>frames := tl (frames p)\<rparr>)"
| "alt_step l conf fatal (Arrives sig) (Alive p) =
     (if blocked_now conf sig (frames p) then Alive p
      else if sig = SIGSEGV then force_segv l conf fatal 0 0 p
      else
        case place l conf sig (frames p) of
          None \<Rightarrow> force_segv l conf fatal SI_KERNEL 0 p
        | Some fs \<Rightarrow> Alive (sighdlr l sig (p\<lparr>frames := fs\<rparr>)))"

definition alt_run where
  "alt_run l conf fatal evs = fold (alt_step l conf fatal) evs"

definition setup_altsigstack :: "(int \<Rightarrow> bool) \<Rightarrow> (int \<Rightarrow> bool) \<Rightarrow> int \<Rightarrow> unit outcome" where
  "setup_altsigstack malloc_ok sigaltstack_ok stack_sz =
     (if \<not> malloc_ok stack_sz then FATAL else if \<not> sigaltstack_ok stack_sz then FATAL else Value ())"

definition altstack_conf :: sigconf where
  "altstack_conf =
     \<lparr>flags_of = (\<lambda>n. {SA_RESTART})(SIGUSR1 := {SA_NODEFER, SA_ONSTACK, SA_RESTART}, SIGSEGV := {SA_RESTART, SA_ONSTACK}),
      mask_of = (\<lambda>n. {})\<rparr>"

definition segv_altstack_conf :: sigconf where
  "segv_altstack_conf =
     \<lparr>flags_of = (\<lambda>n. {SA_RESTART})
        (SIGUSR1 := {SA_NODEFER, SA_ONSTACK, SA_RESTART}, SIGSEGV := {SA_RESTART, SA_ONSTACK, SA_SIGINFO}),
      mask_of = (\<lambda>n. if n = SIGUSR1 then {} else sigfillset)\<rparr>"

definition alt_start :: altproc where
  "alt_start = \<lparr>frames = [], sig_s = 0, sig_t = 0, stk_start = 0, stk = 0, alt_out = []\<rparr>"

text \<open>Both programs: the argument in KB, the stack, the handlers, and the loop of \<open>pause\<close>.\<close>

definition altstack_size :: "string \<Rightarrow> int outcome" where
  "altstack_size arg = andthen (c_int (atoi arg * 1024)) (\<lambda>z. Value (to_unsigned 64 z))"

definition altstack_program ::
  "sigconf \<Rightarrow> (layout \<Rightarrow> int \<Rightarrow> int \<Rightarrow> altproc \<Rightarrow> alt_status) \<Rightarrow> (int \<Rightarrow> bool) \<Rightarrow> (int \<Rightarrow> bool) \<Rightarrow> (nat \<Rightarrow> bool) \<Rightarrow> layout \<Rightarrow>
     string list \<Rightarrow> alt_event list \<Rightarrow> alt_status outcome" where
  "altstack_program conf fatal malloc_ok sigaltstack_ok sigaction_ok l argv evs =
     (if length argv \<noteq> 2 then Exit EXIT_FAILURE
      else
        andthen (altstack_size (argv ! 1)) (\<lambda>altstacksz.
        andthen (setup_altsigstack malloc_ok sigaltstack_ok altstacksz) (\<lambda>_.
          if \<not> sigaction_ok SIGUSR1 then FATAL
          else if \<not> sigaction_ok SIGUSR2 then FATAL
          else if \<not> sigaction_ok SIGSEGV then FATAL
          else Value (alt_run (l\<lparr>alt_size := altstacksz\<rparr>) conf fatal evs (Alive alt_start)))))"

definition altstack_main where
  "altstack_main = altstack_program altstack_conf fatal_abort"

definition segv_altstack_main where
  "segv_altstack_main = altstack_program segv_altstack_conf fatal_sig_handler"

section \<open>The stack is never overrun\<close>

text \<open>
  Handlers on the alternate stack run above those on the main stack, within the room there is; \<open>s\<close> goes round from 1 to 8
  with the count; the two addresses noted are those of the first and the latest \<open>SIGUSR1\<close>.
\<close>

definition alt_inv :: "layout \<Rightarrow> altproc \<Rightarrow> bool" where
  "alt_inv l p \<longleftrightarrow>
     frame_size l * int (on_alt (frames p)) \<le> alt_size l \<and>
     (sig_t p = 0 \<longrightarrow> (\<forall>f \<in> set (frames p). \<not> snd f) \<and> sig_s p = 0) \<and>
     (sig_t p > 0 \<longrightarrow> sig_s p = (sig_t p - 1) mod 8 + 1 \<and> stk_start p = alt_base l + alt_size l - frame_size l \<and>
        (\<exists>d \<ge> 1. stk p = alt_base l + alt_size l - frame_size l * d \<and> frame_size l * d \<le> alt_size l)) \<and>
     0 \<le> sig_t p"

definition usr1_onstack :: "sigconf \<Rightarrow> bool" where
  "usr1_onstack conf \<longleftrightarrow> SA_ONSTACK \<in> flags_of conf SIGUSR1 \<and> SA_ONSTACK \<notin> flags_of conf SIGUSR2"

lemma both_onstack: "usr1_onstack altstack_conf" "usr1_onstack segv_altstack_conf"
  by (simp_all add: usr1_onstack_def altstack_conf_def segv_altstack_conf_def alt_signals)

lemma alt_inv_start: "0 \<le> alt_size l \<Longrightarrow> alt_inv l alt_start"
  by (simp add: alt_inv_def alt_start_def on_alt_def)

lemma place_frames:
  assumes "place l conf sig fs = Some fs'"
  shows "fs' = (sig, SA_ONSTACK \<in> flags_of conf sig \<or> fs \<noteq> [] \<and> snd (hd fs)) # fs"
    and "snd (hd fs') \<Longrightarrow> frame_size l * int (on_alt fs') \<le> alt_size l"
  using assms by (auto simp: place_def Let_def split: if_splits)

lemma wrap_s: "(if (k - 1) mod 8 + 2 \<ge> MAX_S then 1 else (k - 1) mod 8 + 2) = k mod 8 + (1 :: int)"
proof -
  define m where "m = (k - 1) mod 8"
  have "k mod 8 = (m + 1) mod 8" by (simp add: m_def mod_simps)
  moreover have "0 \<le> m" "m < 8" by (simp_all add: m_def)
  ultimately show ?thesis unfolding m_def [symmetric] MAX_S_def by (cases "m = 7") simp_all
qed

lemma sighdlr_usr1:
  assumes inv: "alt_inv l p" and pl: "place l conf SIGUSR1 (frames p) = Some fs" and conf: "usr1_onstack conf"
  shows "alt_inv l (sighdlr l SIGUSR1 (p\<lparr>frames := fs\<rparr>))"
proof -
  have fs: "fs = (SIGUSR1, True) # frames p" using place_frames(1) [OF pl] conf by (simp add: usr1_onstack_def)
  have room: "frame_size l * int (on_alt fs) \<le> alt_size l" using place_frames(2) [OF pl] fs by simp
  have n: "on_alt fs = Suc (on_alt (frames p))" using fs by (simp add: on_alt_def)
  have sp: "stack_pointer l fs = alt_base l + alt_size l - frame_size l * int (on_alt fs)"
    using fs by (simp add: stack_pointer_def)
  show ?thesis
  proof (cases "sig_t p = 0")
    case True
    then have "on_alt (frames p) = 0" using inv by (simp add: alt_inv_def on_alt_def filter_empty_conv)
    then show ?thesis using True inv room n sp
      by (auto simp: sighdlr_def alt_inv_def MAX_S_def Let_def intro!: exI [of _ 1])
  next
    case False
    then have "0 < sig_t p" using inv by (simp add: alt_inv_def)
    moreover have "sig_s p + 1 = (sig_t p - 1) mod 8 + 2" using inv \<open>0 < sig_t p\<close> by (simp add: alt_inv_def)
    ultimately show ?thesis using inv room n sp wrap_s [of "sig_t p"]
      by (auto simp: sighdlr_def alt_inv_def Let_def intro!: exI [of _ "int (on_alt fs)"] split: if_splits)
  qed
qed

lemma sighdlr_other:
  assumes inv: "alt_inv l p" and pl: "place l conf sig (frames p) = Some fs" and sig: "sig \<noteq> SIGUSR1"
    and no: "SA_ONSTACK \<notin> flags_of conf sig"
  shows "alt_inv l (sighdlr l sig (p\<lparr>frames := fs\<rparr>))"
proof -
  have fs: "fs = (sig, frames p \<noteq> [] \<and> snd (hd (frames p))) # frames p" using place_frames(1) [OF pl] no by simp
  have room: "frame_size l * int (on_alt fs) \<le> alt_size l"
    using place_frames(2) [OF pl] fs inv by (cases "snd (hd fs)") (auto simp: alt_inv_def on_alt_def)
  have "sig_t p = 0 \<Longrightarrow> \<forall>f \<in> set fs. \<not> snd f" using inv fs by (cases "frames p") (auto simp: alt_inv_def)
  then show ?thesis using inv room sig
    by (auto simp: sighdlr_def alt_inv_def Let_def)
qed

lemma alt_inv_return:
  assumes "alt_inv l p" and "0 < frame_size l"
  shows "alt_inv l (p\<lparr>frames := tl (frames p)\<rparr>)"
proof -
  have "on_alt (tl (frames p)) \<le> on_alt (frames p)" by (cases "frames p") (auto simp: on_alt_def)
  then have "frame_size l * int (on_alt (tl (frames p))) \<le> frame_size l * int (on_alt (frames p))"
    using assms(2) by simp
  moreover have "\<forall>f \<in> set (tl (frames p)). f \<in> set (frames p)" by (cases "frames p") auto
  ultimately show ?thesis using assms(1) by (auto simp: alt_inv_def)
qed

definition alt_signal :: "alt_event \<Rightarrow> bool" where
  "alt_signal ev \<longleftrightarrow> ev \<in> {Arrives SIGUSR1, Arrives SIGUSR2, Arrives SIGSEGV, Returns}"

definition fatal_ends :: "(layout \<Rightarrow> int \<Rightarrow> int \<Rightarrow> altproc \<Rightarrow> alt_status) \<Rightarrow> bool" where
  "fatal_ends fatal \<longleftrightarrow> (\<forall>l code addr p. \<exists>sig q. fatal l code addr p = Dead sig q)"

lemma both_fatal: "fatal_ends fatal_abort" "fatal_ends fatal_sig_handler"
  by (simp_all add: fatal_ends_def fatal_abort_def fatal_sig_handler_def Let_def)

lemma force_segv_ends: "fatal_ends fatal \<Longrightarrow> force_segv l conf fatal code addr p \<noteq> Alive q"
  by (auto simp: force_segv_def fatal_ends_def split: option.splits) (metis alt_status.distinct(1))

lemma alt_step_inv:
  assumes "alt_step l conf fatal ev (Alive p) = Alive q" and "alt_inv l p" and "0 < frame_size l"
    and "usr1_onstack conf" and "fatal_ends fatal" and "alt_signal ev"
  shows "alt_inv l q"
proof (cases ev)
  case Returns
  then show ?thesis using assms(1) alt_inv_return [OF assms(2,3)] by auto
next
  case (Arrives sig)
  have two: "sig = SIGUSR1 \<or> sig = SIGUSR2 \<or> sig = SIGSEGV" using assms(6) Arrives by (simp add: alt_signal_def)
  have step: "alt_step l conf fatal (Arrives sig) (Alive p) = Alive q" using assms(1) Arrives by simp
  show ?thesis
  proof (cases "blocked_now conf sig (frames p)")
    case True
    then show ?thesis using step assms(2) by simp
  next
    case False
    have not_segv: "sig \<noteq> SIGSEGV" using step False force_segv_ends [OF assms(5)] by auto
    then obtain fs where fs: "place l conf sig (frames p) = Some fs" "q = sighdlr l sig (p\<lparr>frames := fs\<rparr>)"
      using step False force_segv_ends [OF assms(5)] by (cases "place l conf sig (frames p)") simp_all
    show ?thesis
    proof (cases "sig = SIGUSR1")
      case True
      then show ?thesis using sighdlr_usr1 [OF assms(2) _ assms(4)] fs by simp
    next
      case False
      then show ?thesis using sighdlr_other [OF assms(2) fs(1)] fs(2) assms(4) two not_segv
        by (auto simp: usr1_onstack_def)
    qed
  qed
qed

lemma alt_run_dead: "alt_run l conf fatal evs (Dead sig p) = Dead sig p"
  by (induction evs) (simp_all add: alt_run_def)

lemma alt_run_inv:
  assumes "alt_run l conf fatal evs (Alive p) = Alive q" and "alt_inv l p" and "list_all alt_signal evs"
    and "0 < frame_size l" and "usr1_onstack conf" and "fatal_ends fatal"
  shows "alt_inv l q"
  using assms(1-3)
proof (induction evs arbitrary: p)
  case (Cons ev evs)
  show ?case
  proof (cases "alt_step l conf fatal ev (Alive p)")
    case (Alive p')
    then have "alt_inv l p'" using alt_step_inv [OF Alive] Cons.prems assms(4-6) by simp
    then show ?thesis using Cons Alive by (simp add: alt_run_def)
  next
    case (Dead sig p')
    then show ?thesis using Cons.prems(1) alt_run_dead [of l conf fatal evs sig p'] by (simp add: alt_run_def)
  qed
qed (simp add: alt_run_def)

text \<open>
  While the process lives its handlers stay within the alternate stack, whatever signals arrive, and what \<open>SIGUSR2\<close>
  reports as used is a whole number of frames that leaves alt_out the first one.
\<close>

lemma altstack_within:
  assumes "alt_run l conf fatal evs (Alive alt_start) = Alive p" and "list_all alt_signal evs"
    and "0 < frame_size l" and "0 \<le> alt_size l" and "alt_size l < 2 ^ 63"
    and "(conf, fatal) \<in> {(altstack_conf, fatal_abort), (segv_altstack_conf, fatal_sig_handler)}"
  shows "frames p \<noteq> [] \<Longrightarrow> snd (hd (frames p)) \<Longrightarrow>
           alt_base l \<le> stack_pointer l (frames p) \<and> stack_pointer l (frames p) < alt_base l + alt_size l"
    and "sig_t p > 0 \<Longrightarrow> sig_s p = (sig_t p - 1) mod 8 + 1 \<and> (\<exists>d \<ge> 0. delta p = frame_size l * d \<and> delta p + frame_size l \<le> alt_size l)"
proof -
  have inv: "alt_inv l p"
    using alt_run_inv [OF assms(1) alt_inv_start [OF assms(4)] assms(2,3)] assms(6) both_onstack both_fatal by auto
  show "alt_base l \<le> stack_pointer l (frames p) \<and> stack_pointer l (frames p) < alt_base l + alt_size l"
    if "frames p \<noteq> []" "snd (hd (frames p))"
  proof -
    have "on_alt (frames p) > 0" using that by (cases "frames p") (auto simp: on_alt_def)
    then have "0 < frame_size l * int (on_alt (frames p))" using assms(3) by simp
    then show ?thesis using inv that unfolding alt_inv_def stack_pointer_def by simp
  qed
  show "sig_s p = (sig_t p - 1) mod 8 + 1 \<and> (\<exists>d \<ge> 0. delta p = frame_size l * d \<and> delta p + frame_size l \<le> alt_size l)"
    if pos: "sig_t p > 0"
  proof -
    obtain d where d: "d \<ge> 1" "stk p = alt_base l + alt_size l - frame_size l * d" "frame_size l * d \<le> alt_size l"
      and st: "stk_start p = alt_base l + alt_size l - frame_size l" and sp: "sig_s p = (sig_t p - 1) mod 8 + 1"
      using inv pos by (auto simp: alt_inv_def)
    have e: "stk_start p - stk p = frame_size l * (d - 1)" using d st by (simp add: algebra_simps)
    moreover have "0 \<le> frame_size l * (d - 1)" using d(1) assms(3) by simp
    moreover have f: "frame_size l * (d - 1) + frame_size l \<le> alt_size l" using d(3) by (simp add: algebra_simps)
    ultimately have "delta p = frame_size l * (d - 1)"
      using assms(3,5) by (simp add: delta_def to_signed_def Let_def)
    then show ?thesis using sp d(1) f by (intro conjI exI [of _ "d - 1"]) auto
  qed
qed

text \<open>
  A \<open>SIGUSR1\<close> that finds no room for its frame kills the process: there is no room for the handler of \<open>SIGSEGV\<close> either,
  and what that would print is not printed.
\<close>

lemma altstack_dies_silently:
  assumes "(conf, fatal) \<in> {(altstack_conf, fatal_abort), (segv_altstack_conf, fatal_sig_handler)}"
    and "frame_size l * (int (on_alt (frames p)) + 1) > alt_size l" and "\<not> blocked_now conf SIGUSR1 (frames p)"
  shows "alt_step l conf fatal (Arrives SIGUSR1) (Alive p) = Dead SIGSEGV p"
proof -
  have on: "SA_ONSTACK \<in> flags_of conf SIGUSR1" "SA_ONSTACK \<in> flags_of conf SIGSEGV"
    using assms(1) by (auto simp: altstack_conf_def segv_altstack_conf_def alt_signals)
  have "place l conf sig (frames p) = None" if "SA_ONSTACK \<in> flags_of conf sig" for sig
    using that assms(2) by (simp add: place_def on_alt_def algebra_simps)
  then show ?thesis using on assms(3) by (simp add: force_segv_def alt_signals)
qed

text \<open>Before the first \<open>SIGUSR1\<close> the difference that \<open>SIGUSR2\<close> reports is the stack address itself.\<close>

lemma usr2_first:
  assumes "frame_size l \<le> main_room l" and "0 \<le> main_sp l - frame_size l" and "main_sp l < 2 ^ 63" and "0 < frame_size l"
  shows "alt_run l altstack_conf fatal_abort [Arrives SIGUSR2] (Alive alt_start) =
           Alive (alt_start\<lparr>frames := [(SIGUSR2, False)], stk_start := main_sp l - frame_size l,
             alt_out := [Usr2_Line SIGUSR2 (main_sp l - frame_size l) 0 (main_sp l - frame_size l)]\<rparr>)"
  using assms
  by (simp add: alt_run_def alt_start_def blocked_now_def place_def altstack_conf_def alt_signals sighdlr_def stack_pointer_def
      on_main_def on_alt_def delta_def to_signed_def Let_def)

section \<open>A handler of \<open>SIGSEGV\<close> that reports the fault\<close>

text \<open>The registers in the order in which they are printed.\<close>

definition dump_regs :: "(string \<Rightarrow> int) \<Rightarrow> (string \<times> int) list" where
  "dump_regs gregs =
     map (\<lambda>r. (r, gregs r))
       [''RAX'', ''RBX'', ''RCX'', ''RDX'', ''RSI'', ''RDI'', ''RBP'', ''R8'', ''R9'', ''R10'', ''R11'', ''R12'', ''R13'',
        ''R14'', ''R15'', ''RSP'', ''RIP'', ''EFLAGS'', ''TRAP#'', ''ERROR'', ''CR2'']"

definition si_code_text :: "int \<Rightarrow> string" where
  "si_code_text code =
     (if code = SEGV_MAPERR then ''SEGV_MAPERR: address not mapped to object''
      else if code = SEGV_ACCERR then ''SEGV_ACCERR: invalid permissions for mapped object''
      else if code = 0 then ''user'' else if code = SI_KERNEL then ''kernel'' else if code = -1 then ''queue''
      else if code = -2 then ''timer'' else if code = -3 then ''mesgq'' else if code = -4 then ''async io''
      else if code = -5 then ''sigio'' else if code = -6 then ''t[g]kill'' else ''-none-'')"

record fault_report =
  fr_signum :: nat
  fr_code :: int
  fr_text :: string
  fr_addr :: int
  fr_regs :: "(string \<times> int) list"
  fr_sp :: int

text \<open>
  How the program ends: with an exit code, or by the signal, with the reports that \<open>myfault\<close> has printed. \<open>myfault\<close>
  resets the action of the signal and raises it again.
\<close>

datatype segv_end = Exited int | Segfault "fault_report list"

definition myfault :: "layout \<Rightarrow> frames \<Rightarrow> (string \<Rightarrow> int) \<Rightarrow> nat \<Rightarrow> int \<Rightarrow> int \<Rightarrow> segv_end" where
  "myfault l fs gregs signum code addr =
     Segfault [\<lparr>fr_signum = signum, fr_code = code, fr_text = si_code_text code, fr_addr = addr, fr_regs = dump_regs gregs,
                fr_sp = stack_pointer l fs\<rparr>]"

definition handle_segv_conf :: sigconf where
  "handle_segv_conf = \<lparr>flags_of = (\<lambda>n. {SA_RESTART, SA_SIGINFO}), mask_of = (\<lambda>n. {})\<rparr>"

definition deliver_fault :: "layout \<Rightarrow> (string \<Rightarrow> int) \<Rightarrow> int \<Rightarrow> int \<Rightarrow> segv_end" where
  "deliver_fault l gregs code addr =
     (case place l handle_segv_conf SIGSEGV [] of
        None \<Rightarrow> Segfault []
      | Some fs \<Rightarrow> myfault l fs gregs SIGSEGV code addr)"

text \<open>
  An access on x86-64. An address whose upper 17 bits are not all equal is refused by the processor before it is looked
  up: the signal then carries no address. The upper half belongs to the kernel. \<open>mapped\<close> and \<open>writable\<close> say what is mapped.
\<close>

definition canonical :: "int \<Rightarrow> bool" where
  "canonical a \<longleftrightarrow> a < 2 ^ 47 \<or> a \<ge> 2 ^ 64 - 2 ^ 47"

definition fault_of :: "(int \<Rightarrow> bool) \<Rightarrow> (int \<Rightarrow> bool) \<Rightarrow> bool \<Rightarrow> int \<Rightarrow> (int \<times> int) option" where
  "fault_of mapped writable wr a =
     (if \<not> canonical a then Some (SI_KERNEL, 0)
      else if a \<ge> 2 ^ 64 - 2 ^ 47 \<or> \<not> mapped a then Some (SEGV_MAPERR, a)
      else if wr \<and> \<not> writable a then Some (SEGV_ACCERR, a) else None)"

definition tolower :: "char \<Rightarrow> char" where
  "tolower ch = (if ch \<in> set ''ABCDEFGHIJKLMNOPQRSTUVWXYZ'' then char_of (of_char ch + 32 :: nat) else ch)"

definition invalid_uaddr :: int where "invalid_uaddr = 3735943886"
definition invalid_kaddr :: int where "invalid_kaddr = 18446475380468407981"

text \<open>The first character of an argument, which is the terminating null character if it is empty.\<close>

definition first_char :: "string \<Rightarrow> char" where
  "first_char a = (if a = [] then CHR 0x00 else hd a)"

text \<open>As written, the second test is \<open>tolower(argv[2][0] == 'r')\<close>: the comparison is inside.\<close>

definition chosen :: "int \<Rightarrow> string \<Rightarrow> string \<Rightarrow> (bool \<times> int) option" where
  "chosen main_addr a b =
     (if tolower (first_char a) = CHR ''u'' \<and> first_char b = CHR ''r'' then Some (False, invalid_uaddr)
      else if tolower (first_char a) = CHR ''u'' \<and> first_char b = CHR ''w'' then Some (True, main_addr)
      else if tolower (first_char a) = CHR ''k'' \<and> first_char b = CHR ''r'' then Some (False, invalid_kaddr)
      else if tolower (first_char a) = CHR ''k'' \<and> first_char b = CHR ''w'' then Some (True, invalid_kaddr)
      else None)"

definition setup_altsigstack_of_segv :: "bool \<Rightarrow> int option \<Rightarrow> int" where
  "setup_altsigstack_of_segv malloc_ok errno =
     (if \<not> malloc_ok then -12 else case errno of Some e \<Rightarrow> - e | None \<Rightarrow> 0)"

definition handle_segv_main ::
  "bool \<Rightarrow> int option \<Rightarrow> bool \<Rightarrow> layout \<Rightarrow> (string \<Rightarrow> int) \<Rightarrow> (int \<Rightarrow> bool) \<Rightarrow> (int \<Rightarrow> bool) \<Rightarrow> int \<Rightarrow> string list \<Rightarrow> segv_end" where
  "handle_segv_main malloc_ok errno sigaction_ok l gregs mapped writable main_addr argv =
     (if length argv \<noteq> 3 then Exited 1
      else if setup_altsigstack_of_segv malloc_ok errno < 0 then Exited 1
      else if \<not> sigaction_ok then Exited 1
      else
        case chosen main_addr (argv ! 1) (argv ! 2) of
          None \<Rightarrow> Exited 0
        | Some (wr, a) \<Rightarrow>
            (case fault_of mapped writable wr a of
               None \<Rightarrow> Exited 0
             | Some (code, addr) \<Rightarrow> deliver_fault l gregs code addr))"

text \<open>
  The address that is called a kernel address is not one: the processor refuses it, and the report has the code of the
  kernel and the address 0.
\<close>

lemma invalid_kaddr_refused: "\<not> canonical invalid_kaddr" and invalid_uaddr_user: "canonical invalid_uaddr"
  by (simp_all add: canonical_def invalid_kaddr_def invalid_uaddr_def)

lemma handle_segv_reports:
  assumes "frame_size l \<le> main_room l" and "\<not> mapped invalid_uaddr" and "mapped main_addr" "\<not> writable main_addr"
    and "0 \<le> main_addr" and "main_addr < 2 ^ 47" and "a \<in> {''u'', ''U'', ''k'', ''K''}" and "b \<in> {''r'', ''w''}"
  shows "\<exists>r. handle_segv_main True None True l gregs mapped writable main_addr [name, a, b] = Segfault [r] \<and>
           fr_regs r = dump_regs gregs \<and> fr_sp r = main_sp l - frame_size l \<and>
           (fr_code r, fr_addr r) =
             (if a \<in> {''k'', ''K''} then (SI_KERNEL, 0)
              else if b = ''r'' then (SEGV_MAPERR, invalid_uaddr) else (SEGV_ACCERR, main_addr))"
proof -
  have low: "tolower CHR ''u'' = CHR ''u''" "tolower CHR ''U'' = CHR ''u''" "tolower CHR ''k'' = CHR ''k''"
    "tolower CHR ''K'' = CHR ''k''" by code_simp+
  have place: "place l handle_segv_conf SIGSEGV [] = Some [(SIGSEGV, False)]"
    using assms(1) by (simp add: place_def handle_segv_conf_def on_main_def)
  have u: "fault_of mapped writable False invalid_uaddr = Some (SEGV_MAPERR, invalid_uaddr)"
    using assms(2) by (simp add: fault_of_def invalid_uaddr_user)
  have m: "fault_of mapped writable True main_addr = Some (SEGV_ACCERR, main_addr)"
    using assms(3-6) by (simp add: fault_of_def canonical_def)
  have k: "fault_of mapped writable wr invalid_kaddr = Some (SI_KERNEL, 0)" for wr
    by (simp add: fault_of_def invalid_kaddr_refused)
  show ?thesis
    using assms(7,8) u m k
    by (elim insertE; auto simp: handle_segv_main_def setup_altsigstack_of_segv_def chosen_def first_char_def low deliver_fault_def
        place myfault_def stack_pointer_def on_main_def)
qed

text \<open>A capital letter for the mode works; one for the access does not: the program prints its usage and exits with 0.\<close>

lemma handle_segv_capital_refused:
  "handle_segv_main True None True l gregs mapped writable main_addr [name, ''u'', ''R''] = Exited 0"
  by (simp add: handle_segv_main_def setup_altsigstack_of_segv_def chosen_def first_char_def)

text \<open>
  The action is set without \<open>SA_ONSTACK\<close>, so the alternate stack is not used: with the main stack full, the case for
  which it is set up, nothing is reported.
\<close>

lemma handle_segv_full_stack:
  assumes "main_room l < frame_size l"
  shows "deliver_fault l gregs code addr = Segfault []"
  using assms by (simp add: deliver_fault_def place_def handle_segv_conf_def on_main_def)

end
