(* ===== verification/Scheduling.thy ===== *)
theory Scheduling
  imports Common
begin

text \<open>
  Real-time scheduling of threads: \<open>booksrc/ch17/sched_rt_eg.c\<close> and \<open>booksrc/solutions_to_assgn/ch17/assgn2.c\<close>, with
  the rules of the kernel for policies and priorities.
\<close>

section \<open>Policies and priorities\<close>

definition SCHED_OTHER :: int where "SCHED_OTHER = 0"
definition SCHED_FIFO :: int where "SCHED_FIFO = 1"
definition SCHED_RR :: int where "SCHED_RR = 2"
definition SCHED_BATCH :: int where "SCHED_BATCH = 3"
definition SCHED_DEADLINE :: int where "SCHED_DEADLINE = 6"

lemmas sched_policies = SCHED_OTHER_def SCHED_FIFO_def SCHED_RR_def SCHED_BATCH_def SCHED_DEADLINE_def

definition sched_get_priority_min :: int where "sched_get_priority_min = 1"
definition sched_get_priority_max :: int where "sched_get_priority_max = 99"

text \<open>The attributes of a thread; the flags that the kernel knows are those below 128.\<close>

record sched_attr =
  sched_policy :: int
  sched_flags :: int
  sched_nice :: int
  sched_priority :: int

text \<open>A real-time policy needs a priority of its range, another policy the priority 0.\<close>

definition attr_valid :: "sched_attr \<Rightarrow> bool" where
  "attr_valid a \<longleftrightarrow>
     0 \<le> sched_flags a \<and> sched_flags a < 128 \<and>
     (if sched_policy a \<in> {SCHED_FIFO, SCHED_RR}
      then sched_get_priority_min \<le> sched_priority a \<and> sched_priority a \<le> sched_get_priority_max
      else sched_policy a \<in> {SCHED_OTHER, SCHED_BATCH} \<and> sched_priority a = 0)"

text \<open>The threads that the kernel knows, by their ids. The call is refused without the privilege.\<close>

type_synonym sched_table = "int \<rightharpoonup> sched_attr"

definition sched_setattr :: "bool \<Rightarrow> int \<Rightarrow> sched_attr \<Rightarrow> sched_table \<Rightarrow> sched_table option" where
  "sched_setattr privileged pid a tab =
     (if tab pid = None \<or> \<not> attr_valid a \<or> \<not> privileged then None
      else Some (tab(pid \<mapsto> (if sched_policy a \<in> {SCHED_FIFO, SCHED_RR} then a\<lparr>sched_nice := sched_nice (the (tab pid))\<rparr> else a))))"

definition sched_getattr :: "int \<Rightarrow> sched_table \<Rightarrow> sched_attr option" where
  "sched_getattr pid tab = tab pid"

section \<open>Two real-time threads\<close>

definition NUMWORK :: nat where "NUMWORK = 200"

definition DELAY_CHARS :: "char \<Rightarrow> nat \<Rightarrow> string list" where
  "DELAY_CHARS ch n = replicate n [ch]"

text \<open>A worker: the policy and priority it asks for, and what it prints.\<close>

definition rt_worker ::
  "string \<Rightarrow> int \<Rightarrow> int \<Rightarrow> string list \<Rightarrow> bool \<Rightarrow> int \<Rightarrow> sched_table \<Rightarrow> sched_table \<times> string list" where
  "rt_worker title policy prio work privileged tid tab =
     (case sched_setattr privileged tid \<lparr>sched_policy = policy, sched_flags = 0, sched_nice = 0, sched_priority = prio\<rparr> tab of
        None \<Rightarrow> (tab, [title, ''pthread_setschedparam failed''] @ work)
      | Some tab' \<Rightarrow> (tab', [title] @ work))"

definition rt_worker1 :: "bool \<Rightarrow> int \<Rightarrow> int \<Rightarrow> sched_table \<Rightarrow> sched_table \<times> string list" where
  "rt_worker1 privileged tid msg =
     rt_worker (''Setting sched policy to SCHED_RR and RT priority to '' @ show_int msg @ '' and sleeping for 2s ...'')
       SCHED_RR msg ([''  p1 working''] @ DELAY_CHARS CHR ''1'' NUMWORK @ [''  p1: exiting..'']) privileged tid"

definition rt_worker2 :: "bool \<Rightarrow> int \<Rightarrow> int \<Rightarrow> sched_table \<Rightarrow> sched_table \<times> string list" where
  "rt_worker2 privileged tid msg =
     rt_worker (''Setting sched policy to SCHED_FIFO and RT priority to '' @ show_int (msg + 10) @ '' and sleeping for 4s ...'')
       SCHED_FIFO (msg + 10) ([''  p2 working''] @ DELAY_CHARS CHR ''2'' NUMWORK @ [''  p2 exiting ...'']) privileged tid"

text \<open>
  \<open>main\<close> with the ids of the two threads; \<open>mn\<close> and \<open>mx\<close> are what the calls that ask for the range return. The result is the
  table and what the two workers print.
\<close>

definition sched_rt_main ::
  "int \<Rightarrow> int \<Rightarrow> bool \<Rightarrow> (nat \<Rightarrow> int) \<Rightarrow> int \<Rightarrow> int \<Rightarrow> sched_table \<Rightarrow> string list \<Rightarrow>
    (sched_table \<times> string list \<times> string list) outcome" where
  "sched_rt_main mn mx privileged create tid1 tid2 tab argv =
     (if length argv = 1 then Exit EXIT_FAILURE
      else if mn = -1 then FATAL
      else if mx = -1 then FATAL
      else
        let rt_prio = atoi (argv ! 1) in
        if rt_prio < mn \<or> rt_prio > mx - 10 then FATAL
        else if create 0 \<noteq> 0 then FATAL
        else if create 1 \<noteq> 0 then FATAL
        else
          let (tab, out1) = rt_worker1 privileged tid1 rt_prio tab;
              (tab, out2) = rt_worker2 privileged tid2 rt_prio tab in
          Value (tab, out1, out2))"

section \<open>Changing the policy of a chosen thread\<close>

definition NTHREADS_3 :: nat where "NTHREADS_3 = 3"

definition worker_chars :: "nat \<Rightarrow> string list" where
  "worker_chars thrdnum =
     [''*** Worker Thread #'' @ show_nat thrdnum @ '' ***'' @ [LF]] @ replicate 30 (show_nat thrdnum @ '' '') @ [[LF]]"

definition policy_name :: "int \<Rightarrow> string" where
  "policy_name policy =
     (if policy = SCHED_FIFO then ''SCHED_FIFO'' else if policy = SCHED_RR then ''SCHED_RR''
      else if policy = SCHED_OTHER then ''SCHED_OTHER'' else if policy = SCHED_DEADLINE then ''SCHED_DEADLINE''
      else if policy = SCHED_BATCH then ''SCHED_BATCH'' else ''<unknown>'')"

text \<open>
  What is shown: a row of the table, the announcement of a change, or a warning. \<open>junk\<close> is what the stack holds in a
  structure that has not been set.
\<close>

datatype sched_line = Row nat string int int int | Making nat string int | Get_Failed int | Set_Failed nat

definition row_of :: "nat \<Rightarrow> sched_attr \<Rightarrow> sched_line" where
  "row_of thrdnum a = Row thrdnum (policy_name (sched_policy a)) (sched_priority a) (sched_nice a) (sched_flags a)"

definition get_show_sched :: "sched_attr \<Rightarrow> nat \<Rightarrow> int \<Rightarrow> sched_table \<Rightarrow> sched_line list" where
  "get_show_sched junk thrdnum threadid tab =
     (case sched_getattr threadid tab of
        None \<Rightarrow> [Get_Failed threadid, row_of thrdnum junk]
      | Some a \<Rightarrow> [row_of thrdnum a])"

definition set_sched ::
  "bool \<Rightarrow> sched_attr \<Rightarrow> (nat \<Rightarrow> int) \<Rightarrow> nat \<Rightarrow> int \<Rightarrow> int \<Rightarrow> sched_table \<Rightarrow> sched_table \<times> sched_line list" where
  "set_sched privileged junk tpid thrdnum policy rtprio tab =
     (if tpid thrdnum \<noteq> 0 then
        case sched_setattr privileged (tpid thrdnum) (junk\<lparr>sched_policy := policy, sched_priority := rtprio\<rparr>) tab of
          None \<Rightarrow> (tab, [Set_Failed thrdnum])
        | Some tab' \<Rightarrow> (tab', [])
      else (tab, []))"

definition change_sched_policy_prio ::
  "bool \<Rightarrow> sched_attr \<Rightarrow> (nat \<Rightarrow> int) \<Rightarrow> nat \<Rightarrow> int \<Rightarrow> int \<Rightarrow> nat \<Rightarrow> sched_table \<times> sched_line list \<Rightarrow>
    sched_table \<times> sched_line list" where
  "change_sched_policy_prio privileged junk tpid thrd2change policy rtprio thrdnum st =
     (let (tab, out) = st;
          out = out @ (if tpid thrdnum \<noteq> 0 then get_show_sched junk thrdnum (tpid thrdnum) tab else []) in
      if thrdnum = thrd2change then
        let (tab, l) = set_sched privileged junk tpid thrd2change policy rtprio tab in
        (tab, out @ [Making thrd2change (policy_name policy) rtprio] @ l @ get_show_sched junk thrd2change (tpid thrd2change) tab)
      else (tab, out))"

text \<open>\<open>main\<close>; \<open>tpid\<close> is what the threads have stored of their ids by the time \<open>main\<close> looks, 0 for one that has not run yet.\<close>

definition assgn2_args :: "string list \<Rightarrow> (nat \<times> int \<times> int) outcome" where
  "assgn2_args argv =
     (if length argv \<noteq> 4 then Exit EXIT_FAILURE
      else
        let thrdnum = atoi (argv ! 1); policy = atoi (argv ! 2); rtprio = atoi (argv ! 3) in
        if thrdnum < 0 \<or> thrdnum \<ge> int NTHREADS_3 then Exit EXIT_FAILURE
        else if policy < 0 \<or> policy \<ge> 3 then Exit EXIT_FAILURE
        else if rtprio < sched_get_priority_min \<or> rtprio > sched_get_priority_max then Exit EXIT_FAILURE
        else Value (nat thrdnum, policy, rtprio))"

definition assgn2_main ::
  "bool \<Rightarrow> sched_attr \<Rightarrow> (nat \<Rightarrow> bool) \<Rightarrow> (nat \<Rightarrow> int) \<Rightarrow> (nat \<Rightarrow> int) \<Rightarrow> sched_table \<Rightarrow> string list \<Rightarrow>
    (sched_table \<times> sched_line list) outcome" where
  "assgn2_main privileged junk calloc_ok create tpid tab argv =
     andthen (assgn2_args argv) (\<lambda>(thrdnum, policy, rtprio).
     if \<exists>i \<in> set [0..<NTHREADS_3]. \<not> calloc_ok i \<or> create i \<noteq> 0 then FATAL
     else Value (fold (change_sched_policy_prio privileged junk tpid thrdnum policy rtprio) [0..<NTHREADS_3] (tab, [])))"

section \<open>Correctness\<close>

text \<open>
  For an accepted argument both priorities are in the range of the kernel, and with the privilege the second thread has
  the higher one; no other thread changes.
\<close>

lemma sched_setattr_rt:
  "policy \<in> {SCHED_FIFO, SCHED_RR} \<Longrightarrow> sched_get_priority_min \<le> prio \<Longrightarrow> prio \<le> sched_get_priority_max \<Longrightarrow> tab pid = Some a \<Longrightarrow>
   0 \<le> fl \<Longrightarrow> fl < 128 \<Longrightarrow>
   sched_setattr True pid \<lparr>sched_policy = policy, sched_flags = fl, sched_nice = n, sched_priority = prio\<rparr> tab =
     Some (tab(pid \<mapsto> \<lparr>sched_policy = policy, sched_flags = fl, sched_nice = sched_nice a, sched_priority = prio\<rparr>))"
  by (auto simp: sched_setattr_def attr_valid_def)

lemma sched_rt_sets:
  assumes "length argv = 2" and p: "p = atoi (argv ! 1)" and "1 \<le> p" and "p \<le> 89" and "tid1 \<noteq> tid2"
    and "tab tid1 = Some a1" and "tab tid2 = Some a2"
  shows "\<exists>tab' out1 out2.
     sched_rt_main sched_get_priority_min sched_get_priority_max True (\<lambda>i. 0) tid1 tid2 tab argv = Value (tab', out1, out2) \<and>
     tab' = tab(tid1 \<mapsto> \<lparr>sched_policy = SCHED_RR, sched_flags = 0, sched_nice = sched_nice a1, sched_priority = p\<rparr>,
                tid2 \<mapsto> \<lparr>sched_policy = SCHED_FIFO, sched_flags = 0, sched_nice = sched_nice a2, sched_priority = p + 10\<rparr>)"
proof -
  have r: "sched_get_priority_min \<le> p" "p \<le> sched_get_priority_max" "sched_get_priority_min \<le> p + 10"
    "p + 10 \<le> sched_get_priority_max" using assms(3,4) by (simp_all add: sched_get_priority_min_def sched_get_priority_max_def)
  then have "\<not> (p < sched_get_priority_min \<or> p > sched_get_priority_max - 10)" by simp
  then show ?thesis
    using assms(1,5-7) r p sched_setattr_rt [of SCHED_RR p tab tid1 a1 0 0]
      sched_setattr_rt [of SCHED_FIFO "p + 10" "tab(tid1 \<mapsto> a)" tid2 a2 0 0 for a]
    by (simp add: sched_rt_main_def rt_worker1_def rt_worker2_def rt_worker_def Let_def
        sched_get_priority_min_def sched_get_priority_max_def)
qed

text \<open>Without the privilege nothing changes, and both workers say so and go on.\<close>

lemma sched_rt_unprivileged:
  assumes "sched_rt_main mn mx False create tid1 tid2 tab argv = Value (tab', out1, out2)"
  shows "tab' = tab" and "''pthread_setschedparam failed'' \<in> set out1 \<inter> set out2"
  using assms by (auto simp: sched_rt_main_def rt_worker1_def rt_worker2_def rt_worker_def sched_setattr_def Let_def split: if_splits)

text \<open>The solution changes at most the chosen thread.\<close>

lemma change_others:
  "i \<noteq> n \<Longrightarrow> fst (change_sched_policy_prio privileged junk tpid n policy rtprio i st) = fst st"
  by (auto simp: change_sched_policy_prio_def Let_def split: prod.splits)

lemma change_chosen:
  "fst (change_sched_policy_prio privileged junk tpid n policy rtprio n st) =
     fst (set_sched privileged junk tpid n policy rtprio (fst st))"
  by (auto simp: change_sched_policy_prio_def Let_def split: prod.splits)

lemma fold_change:
  "n \<notin> set is \<Longrightarrow> fst (fold (change_sched_policy_prio privileged junk tpid n policy rtprio) is st) = fst st"
  by (induction "is" arbitrary: st) (auto simp: change_others)

lemma fold_change_chosen:
  assumes "n < m"
  shows "fst (fold (change_sched_policy_prio privileged junk tpid n policy rtprio) [0..<m] st) =
           fst (set_sched privileged junk tpid n policy rtprio (fst st))"
proof -
  have "[0..<m] = [0..<n] @ [n..<m]" using assms upt_add_eq_append [of 0 n "m - n"] by simp
  then have "[0..<m] = [0..<n] @ n # [Suc n..<m]" using assms by (simp add: upt_conv_Cons)
  then show ?thesis by (simp add: fold_change change_chosen)
qed

lemma assgn2_table:
  assumes "assgn2_args argv = Value (n, policy, rtprio)"
  shows "\<exists>out. assgn2_main privileged junk (\<lambda>i. True) (\<lambda>i. 0) tpid tab argv =
           Value (fst (set_sched privileged junk tpid n policy rtprio tab), out)"
proof -
  have "n < NTHREADS_3" using assms by (auto simp: assgn2_args_def Let_def nat_less_iff split: if_splits)
  then show ?thesis using assms fold_change_chosen [of n NTHREADS_3 privileged junk tpid policy rtprio "(tab, [])"]
    by (simp add: assgn2_main_def prod_eq_iff)
qed

text \<open>
  The chosen thread gets the policy and the priority exactly if the caller is privileged, the thread has stored its id and
  still runs, the policy is a real-time policy and the flags that were left unset happen to be valid.
\<close>

lemma assgn2_changes:
  assumes "assgn2_args argv = Value (n, policy, rtprio)"
  shows "\<exists>tab' out. assgn2_main privileged junk (\<lambda>i. True) (\<lambda>i. 0) tpid tab argv = Value (tab', out) \<and>
           (\<forall>pid. pid \<noteq> tpid n \<longrightarrow> tab' pid = tab pid) \<and>
           (if privileged \<and> tpid n \<noteq> 0 \<and> tab (tpid n) \<noteq> None \<and> policy \<noteq> SCHED_OTHER \<and> 0 \<le> sched_flags junk \<and> sched_flags junk < 128
            then \<exists>a. tab' (tpid n) = Some a \<and> sched_policy a = policy \<and> sched_priority a = rtprio
            else tab' = tab)"
proof -
  have a: "sched_get_priority_min \<le> rtprio" "rtprio \<le> sched_get_priority_max" "0 \<le> policy" "policy < 3"
    using assms by (auto simp: assgn2_args_def Let_def split: if_splits)
  then have pol: "policy = SCHED_OTHER \<or> policy = SCHED_FIFO \<or> policy = SCHED_RR" by (auto simp: sched_policies)
  obtain out where out: "assgn2_main privileged junk (\<lambda>i. True) (\<lambda>i. 0) tpid tab argv =
      Value (fst (set_sched privileged junk tpid n policy rtprio tab), out)" using assgn2_table [OF assms] by blast
  have prio: "rtprio \<noteq> 0" using a(1) by (simp add: sched_get_priority_min_def)
  show ?thesis
    unfolding out using a(1,2) pol prio
    by (auto simp: set_sched_def sched_setattr_def attr_valid_def sched_policies)
qed

end
