(* ===== verification/Thread_Signals.thy ===== *)
theory Thread_Signals
  imports Alternate_Stack Thread_Cancellation
begin

text \<open>
  Signals in programs with several threads, with one thread that waits for them: \<open>booksrc/ch16/tsig.c\<close> and
  \<open>booksrc/ch16/pthreads_app_template.c\<close>.
\<close>

section \<open>A process whose threads block signals\<close>

text \<open>
  All threads have the same mask. Some signals have a handler that is never to return. \<open>caught\<close> are the signals that the
  waiting thread has taken, \<open>reports\<close> what the handler has printed.
\<close>

record mtprog =
  thread_mask :: sigset
  fatal_sigs :: sigset

record mtproc =
  sig_pending :: "nat list"
  caught :: "nat list"
  signal_handled :: int
  reports :: "(nat \<times> string list) list"

datatype mt_status = Mt_Running mtproc | Mt_Killed nat mtproc | Mt_Exited int mtproc

definition fresh_mt :: mtproc where
  "fresh_mt = \<lparr>sig_pending = [], caught = [], signal_handled = -1, reports = []\<rparr>"

definition post :: "nat \<Rightarrow> mtproc \<Rightarrow> mtproc" where
  "post n p = (if n < SIGRTMIN \<and> n \<in> set (sig_pending p) then p else p\<lparr>sig_pending := sig_pending p @ [n]\<rparr>)"

text \<open>The lines for the origin of a signal: the cases of bound and protection key errors run into those below them.\<close>

definition cause_lines :: "int \<Rightarrow> string list" where
  "cause_lines code =
     (if code = 0 then [''user''] else if code = SI_KERNEL then [''kernel''] else if code = -1 then [''queue'']
      else if code = -2 then [''timer''] else if code = -3 then [''mesgq''] else if code = -4 then [''async io'']
      else if code = -5 then [''sigio''] else if code = -6 then [''t[g]kill'']
      else if code = SEGV_MAPERR then [''SEGV_MAPERR: address not mapped to object'']
      else if code = SEGV_ACCERR then [''SEGV_ACCERR: invalid permissions for mapped object'']
      else if code = 3 then [''SEGV_BNDERR: failed address bound checks'',
                             ''SEGV_PKUERR: access denied by memory-protection keys'', ''-none-'']
      else if code = 4 then [''SEGV_PKUERR: access denied by memory-protection keys'', ''-none-'']
      else [''-none-''])"

text \<open>
  The handler of the fatal signals: it sets the action of \<open>SIGSEGV\<close> to the default, raises \<open>SIGSEGV\<close> and exits. During the
  handler the signal that it handles is blocked.
\<close>

definition fatal_sigs_handler :: "sigset \<Rightarrow> nat \<Rightarrow> int \<Rightarrow> mtproc \<Rightarrow> mt_status" where
  "fatal_sigs_handler m signum code p =
     (let p = p\<lparr>reports := reports p @ [(signum, cause_lines code)]\<rparr> in
      if SIGSEGV \<in> m \<union> {signum} then Mt_Exited 1 p else Mt_Killed SIGSEGV p)"

definition take_action :: "mtprog \<Rightarrow> nat \<Rightarrow> int \<Rightarrow> mtproc \<Rightarrow> mt_status" where
  "take_action prog n code p =
     (if n \<in> fatal_sigs prog then fatal_sigs_handler (thread_mask prog) n code p
      else case default_action n of Term \<Rightarrow> Mt_Killed n p | Ign_Default \<Rightarrow> Mt_Running p)"

text \<open>
  A signal is sent to the process; the waiting thread takes a pending one; a pending one is delivered to a thread that
  does not block it; a thread causes a fault, which kills the process if the signal is blocked.
\<close>

datatype mt_event = Sends nat | Takes nat | Delivers nat int | Faults nat int

text \<open>The body of the loop of \<open>signal_handler\<close>, with the results of the calls on the mutex.\<close>

definition signal_handler :: "int \<Rightarrow> int \<Rightarrow> nat \<Rightarrow> mtproc \<Rightarrow> mt_status" where
  "signal_handler lock_ret unlock_ret sig p =
     (if lock_ret \<noteq> 0 then Mt_Exited 1 p
      else
        let p = p\<lparr>signal_handled := int sig\<rparr> in
        if unlock_ret \<noteq> 0 then Mt_Exited 1 p
        else Mt_Running (p\<lparr>caught := caught p @ [sig]\<rparr>))"

fun mt_step :: "mtprog \<Rightarrow> mt_event \<Rightarrow> mt_status \<Rightarrow> mt_status" where
  "mt_step prog (Sends n) (Mt_Running p) = (if n = SIGKILL then Mt_Killed n p else Mt_Running (post n p))"
| "mt_step prog (Takes n) (Mt_Running p) =
     (if n \<in> set (sig_pending p) then signal_handler 0 0 n (p\<lparr>sig_pending := remove1 n (sig_pending p)\<rparr>) else Mt_Running p)"
| "mt_step prog (Delivers n code) (Mt_Running p) =
     (if n \<in> set (sig_pending p) \<and> n \<notin> thread_mask prog
      then take_action prog n code (p\<lparr>sig_pending := remove1 n (sig_pending p)\<rparr>) else Mt_Running p)"
| "mt_step prog (Faults n code) (Mt_Running p) =
     (if n \<in> thread_mask prog then Mt_Killed n p else take_action prog n code p)"
| "mt_step prog ev st = st"

definition mt_run :: "mtprog \<Rightarrow> mt_event list \<Rightarrow> mt_status \<Rightarrow> mt_status" where
  "mt_run prog evs st = fold (mt_step prog) evs st"

section \<open>The programs\<close>

text \<open>What the thread of \<open>tsig\<close> prints for a signal.\<close>

definition tsig_line :: "nat \<Rightarrow> string" where
  "tsig_line sig =
     (if sig \<in> {SIGINT, SIGQUIT, SIGIO} then ''+++ signal_handler(): caught signal #'' @ show_nat sig @ '' +++''
      else ''*** signal_handler(): caught signal #'' @ show_nat sig @ '' [unhandled] ***'')"

definition tsig_work :: "nat \<Rightarrow> string list" where
  "tsig_work this =
     [''running ...''] @ (if this = 1 then replicate 200 ''1'' else if this = 2 then replicate 200 ''2'' else []) @
     [''---------------------------------------'']"

definition tsig_prog :: mtprog where
  "tsig_prog = \<lparr>thread_mask = sigfillset, fatal_sigs = {}\<rparr>"

definition tsig_main :: "int \<Rightarrow> (nat \<Rightarrow> int) \<Rightarrow> mt_event list \<Rightarrow> mt_status outcome" where
  "tsig_main sigmask_ret create evs =
     (if sigmask_ret \<noteq> 0 then FATAL
      else if \<exists>i \<in> set [0..<3]. create i \<noteq> 0 then FATAL
      else Value (mt_run tsig_prog evs (Mt_Running fresh_mt)))"

definition sync_sigs :: sigset where
  "sync_sigs = {SIGSEGV, SIGBUS, SIGABRT, SIGFPE, SIGILL}"

text \<open>The worker of the template installs its handler and removes it.\<close>

definition template_cleanup :: "nat \<Rightarrow> string list \<Rightarrow> string list" where
  "template_cleanup thrdnum lines = lines @ [''+++ In cleanup_handler():thrd #'' @ show_nat thrdnum @ '' +++'']"

definition template_worker :: "nat \<Rightarrow> string list cstep list" where
  "template_worker thrdnum = [Push (template_cleanup thrdnum), Pop False]"

text \<open>The numbers of the calls that can fail are those of the list; the last five set the actions.\<close>

definition init_signal_handling_for_mt :: "(nat \<Rightarrow> bool) \<Rightarrow> bool \<Rightarrow> int option \<Rightarrow> mtprog outcome" where
  "init_signal_handling_for_mt call_ok malloc_ok errno =
     (if \<exists>i \<in> set [0..<7]. \<not> call_ok i then Exit 1
      else if setup_altsigstack_of_segv malloc_ok errno < 0 then Exit 1
      else if \<exists>i \<in> set [7..<12]. \<not> call_ok i then Exit 1
      else Value \<lparr>thread_mask = sigfillset - sync_sigs, fatal_sigs = sync_sigs\<rparr>)"

definition template_main ::
  "(nat \<Rightarrow> bool) \<Rightarrow> bool \<Rightarrow> int option \<Rightarrow> int \<Rightarrow> (nat \<Rightarrow> bool) \<Rightarrow> (nat \<Rightarrow> int) \<Rightarrow> mt_event list \<Rightarrow>
    ((string list \<times> ending) list \<times> mt_status) outcome" where
  "template_main call_ok malloc_ok errno stack_ret calloc_ok create evs =
     andthen (init_signal_handling_for_mt call_ok malloc_ok errno) (\<lambda>prog.
       if stack_ret \<noteq> 0 then Exit EXIT_FAILURE
       else if create 0 \<noteq> 0 then Exit 1
       else if \<exists>i \<in> set [1..<3]. \<not> calloc_ok i \<or> create i \<noteq> 0 then FATAL
       else Value (map (\<lambda>i. run_thread None (template_worker i) (new_thread [])) [1..<3],
                   mt_run prog evs (Mt_Running fresh_mt)))"

definition template_prog :: mtprog where
  "template_prog = \<lparr>thread_mask = sigfillset - sync_sigs, fatal_sigs = sync_sigs\<rparr>"

section \<open>Correctness\<close>

lemma template_main_value:
  "template_main (\<lambda>i. True) True None 0 (\<lambda>i. True) (\<lambda>i. 0) evs =
     Value ([([], Returned), ([], Returned)], mt_run template_prog evs (Mt_Running fresh_mt))"
  by (simp add: template_main_def init_signal_handling_for_mt_def setup_altsigstack_of_segv_def template_prog_def
      template_worker_def new_thread_def clean_up_def upt_rec)

text \<open>The signals sent to the process.\<close>

fun sends :: "mt_event \<Rightarrow> nat list" where
  "sends (Sends n) = [n]"
| "sends ev = []"

definition sent_sigs :: "mt_event list \<Rightarrow> nat list" where
  "sent_sigs evs = concat (map sends evs)"

text \<open>An event of a run with no fault, in which no signal is one that the threads leave unblocked.\<close>

fun masked_event :: "mtprog \<Rightarrow> mt_event \<Rightarrow> bool" where
  "masked_event prog (Sends n) \<longleftrightarrow> n \<in> thread_mask prog - {SIGKILL, SIGSTOP}"
| "masked_event prog (Faults n code) \<longleftrightarrow> False"
| "masked_event prog ev \<longleftrightarrow> True"

definition accounted :: "mtprog \<Rightarrow> nat list \<Rightarrow> mtproc \<Rightarrow> bool" where
  "accounted prog ns p \<longleftrightarrow>
     set (sig_pending p) \<subseteq> thread_mask prog \<and> reports p = [] \<and>
     (\<forall>n. n \<ge> SIGRTMIN \<longrightarrow> count_list (caught p) n + count_list (sig_pending p) n = count_list ns n) \<and>
     (\<forall>n. n < SIGRTMIN \<longrightarrow> count_list (caught p) n + count_list (sig_pending p) n \<le> count_list ns n \<and>
            (n \<in> set ns \<longrightarrow> n \<in> set (caught p) \<union> set (sig_pending p))) \<and>
     signal_handled p = (if caught p = [] then -1 else int (last (caught p)))"

lemma post_accounted:
  assumes "accounted prog ns p" and "n \<in> thread_mask prog"
  shows "accounted prog (ns @ [n]) (post n p)"
proof (cases "n < SIGRTMIN \<and> n \<in> set (sig_pending p)")
  case True
  then show ?thesis using assms by (auto simp: accounted_def post_def intro: le_SucI)
next
  case False
  then show ?thesis using assms by (auto simp: accounted_def post_def)
qed

lemma take_accounted:
  assumes "accounted prog ns p" and "n \<in> set (sig_pending p)"
  shows "\<exists>q. signal_handler 0 0 n (p\<lparr>sig_pending := remove1 n (sig_pending p)\<rparr>) = Mt_Running q \<and> accounted prog ns q"
proof -
  have "set (remove1 n (sig_pending p)) \<subseteq> set (sig_pending p)" by (rule set_remove1_subset)
  moreover have "count_list (sig_pending p) n > 0" using assms(2) by (simp add: count_list_0_iff neq0_conv [symmetric] del: neq0_conv)
  then obtain k where "count_list (sig_pending p) n = Suc k" by (cases "count_list (sig_pending p) n") auto
  ultimately show ?thesis using assms(1)
    by (auto simp: signal_handler_def accounted_def)
qed

lemma mt_step_accounted:
  assumes "accounted prog ns p" and "masked_event prog ev"
  shows "\<exists>q. mt_step prog ev (Mt_Running p) = Mt_Running q \<and> accounted prog (ns @ sends ev) q"
proof (cases ev)
  case (Sends n)
  then show ?thesis using assms post_accounted [of prog ns p n] by auto
next
  case (Takes n)
  then show ?thesis using assms(1) take_accounted [of prog ns p n] by auto
next
  case (Delivers n code)
  then have "\<not> (n \<in> set (sig_pending p) \<and> n \<notin> thread_mask prog)" using assms(1) by (auto simp: accounted_def)
  then show ?thesis using assms(1) Delivers by auto
next
  case (Faults n code)
  then show ?thesis using assms(2) by simp
qed

lemma mt_run_accounted:
  "accounted prog ns p \<Longrightarrow> list_all (masked_event prog) evs \<Longrightarrow>
     \<exists>q. mt_run prog evs (Mt_Running p) = Mt_Running q \<and> accounted prog (ns @ sent_sigs evs) q"
proof (induction evs arbitrary: ns p)
  case (Cons ev evs)
  then obtain q where "mt_step prog ev (Mt_Running p) = Mt_Running q" "accounted prog (ns @ sends ev) q"
    using mt_step_accounted by fastforce
  then show ?case using Cons by (fastforce simp: mt_run_def sent_sigs_def)
qed (simp add: mt_run_def sent_sigs_def)

text \<open>
  The process lives on whatever blocked signals arrive; every real-time signal is taken exactly once or still pending,
  every other signal that was sent has been taken or is pending, and the variable holds the last one taken.
\<close>

lemma dedicated_thread_accounts:
  assumes "prog \<in> {tsig_prog, template_prog}" and "list_all (masked_event prog) evs"
  shows "\<exists>p. mt_run prog evs (Mt_Running fresh_mt) = Mt_Running p \<and> accounted prog (sent_sigs evs) p"
proof -
  have "accounted prog [] fresh_mt" by (simp add: accounted_def fresh_mt_def)
  then show ?thesis using mt_run_accounted [OF _ assms(2), of "[]"] by simp
qed

text \<open>In \<open>tsig\<close> every signal is blocked: none but \<open>SIGKILL\<close> and a fault ends it.\<close>

lemma tsig_ends_only:
  assumes "mt_step tsig_prog ev (Mt_Running p) = Mt_Killed n q" and "\<And>n. ev = Sends n \<Longrightarrow> n \<in> sigfillset"
    and "set (sig_pending p) \<subseteq> sigfillset"
  shows "n = SIGKILL \<and> ev = Sends SIGKILL \<or> (\<exists>code. ev = Faults n code)"
  using assms
  by (cases ev) (auto simp: tsig_prog_def signal_handler_def take_action_def fatal_sigs_handler_def default_action_def Let_def split: if_splits)

text \<open>
  How the template ends after a fault: a segmentation fault exits with code 1 and no core, because the signal is blocked
  in its own handler when it is raised again; every other fatal signal is reported by the status as \<open>SIGSEGV\<close>.
\<close>

lemma template_fault:
  assumes "n \<in> sync_sigs"
  shows "mt_step template_prog (Faults n code) (Mt_Running p) =
           (if n = SIGSEGV then Mt_Exited 1 (p\<lparr>reports := reports p @ [(n, cause_lines code)]\<rparr>)
            else Mt_Killed SIGSEGV (p\<lparr>reports := reports p @ [(n, cause_lines code)]\<rparr>))"
  using assms by (auto simp: template_prog_def take_action_def fatal_sigs_handler_def sync_sigs_def)

text \<open>A fatal signal that is sent to the process can be taken by the waiting thread, and then ends nothing.\<close>

lemma template_sent_fatal_taken:
  "n \<in> sync_sigs \<Longrightarrow>
     \<exists>p. mt_run template_prog [Sends n, Takes n] (Mt_Running fresh_mt) = Mt_Running p \<and> caught p = [n]"
  by (auto simp: mt_run_def post_def fresh_mt_def signal_handler_def sync_sigs_def sig_defs)

lemma cleanup_never_runs: "run_thread k (template_worker n) (new_thread []) = ([], Returned)"
  by (cases k) (simp_all add: template_worker_def new_thread_def clean_up_def)

end
