(* ===== verification/Daemon.thy ===== *)
theory Daemon
  imports Signals
begin

text \<open>
  \<open>booksrc/B_daemon/daemon_trad.c\<close>: a process becomes a daemon in the traditional way. The steps are those of the code;
  the three processes only share what \<open>fork\<close> copies.
\<close>

section \<open>A process\<close>

record dproc =
  d_pid :: int
  d_ppid :: int
  d_sid :: int
  d_fds :: "nat \<rightharpoonup> string"
  d_acts :: "nat \<Rightarrow> bool"
  d_mask :: sigset
  d_umask :: nat
  d_cwd :: string
  d_out :: "string list"

text \<open>\<open>d_acts\<close> says which signals have an action other than the default.\<close>

text \<open>
  \<open>printf\<close> writes to descriptor 1: what it prints is seen unless the descriptor is closed or the null device. The
  descriptor is a terminal, so that nothing is left in a buffer when a process forks.
\<close>

definition to_stdout :: "string \<Rightarrow> dproc \<Rightarrow> dproc" where
  "to_stdout text p =
     (if d_fds p 1 = None \<or> d_fds p 1 = Some ''/dev/null'' then p else p\<lparr>d_out := d_out p @ [text]\<rparr>)"

definition step_line :: "string \<Rightarrow> dproc \<Rightarrow> dproc" where
  "step_line text p = to_stdout (show_int (d_pid p) @ '':daemonize_traditional: '' @ text) p"

text \<open>\<open>open\<close> returns the lowest descriptor that is free, below the limit.\<close>

fun lowest_free :: "nat \<Rightarrow> nat \<Rightarrow> (nat \<rightharpoonup> string) \<Rightarrow> nat option" where
  "lowest_free n 0 fds = None"
| "lowest_free n (Suc k) fds = (if fds n = None then Some n else lowest_free (Suc n) k fds)"

definition dup2_to :: "nat \<Rightarrow> nat \<Rightarrow> dproc \<Rightarrow> dproc" where
  "dup2_to orig new p = p\<lparr>d_fds := (d_fds p)(new := d_fds p orig)\<rparr>"

definition close_fd :: "nat \<Rightarrow> dproc \<Rightarrow> dproc" where
  "close_fd n p = p\<lparr>d_fds := (d_fds p)(n := None)\<rparr>"

section \<open>The steps\<close>

text \<open>What the calls answer: \<open>prlimit\<close> gives the limit; the process ids of the two children.\<close>

record denv =
  rlim_max :: "nat option"
  sigaction_ok :: "nat \<Rightarrow> bool"
  fork1 :: "int option"
  setsid_ok :: bool
  fork2 :: "int option"
  open_ok :: bool
  dup2_ok :: "nat \<Rightarrow> bool"
  chdir_ok :: bool

definition NSIG :: nat where "NSIG = 65"

text \<open>The loop counts with an \<open>int\<close>: a limit above its range makes it overflow.\<close>

definition close_all :: "nat \<Rightarrow> dproc \<Rightarrow> dproc outcome" where
  "close_all lim p =
     (if int lim > INT_MAX then Undefined Int_Overflow else Value (fold close_fd [3..<lim] p))"

fun reset_signals :: "(nat \<Rightarrow> bool) \<Rightarrow> nat list \<Rightarrow> dproc \<Rightarrow> dproc \<times> bool" where
  "reset_signals ok [] p = (p, True)"
| "reset_signals ok (i # is) p =
     (if i \<in> {SIGKILL, SIGSTOP, 32, 33} then reset_signals ok is p
      else if \<not> ok i then (p, False)
      else reset_signals ok is (p\<lparr>d_acts := (d_acts p)(i := False)\<rparr>))"

text \<open>
  The way a process leaves \<open>daemonize_traditional\<close>: it returns a code to \<open>main\<close>, exits, or waits in \<open>pause\<close>.
\<close>

datatype dend = Returns_Code int dproc | Exits_With int dproc | Pauses dproc

definition the_daemon :: "denv \<Rightarrow> nat \<Rightarrow> dproc \<Rightarrow> dend" where
  "the_daemon env lim p =
     (let p = step_line ''the ACTUAL DAEMON !'' p;
          p = step_line ''[+] step 9 : connect null dev to fd's 0,1,2'' p in
      case (if open_ok env then lowest_free 0 lim (d_fds p) else None) of
        None \<Rightarrow> Returns_Code (-9) p
      | Some fd_null \<Rightarrow>
          let p = p\<lparr>d_fds := (d_fds p)(fd_null \<mapsto> ''/dev/null'')\<rparr> in
          if \<not> dup2_ok env 0 then Returns_Code (-9) p
          else let p = dup2_to fd_null 0 p in
          if \<not> dup2_ok env 1 then Returns_Code (-9) p
          else let p = dup2_to fd_null 1 p in
          if \<not> dup2_ok env 2 then Returns_Code (-9) p
          else let p = close_fd fd_null (dup2_to fd_null 2 p);
                   p = step_line ''[+] step 10 : set umask to 0x0'' p;
                   p = step_line (''[+] step 11 : set cwd to '/'' @ [CHR 0x27]) (p\<lparr>d_umask := 0\<rparr>) in
          if \<not> chdir_ok env then Returns_Code (-11) p
          else Pauses (step_line ''[-] step 14 : inform original process we're ready''
                 (step_line ''[-] step 13 : drop privileges''
                   (step_line ''[-] step 12 : write PID safely to run file'' (p\<lparr>d_cwd := ''/''\<rparr>)))))"

text \<open>A child starts with a copy of its parent.\<close>

definition child_of :: "int \<Rightarrow> dproc \<Rightarrow> dproc" where
  "child_of pid p = p\<lparr>d_pid := pid, d_ppid := d_pid p, d_out := []\<rparr>"

definition first_child :: "denv \<Rightarrow> nat \<Rightarrow> dproc \<Rightarrow> dend list" where
  "first_child env lim p =
     (let p = step_line ''[+] step 6 : create new session'' p in
      if \<not> setsid_ok env then [Returns_Code (-6) p]
      else
        let p = step_line ''[+] step 7 : second fork'' (p\<lparr>d_sid := d_pid p\<rparr>) in
        case fork2 env of
          None \<Rightarrow> [Returns_Code (-7) p]
        | Some pid2 \<Rightarrow> [Exits_With 0 (step_line ''[+] step 8 : first child exit'' p), the_daemon env lim (child_of pid2 p)])"

text \<open>The processes that there are, the original one first.\<close>

definition close_title :: "nat \<Rightarrow> string" where
  "close_title lim = ''[+] step 1 : close fd's (3 to '' @ show_nat lim @ '')''"

definition daemonize_traditional :: "denv \<Rightarrow> dproc \<Rightarrow> dend list outcome" where
  "daemonize_traditional env p =
     (case rlim_max env of
        None \<Rightarrow> Value [Returns_Code (-1) p]
      | Some lim \<Rightarrow>
          andthen (close_all lim (step_line (close_title lim) p)) (\<lambda>p.
          let p = step_line ''[+] step 2 : reset signals to default'' p;
              (p, ok) = reset_signals (sigaction_ok env) [1..<NSIG] p in
          if \<not> ok then Value [Returns_Code (-2) p]
          else
            let p = step_line ''[+] step 3 : reset signal mask'' p;
                p = step_line ''[+] step 5 : first fork'' p in
            case fork1 env of
              None \<Rightarrow> Value [Returns_Code (-5) p]
            | Some pid1 \<Rightarrow>
                Value (Exits_With 0 (step_line ''[+] step 15 : original parent exit when daemon is fully initialized'' p) #
                       first_child env lim (child_of pid1 p))))"

text \<open>\<open>main\<close> prints a code that is negative, and returns, which is an exit with code 0.\<close>

fun main_end :: "dend \<Rightarrow> dend" where
  "main_end (Returns_Code n p) =
     Exits_With 0 (if n < 0 then to_stdout (''Failed to daemonize (traditional): err code '' @ show_int n) p else p)"
| "main_end e = e"

definition daemon_main :: "denv \<Rightarrow> dproc \<Rightarrow> dend list outcome" where
  "daemon_main env p = andthen (daemonize_traditional env p) (\<lambda>es. Value (map main_end es))"

section \<open>Correctness\<close>

text \<open>Printing changes nothing but what has been printed.\<close>

lemma step_line_keeps [simp]:
  "d_pid (step_line x p) = d_pid p" "d_ppid (step_line x p) = d_ppid p" "d_sid (step_line x p) = d_sid p"
  "d_fds (step_line x p) = d_fds p" "d_acts (step_line x p) = d_acts p" "d_mask (step_line x p) = d_mask p"
  "d_umask (step_line x p) = d_umask p" "d_cwd (step_line x p) = d_cwd p"
  by (simp_all add: step_line_def to_stdout_def)

lemma fold_close:
  "fold close_fd [m..<n] p = p\<lparr>d_fds := (\<lambda>i. if m \<le> i \<and> i < n then None else d_fds p i)\<rparr>"
proof (induction n)
  case (Suc n)
  have "m > n \<Longrightarrow> (\<lambda>i. if m \<le> i \<and> i < Suc n then None else d_fds p i) = d_fds p" by (auto simp: fun_eq_iff)
  then show ?case using Suc by (cases "m \<le> n") (auto simp: close_fd_def fun_eq_iff intro!: dproc.equality)
qed simp

lemma reset_signals_all:
  assumes "\<And>i. ok i"
  shows "reset_signals ok is p =
           (p\<lparr>d_acts := (\<lambda>i. d_acts p i \<and> (i \<in> set is \<longrightarrow> i \<in> {SIGKILL, SIGSTOP, 32, 33}))\<rparr>, True)"
  using assms by (induction "is" arbitrary: p) (auto simp: fun_eq_iff)

lemma lowest_free_after:
  "(\<And>i. i < m \<Longrightarrow> fds (n + i) \<noteq> None) \<Longrightarrow> fds (n + m) = None \<Longrightarrow> m < k \<Longrightarrow> lowest_free n k fds = Some (n + m)"
proof (induction n k fds arbitrary: m rule: lowest_free.induct)
  case (2 n k fds)
  show ?case
  proof (cases m)
    case 0
    then show ?thesis using 2 by simp
  next
    case (Suc m')
    have "fds (Suc n + i) \<noteq> None" if "i < m'" for i using 2(2) [of "Suc i"] that Suc by simp
    moreover have "fds n \<noteq> None" using 2(2) [of 0] Suc by simp
    ultimately show ?thesis using 2(1) [of m'] 2(3,4) Suc by simp
  qed
qed simp

definition all_calls_ok :: "nat \<Rightarrow> int \<Rightarrow> int \<Rightarrow> denv" where
  "all_calls_ok lim pid1 pid2 =
     \<lparr>rlim_max = Some lim, sigaction_ok = (\<lambda>i. True), fork1 = Some pid1, setsid_ok = True, fork2 = Some pid2,
      open_ok = True, dup2_ok = (\<lambda>i. True), chdir_ok = True\<rparr>"

definition null_to_all :: "nat \<Rightarrow> (nat \<rightharpoonup> string) \<Rightarrow> nat \<rightharpoonup> string" where
  "null_to_all fd fds = fds(fd \<mapsto> ''/dev/null'', 0 \<mapsto> ''/dev/null'', 1 \<mapsto> ''/dev/null'', 2 \<mapsto> ''/dev/null'', fd := None)"

lemma the_daemon_ok:
  assumes "lowest_free 0 lim (d_fds p) = Some fd"
  shows "\<exists>d. the_daemon (all_calls_ok lim pid1 pid2) lim p = Pauses d \<and> d_pid d = d_pid p \<and> d_ppid d = d_ppid p \<and>
     d_sid d = d_sid p \<and> d_fds d = null_to_all fd (d_fds p) \<and> d_acts d = d_acts p \<and> d_mask d = d_mask p \<and>
     d_umask d = 0 \<and> d_cwd d = ''/''"
  using assms
  by (auto simp: the_daemon_def all_calls_ok_def dup2_to_def close_fd_def null_to_all_def Let_def fun_eq_iff)

text \<open>The process before the first fork.\<close>

definition prepared :: "nat \<Rightarrow> dproc \<Rightarrow> dproc \<Rightarrow> bool" where
  "prepared lim p q \<longleftrightarrow>
     d_fds q = (\<lambda>i. if 3 \<le> i \<and> i < lim then None else d_fds p i) \<and> d_pid q = d_pid p \<and> d_sid q = d_sid p \<and>
     d_mask q = d_mask p \<and> d_acts q = (\<lambda>i. d_acts p i \<and> (i \<in> {1..<NSIG} \<longrightarrow> i \<in> {SIGKILL, SIGSTOP, 32, 33}))"

lemma daemonize_ok:
  assumes "int lim \<le> INT_MAX"
  shows "\<exists>q. prepared lim p q \<and> daemonize_traditional (all_calls_ok lim pid1 pid2) p =
     Value (Exits_With 0 (step_line ''[+] step 15 : original parent exit when daemon is fully initialized'' q) #
            first_child (all_calls_ok lim pid1 pid2) lim (child_of pid1 q))"
proof -
  define a where "a = step_line (close_title lim) p"
  define b where "b = step_line ''[+] step 2 : reset signals to default'' (fold close_fd [3..<lim] a)"
  define c where "c = b\<lparr>d_acts := (\<lambda>i. d_acts b i \<and> (i \<in> set [1..<NSIG] \<longrightarrow> i \<in> {SIGKILL, SIGSTOP, 32, 33}))\<rparr>"
  define q where "q = step_line ''[+] step 5 : first fork'' (step_line ''[+] step 3 : reset signal mask'' c)"
  have "prepared lim p q"
    unfolding prepared_def q_def c_def b_def fold_close by (simp add: a_def fun_eq_iff)
  moreover have "close_all lim a = Value (fold close_fd [3..<lim] a)" using assms by (simp add: close_all_def)
  moreover have "reset_signals (\<lambda>i. True) [1..<NSIG] b = (c, True)" unfolding c_def by (rule reset_signals_all) simp
  ultimately show ?thesis
    unfolding daemonize_traditional_def all_calls_ok_def
    by (intro exI [of _ q]) (simp add: a_def [symmetric] b_def [symmetric] q_def [symmetric] Let_def)
qed



text \<open>A limit that \<open>int\<close> cannot hold, such as no limit at all, makes the loop overflow.\<close>

lemma no_limit_overflows:
  "rlim_max env = Some lim \<Longrightarrow> int lim > INT_MAX \<Longrightarrow> daemon_main env p = Undefined Int_Overflow"
  by (simp add: daemon_main_def daemonize_traditional_def close_all_def)

text \<open>Whatever fails, no process ends with a code other than 0.\<close>

fun harmless :: "dend \<Rightarrow> bool" where
  "harmless (Exits_With n p) \<longleftrightarrow> n = 0"
| "harmless e \<longleftrightarrow> True"

lemma the_daemon_harmless: "harmless (the_daemon env lim p)"
  by (simp add: the_daemon_def Let_def split: option.splits)

lemma first_child_harmless: "list_all harmless (first_child env lim p)"
  by (simp add: first_child_def the_daemon_harmless Let_def split: option.splits)

lemma daemonize_harmless: "daemonize_traditional env p = Value es \<Longrightarrow> list_all harmless es"
proof -
  assume es: "daemonize_traditional env p = Value es"
  show ?thesis
  proof (cases "rlim_max env")
    case None
    then show ?thesis using es by (auto simp: daemonize_traditional_def)
  next
    case (Some lim)
    then obtain a where a: "close_all lim (step_line (close_title lim) p) = Value a"
      using es by (auto simp: daemonize_traditional_def andthen_eq_Value)
    obtain b ok where b: "reset_signals (sigaction_ok env) [1..<NSIG] (step_line ''[+] step 2 : reset signals to default'' a) = (b, ok)"
      by fastforce
    show ?thesis
      using es Some a b first_child_harmless
      by (cases ok; cases "fork1 env") (auto simp: daemonize_traditional_def Let_def)
  qed
qed

lemma main_end_harmless: "harmless e \<Longrightarrow> (\<exists>q. main_end e = Exits_With 0 q) \<or> (\<exists>q. main_end e = Pauses q)"
  by (cases e) simp_all

lemma daemon_exits_0:
  assumes "daemon_main env p = Value es" and "e \<in> set es"
  shows "(\<exists>q. e = Exits_With 0 q) \<or> (\<exists>q. e = Pauses q)"
proof -
  obtain es' where es': "daemonize_traditional env p = Value es'" "es = map main_end es'"
    using assms(1) by (auto simp: daemon_main_def andthen_eq_Value)
  then obtain e' where e': "e' \<in> set es'" "e = main_end e'" using assms(2) by auto
  then have "harmless e'" using daemonize_harmless [OF es'(1)] by (simp add: list_all_iff)
  then show ?thesis using main_end_harmless e'(2) by auto
qed

end
