(* ===== verification/Memory_Programs.thy ===== *)
theory Memory_Programs
  imports Common Advanced_IO
begin

text \<open>
  The programs on memory of chapter 4: \<open>mallocmax.c\<close>, \<open>malloc_brk_test.c\<close>, \<open>memprot.c\<close> and \<open>memprot_arm.c\<close>,
  \<open>mlock_try.c\<close>, \<open>alloca_try.c\<close>, \<open>show_curbrk.c\<close>, and \<open>stack_test.c\<close> of chapter 14. What the allocator and the kernel
  answer are parameters.
\<close>

section \<open>The largest request\<close>

text \<open>A size is an \<open>unsigned long\<close> of 64 bits; what is passed is converted to it.\<close>

definition size_t :: "int \<Rightarrow> int" where
  "size_t z = to_unsigned 64 z"

definition onePB :: int where "onePB = 1125899907000000"

definition negative_malloc :: "(int \<Rightarrow> int) \<Rightarrow> (int \<times> int) list" where
  "negative_malloc malloc =
     (let qa = 28 * 1000000;
          ld_num2alloc = to_signed 64 (size_t (size_t qa * onePB));
          szt_num2alloc = size_t (size_t qa * onePB);
          r1 = (ld_num2alloc, malloc (size_t ld_num2alloc));
          r2 = (szt_num2alloc, malloc szt_num2alloc);
          sd_num2alloc = to_signed 16 (6 * 1024);
          r3 = (sd_num2alloc, malloc (size_t sd_num2alloc));
          sd_num2alloc = to_signed 16 (60 * 1024);
          r4 = (sd_num2alloc, malloc (size_t sd_num2alloc));
          szt_num2alloc = size_t sd_num2alloc;
          r5 = (szt_num2alloc, malloc szt_num2alloc);
          r6 = (size_t (-1), malloc (size_t (-1)));
          r7 = (0, malloc 0)
      in [r1, r2, r3, r4, r5, r6, r7])"

text \<open>What \<open>max_malloc\<close> prints as the largest value: a \<open>float\<close>, in which \<open>2 ^ 64\<close> is exact.\<close>

definition max_malloc :: int where
  "max_malloc = 2 ^ (8 * 8)"

definition mallocmax_main :: "(int \<Rightarrow> int) \<Rightarrow> int \<times> (int \<times> int) list" where
  "mallocmax_main malloc = (max_malloc, negative_malloc malloc)"

text \<open>The product of the first two requests wraps; a \<open>short\<close> of 60 KB is negative and becomes a huge size.\<close>

lemma negative_malloc_requests:
  "map fst (negative_malloc malloc) =
     [28 * 1000000 * onePB mod 2 ^ 64 - 2 ^ 64, 28 * 1000000 * onePB mod 2 ^ 64, 6144, -4096, 2 ^ 64 - 4096, 2 ^ 64 - 1, 0]"
  by (simp add: negative_malloc_def Let_def size_t_def to_unsigned_def to_signed_def onePB_def)

text \<open>An allocator refuses what is larger than half the range: then exactly the third and the last request can succeed.\<close>

lemma negative_malloc_refused:
  assumes "\<And>n. n > 2 ^ 63 - 1 \<Longrightarrow> malloc n = 0"
  shows "map (\<lambda>i. snd (negative_malloc malloc ! i)) [0, 1, 3, 4, 5] = [0, 0, 0, 0, 0]"
  using assms by (simp add: negative_malloc_def Let_def size_t_def to_unsigned_def to_signed_def onePB_def)

lemma max_malloc_too_large: "size_t max_malloc = 0"
  by (simp add: max_malloc_def size_t_def to_unsigned_def)

section \<open>Allocations and the program break\<close>

definition TRIES :: nat where "TRIES = 5"

record mflags =
  show_mstats :: bool
  large_allocs :: bool
  test_segfault1 :: bool
  test_segfault2 :: bool

definition no_flags :: mflags where
  "no_flags = \<lparr>show_mstats = False, large_allocs = False, test_segfault1 = False, test_segfault2 = False\<rparr>"

definition process_args :: "string list \<Rightarrow> mflags outcome" where
  "process_args argv =
     (if length argv = 2 \<and> (take 2 (argv ! 1) = ''-h'' \<or> take 6 (argv ! 1) = ''--help'') then Exit EXIT_SUCCESS
      else if length argv = 2 then
        (let n = atoi (argv ! 1) in
         if n = 1 then Value (no_flags\<lparr>show_mstats := True\<rparr>)
         else if n = 2 then Value (no_flags\<lparr>show_mstats := True, large_allocs := True\<rparr>)
         else if n = 3 then Value (no_flags\<lparr>test_segfault1 := True\<rparr>)
         else if n = 4 then Value (no_flags\<lparr>test_segfault2 := True\<rparr>)
         else Exit EXIT_FAILURE)
      else Value no_flags)"

text \<open>
  The state: the pointers kept, with the size of each block, and the rows printed: index, size, pointer, break, and its
  distance from the first break. \<open>malloc\<close> and \<open>brk\<close> say what the calls return after so many allocations.
\<close>

record mstate =
  heap_ptr :: "(int \<times> int) list"
  rows :: "(nat \<times> int \<times> int \<times> int \<times> int) list"

definition alloctest :: "(nat \<Rightarrow> int) \<Rightarrow> (nat \<Rightarrow> int) \<Rightarrow> int \<Rightarrow> mstate \<Rightarrow> mstate outcome" where
  "alloctest malloc brk num st =
     (let i = length (heap_ptr st); p = malloc i in
      if p = 0 then Exit EXIT_FAILURE
      else if i \<ge> TRIES then Undefined Out_Of_Bounds
      else Value (st\<lparr>heap_ptr := heap_ptr st @ [(p, num)],
                     rows := rows st @ [(i, num, p, brk (Suc i), brk (Suc i) - brk 0)]\<rparr>))"

text \<open>A store at an offset from the first block.\<close>

definition poke :: "int \<Rightarrow> mstate \<Rightarrow> mstate outcome" where
  "poke off st =
     (case heap_ptr st of
        [] \<Rightarrow> Undefined Null_Deref
      | (p, n) # _ \<Rightarrow> if 0 \<le> off \<and> off < n then Value st else Undefined Out_Of_Bounds)"

definition getpagesize :: int where "getpagesize = 4096"

text \<open>The result: the rows, and the pointers in the order in which they are freed.\<close>

definition malloc_brk_main ::
  "(nat \<Rightarrow> int) \<Rightarrow> (nat \<Rightarrow> int) \<Rightarrow> string list \<Rightarrow> ((nat \<times> int \<times> int \<times> int \<times> int) list \<times> int list) outcome" where
  "malloc_brk_main malloc brk argv =
     andthen (process_args argv) (\<lambda>fl.
     andthen (alloctest malloc brk 8 \<lparr>heap_ptr = [], rows = []\<rparr>) (\<lambda>st.
     andthen (if test_segfault1 fl then poke 3000 st else Value st) (\<lambda>st.
     andthen (if test_segfault2 fl then poke (3000 + (brk 1 - brk 0)) st else Value st) (\<lambda>st.
     andthen (alloctest malloc brk (getpagesize - 8 - 5) st) (\<lambda>st.
     andthen (alloctest malloc brk 3 st) (\<lambda>st.
     andthen (if large_allocs fl
              then andthen (alloctest malloc brk (brk 3 - brk 0 + 1000) st) (alloctest malloc brk (1024 * 1024))
              else Value st) (\<lambda>st.
     Value (rows st, rev (map fst (heap_ptr st))))))))))"

text \<open>
  Options 1 and 2 and no option: every block is freed once, the last one first, and the array is never overrun. The
  options that test a fault store outside the block. Option 0, which the usage describes, is refused.
\<close>

lemma malloc_brk_frees:
  assumes "\<And>i. malloc i \<noteq> 0" and "process_args argv = Value fl" and "\<not> test_segfault1 fl" and "\<not> test_segfault2 fl"
  shows "\<exists>out. malloc_brk_main malloc brk argv =
           Value (out, rev (map malloc [0..<(if large_allocs fl then 5 else 3)])) \<and>
           map fst out = [0..<(if large_allocs fl then 5 else 3)]"
  using assms by (simp add: malloc_brk_main_def alloctest_def TRIES_def Let_def upt_rec)

lemma malloc_brk_segfault:
  assumes "\<And>i. malloc i \<noteq> 0" and "brk 0 \<le> brk 1"
  shows "malloc_brk_main malloc brk [name, ''3''] = Undefined Out_Of_Bounds"
    and "malloc_brk_main malloc brk [name, ''4''] = Undefined Out_Of_Bounds"
proof -
  have a: "atoi ''3'' = 3" "atoi ''4'' = 4" by code_simp+
  show "malloc_brk_main malloc brk [name, ''3''] = Undefined Out_Of_Bounds"
    and "malloc_brk_main malloc brk [name, ''4''] = Undefined Out_Of_Bounds"
    using assms by (simp_all add: malloc_brk_main_def process_args_def a no_flags_def alloctest_def poke_def TRIES_def Let_def)
qed

lemma option_0_refused: "malloc_brk_main malloc brk [name, ''0''] = Exit EXIT_FAILURE"
proof -
  have "atoi ''0'' = 0" by code_simp
  then show ?thesis by (simp add: malloc_brk_main_def process_args_def Let_def)
qed

section \<open>Protected pages\<close>

record prot =
  prot_read :: bool
  prot_write :: bool

definition page_prots :: "prot list" where
  "page_prots =
     [\<lparr>prot_read = True, prot_write = True\<rparr>, \<lparr>prot_read = True, prot_write = False\<rparr>,
      \<lparr>prot_read = True, prot_write = True\<rparr>, \<lparr>prot_read = False, prot_write = False\<rparr>]"

datatype page_line = Reading nat int | Writing nat char int | Skipping nat

text \<open>The lines printed, and whether the last one was followed by a segmentation fault.\<close>

type_synonym mem_run = "page_line list \<times> bool"

definition and_next :: "mem_run \<Rightarrow> mem_run \<Rightarrow> mem_run" where
  "and_next r1 r2 = (if snd r1 then r1 else (fst r1 @ fst r2, snd r2))"

definition TEST_READ :: "prot list \<Rightarrow> nat \<Rightarrow> int \<Rightarrow> mem_run" where
  "TEST_READ prots pgnum addr = ([Reading pgnum addr], \<not> prot_read (prots ! pgnum))"

definition TEST_WRITE :: "prot list \<Rightarrow> nat \<Rightarrow> int \<Rightarrow> char \<Rightarrow> mem_run" where
  "TEST_WRITE prots pgnum addr byte = ([Writing pgnum byte addr], \<not> prot_write (prots ! pgnum))"

text \<open>The pages start with read and write access; a call of \<open>mprotect\<close> that fails leaves them so.\<close>

definition protect_mem :: "(nat \<Rightarrow> bool) \<Rightarrow> prot list \<times> bool list" where
  "protect_mem mprotect_ok =
     (map (\<lambda>i. if mprotect_ok i then page_prots ! i else \<lparr>prot_read = True, prot_write = True\<rparr>) [0..<4],
      map mprotect_ok [0..<4])"

definition test_page :: "bool list \<Rightarrow> nat \<Rightarrow> mem_run \<Rightarrow> mem_run" where
  "test_page okornot n r = (if okornot ! n then r else ([Skipping n], False))"

definition test_mem :: "prot list \<Rightarrow> bool list \<Rightarrow> int \<Rightarrow> int \<Rightarrow> int \<Rightarrow> bool \<Rightarrow> mem_run" where
  "test_mem prots okornot ptr pgsz byte write_on_ro_mem =
     and_next (test_page okornot 0
       (and_next (TEST_WRITE prots 0 (ptr + 0 * pgsz + byte) CHR ''a'') (TEST_READ prots 0 (ptr + 0 * pgsz + byte))))
     (and_next (test_page okornot 1
       (and_next (TEST_READ prots 1 (ptr + 1 * pgsz + byte))
         (if write_on_ro_mem then TEST_WRITE prots 1 (ptr + 1 * pgsz + byte) CHR ''b'' else ([], False))))
     (and_next (test_page okornot 2
       (and_next (TEST_READ prots 2 (ptr + 2 * pgsz + byte)) (TEST_WRITE prots 2 (ptr + 2 * pgsz + byte) CHR ''c'')))
     (test_page okornot 3
       (and_next (TEST_READ prots 3 (ptr + 3 * pgsz + byte)) (TEST_WRITE prots 3 (ptr + 3 * pgsz + byte) CHR ''d'')))))"

definition memprot_main :: "(nat \<Rightarrow> bool) \<Rightarrow> int \<Rightarrow> int \<Rightarrow> string list \<Rightarrow> mem_run outcome" where
  "memprot_main mprotect_ok ptr rnd argv =
     (if length argv < 2 then Exit EXIT_FAILURE
      else if ptr = 0 then FATAL
      else
        let (prots, okornot) = protect_mem mprotect_ok in
        Value (test_mem prots okornot ptr getpagesize (rnd mod getpagesize) (atoi (argv ! 1) = 1)))"

text \<open>The version for 32-bit ARM differs in the formats of the addresses and in where the first one is computed.\<close>

definition test_mem_arm :: "prot list \<Rightarrow> bool list \<Rightarrow> int \<Rightarrow> int \<Rightarrow> int \<Rightarrow> bool \<Rightarrow> mem_run" where
  "test_mem_arm prots okornot ptr pgsz byte write_on_ro_mem =
     (let start_off = ptr + byte in
      and_next (test_page okornot 0
        (and_next (TEST_WRITE prots 0 start_off CHR ''a'') (TEST_READ prots 0 start_off)))
      (and_next (test_page okornot 1
        (and_next (TEST_READ prots 1 (ptr + 1 * pgsz + byte))
          (if write_on_ro_mem then TEST_WRITE prots 1 (ptr + 1 * pgsz + byte) CHR ''b'' else ([], False))))
      (and_next (test_page okornot 2
        (and_next (TEST_READ prots 2 (ptr + 2 * pgsz + byte)) (TEST_WRITE prots 2 (ptr + 2 * pgsz + byte) CHR ''c'')))
      (test_page okornot 3
        (and_next (TEST_READ prots 3 (ptr + 3 * pgsz + byte)) (TEST_WRITE prots 3 (ptr + 3 * pgsz + byte) CHR ''d''))))))"

definition memprot_arm_main :: "(nat \<Rightarrow> bool) \<Rightarrow> int \<Rightarrow> int \<Rightarrow> string list \<Rightarrow> mem_run outcome" where
  "memprot_arm_main mprotect_ok ptr rnd argv =
     (if length argv < 2 then Exit EXIT_FAILURE
      else if ptr = 0 then FATAL
      else
        let (prots, okornot) = protect_mem mprotect_ok in
        Value (test_mem_arm prots okornot ptr getpagesize (rnd mod getpagesize) (atoi (argv ! 1) = 1)))"

lemma memprot_arm_same: "memprot_arm_main = memprot_main"
  by (simp add: fun_eq_iff memprot_arm_main_def memprot_main_def test_mem_arm_def test_mem_def Let_def)

text \<open>The solution protects two pages and reports which calls succeed.\<close>

definition solution_memprot_main :: "int \<Rightarrow> (int \<Rightarrow> bool) \<Rightarrow> string list outcome" where
  "solution_memprot_main ptr mprotect_ok =
     (if ptr = 0 then Exit 1
      else Value [if mprotect_ok ptr then '' [r-x] successful'' else '' *** mprotect(r-x) failed'',
                  if mprotect_ok (ptr + getpagesize) then '' [r--] successful'' else '' *** mprotect(r--) failed''])"

lemma nth_protect:
  "n < 4 \<Longrightarrow> fst (protect_mem ok) ! n = (if ok n then page_prots ! n else \<lparr>prot_read = True, prot_write = True\<rparr>)"
  "n < 4 \<Longrightarrow> snd (protect_mem ok) ! n = ok n"
  by (simp_all add: protect_mem_def)

text \<open>
  The program ends without a fault exactly if the last page could not be protected and the write to the read-only page is
  not made; a fault is at the write to page 1 or at the read of page 3, never elsewhere.
\<close>

lemma memprot_faults:
  assumes "length argv \<ge> 2" and "ptr \<noteq> 0"
  shows "\<exists>out. memprot_main ok ptr rnd argv = Value (out, ok 1 \<and> atoi (argv ! 1) = 1 \<or> ok 3) \<and>
           (ok 1 \<and> atoi (argv ! 1) = 1 \<or> ok 3 \<longrightarrow> last out = (if ok 1 \<and> atoi (argv ! 1) = 1 then Writing 1 CHR ''b'' (ptr + getpagesize + rnd mod getpagesize)
                           else Reading 3 (ptr + 3 * getpagesize + rnd mod getpagesize)))"
proof -
  obtain prots oks where p: "protect_mem ok = (prots, oks)" by fastforce
  have oks: "oks ! 0 = ok 0" "oks ! 1 = ok 1" "oks ! Suc 0 = ok 1" "oks ! 2 = ok 2" "oks ! 3 = ok 3"
    using nth_protect(2) [of _ ok] p by simp_all
  have prots: "prot_write (prots ! 0)" "prot_read (prots ! 0)" "prot_read (prots ! Suc 0)" "prot_read (prots ! 1)"
    "prot_read (prots ! 2)" "prot_write (prots ! 2)" "ok 1 \<Longrightarrow> \<not> prot_write (prots ! Suc 0)" "ok 3 \<Longrightarrow> \<not> prot_read (prots ! 3)"
    using nth_protect(1) [of 0 ok] nth_protect(1) [of 1 ok] nth_protect(1) [of 2 ok] nth_protect(1) [of 3 ok] p
    by (simp_all add: page_prots_def)
  show ?thesis
    using assms oks prots
    by (cases "ok 1"; cases "ok 3"; cases "ok 0"; cases "ok 2"; cases "atoi (argv ! 1) = 1")
      (simp_all add: memprot_main_def p test_mem_def test_page_def TEST_READ_def TEST_WRITE_def and_next_def)
qed

section \<open>Locked memory, memory on the stack, the current break\<close>

text \<open>
  \<open>mlock_try\<close>: the product of pages and page size is computed in \<open>size_t\<close> before it is checked. The blocks that are
  allocated and not freed are the result.
\<close>

record mlock_env =
  cmd_malloc :: bool
  memalign_ok :: "int \<Rightarrow> bool"
  mlock_ok :: "int \<Rightarrow> bool"
  munlock_ok :: "int \<Rightarrow> bool"

definition disp_locked_mem :: "mlock_env \<Rightarrow> unit outcome" where
  "disp_locked_mem env = (if cmd_malloc env then Value () else FATAL)"

definition try_mlock :: "mlock_env \<Rightarrow> string \<Rightarrow> int outcome" where
  "try_mlock env cpgs =
     (let num_pg = size_t (atol cpgs); len = size_t (num_pg * getpagesize) in
      if len \<ge> LONG_MAX then FATAL
      else if \<not> memalign_ok env len then FATAL
      else if \<not> mlock_ok env len then FATAL
      else andthen (disp_locked_mem env) (\<lambda>_.
        if \<not> munlock_ok env len then FATAL else Value len))"

definition mlock_main :: "mlock_env \<Rightarrow> string list \<Rightarrow> int outcome" where
  "mlock_main env argv =
     (if length argv < 2 then Exit EXIT_FAILURE
      else andthen (disp_locked_mem env) (\<lambda>_. try_mlock env (argv ! 1)))"

lemma mlock_exact:
  assumes "try_mlock env (show_int n) = Value len" and "0 \<le> n" and "n < 2 ^ 52"
  shows "len = n * 4096"
proof -
  have a: "atol (show_int n) = n" using assms(2,3) by (intro atol_show) (simp_all add: LONG_MAX_def)
  have "n * 4096 < 2 ^ 64" using assms(3) by simp
  then have "size_t (size_t n * getpagesize) = n * 4096"
    using assms(2,3) by (simp add: size_t_def getpagesize_def to_unsigned_id)
  then show ?thesis using assms(1) a
    by (auto simp: try_mlock_def andthen_eq_Value Let_def split: if_splits)
qed

text \<open>From \<open>2 ^ 52\<close> pages on the product wraps: the check lets it pass and far less is locked than was asked for.\<close>

lemma mlock_wraps:
  assumes "\<And>x. memalign_ok env x" "\<And>x. mlock_ok env x" "\<And>x. munlock_ok env x" "cmd_malloc env"
  shows "try_mlock env (show_int (2 ^ 52 + 1)) = Value 4096"
proof -
  have "atol (show_int (2 ^ 52 + 1)) = 2 ^ 52 + 1" by (rule atol_show) (simp_all add: LONG_MAX_def)
  then show ?thesis
    using assms by (simp add: try_mlock_def disp_locked_mem_def size_t_def to_unsigned_def getpagesize_def LONG_MAX_def Let_def)
qed

text \<open>\<open>alloca_try\<close>: nothing fails until the memory is used and the stack has no room for it.\<close>

definition try_alloca :: "int \<Rightarrow> string \<Rightarrow> bool \<Rightarrow> unit outcome" where
  "try_alloca stack_room csz do_the_memset =
     (let sz = size_t (atol csz) in
      if do_the_memset \<and> sz > stack_room then Undefined Out_Of_Bounds else Value ())"

definition alloca_main :: "int \<Rightarrow> string list \<Rightarrow> unit outcome" where
  "alloca_main stack_room argv =
     (if length argv < 3 then Exit EXIT_FAILURE
      else if atoi (argv ! 2) = 1 then try_alloca stack_room (argv ! 1) True
      else if atoi (argv ! 2) = 0 then try_alloca stack_room (argv ! 1) False
      else Exit EXIT_FAILURE)"

lemma alloca_without_use: "length argv \<ge> 3 \<Longrightarrow> atoi (argv ! 2) = 0 \<Longrightarrow> alloca_main room argv = Value ()"
  by (simp add: alloca_main_def try_alloca_def Let_def)

text \<open>\<open>show_curbrk\<close>, with the result of \<open>strtoul\<close> and the error it reports.\<close>

definition ERANGE :: int where "ERANGE = 34"

definition show_curbrk_main ::
  "(string \<Rightarrow> int \<times> int) \<Rightarrow> (int \<Rightarrow> int) \<Rightarrow> int \<Rightarrow> (int \<Rightarrow> int) \<Rightarrow> string list \<Rightarrow> int list outcome" where
  "show_curbrk_main strtoul_of malloc brk brk_after argv =
     (if length argv = 1 then Value [brk]
      else
        let (num, errno) = strtoul_of (argv ! 1) in
        if errno = ERANGE \<and> num = 2 ^ 64 - 1 \<or> errno \<noteq> 0 \<and> num = 0 then FATAL
        else if num \<ge> 128 * 1024 then FATAL
        else if malloc num = 0 then FATAL
        else Value [brk, num, malloc num, brk_after num])"

lemma show_curbrk_small:
  assumes "show_curbrk_main strtoul_of malloc brk brk_after [name, a] = Value out" and "0 \<le> fst (strtoul_of a)"
  shows "out ! 1 = fst (strtoul_of a) \<and> 0 \<le> out ! 1 \<and> out ! 1 < 131072 \<and> out ! 2 \<noteq> 0"
  using assms by (auto simp: show_curbrk_main_def split: prod.splits if_splits)

section \<open>The size of a thread stack\<close>

definition NEL :: nat where "NEL = 500"
definition TSTACK :: int where "TSTACK = 1024 * 1024"

type_synonym locals = "nat \<times> nat \<rightharpoonup> int"

text \<open>\<open>danger\<close>: the last column of the array is never set, and the sum reads it.\<close>

definition fill_rows :: "(nat \<Rightarrow> int) \<Rightarrow> locals" where
  "fill_rows rnd = (\<lambda>(i, j). if i < NEL \<and> j < NEL - 1 then Some (rnd i mod 1000) else None)"

definition read_local :: "locals \<Rightarrow> nat \<times> nat \<Rightarrow> int \<Rightarrow> int outcome" where
  "read_local heavylocal ij alpha =
     (case heavylocal ij of None \<Rightarrow> Undefined Uninitialised | Some v \<Rightarrow> Value (alpha + v))"

definition danger :: "int \<Rightarrow> int \<Rightarrow> (nat \<Rightarrow> int) \<Rightarrow> int outcome" where
  "danger stack_set overhead rnd =
     (if int NEL * int NEL * 8 + overhead > stack_set then Undefined Out_Of_Bounds
      else foldo (read_local (fill_rows rnd)) (List.product [0..<NEL] [0..<NEL]) 0)"

text \<open>A worker gives its status; only number 1 goes on.\<close>

definition stack_worker :: "int \<Rightarrow> int \<Rightarrow> (nat \<Rightarrow> int) \<Rightarrow> nat \<Rightarrow> int outcome" where
  "stack_worker stack_set overhead rnd datum =
     (if datum \<noteq> 1 then Value 1 else andthen (danger stack_set overhead rnd) (\<lambda>_. Value 0))"

text \<open>\<open>pthread_join\<close> stores a pointer, of 8 bytes, where \<open>stat\<close>, an \<open>int\<close>, has 4.\<close>

definition store_status :: "nat \<Rightarrow> int \<Rightarrow> unit outcome" where
  "store_status object_size status = (if object_size < 8 then Undefined Out_Of_Bounds else Value ())"

definition stack_size_arg :: "string \<Rightarrow> int outcome" where
  "stack_size_arg arg =
     andthen (c_int (atoi arg * 1024)) (\<lambda>n. Value (if n \<le> 0 then TSTACK else n))"

definition stack_test_main :: "bool \<Rightarrow> (nat \<Rightarrow> int) \<Rightarrow> int \<Rightarrow> (nat \<Rightarrow> int) \<Rightarrow> string list \<Rightarrow> unit outcome" where
  "stack_test_main attr_ok create overhead rnd argv =
     (if length argv \<noteq> 2 then Exit EXIT_FAILURE
      else andthen (stack_size_arg (argv ! 1)) (\<lambda>stack_set.
        if \<not> attr_ok then FATAL
        else if \<exists>i \<in> set [0..<3]. create i \<noteq> 0 then FATAL
        else foldo (\<lambda>i _. andthen (stack_worker stack_set overhead rnd i) (store_status 4)) [0..<3] ()))"

lemma read_row:
  assumes "n \<le> NEL - 1"
  shows "\<exists>v. foldo (read_local (fill_rows rnd)) (map (Pair 0) [0..<n]) a = Value v"
  using assms
proof (induction n)
  case (Suc n)
  then show ?case by (auto simp: foldo_append read_local_def fill_rows_def NEL_def)
qed simp

lemma product_head: "List.product (x # xs) ys = map (Pair x) ys @ List.product xs ys"
  by simp

text \<open>Thread 1 has no defined behaviour, however large its stack is.\<close>

lemma danger_undefined: "\<exists>u. danger stack_set overhead rnd = Undefined u"
proof -
  have "[0..<NEL] = 0 # [1..<NEL]" by (simp add: upt_conv_Cons NEL_def)
  then have p: "List.product [0..<NEL] [0..<NEL] = map (Pair 0) [0..<NEL] @ List.product [1..<NEL] [0..<NEL]"
    by (metis product_head)
  have "[0..<NEL] = [0..<NEL - 1] @ [NEL - 1]" by (metis NEL_def Suc_diff_1 le0 upt_Suc_append zero_less_numeral)
  then have q: "map (Pair (0 :: nat)) [0..<NEL] = map (Pair 0) [0..<NEL - 1] @ [(0, NEL - 1)]" by simp
  obtain v where "foldo (read_local (fill_rows rnd)) (map (Pair 0) [0..<NEL - 1]) 0 = Value v" using read_row by blast
  then have "foldo (read_local (fill_rows rnd)) (List.product [0..<NEL] [0..<NEL]) 0 = Undefined Uninitialised"
    unfolding p q by (simp add: foldo_append read_local_def fill_rows_def)
  then show ?thesis by (simp add: danger_def)
qed

text \<open>The first join already stores past the variable.\<close>

lemma stack_test_undefined:
  assumes "stack_size_arg a = Value n"
  shows "stack_test_main True (\<lambda>i. 0) overhead rnd [name, a] = Undefined Out_Of_Bounds"
  using assms by (simp add: stack_test_main_def stack_worker_def store_status_def upt_rec)

end
