(* ===== verification/Stdio_Buffers.thy ===== *)
theory Stdio_Buffers
  imports Thread_Cancellation
begin

text \<open>
  Streams with buffers, of the appendix on files: \<open>booksrc/A_fileio/redirct.c\<close> with its solution
  \<open>booksrc/solutions_to_assgn/A_fileio/redirct2.c\<close>, \<open>booksrc/A_fileio/iobuf.c\<close> and \<open>booksrc/A_fileio/io_setbuf.c\<close>.
\<close>

section \<open>Two streams on one log file\<close>

text \<open>
  Both streams append to the log file. Standard output on a file has a buffer, which is written when it is flushed or when the
  process exits; standard error has none.
\<close>

record log_streams =
  log_file :: string
  stdout_buf :: string

definition to_log_stdout :: "string \<Rightarrow> log_streams \<Rightarrow> log_streams" where
  "to_log_stdout text st = st\<lparr>stdout_buf := stdout_buf st @ text\<rparr>"

definition to_log_stderr :: "string \<Rightarrow> log_streams \<Rightarrow> log_streams" where
  "to_log_stderr text st = st\<lparr>log_file := log_file st @ text\<rparr>"

definition fflush_stdout :: "log_streams \<Rightarrow> log_streams" where
  "fflush_stdout st = st\<lparr>log_file := log_file st @ stdout_buf st, stdout_buf := []\<rparr>"

text \<open>The time: the first line that the command prints, without its last character.\<close>

definition DTMAX :: nat where "DTMAX = 256"

definition timestamp :: "string option \<Rightarrow> string" where
  "timestamp date = (case date of None \<Rightarrow> butlast ''---'' | Some out \<Rightarrow> butlast (take (DTMAX - 1) out))"

record redirect_env =
  freopen_ok :: "nat \<Rightarrow> bool"
  popen_ok :: bool
  date_line :: "string option"
  seek_position :: int
  junk_exists :: bool
  errno_text :: string

definition stdout_line :: "redirect_env \<Rightarrow> string \<Rightarrow> string" where
  "stdout_line env name =
     name @ '':'' @ timestamp (date_line env) @ '':current seek position: '' @ show_int (seek_position env) @ [LF]"

definition stderr_lines :: "redirect_env \<Rightarrow> string \<Rightarrow> string" where
  "stderr_lines env name =
     name @ '':'' @ timestamp (date_line env) @ '':fopen on abcxyz failed'' @ [LF] @ '' fopen: '' @ errno_text env @ [LF]"

text \<open>A program up to its exit, where the buffer is written; \<open>sync\<close> says that the solution flushes, \<open>lead\<close> what it prints first.\<close>

definition redirect_program :: "bool \<Rightarrow> string \<Rightarrow> redirect_env \<Rightarrow> string list \<Rightarrow> string \<Rightarrow> string outcome" where
  "redirect_program sync lead env argv old_log =
     (if length argv \<noteq> 2 then Exit EXIT_FAILURE
      else if \<not> freopen_ok env 0 then FATAL
      else if \<not> freopen_ok env 1 then FATAL
      else if \<not> popen_ok env then FATAL
      else
        let st = to_log_stdout (stdout_line env (argv ! 0)) \<lparr>log_file = old_log, stdout_buf = []\<rparr>;
            st = (if sync then fflush_stdout st else st);
            st = (if junk_exists env then st else to_log_stderr (lead @ stderr_lines env (argv ! 0)) st)
        in Value (log_file (fflush_stdout st)))"

definition redirct_main :: "redirect_env \<Rightarrow> string list \<Rightarrow> string \<Rightarrow> string outcome" where
  "redirct_main = redirect_program False []"

definition redirct2_main :: "redirect_env \<Rightarrow> string list \<Rightarrow> string \<Rightarrow> string outcome" where
  "redirct2_main = redirect_program True [LF]"

text \<open>In the program the error comes first although it is written last; in the solution the order is that of the writes.\<close>

lemma redirect_order:
  assumes "length argv = 2" and "\<And>i. freopen_ok env i" and "popen_ok env" and "\<not> junk_exists env"
  shows "redirct_main env argv old = Value (old @ stderr_lines env (argv ! 0) @ stdout_line env (argv ! 0))"
    and "redirct2_main env argv old = Value (old @ stdout_line env (argv ! 0) @ [LF] @ stderr_lines env (argv ! 0))"
  using assms
  by (simp_all add: redirct_main_def redirct2_main_def redirect_program_def to_log_stdout_def to_log_stderr_def fflush_stdout_def
      Let_def)

text \<open>The mark for a missing time loses its last character like the newline of a time.\<close>

lemma timestamp_missing: "timestamp None = ''--''"
  by (simp add: timestamp_def)

lemma timestamp_line: "length d < DTMAX - 1 \<Longrightarrow> timestamp (Some (d @ [LF])) = d"
  by (simp add: timestamp_def)

section \<open>Blocks through a buffer of one's own\<close>

definition NREAD :: nat where "NREAD = 512"

text \<open>
  The loop of both programs. On a block that is not written the buffer is freed and, unless the stream is at its end or has an
  error, the loop goes on with it.
\<close>

fun testit :: "(nat \<times> wrote) list \<Rightarrow> io_vars \<Rightarrow> io_vars outcome" where
  "testit [] v = Value v"
| "testit ((fnr, w) # rounds) v =
     (let v = use_buf v in
      if fnr = 0 then FATAL
      else
        let v = write_buf fnr w v in
        (case w of
           Wrote \<Rightarrow> testit rounds v
         | At_Eof \<Rightarrow> Value (free_buf v)
         | Write_Error \<Rightarrow> FATAL
         | Wrote_Nothing \<Rightarrow> testit rounds (free_buf v)))"

text \<open>The number of system calls that is announced is computed with \<open>int\<close>.\<close>

definition expected_syscalls :: "int \<Rightarrow> int outcome" where
  "expected_syscalls numio = andthen (c_int (int NREAD * numio)) (\<lambda>n. Value (max 1 (n div 4096)))"

definition iobuf_main :: "bool \<Rightarrow> bool \<Rightarrow> bool \<Rightarrow> (nat \<Rightarrow> nat \<times> wrote) \<Rightarrow> string list \<Rightarrow> io_vars outcome" where
  "iobuf_main malloc_ok wfp_ok rfp_ok io argv =
     (if length argv \<noteq> 2 then Exit EXIT_FAILURE
      else
        let numio = atoi (argv ! 1) in
        if numio \<le> 0 then Exit EXIT_FAILURE
        else if \<not> malloc_ok then FATAL
        else if \<not> wfp_ok then FATAL
        else if \<not> rfp_ok then FATAL
        else
          andthen (expected_syscalls numio) (\<lambda>_.
          andthen (testit (map io [0..<nat numio]) \<lparr>iobuf = Live, written = []\<rparr>) (\<lambda>v. Value (free_buf v))))"

definition setbuf_syscalls :: "int \<Rightarrow> int \<Rightarrow> int outcome" where
  "setbuf_syscalls bufsz numio = andthen (c_int (int NREAD * numio)) (\<lambda>n. Value (min numio (n div bufsz)))"

definition io_setbuf_main ::
  "(string \<Rightarrow> int \<times> int) \<Rightarrow> (nat \<Rightarrow> bool) \<Rightarrow> bool \<Rightarrow> bool \<Rightarrow> (nat \<Rightarrow> bool) \<Rightarrow> (nat \<Rightarrow> nat \<times> wrote) \<Rightarrow> string list \<Rightarrow>
     io_vars outcome" where
  "io_setbuf_main strtoul_of malloc_ok wfp_ok rfp_ok setvbuf_ok io argv =
     (if length argv \<noteq> 3 then Exit EXIT_FAILURE
      else
        let (bufsz, errno) = strtoul_of (argv ! 1) in
        if errno \<in> {34, 22} then FATAL
        else
          let numio = atoi (argv ! 2) in
          if numio \<le> 0 \<or> bufsz \<le> 0 then Exit EXIT_FAILURE
          else if \<not> malloc_ok 0 then FATAL
          else if \<not> malloc_ok 1 then FATAL
          else if \<not> malloc_ok 2 then FATAL
          else if \<not> wfp_ok then FATAL
          else if \<not> rfp_ok then FATAL
          else if \<not> setvbuf_ok 0 then FATAL
          else if \<not> setvbuf_ok 1 then FATAL
          else
            andthen (setbuf_syscalls bufsz numio) (\<lambda>_.
            andthen (testit (map io [0..<nat numio]) \<lparr>iobuf = Live, written = []\<rparr>) (\<lambda>v. Value (free_buf v))))"

text \<open>With every block written the data is complete and the buffer is freed once.\<close>

lemma testit_all_written:
  assumes "\<And>r. r \<in> set rounds \<Longrightarrow> 0 < fst r \<and> snd r = Wrote" and "iobuf v = Live"
  shows "testit rounds v = Value (v\<lparr>written := written v @ map fst rounds\<rparr>)"
  using assms
proof (induction rounds arbitrary: v)
  case (Cons r rounds)
  obtain fnr w where r: "r = (fnr, w)" by fastforce
  then have w: "w = Wrote" "0 < fnr" using Cons.prems(1) [of r] by simp_all
  have "write_buf fnr w (use_buf v) = v\<lparr>written := written v @ [fnr]\<rparr>"
    using Cons.prems(2) w by (simp add: write_buf_def use_buf_def)
  moreover have "testit rounds (v\<lparr>written := written v @ [fnr]\<rparr>) =
      Value (v\<lparr>written := (written v @ [fnr]) @ map fst rounds\<rparr>)"
    using Cons.IH [of "v\<lparr>written := written v @ [fnr]\<rparr>"] Cons.prems by simp
  ultimately show ?case using r w by simp
qed simp

lemma iobuf_all_written:
  assumes "length argv = 2" and "0 < atoi (argv ! 1)" and "atoi (argv ! 1) \<le> 4194303"
    and "\<And>i. 0 < fst (io i) \<and> snd (io i) = Wrote"
  shows "iobuf_main True True True io argv =
           Value \<lparr>iobuf = Freed, written = map (fst \<circ> io) [0..<nat (atoi (argv ! 1))]\<rparr>"
proof -
  have "\<exists>n. expected_syscalls (atoi (argv ! 1)) = Value n"
    using assms(2,3) by (auto simp: expected_syscalls_def c_int_def is_int_def INT_MAX_def INT_MIN_def NREAD_def)
  moreover have "testit (map io [0..<nat (atoi (argv ! 1))]) \<lparr>iobuf = Live, written = []\<rparr> =
      Value \<lparr>iobuf = Live, written = map (fst \<circ> io) [0..<nat (atoi (argv ! 1))]\<rparr>"
  proof -
    have "0 < fst r \<and> snd r = Wrote" if "r \<in> set (map io [0..<nat (atoi (argv ! 1))])" for r
      using that assms(4) by (metis (no_types, lifting) ex_map_conv)
    then have "testit (map io [0..<nat (atoi (argv ! 1))]) \<lparr>iobuf = Live, written = []\<rparr> =
        Value (\<lparr>iobuf = Live, written = []\<rparr>\<lparr>written := written \<lparr>iobuf = Live, written = []\<rparr> @
          map fst (map io [0..<nat (atoi (argv ! 1))])\<rparr>)" by (rule testit_all_written) simp_all
    then show ?thesis by simp
  qed
  ultimately show ?thesis using assms(1,2) by (auto simp: iobuf_main_def Let_def free_buf_def)
qed

text \<open>From 4194304 rounds on the announcement overflows.\<close>

lemma iobuf_overflow:
  assumes "length argv = 2" and "atoi (argv ! 1) \<ge> 4194304"
  shows "iobuf_main True True True io argv = Undefined Int_Overflow"
  using assms by (simp add: iobuf_main_def expected_syscalls_def c_int_def is_int_def INT_MAX_def INT_MIN_def NREAD_def Let_def)

text \<open>Once a block is not written the buffer is freed twice, also if the file is at its end.\<close>

lemma testit_abused: "iobuf v \<in> {Freed, Abused} \<Longrightarrow> testit rounds v = Value v' \<Longrightarrow> iobuf v' \<in> {Freed, Abused}"
proof (induction rounds v rule: testit.induct)
  case (2 fnr w rounds v)
  then show ?case
    by (cases w) (auto simp: use_buf_def write_buf_def free_buf_def Let_def split: if_splits)
qed simp

lemma iobuf_double_free:
  assumes "iobuf v = Live" and "0 < fnr" and "w \<in> {At_Eof, Wrote_Nothing}" and "testit ((fnr, w) # rounds) v = Value v'"
  shows "iobuf (free_buf v') = Abused"
proof -
  have "iobuf v' \<in> {Freed, Abused}"
    using assms testit_abused [of "free_buf (write_buf fnr w (use_buf v))" rounds v']
    by (auto simp: use_buf_def write_buf_def free_buf_def Let_def)
  then show ?thesis by (auto simp: free_buf_def)
qed

section \<open>A buffer that is copied by \<open>fork\<close>\<close>

text \<open>
  \<open>booksrc/A_fileio/fork_printf_1.c\<close> and \<open>fork_printf_2.c\<close>: a process is its buffer of standard output. \<open>fork\<close> copies it; text
  without a newline stays in it, also on a terminal, until the process ends.
\<close>

definition forked :: "bool \<Rightarrow> string \<Rightarrow> string list" where
  "forked fork_works buf = (if fork_works then [buf, buf] else [buf])"

definition greeting :: string where "greeting = ''Hello, world. ''"

definition fork_printf_1 :: "bool \<Rightarrow> string" where
  "fork_printf_1 fork_works = concat (map (\<lambda>buf. buf @ greeting) (forked fork_works []))"

definition fork_printf_2 :: "bool \<Rightarrow> string" where
  "fork_printf_2 fork_works = concat (forked fork_works ([] @ greeting))"

text \<open>The greeting appears twice in both, although the second program prints it before there is a child.\<close>

lemma fork_printf_twice: "fork_printf_1 fork_works = fork_printf_2 fork_works" "fork_printf_2 True = greeting @ greeting"
  by (simp_all add: fork_printf_1_def fork_printf_2_def forked_def)

end
