(* ===== verification/Simple_Forks.thy ===== *)
theory Simple_Forks
  imports Processes
begin

text \<open>
  The first programs with \<open>fork\<close> of chapter 10: \<open>fork1.c\<close>, \<open>fork2.c\<close>, \<open>fork3.c\<close>, \<open>fork4.c\<close> and \<open>fork4_prnum.c\<close>. Each
  forks once and then prints; child and parent are told apart by what \<open>fork\<close> returns.
\<close>

section \<open>Programs that fork once and print\<close>

text \<open>
  What the child and the parent print, given their ids and the result of \<open>fork\<close>, and what happens when \<open>fork\<close> fails: the
  program exits (\<open>None\<close>) or prints and goes on.
\<close>

record two_ways =
  on_failure :: "(int \<Rightarrow> string list) option"
  child_way :: "int \<Rightarrow> string list"
  parent_way :: "int \<Rightarrow> int \<Rightarrow> string list"

datatype simple_fork = SF_Main | SF_After int | SF_Over

fun simple_code :: "two_ways \<Rightarrow> simple_fork \<Rightarrow> simple_fork act" where
  "simple_code w SF_Main = Fork SF_After"
| "simple_code w (SF_After ret) =
     (if ret = -1 then (case on_failure w of None \<Rightarrow> Exits EXIT_FAILURE | Some f \<Rightarrow> Say f SF_Over)
      else if ret = 0 then Say (child_way w) SF_Over
      else Say (\<lambda>pid. parent_way w pid ret) SF_Over)"
| "simple_code w SF_Over = Exits EXIT_SUCCESS"

definition hello :: string where "hello = ''Hello, fork.'' @ [LF]"

definition fork1_ways :: two_ways where
  "fork1_ways = \<lparr>on_failure = Some (\<lambda>pid. [hello]), child_way = (\<lambda>pid. [hello]), parent_way = (\<lambda>pid ret. [hello])\<rparr>"

definition fork2_ways :: two_ways where
  "fork2_ways = \<lparr>on_failure = None, child_way = (\<lambda>pid. [hello]), parent_way = (\<lambda>pid ret. [hello])\<rparr>"

definition hello_pid :: "int \<Rightarrow> string" where
  "hello_pid pid = ''PID '' @ show_int pid @ '': '' @ hello"

definition fork3_ways :: two_ways where
  "fork3_ways = \<lparr>on_failure = None, child_way = (\<lambda>pid. [hello_pid pid]), parent_way = (\<lambda>pid ret. [hello_pid pid])\<rparr>"

definition who_line :: "string \<Rightarrow> int \<Rightarrow> int \<Rightarrow> string" where
  "who_line who pid ret = who @ '' process, PID '' @ show_int pid @ '':'' @ [LF] @ '' return '' @ show_int ret @ '' from fork()'' @ [LF]"

definition child_done :: "int \<Rightarrow> string" where
  "child_done pid = ''Child process ('' @ show_int pid @ '') done, exiting ...'' @ [LF]"

definition parent_done :: "int \<Rightarrow> string" where
  "parent_done pid = ''Parent ('' @ show_int pid @ '') will exit now...'' @ [LF]"

definition nap_of :: "string \<Rightarrow> string \<Rightarrow> string" where
  "nap_of f arg = '' fork4.c:'' @ f @ '' :: will take a nap for '' @ show_int (to_unsigned 32 (atoi arg)) @ ''s ...'' @ [LF]"

definition fork4_ways :: "string list \<Rightarrow> two_ways" where
  "fork4_ways argv =
     \<lparr>on_failure = None,
      child_way = (\<lambda>pid. [who_line ''Child'' pid 0, nap_of ''foo'' (argv ! 1), child_done pid]),
      parent_way = (\<lambda>pid ret. [who_line ''Parent'' pid ret, nap_of ''bar'' (argv ! 2), parent_done pid])\<rparr>"

text \<open>
  The index of the loop is unsigned, and so is then the comparison with its bound. The second counter of the macro, which nothing
  reads, is left out here (see \<open>DELAY_LOOP\<close> in \<open>Common\<close> for its overflow).
\<close>

definition delay_chars :: "char \<Rightarrow> string \<Rightarrow> string list" where
  "delay_chars ch arg = replicate (nat (to_unsigned 32 (atoi arg))) [ch]"

definition fork4_prnum_ways :: "string list \<Rightarrow> two_ways" where
  "fork4_prnum_ways argv =
     \<lparr>on_failure = None,
      child_way = (\<lambda>pid. [who_line ''Child'' pid 0] @ delay_chars CHR ''c'' (argv ! 1) @ [child_done pid]),
      parent_way = (\<lambda>pid ret. [who_line ''Parent'' pid ret] @ delay_chars CHR ''p'' (argv ! 2) @ [parent_done pid])\<rparr>"

definition simple_main :: "int \<Rightarrow> simple_fork psys" where
  "simple_main p = init_process p SF_Main"

definition fork4_main :: "int \<Rightarrow> string list \<Rightarrow> simple_fork psys outcome" where
  "fork4_main p argv = (if length argv \<noteq> 3 then Exit EXIT_FAILURE else Value (simple_main p))"

definition fork4_prnum_main :: "int \<Rightarrow> string list \<Rightarrow> simple_fork psys outcome" where
  "fork4_prnum_main p argv = (if length argv \<noteq> 3 then Exit EXIT_FAILURE else Value (simple_main p))"

section \<open>Each process prints its own lines\<close>

fun simple_rest :: "two_ways \<Rightarrow> simple_fork \<Rightarrow> int \<Rightarrow> string list option" where
  "simple_rest w SF_Main pid = None"
| "simple_rest w (SF_After ret) pid =
     Some (if ret = -1 then (case on_failure w of None \<Rightarrow> [] | Some f \<Rightarrow> f pid)
           else if ret = 0 then child_way w pid else parent_way w pid ret)"
| "simple_rest w SF_Over pid = Some []"

interpretation simple: line_program "simple_code w" "simple_rest w" for w
  by (unfold_locales; (elim disjE)?; erule simple_code.elims; auto split: if_splits option.splits)

text \<open>
  Under every schedule the parent, once it has ended, has printed exactly the lines of the parent and the child those of the
  child, in their order.
\<close>

lemma simple_fork_lines:
  assumes "1 < p" and "list_all undisturbed evs" and "s = sys_run (simple_code w) evs (simple_main p)"
  shows "(running s p = None \<longrightarrow> lines_of s p = parent_way w p (p + 1)) \<and>
         (p + 1 \<in> set (pids s) \<and> running s (p + 1) = None \<longrightarrow> lines_of s (p + 1) = child_way w (p + 1))"
  using simple.fork_once_lines [OF _ _ _ assms(1,2), of w SF_Main SF_After] assms(1,3)
  by (auto simp: simple_main_def)

text \<open>Both processes of the third program say different things, those of the first two the same.\<close>

lemma fork3_tells_apart:
  assumes "1 < p" and "list_all undisturbed evs" and "s = sys_run (simple_code fork3_ways) evs (simple_main p)"
    and "running s p = None" and "p + 1 \<in> set (pids s)" and "running s (p + 1) = None"
  shows "lines_of s p = [hello_pid p] \<and> lines_of s (p + 1) = [hello_pid (p + 1)]"
  using simple_fork_lines [OF assms(1-3)] assms(4-6) by (simp add: fork3_ways_def)

text \<open>A negative number of characters is taken as a number close to \<open>2 ^ 32\<close>.\<close>

lemma negative_delay: "length (delay_chars ch ''-1'') = 4294967295"
proof -
  have "atoi ''-1'' = -1" by code_simp
  then show ?thesis by (simp add: delay_chars_def to_unsigned_def)
qed

text \<open>When \<open>fork\<close> fails the first program goes on and prints; the others exit with failure.\<close>

lemma fork_fails:
  "simple_code fork1_ways (SF_After (-1)) = Say (\<lambda>pid. [hello]) SF_Over"
  "w \<in> {fork2_ways, fork3_ways, fork4_ways argv, fork4_prnum_ways argv} \<Longrightarrow> simple_code w (SF_After (-1)) = Exits EXIT_FAILURE"
  by (auto simp: fork1_ways_def fork2_ways_def fork3_ways_def fork4_ways_def fork4_prnum_ways_def)

section \<open>Processes one after the other\<close>

text \<open>
  \<open>fork_test.c\<close> of chapter 14: 60000 times a child that does nothing, each waited for before the next one. The call of
  \<open>waitpid\<close> for the child just forked is the \<open>Wait\<close> of the machine, as there is no other child; its result is not looked at.
\<close>

definition NFORKS :: nat where "NFORKS = 60000"

datatype fork_test = FT_Loop nat | FT_Switch nat int

fun fork_test_code :: "fork_test \<Rightarrow> fork_test act" where
  "fork_test_code (FT_Loop j) = (if j < NFORKS then Fork (FT_Switch j) else Exits EXIT_SUCCESS)"
| "fork_test_code (FT_Switch j pid) =
     (if pid = -1 then Exits EXIT_FAILURE
      else if pid = 0 then Exits EXIT_SUCCESS
      else Wait (\<lambda>status. FT_Loop (Suc j)))"

text \<open>The parent, perhaps with a child that has ended; with a child that runs; a child that has lost its parent; nobody.\<close>

inductive one_child :: "int \<Rightarrow> fork_test psys \<Rightarrow> bool" for p where
  parent: "running s = [p \<mapsto> ([], q)] \<Longrightarrow> (\<forall>x. zombie s x \<noteq> None \<longrightarrow> x = c \<and> ppid s c = p) \<Longrightarrow>
    (\<And>j. q = FT_Loop j \<Longrightarrow> zombie s = Map.empty) \<Longrightarrow> one_child p s"
| child: "running s = [p \<mapsto> ([], FT_Switch j c), c \<mapsto> ([], FT_Switch j 0)] \<Longrightarrow> zombie s = Map.empty \<Longrightarrow> ppid s c = p \<Longrightarrow>
    p < c \<Longrightarrow> one_child p s"
| orphan: "running s = [c \<mapsto> ([], FT_Switch j 0)] \<Longrightarrow> zombie s = Map.empty \<Longrightarrow> one_child p s"
| nobody: "running s = Map.empty \<Longrightarrow> zombie s = Map.empty \<Longrightarrow> one_child p s"

lemma first_has_no_parent:
  assumes "sys_wf s" and "running s c \<noteq> None" and "\<And>x. running s x \<noteq> None \<Longrightarrow> c \<le> x"
  shows "running s (ppid s c) = None"
  using assms sys_wfD(1,6) [OF assms(1)] by (metis not_le)

lemma only_has_no_parent: "sys_wf s \<Longrightarrow> running s = [c \<mapsto> v] \<Longrightarrow> running s (ppid s c) = None"
  by (rule first_has_no_parent) (auto split: if_splits)

lemma one_child_ends:
  assumes "one_child p s" and "sys_wf s" and "running s x \<noteq> None"
  shows "one_child p (end_process x n s)"
  using assms(1)
proof cases
  case (parent q c)
  then have x: "x = p" using assms(3) by (simp split: if_splits)
  then have "running s (ppid s p) = None" using only_has_no_parent [OF assms(2) parent(1)] by simp
  then show ?thesis using parent x
    by (intro one_child.nobody) (auto simp: end_process_def fun_eq_iff)
next
  case (child j c)
  have "running s (ppid s p) = None"
  proof (rule first_has_no_parent [OF assms(2)])
    show "running s p \<noteq> None" using child(1,4) by simp
    show "p \<le> y" if "running s y \<noteq> None" for y using child(1,4) that by (simp split: if_splits)
  qed
  note up = this
  show ?thesis
  proof (cases "x = p")
    case True
    show ?thesis
    proof (rule one_child.orphan [of _ c j])
      show "running (end_process x n s) = [c \<mapsto> ([], FT_Switch j 0)]"
        using child(1,4) True by (auto simp: end_process_def)
      show "zombie (end_process x n s) = Map.empty" using child(2) up True by (auto simp: end_process_def)
    qed
  next
    case False
    then have x: "x = c" using assms(3) child(1) by (simp split: if_splits)
    show ?thesis
    proof (rule one_child.parent [of _ p "FT_Switch j c" c])
      show "running (end_process x n s) = [p \<mapsto> ([], FT_Switch j c)]"
        using child(1,4) x by (auto simp: end_process_def)
      show "\<forall>y. zombie (end_process x n s) y \<noteq> None \<longrightarrow> y = c \<and> ppid (end_process x n s) c = p"
        using child(2-4) x by (simp add: end_process_def)
    qed simp
  qed
next
  case (orphan c j)
  then have "x = c" using assms(3) by (simp split: if_splits)
  moreover have "running s (ppid s c) = None" using only_has_no_parent [OF assms(2) orphan(1)] by simp
  ultimately show ?thesis using orphan by (intro one_child.nobody) (auto simp: end_process_def fun_eq_iff)
qed (use assms(3) in simp)

lemma one_child_goes:
  assumes "running s = [p \<mapsto> ([], q)]" and "zombie s = Map.empty"
  shows "one_child p (goes_to p q' s)"
  using assms by (intro one_child.parent [of _ p q' 0]) (simp_all add: goes_to_def)

lemma one_child_acts:
  assumes "one_child p s" and "sys_wf s" and "running s x = Some ([], q)"
  shows "one_child p (perform x (fork_test_code q) s)"
proof (cases "\<exists>n. fork_test_code q = Exits n")
  case True
  then show ?thesis using one_child_ends [OF assms(1,2)] assms(3) by (auto simp: perform_def)
next
  case False
  from assms(1) show ?thesis
  proof cases
    case (parent q' c)
    then have x: "x = p" "q' = q" using assms(3) by (simp_all split: if_splits)
    show ?thesis
    proof (cases q)
      case (FT_Loop j)
      have "p < fresh_pid s" using assms(2,3) x by (auto simp: sys_wf_def)
      then show ?thesis using FT_Loop False x parent
        by (intro one_child.child [of _ p j "fresh_pid s"]) (auto simp: perform_def split: if_splits)
    next
      case (FT_Switch j ret)
      have k: "zombie s = Map.empty" if "kids_of s p = []"
      proof
        show "zombie s y = None" for y
          using that parent(2) sys_wfD(3) [OF assms(2), of y] by (fastforce simp: kids_of_def filter_empty_conv)
      qed
      show ?thesis using FT_Switch False x k assms(1) one_child_goes [OF parent(1)]
        by (auto simp: perform_def split: if_splits)
    qed
  next
    case (child j c)
    have "c \<in> set (pids s)" using child sys_wfD(1) [OF assms(2), of c] by simp
    then have "c \<in> set (kids_of s p)" using child(1,3) by (simp add: kids_of_def)
    then have "kids_of s p \<noteq> []" by auto
    then show ?thesis using child(1) False assms(1,3) by (cases q) (auto simp: perform_def split: if_splits)
  next
    case (orphan c j)
    then show ?thesis using False assms(3) by (auto split: if_splits)
  qed (use assms(3) in simp)
qed

lemma one_child_event:
  assumes "one_child p s" and "sys_wf s"
  shows "one_child p (sys_event fork_test_code ev s)"
proof (cases ev)
  case (Runs x)
  have "ls = []" if "running s x = Some (ls, q)" for ls q
    using assms(1) that by cases (auto split: if_splits)
  then show ?thesis using Runs assms one_child_acts [OF assms]
    by (auto split: option.split list.split)
next
  case (Fork_fails x)
  have "running s = [p \<mapsto> ([], FT_Loop j)] \<and> zombie s = Map.empty \<and> x = p" if "running s x = Some ([], FT_Loop j)" for j
    using assms(1) that by cases (auto split: if_splits)
  then show ?thesis using Fork_fails assms(1) one_child_goes
    by (auto split: option.split list.split act.split elim!: fork_test_code.elims split: if_splits)
next
  case (Reaps x c)
  show ?thesis
  proof (cases "sys_event fork_test_code ev s = s")
    case False
    then obtain q k where q: "running s x = Some ([], q)" "fork_test_code q = Wait k" "zombie s c \<noteq> None" "ppid s c = x"
      using Reaps by (auto split: option.splits list.splits act.splits if_splits)
    then obtain j where k: "k = (\<lambda>st. FT_Loop (Suc j))" by (cases q) (auto split: if_splits)
    have r: "running s = [p \<mapsto> ([], q)] \<and> x = p \<and> (\<forall>y. y \<noteq> c \<longrightarrow> zombie s y = None)"
      using assms(1) q(1,3) by cases (auto split: if_splits, metis not_Some_eq)
    then have "one_child p ((goes_to x (FT_Loop (Suc j)) s)\<lparr>zombie := (zombie s)(c := None)\<rparr>)"
      by (intro one_child.parent [of _ p "FT_Loop (Suc j)" 0]) (auto simp: goes_to_def fun_eq_iff)
    then show ?thesis using Reaps q k by (auto split: option.split)
  qed (use assms(1) in simp)
next
  case (Killed x sig)
  then show ?thesis using assms(1) one_child_ends [OF assms] by simp
qed

text \<open>Whatever happens, at most two processes exist, ended ones that have not been waited for included.\<close>

lemma fork_test_two_processes:
  assumes "1 < p"
  shows "card {c. running (sys_run fork_test_code evs (init_process p (FT_Loop 0))) c \<noteq> None \<or>
                  zombie (sys_run fork_test_code evs (init_process p (FT_Loop 0))) c \<noteq> None} \<le> 2"
proof -
  let ?s = "sys_run fork_test_code evs (init_process p (FT_Loop 0))"
  have "sys_wf ?s \<and> one_child p ?s"
  proof (rule sys_run_invariant [where ok = "\<lambda>ev. True"])
    show "sys_wf (init_process p (FT_Loop 0)) \<and> one_child p (init_process p (FT_Loop 0))"
      using assms by (auto simp: init_wf) (auto simp: init_process_def intro!: one_child.parent [of _ p "FT_Loop 0" 0])
  qed (use event_wf one_child_event in \<open>auto simp: list_all_iff\<close>)
  then have "one_child p ?s" ..
  then have "\<exists>c. {x. running ?s x \<noteq> None \<or> zombie ?s x \<noteq> None} \<subseteq> {p, c}"
    by cases (auto split: if_splits)
  then obtain c where c: "{x. running ?s x \<noteq> None \<or> zombie ?s x \<noteq> None} \<subseteq> {p, c}" ..
  then show ?thesis using card_mono [OF _ c] card_insert_le_m1 [of 2 "{c}" p] by (simp add: order_trans)
qed

end
