(* ===== verification/Exec_Programs.thy ===== *)
theory Exec_Programs
  imports Shell
begin

text \<open>
  Programs that execute others: \<open>booksrc/ch9/predcs_name.c\<close> with its successor \<open>booksrc/ch9/successor_setnm.c\<close>,
  \<open>booksrc/ch9/pdfrdr_exec.c\<close> and its version with \<open>fork\<close>, \<open>booksrc/solutions_to_assgn/ch10/pdf_rdr.c\<close>.
\<close>

section \<open>The name of a successor\<close>

text \<open>A process after \<open>exec\<close>: the name the kernel has for it, at most 15 characters of the file name, and its arguments.\<close>

record image =
  comm :: string
  argv_of :: "string list"
  printed_by :: "string list"

definition TASK_COMM_LEN :: nat where "TASK_COMM_LEN = 16"

definition exec_image :: "string \<Rightarrow> string list \<Rightarrow> image" where
  "exec_image file args = \<lparr>comm = take (TASK_COMM_LEN - 1) file, argv_of = args, printed_by = []\<rparr>"

definition set_name :: "string \<Rightarrow> image \<Rightarrow> image" where
  "set_name nm p = p\<lparr>comm := take (TASK_COMM_LEN - 1) nm\<rparr>"

text \<open>Why \<open>access\<close> refuses, by its error number.\<close>

definition access_reason :: "int \<Rightarrow> string" where
  "access_reason errno =
     (if errno = 2 then ''is missing; please build it and retry.''
      else if errno = 13 then ''does not have sufficient permissions to execute.''
      else '': [other error]'')"

definition predcs_main :: "(string \<Rightarrow> int option) \<Rightarrow> bool \<Rightarrow> string list \<Rightarrow> image outcome" where
  "predcs_main access_errno exec_works argv =
     (if length argv < 2 \<or> length argv > 3 then Exit EXIT_FAILURE
      else if access_errno (argv ! 1) \<noteq> None then FATAL
      else if \<not> exec_works then FATAL
      else if length argv = 2 then Value (exec_image ''successor_setnm'' [argv ! 1, argv ! 1])
      else Value (exec_image ''successor_setnm'' [argv ! 2, argv ! 1, argv ! 2]))"

definition successor_main :: "bool \<Rightarrow> image \<Rightarrow> image outcome" where
  "successor_main prctl_ok p =
     (let argv = argv_of p in
      if length argv < 2 \<or> length argv > 3 then Exit EXIT_FAILURE
      else
        let p = p\<lparr>printed_by := [argv ! 0 @ '':parameters received:''] @
                  map (\<lambda>i. ''argv['' @ show_nat i @ '']='' @ argv ! i) [0..<length argv]\<rparr> in
        if length argv = 3 then
          (if prctl_ok then Value (set_name (argv ! 2) p) else FATAL)
        else Value p)"

text \<open>One after the other: the name is that of the file, whatever \<open>argv[0]\<close> is, unless the successor sets it itself.\<close>

definition predecessor_and_successor :: "(string \<Rightarrow> int option) \<Rightarrow> string list \<Rightarrow> image outcome" where
  "predecessor_and_successor access_errno argv = andthen (predcs_main access_errno True argv) (successor_main True)"

lemma successor_named:
  assumes "access_errno a = None"
  shows "\<exists>p. predecessor_and_successor access_errno [me, a] = Value p \<and> comm p = ''successor_setnm'' \<and> hd (argv_of p) = a"
    and "\<exists>p. predecessor_and_successor access_errno [me, a, b] = Value p \<and> comm p = take 15 b \<and> hd (argv_of p) = b"
  using assms
  by (simp_all add: predecessor_and_successor_def predcs_main_def successor_main_def exec_image_def set_name_def TASK_COMM_LEN_def)

text \<open>The file that is checked is not the one that is executed.\<close>

lemma checked_is_not_executed:
  assumes "access_errno a = None" and "access_errno b = None"
  shows "map_outcome comm (predcs_main access_errno True [me, a]) = map_outcome comm (predcs_main access_errno True [me, b])"
  using assms by (simp add: predcs_main_def exec_image_def)

section \<open>Executing a reader\<close>

text \<open>\<open>execv\<close> does not return when it succeeds; the result is then the program that runs.\<close>

definition exec_pdf_reader_app :: "bool \<Rightarrow> string \<Rightarrow> string list + int" where
  "exec_pdf_reader_app execv_ok pdfdoc = (if execv_ok then Inl [''evince'', pdfdoc] else Inr (-1))"

definition pdfrdr_exec_main :: "bool \<Rightarrow> string list \<Rightarrow> string list outcome" where
  "pdfrdr_exec_main execv_ok argv =
     (if length argv < 2 then Exit EXIT_FAILURE
      else case exec_pdf_reader_app execv_ok (argv ! 1) of Inl program \<Rightarrow> Value program | Inr n \<Rightarrow> if n < 0 then FATAL else Exit EXIT_SUCCESS)"

definition interpret_pdf_wait :: "wait_status \<Rightarrow> string list" where
  "interpret_pdf_wait st =
     (case st of
        Exited n \<Rightarrow> ['' normal termination: exit status: '' @ show_int n,
                     if n = 0 then ''  child exited with success!'' else ''  child failed; failed exit status = '' @ show_int n]
      | Signaled n core \<Rightarrow>
          ['' abnormal termination: killer signal: '' @ show_int n, if core then '' : core dumped'' else []]
      | Stopped n \<Rightarrow> ['' stopped: stop signal: '' @ show_int n]
      | Continued \<Rightarrow> ['' (was stopped), resumed (SIGCONT)''])"

text \<open>
  The child that the parent waits for: \<open>reader\<close> is how the reader ends; a child that cannot execute it exits with failure. The
  result is what the parent prints, and its exit code.
\<close>

definition child_end :: "bool \<Rightarrow> string \<Rightarrow> (string list \<Rightarrow> wait_status) \<Rightarrow> wait_status" where
  "child_end execv_ok pdfdoc reader =
     (case exec_pdf_reader_app execv_ok pdfdoc of Inl program \<Rightarrow> reader program | Inr n \<Rightarrow> Exited EXIT_FAILURE)"

definition pdf_rdr_main ::
  "bool \<Rightarrow> bool \<Rightarrow> bool \<Rightarrow> (string list \<Rightarrow> wait_status) \<Rightarrow> string list \<Rightarrow> (string list \<times> int) outcome" where
  "pdf_rdr_main fork_works execv_ok wait_works reader argv =
     (if length argv < 2 then Exit EXIT_FAILURE
      else if \<not> fork_works then FATAL
      else if \<not> wait_works then FATAL
      else Value (interpret_pdf_wait (child_end execv_ok (argv ! 1) reader), EXIT_SUCCESS))"

text \<open>The parent reports success exactly if the reader ran and exited with 0; its own exit code is 0 in every case.\<close>

lemma pdf_rdr_reports:
  assumes "length argv \<ge> 2" and "terminated (reader [''evince'', argv ! 1])"
  shows "\<exists>out. pdf_rdr_main True execv_ok True reader argv = Value (out, 0) \<and>
           (''  child exited with success!'' \<in> set out \<longleftrightarrow> execv_ok \<and> reader [''evince'', argv ! 1] = Exited 0)"
proof (cases "execv_ok")
  case True
  then show ?thesis using assms
    by (cases "reader [''evince'', argv ! 1]")
      (auto simp: pdf_rdr_main_def child_end_def exec_pdf_reader_app_def interpret_pdf_wait_def)
next
  case False
  then show ?thesis using assms
    by (simp add: pdf_rdr_main_def child_end_def exec_pdf_reader_app_def interpret_pdf_wait_def)
qed

end
