(* ===== verification/Timed_Signals.thy ===== *)
theory Timed_Signals
  imports Alternate_Stack
begin

text \<open>
  Waiting for signals with a time limit, \<open>booksrc/solutions_to_assgn/ch12/sigtmwtinfo.c\<close>, and three interval timers at once,
  \<open>booksrc/solutions_to_assgn/ch13/3intv.c\<close>.
\<close>

section \<open>Waiting with a time limit\<close>

text \<open>
  What \<open>sigtimedwait\<close> returns: a signal, no signal within the time, or another error. A signal that has a handler and is not
  blocked interrupts the call: the error is then \<open>EINTR\<close>.
\<close>

datatype timed = Got nat | Timed_Out | Failed_With int

definition EINTR :: int where "EINTR = 4"

datatype sigtm_end = Waiting_On | Left_With int | Died_Of nat

definition sigtm_mask :: sigset where
  "sigtm_mask = sigfillset - {SIGFPE, SIGSEGV}"

text \<open>The handler of both signals does something for \<open>SIGSEGV\<close> only: it reports and raises the signal again.\<close>

definition sigtm_handler :: "nat \<Rightarrow> int \<Rightarrow> string list \<times> nat option" where
  "sigtm_handler signum code =
     (if signum = SIGSEGV then
        ([''FATAL signal'',
          if code = SEGV_MAPERR then ''SEGV_MAPERR : Address not mapped to object.''
          else if code = SEGV_ACCERR then ''SEGV_ACCERR : Invalid permissions for mapped object.'' else [],
          ''sigtmwtinfo: Aborting ...''], Some SIGSEGV)
      else ([], None))"

text \<open>\<open>buggy\<close> writes through a null pointer.\<close>

definition buggy :: "string list \<times> nat option" where
  "buggy = sigtm_handler SIGSEGV SEGV_MAPERR"

fun sigtm_loop :: "bool \<Rightarrow> timed list \<Rightarrow> string list \<Rightarrow> string list \<times> sigtm_end" where
  "sigtm_loop bug [] out = (out, Waiting_On)"
| "sigtm_loop bug (Got n # rs) out = sigtm_loop bug rs (out @ [''Received signal# '' @ show_nat n])"
| "sigtm_loop bug (Timed_Out # rs) out =
     (let out = out @ [''<timeout>! retrying ...''] in
      if bug then
        (case buggy of
           (text, Some n) \<Rightarrow> (out @ text, Died_Of n)
         | (text, None) \<Rightarrow> sigtm_loop bug rs (out @ text))
      else sigtm_loop bug rs out)"
| "sigtm_loop bug (Failed_With e # rs) out = (out, Left_With EXIT_FAILURE)"

definition sigtmwtinfo_main :: "(nat \<Rightarrow> bool) \<Rightarrow> bool \<Rightarrow> timed list \<Rightarrow> string list \<Rightarrow> (string list \<times> sigtm_end) outcome" where
  "sigtmwtinfo_main sigaction_works sigprocmask_ok rs argv =
     (if length argv \<noteq> 2 then Exit EXIT_FAILURE
      else if \<not> sigaction_works SIGSEGV then FATAL
      else if \<not> sigaction_works SIGFPE then FATAL
      else if \<not> sigprocmask_ok then FATAL
      else Value (sigtm_loop (atoi (argv ! 1) = 1) rs [fst (show_blocked_signals (Some sigtm_mask))]))"

text \<open>Without the bug every signal received is reported in order, time-outs change nothing, and the program waits on.\<close>

fun received :: "timed \<Rightarrow> string" where
  "received (Got n) = ''Received signal# '' @ show_nat n"
| "received Timed_Out = ''<timeout>! retrying ...''"
| "received (Failed_With e) = []"

fun not_failed :: "timed \<Rightarrow> bool" where
  "not_failed (Failed_With e) \<longleftrightarrow> False"
| "not_failed r \<longleftrightarrow> True"

lemma sigtm_reports:
  "list_all not_failed rs \<Longrightarrow> sigtm_loop False rs out = (out @ map received rs, Waiting_On)"
proof (induction rs arbitrary: out)
  case (Cons r rs)
  then show ?case by (cases r) simp_all
qed simp

text \<open>With the bug the first time-out ends the program with \<open>SIGSEGV\<close>; before it only signals are reported.\<close>

lemma sigtm_bug:
  assumes "list_all (\<lambda>r. \<exists>n. r = Got n) rs"
  shows "snd (sigtm_loop True (rs @ Timed_Out # rs') out) = Died_Of SIGSEGV"
  using assms
proof (induction rs arbitrary: out)
  case Nil
  then show ?case by (simp add: buggy_def sigtm_handler_def)
next
  case (Cons r rs)
  then show ?case by (cases r) simp_all
qed

text \<open>
  \<open>SIGFPE\<close> is caught, but its handler returns at once; the interrupted wait then counts as a failure and the program exits.
\<close>

lemma sigfpe_ends_waiting:
  "sigtm_handler SIGFPE code = ([], None)" "snd (sigtm_loop bug (Failed_With EINTR # rs) out) = Left_With EXIT_FAILURE"
  by (simp_all add: sigtm_handler_def SIGFPE_def SIGSEGV_def)

text \<open>The waiting time that the comment gives as half a second.\<close>

definition sigtm_timeout :: timespec where
  "sigtm_timeout = \<lparr>tv_sec = 1, tv_nsec = 100000000\<rparr>"

lemma sigtm_timeout_ns: "nanos sigtm_timeout = 1100000000"
  by (simp add: sigtm_timeout_def nanos_def)

section \<open>Three interval timers\<close>

text \<open>An interval timer in microseconds: the time to the next expiration, 0 when it is not set, and the interval.\<close>

record itimer =
  it_left :: nat
  it_interval :: nat

definition tick :: "itimer \<Rightarrow> itimer \<times> bool" where
  "tick t = (if it_left t = 0 then (t, False)
             else if it_left t = 1 then (t\<lparr>it_left := it_interval t\<rparr>, True)
             else (t\<lparr>it_left := it_left t - 1\<rparr>, False))"

text \<open>How often the timer expires in so many microseconds of its clock.\<close>

fun expirations :: "nat \<Rightarrow> itimer \<Rightarrow> nat" where
  "expirations 0 t = 0"
| "expirations (Suc n) t = (case tick t of (t', fired) \<Rightarrow> (if fired then 1 else 0) + expirations n t')"

definition timer1 :: itimer where "timer1 = \<lparr>it_left = 1000000, it_interval = 1000000\<rparr>"
definition timer2 :: itimer where "timer2 = \<lparr>it_left = 70000, it_interval = 30000\<rparr>"
definition timer3 :: itimer where "timer3 = \<lparr>it_left = 10000, it_interval = 10000\<rparr>"

definition ticktock :: "bool \<Rightarrow> (string \<Rightarrow> bool) \<Rightarrow> string option \<Rightarrow> string outcome" where
  "ticktock clock_ok write_ok ctime =
     (if \<not> clock_ok then FATAL
      else case ctime of None \<Rightarrow> FATAL | Some text \<Rightarrow> if write_ok text then Value text else FATAL)"

text \<open>
  \<open>main\<close>: how often each handler is due after the given microseconds of real time and of time on the processor, in user mode
  and in the kernel.
\<close>

definition intv3_main :: "(nat \<Rightarrow> bool) \<Rightarrow> (nat \<Rightarrow> bool) \<Rightarrow> nat \<Rightarrow> nat \<Rightarrow> nat \<Rightarrow> (nat \<times> nat \<times> nat) outcome" where
  "intv3_main sigaction_works setitimer_ok real_us user_us sys_us =
     (if \<exists>i \<in> set [0..<3]. \<not> sigaction_works i then FATAL
      else if \<exists>i \<in> set [0..<3]. \<not> setitimer_ok i then FATAL
      else Value (expirations real_us timer1, expirations user_us timer2, expirations (user_us + sys_us) timer3))"

lemma expirations_closed:
  assumes "0 < it_interval t" and "0 < it_left t"
  shows "expirations n t = (if n < it_left t then 0 else Suc ((n - it_left t) div it_interval t))"
  using assms
proof (induction n arbitrary: t)
  case (Suc n)
  show ?case
  proof (cases "it_left t = 1")
    case True
    let ?t = "t\<lparr>it_left := it_interval t\<rparr>"
    have "expirations n ?t = (if n < it_interval t then 0 else Suc ((n - it_interval t) div it_interval t))"
      using Suc.IH [of ?t] Suc.prems by simp
    also have "\<dots> = n div it_interval t" using Suc.prems(1) by (auto simp: le_div_geq)
    finally show ?thesis using True Suc.prems by (simp add: tick_def)
  next
    case False
    let ?t = "t\<lparr>it_left := it_left t - 1\<rparr>"
    have l: "0 < it_left ?t" using False Suc.prems(2) by simp
    then have "expirations n ?t = (if n < it_left ?t then 0 else Suc ((n - it_left ?t) div it_interval ?t))"
      using Suc.IH [of ?t] Suc.prems by simp
    moreover have "n < it_left ?t \<longleftrightarrow> Suc n < it_left t" "n - it_left ?t = Suc n - it_left t" using l by auto
    ultimately show ?thesis using False Suc.prems by (simp add: tick_def)
  qed
qed simp

text \<open>In one second of work all in user mode: one tick of the clock, 32 virtual and 100 profiling alarms.\<close>

lemma intv3_one_second:
  "intv3_main (\<lambda>i. True) (\<lambda>i. True) 1000000 1000000 0 = Value (1, 32, 100)"
  by (simp add: intv3_main_def timer1_def timer2_def timer3_def expirations_closed)

end
