(* ===== verification/Small_Programs.thy ===== *)
theory Small_Programs
  imports Common Advanced_IO
begin

text \<open>
  Small programs: \<open>named_threads.c\<close> of the solutions to chapter 14, \<open>rlimits_show.c\<close> of chapter 3, \<open>murder.c\<close> of the solutions
  to chapter 12 and \<open>sleeping_beauty.c\<close> of chapter 12.
\<close>

section \<open>Names of threads\<close>

definition MAXLEN :: nat where "MAXLEN = 11"

definition thread_name :: "string \<Rightarrow> nat \<Rightarrow> string" where
  "thread_name prefix i = snprintf MAXLEN (prefix @ ''_'' @ show_nat i)"

text \<open>The threads are created and named one by one; the result is their names.\<close>

fun name_threads :: "(nat \<Rightarrow> int) \<Rightarrow> (nat \<Rightarrow> int) \<Rightarrow> string \<Rightarrow> nat list \<Rightarrow> string list \<Rightarrow> string list outcome" where
  "name_threads create setname prefix [] names = Value names"
| "name_threads create setname prefix (i # is) names =
     (if create i \<noteq> 0 then FATAL
      else if setname i \<noteq> 0 then FATAL
      else name_threads create setname prefix is (names @ [thread_name prefix i]))"

definition named_threads_main :: "(nat \<Rightarrow> int) \<Rightarrow> (nat \<Rightarrow> int) \<Rightarrow> string list \<Rightarrow> string list outcome" where
  "named_threads_main create setname argv =
     (if length argv \<noteq> 3 then Exit EXIT_FAILURE
      else
        let numthrds = atol (argv ! 2) in
        if numthrds \<le> 0 then Exit EXIT_FAILURE
        else if length (argv ! 1) \<ge> MAXLEN - 3 then Exit EXIT_FAILURE
        else name_threads create setname (argv ! 1) [0..<nat numthrds] [])"

lemma name_threads_all:
  "name_threads (\<lambda>i. 0) (\<lambda>i. 0) prefix is names = Value (names @ map (thread_name prefix) is)"
  by (induction "is" arbitrary: names) simp_all

lemma show_nat_length2: "n < 100 \<Longrightarrow> length (show_nat n) \<le> 2"
  by (cases "n < 10") (simp_all add: show_nat.simps [of n] show_nat.simps [of "n div 10"] div_less_iff_less_mult)

lemma thread_name_inj:
  assumes "length prefix < MAXLEN - 3" and "i < 100" and "j < 100" and "thread_name prefix i = thread_name prefix j"
  shows "i = j"
proof -
  have "thread_name prefix k = prefix @ ''_'' @ show_nat k" if "k < 100" for k
    unfolding thread_name_def using show_nat_length2 [OF that] assms(1) by (intro snprintf_fits) (simp add: MAXLEN_def)
  then have "show_nat i = show_nat j" using assms(2-4) by simp
  then show ?thesis by (metis read_show_nat)
qed

text \<open>Up to a hundred threads have different names.\<close>

lemma named_threads_distinct:
  assumes "length argv = 3" and "0 < atol (argv ! 2)" and "atol (argv ! 2) \<le> 100" and "length (argv ! 1) < MAXLEN - 3"
  shows "\<exists>names. named_threads_main (\<lambda>i. 0) (\<lambda>i. 0) argv = Value names \<and> distinct names \<and> length names = nat (atol (argv ! 2))"
proof -
  have "distinct (map (thread_name (argv ! 1)) [0..<nat (atol (argv ! 2))])"
    using assms(3) thread_name_inj [OF assms(4)] by (simp add: distinct_map inj_on_def)
  then show ?thesis using assms by (simp add: named_threads_main_def name_threads_all)
qed

text \<open>With more threads and a prefix of the greatest length the number is cut: names are given twice.\<close>

lemma thread_name_cut: "thread_name ''abcdefg'' 10 = thread_name ''abcdefg'' 100"
  by (simp add: thread_name_def snprintf_def MAXLEN_def show_nat.simps)

section \<open>Resource limits\<close>

definition rlim_names :: "string list" where
  "rlim_names =
     [''RLIMIT_CORE'', ''RLIMIT_DATA'', ''RLIMIT_NICE'', ''RLIMIT_FSIZE'', ''RLIMIT_SIGPENDING'', ''RLIMIT_MEMLOCK'', ''RLIMIT_NOFILE'',
      ''RLIMIT_MSGQUEUE'', ''RLIMIT_RTTIME'', ''RLIMIT_STACK'', ''RLIMIT_CPU'', ''RLIMIT_NPROC'', ''RLIMIT_AS'', ''RLIMIT_LOCKS'']"

text \<open>A limit is an unsigned number of 64 bits that is printed as a signed one, into 16 bytes.\<close>

definition limit_text :: "int \<Rightarrow> string" where
  "limit_text lim = (if lim = 2 ^ 64 - 1 then ''unlimited'' else snprintf 16 (show_int (to_signed 64 lim)))"

fun query_rlimits :: "(string \<Rightarrow> (int \<times> int) option) \<Rightarrow> string list \<Rightarrow> (string \<times> string \<times> string) list \<Rightarrow>
    (string \<times> string \<times> string) list outcome" where
  "query_rlimits prlimit [] rows = Value rows"
| "query_rlimits prlimit (nm # nms) rows =
     (case prlimit nm of
        None \<Rightarrow> FATAL
      | Some (cur, mx) \<Rightarrow> query_rlimits prlimit nms (rows @ [(nm, limit_text cur, limit_text mx)]))"

definition rlimits_main :: "(string \<Rightarrow> (int \<times> int) option) \<Rightarrow> (string \<times> string \<times> string) list outcome" where
  "rlimits_main prlimit = query_rlimits prlimit rlim_names []"

lemma query_rlimits_all:
  assumes "\<And>nm. nm \<in> set nms \<Longrightarrow> prlimit nm = Some (cur nm, mx nm)"
  shows "query_rlimits prlimit nms rows = Value (rows @ map (\<lambda>nm. (nm, limit_text (cur nm), limit_text (mx nm))) nms)"
  using assms by (induction nms arbitrary: rows) simp_all

text \<open>Up to fifteen digits are shown as they are; a greater limit is cut.\<close>

lemma limit_text_cut: "limit_text 1125899906842624 = ''112589990684262''"
  by (simp add: limit_text_def snprintf_def show_int_def to_signed_def show_nat.simps digit_char_def; code_simp)

section \<open>Killing every process\<close>

text \<open>
  The loop over all ids up to the limit. \<open>alive\<close> are the processes, \<open>may\<close> those that the program may signal; it is one of
  them itself. The result is the list of processes killed. A signal to itself ends it.
\<close>

fun murder_loop :: "int \<Rightarrow> (int \<Rightarrow> bool) \<Rightarrow> (int \<Rightarrow> bool) \<Rightarrow> int list \<Rightarrow> int list \<Rightarrow> int list \<times> bool" where
  "murder_loop self alive may [] killed = (killed, False)"
| "murder_loop self alive may (i # is) killed =
     (if \<not> (alive i \<and> may i) then murder_loop self alive may is killed
      else if i = self then (killed @ [i], True)
      else murder_loop self alive may is (killed @ [i]))"

text \<open>\<open>get_pid_max\<close>: a pipe that cannot be opened is closed all the same.\<close>

definition get_pid_max :: "string option option \<Rightarrow> (string \<Rightarrow> int) \<Rightarrow> int outcome" where
  "get_pid_max pipe strtoul_of =
     (case pipe of
        None \<Rightarrow> Undefined Null_Deref
      | Some None \<Rightarrow> Value 0
      | Some (Some text) \<Rightarrow> Value (strtoul_of text))"

definition murder_main ::
  "string option option \<Rightarrow> (string \<Rightarrow> int) \<Rightarrow> int \<Rightarrow> (int \<Rightarrow> bool) \<Rightarrow> (int \<Rightarrow> bool) \<Rightarrow> (int list \<times> bool) outcome" where
  "murder_main pipe strtoul_of self alive may =
     andthen (get_pid_max pipe strtoul_of) (\<lambda>n.
       let pid_max = (if n = 0 then 32768 else n) in
       Value (murder_loop self alive may [1..pid_max - 1] []))"

lemma murder_loop_stops:
  assumes "self \<in> set is" and "alive self" and "may self"
  shows "murder_loop self alive may is killed =
           (killed @ filter (\<lambda>i. alive i \<and> may i) (takeWhile (\<lambda>i. i \<noteq> self) is) @ [self], True)"
  using assms by (induction "is" arbitrary: killed) auto

text \<open>The program kills exactly the processes before itself, then itself: those with greater ids survive.\<close>

lemma takeWhile_upto: "a \<le> s \<Longrightarrow> s \<le> b \<Longrightarrow> takeWhile (\<lambda>i. i \<noteq> s) [a..b] = [a..s - 1]"
proof -
  assume "a \<le> s" "s \<le> b"
  then have "[a..b] = [a..s - 1] @ s # [s + 1..b]" using upto_split2 [of a "s - 1" b] upto_rec1 [of s b]
    by (cases "a = s") simp_all
  then show ?thesis by (simp add: takeWhile_append)
qed

lemma murder_spares_later:
  assumes "get_pid_max pipe strtoul_of = Value n" and "n \<noteq> 0" and "1 \<le> self" and "self < n" and "alive self" and "may self"
  shows "murder_main pipe strtoul_of self alive may =
           Value (filter (\<lambda>i. alive i \<and> may i) [1..self - 1] @ [self], True)"
  using assms murder_loop_stops [of self "[1..n - 1]" alive may "[]"] takeWhile_upto [of 1 self "n - 1"]
  by (simp add: murder_main_def)

section \<open>Interrupted sleep\<close>

text \<open>\<open>sleep\<close> is interrupted by the first signal and returns the seconds that are left; \<open>nanosleep\<close> is called again.\<close>

datatype sleep_result = Sleep_Returned int | Nanosleep_Total int | No_Sleep

definition sleeping_beauty_main :: "bool \<Rightarrow> int option \<Rightarrow> nanosleep list \<Rightarrow> string list \<Rightarrow> sleep_result option outcome" where
  "sleeping_beauty_main sigaction_works interrupted_after naps argv =
     (if length argv = 1 then Exit EXIT_FAILURE
      else if \<not> sigaction_works then FATAL
      else if atoi (argv ! 1) = 0 then
        Value (Some (Sleep_Returned (case interrupted_after of None \<Rightarrow> 0 | Some n \<Rightarrow> 10 - n)))
      else if atoi (argv ! 1) = 1 then Value (map_option (\<lambda>(r, slept). Nanosleep_Total slept) (r_sleep 10 0 naps))
      else Value (Some No_Sleep))"

text \<open>With option 1 the program sleeps ten seconds, however often it is interrupted.\<close>

lemma sleeping_beauty_total:
  assumes "length argv = 2" and "atoi (argv ! 1) = 1"
  shows "sleeping_beauty_main True i (map Interrupted ns @ Slept # as) argv = Value (Some (Nanosleep_Total 10000000000))"
  using assms r_sleep_total [of 10 0 ns as] by (simp add: sleeping_beauty_main_def)

section \<open>Allocating bytes (lab 3)\<close>

text \<open>
  \<open>alloc_bytes\<close> of \<open>M3Lab/compare.c\<close> frees what it has allocated and returns the null pointer; that of
  \<open>M3Lab/malloc_exercise/mymalloc.c\<close> returns the block. The result is the pointer and the blocks that are allocated.
\<close>

definition compare_alloc_bytes :: "(int \<Rightarrow> int) \<Rightarrow> int \<Rightarrow> int set \<Rightarrow> (int \<times> int set) outcome" where
  "compare_alloc_bytes malloc num_bytes blocks =
     (let ptr = malloc num_bytes in
      if ptr = 0 then Exit EXIT_FAILURE
      else Value (0, insert ptr blocks - {ptr}))"

definition my_alloc_bytes :: "(int \<Rightarrow> int) \<Rightarrow> int \<Rightarrow> int set \<Rightarrow> (int \<times> int set) outcome" where
  "my_alloc_bytes malloc num_bytes blocks =
     (let ptr = malloc num_bytes in
      if ptr = 0 then Exit EXIT_FAILURE else Value (ptr, insert ptr blocks))"

definition compare_main :: "(int \<Rightarrow> int) \<Rightarrow> (int \<times> int set) outcome" where
  "compare_main malloc = compare_alloc_bytes malloc 1024 {}"

definition test_mymalloc_main :: "(int \<Rightarrow> int) \<Rightarrow> (int \<times> int set) outcome" where
  "test_mymalloc_main malloc = my_alloc_bytes malloc 512 {}"

text \<open>
  The first program announces the null pointer as 1024 allocated bytes and leaks nothing, the second announces a block and never
  frees it.
\<close>

lemma lab3_programs:
  assumes "malloc 1024 \<noteq> 0" and "malloc 512 \<noteq> 0"
  shows "compare_main malloc = Value (0, {})" and "test_mymalloc_main malloc = Value (malloc 512, {malloc 512})"
  using assms by (simp_all add: compare_main_def compare_alloc_bytes_def test_mymalloc_main_def my_alloc_bytes_def Let_def)

section \<open>A loop variable passed by its address\<close>

text \<open>
  \<open>booksrc/ch14/param_passing/pthreads1_wrong.c\<close>: every thread gets the address of the variable of the loop. \<open>main\<close> alternates
  between creating a thread and counting; a thread reads the variable at some time after it has been created.
\<close>

definition NTHREADS_W :: nat where "NTHREADS_W = 3"

record wrong =
  loop_i :: nat
  created :: nat
  seen :: "(nat \<times> nat) list"

datatype wrong_event = Main_Next | Worker_Reads nat

fun wrong_step :: "wrong_event \<Rightarrow> wrong \<Rightarrow> wrong" where
  "wrong_step Main_Next st =
     (if created st = loop_i st then (if loop_i st < NTHREADS_W then st\<lparr>created := created st + 1\<rparr> else st)
      else st\<lparr>loop_i := loop_i st + 1\<rparr>)"
| "wrong_step (Worker_Reads k) st =
     (if k < created st \<and> k \<notin> fst ` set (seen st) then st\<lparr>seen := seen st @ [(k, loop_i st)]\<rparr> else st)"

definition wrong_main :: "wrong_event list \<Rightarrow> wrong" where
  "wrong_main evs = fold wrong_step evs \<lparr>loop_i = 0, created = 0, seen = []\<rparr>"

definition wrong_inv :: "wrong \<Rightarrow> bool" where
  "wrong_inv st \<longleftrightarrow>
     loop_i st \<le> created st \<and> created st \<le> loop_i st + 1 \<and> created st \<le> NTHREADS_W \<and>
     (\<forall>(k, v) \<in> set (seen st). k \<le> v \<and> v \<le> NTHREADS_W) \<and> distinct (map fst (seen st))"

lemma wrong_inv_step: "wrong_inv st \<Longrightarrow> wrong_inv (wrong_step ev st)"
  by (cases ev) (auto simp: wrong_inv_def)

lemma wrong_inv_fold: "wrong_inv st \<Longrightarrow> wrong_inv (fold wrong_step evs st)"
  by (induction evs arbitrary: st) (simp_all add: wrong_inv_step)

text \<open>A thread sees its own number or a greater one, and possibly every thread the last one.\<close>

lemma wrong_values:
  "(k, v) \<in> set (seen (wrong_main evs)) \<Longrightarrow> k \<le> v \<and> v \<le> NTHREADS_W"
  using wrong_inv_fold [of "\<lparr>loop_i = 0, created = 0, seen = []\<rparr>" evs] by (auto simp: wrong_inv_def wrong_main_def)

lemma wrong_all_same:
  "seen (wrong_main (replicate 6 Main_Next @ map Worker_Reads [0, 1, 2])) = [(0, 3), (1, 3), (2, 3)]"
  by code_simp

end
