(* ===== verification/Thread_Exit.thy ===== *)
theory Thread_Exit
  imports Primes Advanced_IO
begin

text \<open>
  The first programs with threads of chapter 14: \<open>pthreads1.c\<close>, \<open>pthreads2.c\<close>, \<open>pthreads3.c\<close>, \<open>cr8_so_many_threads.c\<close>,
  \<open>see_tid.c\<close> of the solutions and \<open>pthread_test.c\<close>. In each, \<open>main\<close> creates its threads in a loop and leaves, by \<open>exit\<close>, which
  ends the process with all of its threads, or by \<open>pthread_exit\<close>, after which the process lasts as long as its last thread.
\<close>

section \<open>A process and its threads\<close>

text \<open>
  A worker is the list of what it does: it prints a line, sleeps for some seconds, pauses, or leaves by \<open>pthread_exit\<close> or by
  returning. No program here installs a
  signal handler, so that \<open>pause\<close> does not return.
\<close>

datatype tact = Tells string | Naps nat | Halts | Leaves

text \<open>Where \<open>main\<close> is: about to create thread \<open>i\<close> (or, after the last, to leave), joining thread \<open>i\<close>, gone by \<open>pthread_exit\<close>.\<close>

datatype mstage = Creating nat | Joining nat | Gone

datatype farewell = By_Exit int | By_Pthread_Exit

record threads_prog =
  tp_count :: nat
  tp_worker :: "nat \<Rightarrow> tact list"
  tp_joins :: bool
  tp_farewell :: farewell

text \<open>\<open>tp_todo\<close> is what each thread created so far still has to do, \<open>tp_status\<close> the exit status once the process has ended.\<close>

record thread_proc =
  tp_stage :: mstage
  tp_todo :: "tact list list"
  tp_said :: "(nat \<times> string) list"
  tp_status :: "int option"

definition proc_start :: thread_proc where
  "proc_start = \<lparr>tp_stage = Creating 0, tp_todo = [], tp_said = [], tp_status = None\<rparr>"

text \<open>When \<open>main\<close> is gone the end of the last thread ends the process, with status 0.\<close>

definition settle :: "thread_proc \<Rightarrow> thread_proc" where
  "settle s = (if tp_stage s = Gone \<and> list_all (\<lambda>as. as = []) (tp_todo s) then s\<lparr>tp_status := Some 0\<rparr> else s)"

text \<open>
  A step of \<open>main\<close> with the result \<open>ret\<close> of the call it makes; \<open>None\<close> when it has to wait. A failed call is fatal.
\<close>

definition main_goes :: "threads_prog \<Rightarrow> int \<Rightarrow> thread_proc \<Rightarrow> thread_proc option" where
  "main_goes p ret s =
     (case tp_stage s of
        Creating i \<Rightarrow>
          if i < tp_count p then
            if ret \<noteq> 0 then Some (s\<lparr>tp_status := Some EXIT_FAILURE\<rparr>)
            else Some (s\<lparr>tp_todo := tp_todo s @ [tp_worker p i],
                         tp_stage := if tp_joins p then Joining i else Creating (Suc i)\<rparr>)
          else (case tp_farewell p of
                  By_Exit n \<Rightarrow> Some (s\<lparr>tp_status := Some n\<rparr>)
                | By_Pthread_Exit \<Rightarrow> Some (settle (s\<lparr>tp_stage := Gone\<rparr>)))
      | Joining i \<Rightarrow>
          if ret \<noteq> 0 then Some (s\<lparr>tp_status := Some EXIT_FAILURE\<rparr>)
          else if tp_todo s ! i = [] then Some (s\<lparr>tp_stage := Creating (Suc i)\<rparr>)
          else None
      | Gone \<Rightarrow> None)"

definition thread_goes :: "nat \<Rightarrow> thread_proc \<Rightarrow> thread_proc option" where
  "thread_goes i s =
     (if i < length (tp_todo s) then
        (case tp_todo s ! i of
           Tells l # as \<Rightarrow> Some (settle (s\<lparr>tp_todo := (tp_todo s)[i := as], tp_said := tp_said s @ [(i, l)]\<rparr>))
         | Naps n # as \<Rightarrow> Some (settle (s\<lparr>tp_todo := (tp_todo s)[i := as]\<rparr>))
         | Leaves # as \<Rightarrow> Some (settle (s\<lparr>tp_todo := (tp_todo s)[i := []]\<rparr>))
         | _ \<Rightarrow> None)
      else None)"

datatype tevent = Main_Goes int | Thread_Goes nat

fun proc_event :: "threads_prog \<Rightarrow> tevent \<Rightarrow> thread_proc \<Rightarrow> thread_proc option" where
  "proc_event p (Main_Goes ret) s = (if tp_status s = None then main_goes p ret s else None)"
| "proc_event p (Thread_Goes i) s = (if tp_status s = None then thread_goes i s else None)"

fun proc_run :: "threads_prog \<Rightarrow> tevent list \<Rightarrow> thread_proc \<Rightarrow> thread_proc option" where
  "proc_run p [] s = Some s"
| "proc_run p (ev # evs) s = (case proc_event p ev s of None \<Rightarrow> None | Some s' \<Rightarrow> proc_run p evs s')"

section \<open>The programs\<close>

definition NTHREADS :: nat where "NTHREADS = 3"

definition hello_line :: "nat \<Rightarrow> string" where
  "hello_line i = ''Worker thread #'' @ show_nat i @ '' says: hello, world.'' @ [LF]"

definition running_line :: "nat \<Rightarrow> string" where
  "running_line i = ''Worker thread #'' @ show_nat i @ '' running ...'' @ [LF]"

definition done_line :: "nat \<Rightarrow> string" where
  "done_line i = ''#'' @ show_nat i @ '': work done, exiting now'' @ [LF]"

definition hello_worker :: "nat \<Rightarrow> tact list" where
  "hello_worker i = [Tells (hello_line i), Tells ('' '' @ done_line i), Leaves]"

definition running_worker :: "nat \<Rightarrow> tact list" where
  "running_worker i = [Tells (running_line i), Tells (done_line i), Leaves]"

definition sleeping_worker :: "nat \<Rightarrow> tact list" where
  "sleeping_worker i = [Tells (running_line i), Naps 30, Tells (done_line i), Leaves]"

definition pthreads1 :: threads_prog where
  "pthreads1 = \<lparr>tp_count = NTHREADS, tp_worker = hello_worker, tp_joins = False, tp_farewell = By_Exit EXIT_SUCCESS\<rparr>"

definition pthreads2 :: threads_prog where
  "pthreads2 = \<lparr>tp_count = NTHREADS, tp_worker = running_worker, tp_joins = False, tp_farewell = By_Pthread_Exit\<rparr>"

definition pthreads3 :: threads_prog where
  "pthreads3 = \<lparr>tp_count = NTHREADS, tp_worker = sleeping_worker, tp_joins = False, tp_farewell = By_Pthread_Exit\<rparr>"

text \<open>Both programs that take the number of threads as their argument refuse any that is not positive.\<close>

definition many_threads :: "(nat \<Rightarrow> tact list) \<Rightarrow> string list \<Rightarrow> threads_prog outcome" where
  "many_threads work argv =
     (if length argv \<noteq> 2 then Exit EXIT_FAILURE
      else
        let numthrds = atol (argv ! 1) in
        if numthrds \<le> 0 then Exit EXIT_FAILURE
        else Value \<lparr>tp_count = nat numthrds, tp_worker = work, tp_joins = False, tp_farewell = By_Pthread_Exit\<rparr>)"

definition pausing_worker :: "nat \<Rightarrow> tact list" where
  "pausing_worker i =
     [Tells (''Worker thread #'' @ pad 5 (show_nat i) @ '': pausing now...'' @ [LF]), Halts,
      Tells ('' #'' @ pad 5 (show_nat i) @ '': work done, exiting now'' @ [LF]), Leaves]"

definition cr8_main :: "string list \<Rightarrow> threads_prog outcome" where
  "cr8_main argv = many_threads pausing_worker argv"

text \<open>\<open>see_tid.c\<close> shows the process id and, by \<open>syscall\<close>, the thread id.\<close>

definition see_tid_worker :: "int \<Rightarrow> (nat \<Rightarrow> int) \<Rightarrow> nat \<Rightarrow> tact list" where
  "see_tid_worker pid gettid i =
     [Tells (''Worker thread #'' @ pad 5 (show_nat i) @ '' [PID '' @ show_int pid @ '' * TID '' @ show_int (gettid i) @
             '' *]: pausing now...'' @ [LF]), Halts,
      Tells ('' '' @ done_line i), Leaves]"

definition see_tid_main :: "int \<Rightarrow> (nat \<Rightarrow> int) \<Rightarrow> string list \<Rightarrow> threads_prog outcome" where
  "see_tid_main pid gettid argv = many_threads (see_tid_worker pid gettid) argv"

text \<open>\<open>pthread_test.c\<close> joins each thread before it creates the next one.\<close>

definition NTHREADS_TEST :: nat where "NTHREADS_TEST = 60000"

definition do_nothing :: "nat \<Rightarrow> tact list" where
  "do_nothing i = [Leaves]"

definition pthread_test :: threads_prog where
  "pthread_test =
     \<lparr>tp_count = NTHREADS_TEST, tp_worker = do_nothing, tp_joins = True, tp_farewell = By_Pthread_Exit\<rparr>"

section \<open>Where main can get to\<close>

text \<open>The stages are in the order in which \<open>main\<close> passes them.\<close>

fun stage_rank :: "mstage \<Rightarrow> nat option" where
  "stage_rank (Creating i) = Some (2 * i)"
| "stage_rank (Joining i) = Some (2 * i + 1)"
| "stage_rank Gone = None"

lemma stage_rank_inj: "stage_rank a = stage_rank b \<Longrightarrow> a = b"
  by (cases a; cases b; simp; presburger)

instantiation mstage :: linorder
begin

definition less_eq_mstage :: "mstage \<Rightarrow> mstage \<Rightarrow> bool" where
  "a \<le> b \<longleftrightarrow> (case (stage_rank a, stage_rank b) of (_, None) \<Rightarrow> True | (None, _) \<Rightarrow> False | (Some m, Some n) \<Rightarrow> m \<le> n)"

definition less_mstage :: "mstage \<Rightarrow> mstage \<Rightarrow> bool" where
  "a < b \<longleftrightarrow> a \<le> b \<and> \<not> b \<le> (a :: mstage)"

instance
proof
  fix a b c :: mstage
  show "a < b \<longleftrightarrow> a \<le> b \<and> \<not> b \<le> a" by (simp add: less_mstage_def)
  show "a \<le> a" by (simp add: less_eq_mstage_def split: option.split)
  show "a \<le> b \<Longrightarrow> b \<le> c \<Longrightarrow> a \<le> c" by (auto simp: less_eq_mstage_def split: option.splits)
  show "a \<le> b \<Longrightarrow> b \<le> a \<Longrightarrow> a = b"
    by (rule stage_rank_inj) (auto simp: less_eq_mstage_def split: option.splits)
  show "a \<le> b \<or> b \<le> a" by (auto simp: less_eq_mstage_def split: option.split)
qed

end

lemma stage_le [simp]:
  "Creating i \<le> Creating j \<longleftrightarrow> i \<le> j" "Creating i \<le> Joining j \<longleftrightarrow> i \<le> j" "Joining i \<le> Creating j \<longleftrightarrow> i < j"
  "a \<le> Gone"
  by (auto simp: less_eq_mstage_def split: option.split)

fun_cases proc_eventE: "proc_event p ev s = Some s'"

lemma settle_simps [simp]:
  "tp_stage (settle s) = tp_stage s" "tp_todo (settle s) = tp_todo s" "tp_said (settle s) = tp_said s"
  by (simp_all add: settle_def)

lemmas goes_defs = main_goes_def thread_goes_def

lemma event_stage_up: "proc_event p ev s = Some s' \<Longrightarrow> tp_stage s \<le> tp_stage s'"
  by (erule proc_eventE)
    (auto simp: goes_defs split: mstage.splits farewell.splits if_splits list.splits tact.splits)

lemma run_stage_up: "proc_run p evs s = Some s' \<Longrightarrow> tp_stage s \<le> tp_stage s'"
  by (induction evs arbitrary: s) (auto split: option.splits dest: event_stage_up order_trans)

section \<open>What the threads have said\<close>

text \<open>The lines that a thread with this left to do gets to say.\<close>

fun told :: "tact list \<Rightarrow> string list" where
  "told [] = []"
| "told (Tells l # as) = l # told as"
| "told (Naps n # as) = told as"
| "told (Halts # as) = []"
| "told (Leaves # as) = []"

definition said_by :: "nat \<Rightarrow> thread_proc \<Rightarrow> string list" where
  "said_by i s = map snd (filter (\<lambda>x. fst x = i) (tp_said s))"

fun created :: "threads_prog \<Rightarrow> mstage \<Rightarrow> nat" where
  "created p (Creating i) = i"
| "created p (Joining i) = Suc i"
| "created p Gone = tp_count p"

fun joined_up_to :: "threads_prog \<Rightarrow> mstage \<Rightarrow> nat" where
  "joined_up_to p (Creating i) = i"
| "joined_up_to p (Joining i) = i"
| "joined_up_to p Gone = tp_count p"

text \<open>
  The invariant: the threads created are those that \<open>main\<close> has come past; what each has said and
  what it is still to say are its lines;
  where \<open>main\<close> joins, the threads before the present one are over.
\<close>

definition proc_inv :: "threads_prog \<Rightarrow> thread_proc \<Rightarrow> bool" where
  "proc_inv p s \<longleftrightarrow>
     length (tp_todo s) = created p (tp_stage s) \<and> created p (tp_stage s) \<le> tp_count p \<and>
     (\<forall>i < length (tp_todo s). said_by i s @ told (tp_todo s ! i) = told (tp_worker p i) \<and>
        set (tp_todo s ! i) \<subseteq> set (tp_worker p i)) \<and>
     (\<forall>x \<in> set (tp_said s). fst x < length (tp_todo s)) \<and>
     (tp_joins p \<longrightarrow> (\<forall>i < joined_up_to p (tp_stage s). tp_todo s ! i = []))"

lemma proc_inv_settle [simp]: "proc_inv p (settle s) \<longleftrightarrow> proc_inv p s"
  by (simp add: proc_inv_def said_by_def)

lemma proc_inv_status [simp]: "proc_inv p (s\<lparr>tp_status := st\<rparr>) \<longleftrightarrow> proc_inv p s"
  by (simp add: proc_inv_def said_by_def)

lemma said_by_none: "\<forall>x \<in> set (tp_said s). fst x < n \<Longrightarrow> n \<le> i \<Longrightarrow> said_by i s = []"
  by (force simp: said_by_def filter_empty_conv)

lemma inv_create:
  assumes "proc_inv p s" and "tp_stage s = Creating i" and "i < tp_count p" and "st = Joining i \<or> st = Creating (Suc i) \<and> \<not> tp_joins p"
  shows "proc_inv p (s\<lparr>tp_todo := tp_todo s @ [tp_worker p i], tp_stage := st\<rparr>)"
proof -
  have l: "length (tp_todo s) = i" using assms(1,2) by (simp add: proc_inv_def)
  have "said_by i s = []" using assms(1) l by (intro said_by_none [of _ i]) (auto simp: proc_inv_def)
  then show ?thesis using assms l by (auto simp: proc_inv_def said_by_def nth_append less_Suc_eq)
qed

lemma inv_thread:
  assumes "proc_inv p s" and "i < length (tp_todo s)" and "tp_todo s ! i = as"
    and "told as = ls @ told bs" and "set bs \<subseteq> set as" and "as \<noteq> []" and "sd = tp_said s @ map (Pair i) ls"
  shows "proc_inv p (s\<lparr>tp_todo := (tp_todo s)[i := bs], tp_said := sd\<rparr>)"
proof -
  let ?s = "s\<lparr>tp_todo := (tp_todo s)[i := bs], tp_said := sd\<rparr>"
  have old: "said_by j s @ told (tp_todo s ! j) = told (tp_worker p j)" "set (tp_todo s ! j) \<subseteq> set (tp_worker p j)"
    if "j < length (tp_todo s)" for j
    using assms(1) that by (simp_all add: proc_inv_def)
  have "said_by j ?s @ told (tp_todo ?s ! j) = told (tp_worker p j) \<and> set (tp_todo ?s ! j) \<subseteq> set (tp_worker p j)"
    if "j < length (tp_todo s)" for j
    using old [OF that] assms(2-5,7) by (cases "j = i") (auto simp: said_by_def filter_map o_def)
  moreover have "tp_todo ?s ! j = []" if "tp_todo s ! j = []" for j
    using that assms(3,6) by (cases "j = i") auto
  ultimately show ?thesis using assms(1,2,7) by (auto simp: proc_inv_def)
qed

lemma inv_event:
  assumes "proc_inv p s" and "proc_event p ev s = Some s'"
  shows "proc_inv p s'"
proof (cases ev)
  case (Main_Goes ret)
  then have g: "main_goes p ret s = Some s'" using assms(2) by (simp split: if_splits)
  show ?thesis
  proof (cases "tp_stage s")
    case (Creating i)
    then have "proc_inv p (s\<lparr>tp_stage := Gone\<rparr>)" if "\<not> i < tp_count p"
      using assms(1) that by (auto simp: proc_inv_def said_by_def)
    then show ?thesis using g Creating assms(1) inv_create [OF assms(1) Creating]
      by (auto simp: main_goes_def split: if_splits farewell.splits)
  next
    case (Joining i)
    have "proc_inv p (s\<lparr>tp_stage := Creating (Suc i)\<rparr>)" if "tp_todo s ! i = []"
      using assms(1) that Joining unfolding proc_inv_def said_by_def by (simp add: less_Suc_eq) force
    then show ?thesis using g assms(1) Joining by (auto simp: main_goes_def split: if_splits)
  qed (use g in \<open>simp add: main_goes_def\<close>)
next
  case (Thread_Goes i)
  then have g: "thread_goes i s = Some s'" using assms(2) by (simp split: if_splits)
  have silent: "proc_inv p (s\<lparr>tp_todo := (tp_todo s)[i := bs]\<rparr>)"
    if "i < length (tp_todo s)" "told (tp_todo s ! i) = told bs" "set bs \<subseteq> set (tp_todo s ! i)" "tp_todo s ! i \<noteq> []" for bs
    using inv_thread [OF assms(1) that(1) refl, of "[]" bs, OF _ that(3,4) refl] that(2) by simp
  have speaks: "proc_inv p (s\<lparr>tp_todo := (tp_todo s)[i := bs], tp_said := tp_said s @ [(i, l)]\<rparr>)"
    if "i < length (tp_todo s)" "tp_todo s ! i = Tells l # bs" for l bs
    using inv_thread [OF assms(1) that(1,2), of "[l]" bs] by auto
  show ?thesis using g
    by (auto simp: thread_goes_def split: if_splits list.splits tact.splits intro!: silent speaks)
qed

lemma inv_run: "proc_inv p s \<Longrightarrow> proc_run p evs s = Some s' \<Longrightarrow> proc_inv p s'"
  by (induction evs arbitrary: s) (auto split: option.splits dest: inv_event)

lemma inv_start: "proc_inv p proc_start"
  by (simp add: proc_inv_def proc_start_def)

section \<open>Every run ends\<close>

text \<open>What is left to do at most, until the process ends.\<close>

fun stage_left :: "threads_prog \<Rightarrow> mstage \<Rightarrow> nat" where
  "stage_left p (Creating i) = 2 * (tp_count p - i) + 1"
| "stage_left p (Joining i) = 2 * (tp_count p - i)"
| "stage_left p Gone = 0"

definition steps_left :: "threads_prog \<Rightarrow> thread_proc \<Rightarrow> nat" where
  "steps_left p s =
     stage_left p (tp_stage s) + sum_list (map length (tp_todo s)) +
     sum_list (map (\<lambda>i. length (tp_worker p i)) [length (tp_todo s)..<tp_count p]) + (if tp_status s = None then 1 else 0)"

lemma created_mono: "a \<le> b \<Longrightarrow> created p a \<le> tp_count p \<Longrightarrow> created p a \<le> created p b"
  by (cases a; cases b) (auto simp: less_eq_mstage_def)

text \<open>As \<open>main\<close> never goes back, a thread that has been created stays one of the process.\<close>

lemma threads_stay:
  assumes "proc_inv p s" and "proc_run p evs s = Some s'"
  shows "length (tp_todo s) \<le> length (tp_todo s')"
  using created_mono [OF run_stage_up [OF assms(2)]] assms(1) inv_run [OF assms] by (simp add: proc_inv_def)

lemma steps_left_settle: "steps_left p (settle s) \<le> steps_left p s"
  by (simp add: steps_left_def settle_def)

lemma steps_left_create:
  assumes "length (tp_todo s) = i" and "i < tp_count p" and "tp_stage s = Creating i" and "st = Joining i \<or> st = Creating (Suc i)"
  shows "steps_left p (s\<lparr>tp_todo := tp_todo s @ [tp_worker p i], tp_stage := st\<rparr>) < steps_left p s"
  using assms by (auto simp: steps_left_def upt_conv_Cons [of i])

lemma steps_left_thread:
  assumes "i < length (tp_todo s)" and "tp_todo s ! i = a # as" and "tp_todo s' = (tp_todo s)[i := bs]" and "length bs \<le> length as"
    and "tp_stage s' = tp_stage s" and "tp_status s = None"
  shows "steps_left p s' < steps_left p s"
proof -
  have "sum_list (map length (tp_todo s')) = sum_list (map length (tp_todo s)) + length bs - length (a # as)"
    using assms by (simp add: map_update sum_list_update)
  moreover have "length (a # as) \<le> sum_list (map length (tp_todo s))"
    using assms(1,2) by (metis elem_le_sum_list length_map nth_map)
  ultimately show ?thesis using assms by (auto simp: steps_left_def)
qed

lemma steps_left_event:
  assumes "proc_inv p s" and "proc_event p ev s = Some s'"
  shows "steps_left p s' < steps_left p s"
proof (cases ev)
  case (Main_Goes ret)
  then have g: "main_goes p ret s = Some s'" and n: "tp_status s = None" using assms(2) by (simp_all split: if_splits)
  show ?thesis
  proof (cases "tp_stage s")
    case (Creating i)
    then have l: "length (tp_todo s) = i" using assms(1) by (simp add: proc_inv_def)
    have e: "steps_left p (s\<lparr>tp_status := Some k\<rparr>) < steps_left p s" for k
      using n by (simp add: steps_left_def)
    have "steps_left p (settle (s\<lparr>tp_stage := Gone\<rparr>)) < steps_left p s"
      using Creating by (intro le_less_trans [OF steps_left_settle]) (simp add: steps_left_def)
    then show ?thesis using g Creating e steps_left_create [OF l]
      by (auto simp: main_goes_def split: if_splits farewell.splits)
  next
    case (Joining i)
    then have "Suc i \<le> tp_count p" using assms(1) by (simp add: proc_inv_def)
    then show ?thesis using g Joining n by (auto simp: main_goes_def steps_left_def split: if_splits)
  qed (use g in \<open>simp add: main_goes_def\<close>)
next
  case (Thread_Goes i)
  then have g: "thread_goes i s = Some s'" and n: "tp_status s = None" using assms(2) by (simp_all split: if_splits)
  show ?thesis
  proof (cases "tp_todo s ! i")
    case (Cons a as)
    then show ?thesis using g n
      by (cases a) (auto simp: thread_goes_def split: if_splits
          intro!: le_less_trans [OF steps_left_settle] steps_left_thread [OF _ Cons])
  qed (use g in \<open>simp add: thread_goes_def split: if_splits\<close>)
qed

lemma run_bounded:
  "proc_inv p s \<Longrightarrow> proc_run p evs s = Some s' \<Longrightarrow> length evs + steps_left p s' \<le> steps_left p s"
proof (induction evs arbitrary: s)
  case (Cons ev evs)
  then obtain s1 where "proc_event p ev s = Some s1" and "proc_run p evs s1 = Some s'" by (auto split: option.splits)
  then show ?case using Cons inv_event [of p s ev s1] steps_left_event [of p s ev s1] by fastforce
qed simp

section \<open>How the process ends\<close>

fun call_ok :: "tevent \<Rightarrow> bool" where
  "call_ok (Main_Goes ret) \<longleftrightarrow> ret = 0"
| "call_ok (Thread_Goes i) \<longleftrightarrow> True"

definition all_over :: "thread_proc \<Rightarrow> bool" where
  "all_over s \<longleftrightarrow> tp_stage s = Gone \<and> list_all (\<lambda>as. as = []) (tp_todo s)"

text \<open>A program that leaves by \<open>pthread_exit\<close> and whose calls succeed has ended exactly when all of its threads have.\<close>

definition end_inv :: "thread_proc \<Rightarrow> bool" where
  "end_inv s \<longleftrightarrow> tp_status s = (if all_over s then Some 0 else None)"

lemma settle_end: "tp_status s = None \<Longrightarrow> end_inv (settle s)"
  by (simp add: end_inv_def all_over_def settle_def)

lemma end_inv_event:
  assumes "tp_farewell p = By_Pthread_Exit" and "end_inv s" and "proc_event p ev s = Some s'" and "call_ok ev"
  shows "end_inv s'"
proof (cases ev)
  case (Main_Goes ret)
  then have g: "main_goes p 0 s = Some s'" and n: "tp_status s = None" using assms(3,4) by (simp_all split: if_splits)
  have e: "end_inv (s\<lparr>tp_todo := td, tp_stage := st\<rparr>)" "end_inv (s\<lparr>tp_stage := st\<rparr>)" if "st \<noteq> Gone" for td st
    using that n by (simp_all add: end_inv_def all_over_def)
  show ?thesis using g n assms(1) e settle_end
    by (auto simp: main_goes_def split: mstage.splits if_splits)
next
  case (Thread_Goes i)
  then have g: "thread_goes i s = Some s'" and n: "tp_status s = None" using assms(3) by (simp_all split: if_splits)
  then show ?thesis
    by (auto simp: thread_goes_def split: if_splits list.splits tact.splits intro!: settle_end)
qed

lemma end_inv_run:
  "tp_farewell p = By_Pthread_Exit \<Longrightarrow> end_inv s \<Longrightarrow> proc_run p evs s = Some s' \<Longrightarrow> list_all call_ok evs \<Longrightarrow> end_inv s'"
  by (induction evs arbitrary: s) (auto split: option.splits dest: end_inv_event)

lemma end_inv_start: "end_inv proc_start"
  by (simp add: end_inv_def all_over_def proc_start_def)

lemma thread_can_go:
  assumes "proc_inv p s" and "i < length (tp_todo s)" and "tp_todo s ! i \<noteq> []" and "Halts \<notin> set (tp_worker p i)"
  shows "thread_goes i s \<noteq> None"
proof -
  have "Halts \<notin> set (tp_todo s ! i)" using assms(1,2,4) by (auto simp: proc_inv_def)
  then show ?thesis using assms(2,3) by (auto simp: thread_goes_def split: list.splits tact.splits)
qed

text \<open>No process is stuck before its end, when no thread pauses.\<close>

lemma not_stuck:
  assumes "proc_inv p s" and "tp_status s = None" and "end_inv s" and "\<forall>i < tp_count p. Halts \<notin> set (tp_worker p i)"
  shows "\<exists>ev s'. call_ok ev \<and> proc_event p ev s = Some s'"
proof (cases "\<exists>i < length (tp_todo s). tp_todo s ! i \<noteq> []")
  case True
  then obtain i where i: "i < length (tp_todo s)" "tp_todo s ! i \<noteq> []" by blast
  then have "i < tp_count p" using assms(1) by (simp add: proc_inv_def)
  then have "proc_event p (Thread_Goes i) s \<noteq> None" using thread_can_go [OF assms(1) i] assms(2,4) by simp
  then show ?thesis by (metis call_ok.simps(2) not_Some_eq)
next
  case False
  then have "tp_stage s \<noteq> Gone" using assms(2,3) by (auto simp: end_inv_def all_over_def list_all_length)
  then have "proc_event p (Main_Goes 0) s \<noteq> None"
    using False assms(1,2) by (auto simp: main_goes_def proc_inv_def split: mstage.splits farewell.splits)
  then show ?thesis by (metis call_ok.simps(1) not_Some_eq)
qed

lemma pthread_exit_waits:
  assumes "tp_farewell p = By_Pthread_Exit" and "\<forall>i < tp_count p. Halts \<notin> set (tp_worker p i)"
    and "proc_run p evs proc_start = Some s" and "list_all call_ok evs"
  shows "(\<exists>ev s'. call_ok ev \<and> proc_event p ev s = Some s') \<or>
         tp_status s = Some 0 \<and> (\<forall>i < tp_count p. said_by i s = told (tp_worker p i))"
proof -
  note inv = inv_run [OF inv_start assms(3)]
  note ends = end_inv_run [OF assms(1) end_inv_start assms(3,4)]
  show ?thesis
  proof (cases "tp_status s")
    case None
    then show ?thesis using not_stuck [OF inv None ends assms(2)] by blast
  next
    case (Some n)
    then have o: "all_over s" and "tp_status s = Some 0" using ends by (auto simp: end_inv_def split: if_splits)
    moreover have "said_by i s = told (tp_worker p i)" if "i < tp_count p" for i
    proof -
      have l: "i < length (tp_todo s)" using that o inv by (simp add: proc_inv_def all_over_def)
      then have "tp_todo s ! i = []" using o by (simp add: all_over_def list_all_length)
      moreover have "said_by i s @ told (tp_todo s ! i) = told (tp_worker p i)" using inv l by (simp add: proc_inv_def)
      ultimately show ?thesis by simp
    qed
    ultimately show ?thesis by simp
  qed
qed

lemma run_length: "proc_run p evs proc_start = Some s \<Longrightarrow> length evs \<le> steps_left p proc_start"
  using run_bounded [OF inv_start] by fastforce

lemmas thread_programs =
  pthreads1_def pthreads2_def pthreads3_def hello_worker_def running_worker_def sleeping_worker_def NTHREADS_def

text \<open>
  C40: When \<open>main\<close> leaves by \<open>pthread_exit\<close> no line is lost (\<open>pthreads2.c\<close>, \<open>pthreads3.c\<close>): as long as creating the threads succeeds,
  a run has at most 20 steps, it can go on until the process has ended with status 0, and then each of the three threads has
  printed both of its lines, whatever the schedule.
\<close>

theorem pthread_exit_prints_all:
  assumes "p \<in> {pthreads2, pthreads3}" and "proc_run p evs proc_start = Some s" and "list_all call_ok evs"
  shows "length evs \<le> 20 \<and>
         ((\<exists>ev s'. call_ok ev \<and> proc_event p ev s = Some s') \<or>
          tp_status s = Some 0 \<and> (\<forall>i < NTHREADS. said_by i s = [running_line i, done_line i]))"
proof -
  have "steps_left p proc_start \<le> 20"
    using assms(1) by (auto simp: steps_left_def proc_start_def thread_programs upt_rec)
  moreover have "tp_farewell p = By_Pthread_Exit" "tp_count p = NTHREADS" "\<forall>i < tp_count p. Halts \<notin> set (tp_worker p i)"
    "\<And>i. told (tp_worker p i) = [running_line i, done_line i]"
    using assms(1) by (auto simp: thread_programs)
  ultimately show ?thesis
    using run_length [OF assms(2)] pthread_exit_waits [OF _ _ assms(2,3)] by (metis order_trans)
qed

theorem pthread_exit_prints_all_witness:
  "\<exists>s. proc_run pthreads2 (replicate 4 (Main_Goes 0) @ concat (map (\<lambda>i. replicate 3 (Thread_Goes i)) [2, 0, 1])) proc_start = Some s \<and>
     said_by 1 s = [running_line 1, done_line 1]"
proof -
  define evs where "evs = replicate 4 (Main_Goes 0) @ concat (map (\<lambda>i. replicate 3 (Thread_Goes i)) [2, 0, 1])"
  have "proc_run pthreads2 evs proc_start \<noteq> None" and over: "map_option tp_status (proc_run pthreads2 evs proc_start) = Some (Some 0)"
    by (simp_all add: evs_def proc_start_def thread_programs main_goes_def thread_goes_def settle_def numeral_eq_Suc)
  then obtain s where s: "proc_run pthreads2 evs proc_start = Some s" by blast
  have "list_all call_ok evs" by (simp add: evs_def numeral_eq_Suc)
  from pthread_exit_prints_all [OF insertI1 s this] have "said_by 1 s = [running_line 1, done_line 1]"
  proof (elim conjE disjE exE)
    fix ev s' assume "proc_event pthreads2 ev s = Some s'"
    moreover have "tp_status s = Some 0" using over s by simp
    ultimately show ?thesis by (cases ev) simp_all
  qed (simp_all add: NTHREADS_def)
  then show ?thesis using s by (auto simp: evs_def)
qed

section \<open>Leaving by exit\<close>

lemma proc_run_append:
  "proc_run p (evs @ evs') s = (case proc_run p evs s of None \<Rightarrow> None | Some s' \<Rightarrow> proc_run p evs' s')"
  by (induction evs arbitrary: s) (simp_all split: option.split)

text \<open>A thread says some of its lines while \<open>main\<close> is still there.\<close>

lemma thread_speaks:
  assumes "i < length (tp_todo s)" and "tp_todo s ! i = map Tells ls @ as" and "tp_stage s \<noteq> Gone" and "tp_status s = None"
  shows "proc_run p (replicate (length ls) (Thread_Goes i)) s =
           Some (s\<lparr>tp_todo := (tp_todo s)[i := as], tp_said := tp_said s @ map (Pair i) ls\<rparr>)"
  using assms
proof (induction ls arbitrary: s)
  case Nil
  then have "(tp_todo s)[i := as] = tp_todo s" by (metis append_Nil list.map(1) list_update_id)
  then show ?case by simp
next
  case (Cons l ls)
  let ?s = "s\<lparr>tp_todo := (tp_todo s)[i := map Tells ls @ as], tp_said := tp_said s @ [(i, l)]\<rparr>"
  have "thread_goes i s = Some ?s" using Cons.prems by (simp add: thread_goes_def settle_def)
  then show ?case using Cons.prems Cons.IH [of ?s] by simp
qed

text \<open>Each of some threads says as many of its lines as we like, one thread after the other.\<close>

lemma threads_speak:
  assumes "distinct is" and "\<forall>i \<in> set is. i < length (tp_todo s) \<and> tp_todo s ! i = map Tells (ls i) @ as i"
    and "tp_stage s \<noteq> Gone" and "tp_status s = None" and "\<forall>i \<in> set is. said_by i s = []"
  shows "\<exists>evs s'. proc_run p evs s = Some s' \<and> tp_stage s' = tp_stage s \<and> tp_status s' = None \<and>
           (\<forall>i. said_by i s' = (if i \<in> set is then ls i else said_by i s))"
  using assms
proof (induction "is" arbitrary: s)
  case Nil
  show ?case by (rule exI [of _ "[]"]) (use Nil in simp)
next
  case (Cons i "is")
  let ?s = "s\<lparr>tp_todo := (tp_todo s)[i := as i], tp_said := tp_said s @ map (Pair i) (ls i)\<rparr>"
  have r: "proc_run p (replicate (length (ls i)) (Thread_Goes i)) s = Some ?s"
    using Cons.prems by (intro thread_speaks) auto
  have b: "said_by j ?s = (if j = i then said_by i s @ ls i else said_by j s)" for j
    by (simp add: said_by_def filter_map o_def)
  have "\<exists>evs s'. proc_run p evs ?s = Some s' \<and> tp_stage s' = tp_stage ?s \<and> tp_status s' = None \<and>
           (\<forall>j. said_by j s' = (if j \<in> set is then ls j else said_by j ?s))"
  proof (rule Cons.IH)
    show "\<forall>j \<in> set is. j < length (tp_todo ?s) \<and> tp_todo ?s ! j = map Tells (ls j) @ as j"
      using Cons.prems(1,2) by (auto simp: nth_list_update)
    show "\<forall>j \<in> set is. said_by j ?s = []" unfolding b using Cons.prems(1,5) by auto
  qed (use Cons.prems in simp_all)
  then obtain evs s' where e: "proc_run p evs ?s = Some s'" "tp_stage s' = tp_stage s" "tp_status s' = None"
    "\<And>j. said_by j s' = (if j \<in> set is then ls j else said_by j ?s)" by auto
  show ?case
    by (rule exI [of _ "replicate (length (ls i)) (Thread_Goes i) @ evs"])
      (use r e b Cons.prems in \<open>auto simp: proc_run_append\<close>)
qed

lemma exit_inv:
  assumes "proc_run pthreads1 evs proc_start = Some s" and "i < NTHREADS"
  shows "\<exists>k. said_by i s = take k (told (hello_worker i))"
proof (cases "i < length (tp_todo s)")
  case True
  then have "said_by i s @ told (tp_todo s ! i) = told (hello_worker i)"
    using inv_run [OF inv_start assms(1)] by (simp add: proc_inv_def pthreads1_def)
  then show ?thesis by (metis append_eq_conv_conj)
next
  case False
  then have "said_by i s = []"
    using inv_run [OF inv_start assms(1)] by (intro said_by_none [of _ "length (tp_todo s)"]) (auto simp: proc_inv_def)
  then show ?thesis by (metis take0)
qed

lemma pthreads1_created:
  "proc_run pthreads1 (replicate 3 (Main_Goes 0)) proc_start =
     Some (proc_start\<lparr>tp_stage := Creating 3, tp_todo := map hello_worker [0..<NTHREADS]\<rparr>)"
  by (simp add: numeral_eq_Suc proc_start_def main_goes_def pthreads1_def NTHREADS_def)

text \<open>
  When \<open>main\<close> leaves by \<open>exit\<close> (\<open>pthreads1.c\<close>) any of the lines may be lost: the process can end with status 0 after exactly
  those outputs in which each of the three threads has printed some number of its lines in order, down to none at all.
\<close>

lemma exit_loses_lines:
  "(\<exists>evs s. proc_run pthreads1 evs proc_start = Some s \<and> tp_status s = Some 0 \<and> (\<forall>i < NTHREADS. said_by i s = ls i)) \<longleftrightarrow>
   (\<forall>i < NTHREADS. \<exists>k. ls i = take k [hello_line i, '' '' @ done_line i])" (is "?reached \<longleftrightarrow> ?cut")
proof
  assume ?reached
  then show ?cut using exit_inv by (fastforce simp: hello_worker_def)
next
  assume ?cut
  then obtain k where k: "\<And>i. i < NTHREADS \<Longrightarrow> ls i = take (k i) [hello_line i, '' '' @ done_line i]" by metis
  let ?s = "proc_start\<lparr>tp_stage := Creating 3, tp_todo := map hello_worker [0..<NTHREADS]\<rparr>"
  have "hello_worker i = map Tells (take n [hello_line i, '' '' @ done_line i]) @ drop (min n 2) (hello_worker i)" for i n
    by (auto simp: hello_worker_def take_Cons drop_Cons min_def split: nat.split)
  then have w: "hello_worker i = map Tells (ls i) @ drop (min (k i) 2) (hello_worker i)" if "i < NTHREADS" for i
    using k [OF that] by simp
  have "\<exists>evs s'. proc_run pthreads1 evs ?s = Some s' \<and> tp_stage s' = tp_stage ?s \<and> tp_status s' = None \<and>
           (\<forall>i. said_by i s' = (if i \<in> set [0..<NTHREADS] then ls i else said_by i ?s))"
    using w by (intro threads_speak) (auto simp: proc_start_def said_by_def)
  then obtain evs s where r: "proc_run pthreads1 evs ?s = Some s" "tp_stage s = Creating 3" "tp_status s = None"
    "\<forall>i < NTHREADS. said_by i s = ls i" by auto
  have "proc_run pthreads1 (replicate 3 (Main_Goes 0) @ evs @ [Main_Goes 0]) proc_start = Some (s\<lparr>tp_status := Some 0\<rparr>)"
    using r by (simp add: proc_run_append pthreads1_created main_goes_def) (simp add: pthreads1_def NTHREADS_def)
  then show ?reached using r(4) by (intro exI [of _ "s\<lparr>tp_status := Some 0\<rparr>"] exI conjI) (auto simp: said_by_def)
qed

section \<open>Threads that pause\<close>

text \<open>A thread that has to pause before it can leave never ends.\<close>

definition blocked :: "tact list \<Rightarrow> bool" where
  "blocked as \<longleftrightarrow> Halts \<in> set (takeWhile (\<lambda>a. a \<noteq> Leaves) as)"

lemma blocked_simps [simp]:
  "\<not> blocked []" "blocked (Tells l # as) \<longleftrightarrow> blocked as" "blocked (Naps n # as) \<longleftrightarrow> blocked as" "blocked (Halts # as)"
  "\<not> blocked (Leaves # as)"
  by (simp_all add: blocked_def)

lemma blocked_event:
  assumes "\<forall>i. blocked (tp_worker p i)" and "list_all blocked (tp_todo s)" and "proc_event p ev s = Some s'"
  shows "list_all blocked (tp_todo s')"
  using assms(3)
proof (cases ev)
  case (Main_Goes ret)
  then show ?thesis using assms
    by (auto simp: main_goes_def split: mstage.splits if_splits farewell.splits)
next
  case (Thread_Goes i)
  have upd: "list_all blocked ((tp_todo s)[i := as])" if "blocked as" for as
    using assms(2) that set_update_subset_insert [of "tp_todo s" i as] by (auto simp: list_all_iff)
  have "i < length (tp_todo s) \<Longrightarrow> blocked (tp_todo s ! i)" using assms(2) by (simp add: list_all_length)
  then show ?thesis using assms(3) Thread_Goes upd
    by (auto simp: thread_goes_def split: if_splits list.splits tact.splits)
qed

lemma blocked_run:
  "\<forall>i. blocked (tp_worker p i) \<Longrightarrow> list_all blocked (tp_todo s) \<Longrightarrow> proc_run p evs s = Some s' \<Longrightarrow> list_all blocked (tp_todo s')"
  by (induction evs arbitrary: s) (auto split: option.splits dest: blocked_event)

lemma no_joining:
  assumes "\<not> tp_joins p" and "proc_run p evs proc_start = Some s"
  shows "tp_stage s \<noteq> Joining i"
proof -
  have "proc_run p evs s0 = Some s \<Longrightarrow> \<forall>i. tp_stage s0 \<noteq> Joining i \<Longrightarrow> \<forall>i. tp_stage s \<noteq> Joining i" for s0
  proof (induction evs arbitrary: s0)
    case (Cons ev evs)
    then obtain s1 where e: "proc_event p ev s0 = Some s1" and r: "proc_run p evs s1 = Some s" by (auto split: option.splits)
    have "\<forall>i. tp_stage s1 \<noteq> Joining i" using e Cons.prems(2) assms(1)
      by (cases ev) (auto simp: goes_defs split: mstage.splits farewell.splits if_splits list.splits tact.splits)
    then show ?case using Cons.IH r by blast
  qed simp
  then show ?thesis using assms(2) by (simp add: proc_start_def)
qed

text \<open>
  With threads that pause the process does not end by itself: as long as the threads can be created, a run ends up with all of
  them paused, and the second line of a thread is never printed.
\<close>

lemma pausing_never_ends:
  assumes "many_threads work argv = Value p" and "\<And>i. blocked (work i)"
    and "proc_run p evs proc_start = Some s" and "list_all call_ok evs"
  shows "tp_status s = None"
    and "(\<exists>ev s'. call_ok ev \<and> proc_event p ev s = Some s') \<or>
         length (tp_todo s) = nat (atol (argv ! 1)) \<and> (\<forall>i < nat (atol (argv ! 1)). \<exists>as. tp_todo s ! i = Halts # as)"
proof -
  have p: "tp_farewell p = By_Pthread_Exit" "tp_worker p = work" "tp_count p = nat (atol (argv ! 1))" "0 < tp_count p" "\<not> tp_joins p"
    using assms(1) by (auto simp: many_threads_def Let_def split: if_splits)
  note inv = inv_run [OF inv_start assms(3)]
  note ends = end_inv_run [OF p(1) end_inv_start assms(3,4)]
  have b: "list_all blocked (tp_todo s)"
    using assms(2) p(2) by (intro blocked_run [OF _ _ assms(3)]) (simp_all add: proc_start_def)
  then have no: "\<not> all_over s" using inv p(4) by (cases "tp_todo s") (auto simp: all_over_def proc_inv_def)
  then show n: "tp_status s = None" using ends by (simp add: end_inv_def)
  show "(\<exists>ev s'. call_ok ev \<and> proc_event p ev s = Some s') \<or>
         length (tp_todo s) = nat (atol (argv ! 1)) \<and> (\<forall>i < nat (atol (argv ! 1)). \<exists>as. tp_todo s ! i = Halts # as)"
  proof (cases "\<exists>ev s'. call_ok ev \<and> proc_event p ev s = Some s'")
    case False
    then have m: "main_goes p 0 s = None" and th: "\<And>i. thread_goes i s = None" using n
      by (metis call_ok.simps not_Some_eq proc_event.simps)+
    have "\<exists>as. tp_todo s ! i = Halts # as" if "i < length (tp_todo s)" for i
    proof -
      have "blocked (tp_todo s ! i)" using b that by (simp add: list_all_length)
      then show ?thesis using th [of i] that by (auto simp: thread_goes_def split: list.splits tact.splits)
    qed
    moreover have "length (tp_todo s) = tp_count p"
    proof (cases "tp_stage s")
      case (Creating i)
      then show ?thesis using m p(1) by (simp add: main_goes_def split: if_splits)
    next
      case (Joining i)
      then show ?thesis using no_joining [OF p(5) assms(3)] by simp
    next
      case Gone
      then show ?thesis using inv by (simp add: proc_inv_def)
    qed
    ultimately show ?thesis using p(3) by simp
  qed simp
qed

lemma cr8_never_ends:
  assumes "cr8_main argv = Value p" and "proc_run p evs proc_start = Some s" and "list_all call_ok evs"
  shows "tp_status s = None" "length (said_by i s) \<le> 1"
proof -
  have w: "blocked (pausing_worker j)" "length (told (pausing_worker j)) = 1" for j by (simp_all add: pausing_worker_def)
  show "tp_status s = None"
    using pausing_never_ends(1) [OF assms(1) [unfolded cr8_main_def] w(1) assms(2,3)] .
  have "tp_worker p = pausing_worker"
    using assms(1) by (auto simp: cr8_main_def many_threads_def Let_def split: if_splits)
  then show "length (said_by i s) \<le> 1"
    using inv_run [OF inv_start assms(2)] w(2) [of i] said_by_none [of s "length (tp_todo s)" i]
    by (cases "i < length (tp_todo s)") (force simp: proc_inv_def dest: arg_cong [of _ _ length])+
qed

section \<open>Threads one after the other\<close>

text \<open>
  Where each thread is joined before the next one is created, all threads are over but perhaps the last, so that the process
  never has more than one besides \<open>main\<close>, and it ends with status 0.
\<close>

lemma joined_over:
  assumes "proc_inv p s" and "tp_joins p" and "Suc i < length (tp_todo s)"
  shows "tp_todo s ! i = []"
proof -
  have "length (tp_todo s) \<le> Suc (joined_up_to p (tp_stage s))" using assms(1) by (cases "tp_stage s") (simp_all add: proc_inv_def)
  then show ?thesis using assms by (simp add: proc_inv_def)
qed

lemma pthread_test_one_at_a_time:
  assumes "proc_run pthread_test evs proc_start = Some s"
  shows "length (filter (\<lambda>as. as \<noteq> []) (tp_todo s)) \<le> 1"
proof -
  have "as = []" if "as \<in> set (butlast (tp_todo s))" for as
  proof -
    obtain i where "i < length (butlast (tp_todo s))" "as = butlast (tp_todo s) ! i" using \<open>as \<in> _\<close> by (metis in_set_conv_nth)
    then show ?thesis using joined_over [OF inv_run [OF inv_start assms]] by (simp add: nth_butlast pthread_test_def)
  qed
  then have "filter (\<lambda>as. as \<noteq> []) (butlast (tp_todo s)) = []" by (simp add: filter_empty_conv)
  then show ?thesis by (cases "tp_todo s" rule: rev_cases) simp_all
qed

lemma pthread_test_ends:
  assumes "proc_run pthread_test evs proc_start = Some s" and "list_all call_ok evs"
  shows "(\<exists>ev s'. call_ok ev \<and> proc_event pthread_test ev s = Some s') \<or> tp_status s = Some 0"
  using pthread_exit_waits [OF _ _ assms] by (auto simp: pthread_test_def do_nothing_def)

end
