(* ===== verification/Killer.thy ===== *)
theory Killer
  imports Signals
begin

text \<open>
  \<open>killer.c\<close> of the solutions to chapter 12: a process that catches \<open>SIGINT\<close> forks, and sends the signal to its child, which
  has inherited the handler.
\<close>

section \<open>Parent and child\<close>

text \<open>
  The handler: on \<open>SIGINT\<close> it prints and ends the process, else it complains. It is installed for \<open>SIGINT\<close> alone.
\<close>

datatype handled = Ends_With int | Handler_Returns

definition catchit :: "int \<Rightarrow> nat \<Rightarrow> string \<times> handled" where
  "catchit pid signo =
     (if signo = SIGINT
      then (''catcher: process '' @ show_int pid @ '' received signal SIGINT ; will now die.'' @ [LF], Ends_With 0)
      else (''catchit: error, handler for SIGINT only'' @ [LF], Handler_Returns))"

text \<open>
  Where the parent is after \<open>fork\<close>: about to print, asleep, about to test whether the child exists, to send the signal, to wait, to
  print what \<open>wait\<close> returned, over. A child that has ended stays until it is waited for.
\<close>

datatype kparent = KP_Print | KP_Sleep | KP_Probe | KP_Kill | KP_Wait | KP_Fetched int | KP_Over int

datatype kchild = KC_Start | KC_Pause | KC_After | KC_Zombie int | KC_Gone

record killer =
  k_parent :: kparent
  k_child :: kchild
  k_pending :: bool
  k_out :: "string list"

definition killer_start :: killer where
  "killer_start = \<lparr>k_parent = KP_Print, k_child = KC_Start, k_pending = False, k_out = []\<rparr>"

fun lives :: "kchild \<Rightarrow> bool" where
  "lives (KC_Zombie n) = False"
| "lives KC_Gone = False"
| "lives _ = True"

definition parent_line :: "int \<Rightarrow> int \<Rightarrow> string" where
  "parent_line pid cpid = ''parent is '' @ show_int pid @ '', child is '' @ show_int cpid @ [LF]"

definition fetched_line :: "int \<Rightarrow> int \<Rightarrow> string" where
  "fetched_line pid n = ''parent '' @ show_int pid @ '': child process fetched, wait returned '' @ show_int n @ [LF]"

text \<open>A call of \<open>kill\<close> succeeds when the child exists, ended or not; it makes the signal pending when the child lives.\<close>

inductive kstep :: "int \<Rightarrow> int \<Rightarrow> killer \<Rightarrow> killer \<Rightarrow> bool" for pid cpid where
  prints: "k_parent s = KP_Print \<Longrightarrow> kstep pid cpid s (s\<lparr>k_parent := KP_Sleep, k_out := k_out s @ [parent_line pid cpid]\<rparr>)"
| wakes: "k_parent s = KP_Sleep \<Longrightarrow> kstep pid cpid s (s\<lparr>k_parent := KP_Probe\<rparr>)"
| probes: "k_parent s = KP_Probe \<Longrightarrow> kstep pid cpid s (s\<lparr>k_parent := if k_child s \<noteq> KC_Gone then KP_Kill else KP_Wait\<rparr>)"
| kills: "k_parent s = KP_Kill \<Longrightarrow> k_child s \<noteq> KC_Gone \<Longrightarrow>
    kstep pid cpid s (s\<lparr>k_parent := KP_Wait, k_pending := lives (k_child s)\<rparr>)"
| kill_fails: "k_parent s = KP_Kill \<Longrightarrow> k_child s = KC_Gone \<Longrightarrow> kstep pid cpid s (s\<lparr>k_parent := KP_Over 1\<rparr>)"
| waits: "k_parent s = KP_Wait \<Longrightarrow> k_child s = KC_Zombie n \<Longrightarrow>
    kstep pid cpid s (s\<lparr>k_parent := KP_Fetched cpid, k_child := KC_Gone\<rparr>)"
| wait_fails: "k_parent s = KP_Wait \<Longrightarrow> k_child s = KC_Gone \<Longrightarrow> kstep pid cpid s (s\<lparr>k_parent := KP_Over 1\<rparr>)"
| fetched: "k_parent s = KP_Fetched n \<Longrightarrow> kstep pid cpid s (s\<lparr>k_parent := KP_Over 0, k_out := k_out s @ [fetched_line pid n]\<rparr>)"
| pauses: "k_child s = KC_Start \<Longrightarrow> kstep pid cpid s (s\<lparr>k_child := KC_Pause\<rparr>)"
| exits: "k_child s = KC_After \<Longrightarrow> kstep pid cpid s (s\<lparr>k_child := KC_Zombie 0\<rparr>)"
| catches: "k_pending s \<Longrightarrow> lives (k_child s) \<Longrightarrow> catchit cpid SIGINT = (l, Ends_With n) \<Longrightarrow>
    kstep pid cpid s (s\<lparr>k_pending := False, k_child := KC_Zombie n, k_out := k_out s @ [l]\<rparr>)"
| returns: "k_pending s \<Longrightarrow> lives (k_child s) \<Longrightarrow> catchit cpid SIGINT = (l, Handler_Returns) \<Longrightarrow>
    kstep pid cpid s (s\<lparr>k_pending := False, k_child := (if k_child s = KC_Pause then KC_After else k_child s), k_out := k_out s @ [l]\<rparr>)"

text \<open>The program: \<open>sigaction\<close> and \<open>fork\<close> may fail.\<close>

definition killer_main :: "bool \<Rightarrow> int \<Rightarrow> killer outcome" where
  "killer_main sigaction_ok cpid =
     (if \<not> sigaction_ok then Exit 1
      else if cpid = -1 then Exit 1
      else Value killer_start)"

section \<open>The child enters the inherited handler\<close>

definition catcher_line :: "int \<Rightarrow> string" where
  "catcher_line cpid = fst (catchit cpid SIGINT)"

text \<open>All states there can be, with what has been printed.\<close>

inductive k_inv :: "int \<Rightarrow> int \<Rightarrow> killer \<Rightarrow> bool" for pid cpid where
  before: "k_parent s = KP_Print \<Longrightarrow> k_out s = [] \<Longrightarrow> k_child s \<in> {KC_Start, KC_Pause} \<Longrightarrow> \<not> k_pending s \<Longrightarrow> k_inv pid cpid s"
| asleep: "k_parent s \<in> {KP_Sleep, KP_Probe, KP_Kill} \<Longrightarrow> k_out s = [parent_line pid cpid] \<Longrightarrow> k_child s \<in> {KC_Start, KC_Pause} \<Longrightarrow>
    \<not> k_pending s \<Longrightarrow> k_inv pid cpid s"
| signalled: "k_parent s = KP_Wait \<Longrightarrow> k_out s = [parent_line pid cpid] \<Longrightarrow> k_child s \<in> {KC_Start, KC_Pause} \<Longrightarrow> k_pending s \<Longrightarrow>
    k_inv pid cpid s"
| caught: "k_parent s = KP_Wait \<Longrightarrow> k_out s = [parent_line pid cpid, catcher_line cpid] \<Longrightarrow> k_child s = KC_Zombie 0 \<Longrightarrow>
    \<not> k_pending s \<Longrightarrow> k_inv pid cpid s"
| reaped: "k_parent s = KP_Fetched cpid \<Longrightarrow> k_out s = [parent_line pid cpid, catcher_line cpid] \<Longrightarrow> k_child s = KC_Gone \<Longrightarrow>
    \<not> k_pending s \<Longrightarrow> k_inv pid cpid s"
| over: "k_parent s = KP_Over 0 \<Longrightarrow> k_out s = [parent_line pid cpid, catcher_line cpid, fetched_line pid cpid] \<Longrightarrow>
    k_child s = KC_Gone \<Longrightarrow> \<not> k_pending s \<Longrightarrow> k_inv pid cpid s"

lemma catch_simps [simp]:
  "catchit cpid SIGINT = (catcher_line cpid, Ends_With 0)"
  by (simp add: catcher_line_def catchit_def)

lemma k_inv_start: "k_inv pid cpid killer_start"
  by (rule k_inv.before) (simp_all add: killer_start_def)

inductive_simps kstep_simps: "kstep pid cpid s s'"

lemma k_inv_step:
  assumes "k_inv pid cpid s" and "kstep pid cpid s s'"
  shows "k_inv pid cpid s'"
  using assms(1)
proof cases
  case before
  then show ?thesis using assms(2)
    by (auto simp: kstep_simps intro: k_inv.before k_inv.asleep)
next
  case asleep
  then show ?thesis using assms(2)
    by (auto simp: kstep_simps intro: k_inv.asleep k_inv.signalled)
next
  case signalled
  then show ?thesis using assms(2)
    by (auto simp: kstep_simps intro: k_inv.signalled k_inv.caught)
next
  case caught
  then show ?thesis using assms(2)
    by (auto simp: kstep_simps intro: k_inv.reaped)
next
  case reaped
  then show ?thesis using assms(2)
    by (auto simp: kstep_simps intro: k_inv.over)
next
  case over
  then show ?thesis using assms(2) by (auto simp: kstep_simps)
qed

lemma k_inv_reach: "(kstep pid cpid)\<^sup>*\<^sup>* killer_start s \<Longrightarrow> k_inv pid cpid s"
  by (induction rule: rtranclp_induct) (auto intro: k_inv_start k_inv_step)

text \<open>How many steps there are at most.\<close>

fun kp_left :: "kparent \<Rightarrow> nat" where
  "kp_left KP_Print = 6"
| "kp_left KP_Sleep = 5"
| "kp_left KP_Probe = 4"
| "kp_left KP_Kill = 3"
| "kp_left KP_Wait = 2"
| "kp_left (KP_Fetched n) = 1"
| "kp_left (KP_Over n) = 0"

fun kc_left :: "kchild \<Rightarrow> nat" where
  "kc_left KC_Start = 3"
| "kc_left KC_Pause = 2"
| "kc_left KC_After = 1"
| "kc_left _ = 0"

definition k_left :: "killer \<Rightarrow> nat" where
  "k_left s = kp_left (k_parent s) + kc_left (k_child s)"

lemma kstep_less: "kstep pid cpid s s' \<Longrightarrow> k_left s' < k_left s"
  by (erule kstep.cases) (auto simp: k_left_def elim!: lives.elims)

lemma killer_wf: "wf {(s', s). kstep pid cpid s s'}"
  by (rule wf_subset [OF wf_measure [of k_left]]) (auto dest: kstep_less)

lemma k_progress:
  assumes "k_inv pid cpid s" and "\<not> (\<exists>s'. kstep pid cpid s s')"
  shows "k_parent s = KP_Over 0"
  using assms(1)
proof cases
  case asleep
  then have "k_child s \<noteq> KC_Gone" by auto
  then show ?thesis using asleep assms(2) kstep.wakes kstep.probes kstep.kills by blast
next
  case signalled
  then have "lives (k_child s)" by auto
  then show ?thesis using signalled assms(2) kstep.catches [OF _ _ catch_simps] by blast
qed (use assms(2) kstep.prints kstep.waits kstep.fetched in blast)+

text \<open>
  The child inherits the handler of its parent: whatever the order in which the two run, the program ends, with status 0, after the
  lines of the parent, of the child in its handler, and of the parent that has waited for the child, in this order.
\<close>

lemma killer_child_catches:
  assumes "killer_main True cpid = Value s0"
  shows "wf {(s', s). kstep pid cpid s s'}"
    and "(kstep pid cpid)\<^sup>*\<^sup>* s0 s \<Longrightarrow> \<not> (\<exists>s'. kstep pid cpid s s') \<Longrightarrow>
         k_parent s = KP_Over 0 \<and> k_out s = [parent_line pid cpid, catcher_line cpid, fetched_line pid cpid]"
proof -
  show "wf {(s', s). kstep pid cpid s s'}" by (rule killer_wf)
  assume r: "(kstep pid cpid)\<^sup>*\<^sup>* s0 s" and n: "\<not> (\<exists>s'. kstep pid cpid s s')"
  have "s0 = killer_start" using assms by (simp add: killer_main_def split: if_splits)
  then have i: "k_inv pid cpid s" using k_inv_reach r by simp
  have "k_parent s = KP_Over 0" using k_progress [OF i n] .
  then show "k_parent s = KP_Over 0 \<and> k_out s = [parent_line pid cpid, catcher_line cpid, fetched_line pid cpid]"
    using i by (auto elim: k_inv.cases)
qed

text \<open>The \<open>exit\<close> after \<open>pause\<close> is never reached, as its comment says.\<close>

lemma pause_never_returns: "(kstep pid cpid)\<^sup>*\<^sup>* killer_start s \<Longrightarrow> k_child s \<noteq> KC_After"
  by (drule k_inv_reach) (auto elim: k_inv.cases)

end
