(* ===== verification/System_Demos.thy ===== *)
theory System_Demos
  imports Exec_Programs Membugs Primes Advanced_IO Scheduling
begin

text \<open>
  Small demonstrations of single system calls and of the machine: \<open>byteorder.c\<close>, \<open>execl_eg.c\<close>, \<open>exec_pid_poc.c\<close>,
  \<open>segflt_nocore.c\<close>, \<open>mem_app1buggy.c\<close>, \<open>stacker.c\<close>, \<open>disp_defattr_pthread.c\<close>, \<open>diskspc.c\<close>, \<open>mode_def.c\<close>,
  \<open>streamio1.c\<close> and \<open>simple_feature_test_macros.c\<close>.
\<close>

section \<open>The order of bytes\<close>

text \<open>
  The bytes of a value in memory: \<open>order\<close> lists, by increasing address, the place values of the bytes, so that \<open>[0, 1]\<close> is the
  order of a little-endian machine.
\<close>

definition bytes_in :: "nat list \<Rightarrow> int \<Rightarrow> int list" where
  "bytes_in order v = map (\<lambda>k. v div 256 ^ k mod 256) order"

definition byteorder_main :: "nat list \<Rightarrow> string" where
  "byteorder_main order =
     (let c = bytes_in order 258 in
      if length order = 2 then
        if c ! 0 = 1 \<and> c ! 1 = 2 then ''big-endian'' @ [LF]
        else if c ! 0 = 2 \<and> c ! 1 = 1 then ''little-endian'' @ [LF]
        else ''unknown'' @ [LF]
      else ''sizeof(short) = '' @ show_nat (length order) @ [LF])"

text \<open>With two bytes the answer is right, and there is no third order.\<close>

lemma byteorder_right:
  "byteorder_main [0, 1] = ''little-endian'' @ [LF]" "byteorder_main [1, 0] = ''big-endian'' @ [LF]"
  by (simp_all add: byteorder_main_def bytes_in_def)

lemma byteorder_known:
  assumes "distinct order" and "set order = {0, 1}"
  shows "byteorder_main order \<noteq> ''unknown'' @ [LF]"
proof -
  have "length order = 2" using distinct_card [OF assms(1)] assms(2) by simp
  then obtain a b where "order = [a, b]" by (auto simp: numeral_2_eq_2 length_Suc_conv)
  then have "order = [0, 1] \<or> order = [1, 0]" using assms by (auto simp: doubleton_eq_iff)
  then show ?thesis by (elim disjE) (simp_all only: byteorder_right, simp_all)
qed

section \<open>Becoming another program\<close>

definition never_line :: string where
  "never_line = ''This should never get executed!'' @ [LF]"

text \<open>
  \<open>execl\<close> returns only when it fails. Then \<open>FATAL\<close> ends the process, unless memory for its message is short
  (\<open>handle_err\<close>): the program goes on. The result is the new program, or the line printed with the exit status.
\<close>

definition execl_main :: "bool \<Rightarrow> bool \<Rightarrow> string list \<Rightarrow> (image + string) outcome" where
  "execl_main exec_works malloc_ok argv =
     (if length argv < 2 then Exit EXIT_FAILURE
      else if exec_works then Value (Inl (exec_image ''uname'' [''uname'', argv ! 1]))
      else andthen (snd (handle_err malloc_ok (\<lambda>e. []) 0 EXIT_FAILURE ''execl failed''))
             (\<lambda>ret. Value (Inr never_line)))"

definition exec_pid_main :: "int \<Rightarrow> bool \<Rightarrow> string list \<Rightarrow> (string \<times> image) outcome" where
  "exec_pid_main pid exec_works argv =
     (if \<not> exec_works then Exit EXIT_FAILURE
      else Value (''Predecessor ['' @ argv ! 0 @ '']: PID is '' @ show_int pid @ [LF], exec_image ''ps'' [''ps'']))"

text \<open>The line that should never be printed needs a failed \<open>execl\<close> together with a failed allocation.\<close>

lemma execl_never_line:
  "(\<exists>l. execl_main exec_works malloc_ok argv = Value (Inr l)) \<longleftrightarrow> 2 \<le> length argv \<and> \<not> exec_works \<and> \<not> malloc_ok"
  by (auto simp: execl_main_def handle_err_def Let_def)

section \<open>Stores outside of a block\<close>

text \<open>
  \<open>segflt_nocore.c\<close> as the C standard sees it, over the checked memory, and as the machine runs it: a store works when its
  address is \<open>mapped\<close>, else the process dies of \<open>SIGSEGV\<close>, without a core file as its limit is 0.
\<close>

definition segflt_offsets :: "(nat \<times> char) list" where
  "segflt_offsets = [(100, CHR ''a''), (4000, CHR ''b''), (40000, CHR ''c''), (800000, CHR ''c'')]"

definition segflt_checked :: "bool \<Rightarrow> bool \<Rightarrow> memory outcome" where
  "segflt_checked core_ok malloc_ok =
     (if \<not> core_ok then FATAL
      else case malloc malloc_ok 500 [] of
        (Null, m) \<Rightarrow> FATAL
      | (p, m) \<Rightarrow> foldo (\<lambda>(d, ch) m. store (move (int d) p) ch m) segflt_offsets m)"

datatype segflt = Runs_On "(int \<times> char) list" | Dies_At int "(int \<times> char) list"

fun store_raw :: "(int \<Rightarrow> bool) \<Rightarrow> int \<Rightarrow> (nat \<times> char) list \<Rightarrow> (int \<times> char) list \<Rightarrow> segflt" where
  "store_raw mapped p [] stored = Runs_On stored"
| "store_raw mapped p ((d, ch) # ds) stored =
     (if mapped (p + int d) then store_raw mapped p ds (stored @ [(p + int d, ch)])
      else Dies_At (p + int d) stored)"

definition segflt_raw :: "bool \<Rightarrow> (int \<Rightarrow> bool) \<Rightarrow> int option \<Rightarrow> (nat \<times> segflt) outcome" where
  "segflt_raw core_ok mapped p =
     (if \<not> core_ok then FATAL
      else case p of None \<Rightarrow> FATAL | Some a \<Rightarrow> Value (0, store_raw mapped a segflt_offsets []))"

text \<open>The second store is out of bounds; on a heap of the usual 132 KiB it is the fourth one that kills the process.\<close>

lemma segflt_out_of_bounds: "segflt_checked True True = Undefined Out_Of_Bounds"
  by (simp add: segflt_checked_def segflt_offsets_def malloc_def new_block_def store_def resolve_def move_def)

lemma segflt_dies_fourth:
  assumes "\<And>a. mapped a \<longleftrightarrow> start \<le> a \<and> a < start + 135168" and "start \<le> p" and "p + 500 \<le> start + 4096"
  shows "segflt_raw True mapped (Some p) =
           Value (0, Dies_At (p + 800000) [(p + 100, CHR ''a''), (p + 4000, CHR ''b''), (p + 40000, CHR ''c'')])"
  using assms(2,3) by (simp add: segflt_raw_def segflt_offsets_def assms(1))

text \<open>\<open>mem_app1buggy.c\<close>: an argument makes it copy to an address that is in no block of the program.\<close>

definition mem_app_main :: "bool \<Rightarrow> nat \<Rightarrow> memory outcome" where
  "mem_app_main malloc_ok argc =
     (case malloc malloc_ok (256 * 1024) [] of
        (Null, m) \<Rightarrow> FATAL
      | (p, m) \<Rightarrow>
          let dest = (if argc = 1 then p else At (length m) 0) in
          andthen (store_all dest ''abcdef0123456789'' m) (\<lambda>m. free p m))"

lemma store_all_Value:
  "b < length m \<Longrightarrow> alive (m ! b) \<Longrightarrow> 0 \<le> i \<Longrightarrow> i + int (length cs) \<le> int (bsize (m ! b)) \<Longrightarrow>
     \<exists>m'. store_all (At b i) cs m = Value m' \<and> length m' = length m \<and> alive (m' ! b) \<and> on_heap (m' ! b) = on_heap (m ! b)"
proof (induction cs arbitrary: i m)
  case (Cons ch cs)
  let ?m = "m[b := (m ! b)\<lparr>cells := (cells (m ! b))(nat i \<mapsto> ch)\<rparr>]"
  have "store (At b i) ch m = Value ?m" using Cons.prems by (simp add: store_def resolve_def)
  then show ?case using Cons.prems Cons.IH [of ?m "i + 1"] by (auto simp: move_def)
qed simp

lemma mem_app_main_cases:
  "\<exists>m. mem_app_main True 1 = Value m \<and> list_all (\<lambda>b. \<not> alive b) m"
  "argc \<noteq> 1 \<Longrightarrow> mem_app_main True argc = Undefined Dangling"
proof -
  let ?m = "[\<lparr>bsize = 262144, cells = Map.empty, alive = True, on_heap = True\<rparr>]"
  obtain m' where "store_all (At 0 0) ''abcdef0123456789'' ?m = Value m'" and l: "length m' = 1" "alive (m' ! 0)" "on_heap (m' ! 0)"
    using store_all_Value [of 0 ?m 0 "''abcdef0123456789''"] by auto
  moreover have "list_all (\<lambda>b. \<not> alive b) (kill 0 m')" using l by (cases m') (simp_all add: kill_def)
  ultimately show "\<exists>m. mem_app_main True 1 = Value m \<and> list_all (\<lambda>b. \<not> alive b) m"
    by (simp add: mem_app_main_def malloc_def new_block_def free_def)
  show "argc \<noteq> 1 \<Longrightarrow> mem_app_main True argc = Undefined Dangling"
    by (simp add: mem_app_main_def malloc_def new_block_def store_def resolve_def)
qed

section \<open>Nested calls\<close>

definition in_function :: "string \<Rightarrow> string \<Rightarrow> string" where
  "in_function fn addr = ''In function '' @ pad 20 fn @ ''; &localvar = '' @ addr @ [LF]"

text \<open>
  \<open>stacker.c\<close>: the lines, each with the address of the variable of its function, in \<open>frames\<close> from the outermost one. The
  innermost function blocks in \<open>pause\<close>, which does not return as no handler is installed.
\<close>

definition bar_is_now_closed :: "string list \<Rightarrow> string list" where
  "bar_is_now_closed frames =
     [in_function ''bar_is_now_closed'' (frames ! 3) @ [CHR 0x09] @ ''(bye, pl go '' @ [CHR 0x27] @ ''~/'' @ [CHR 0x27] @ '' now).'' @ [LF],
      [LF] @ '' Now blocking on pause()...'' @ [LF] @ '' Connect via GDB'' @ [CHR 0x27] @ ''s '' @ [CHR 0x27] @ ''attach'' @ [CHR 0x27] @
      '' and then issue the '' @ [CHR 0x27] @ ''bt'' @ [CHR 0x27] @ '' command to view the process stack'' @ [LF]]"

definition bar :: "string list \<Rightarrow> string list" where
  "bar frames = in_function ''bar'' (frames ! 2) # bar_is_now_closed frames"

definition foo :: "string list \<Rightarrow> string list" where
  "foo frames = in_function ''foo'' (frames ! 1) # bar frames"

definition stacker_main :: "string list \<Rightarrow> string list" where
  "stacker_main frames = in_function ''main'' (frames ! 0) # foo frames"

lemma in_function_aligned:
  "length fn \<le> 20 \<Longrightarrow> length (in_function fn addr) = 47 + length addr"
  by (simp add: in_function_def pad_def)

section \<open>Default attributes of threads\<close>

text \<open>
  What the queries answer: the result and the value stored when it is 0. A failed query is reported, and the value of the
  variable is shown as it was set at the start; the priority has no value at the start.
\<close>

record attr_answers =
  at_default :: int
  at_detach :: "int \<times> int"
  at_scope :: "int \<times> int"
  at_inherit :: "int \<times> int"
  at_policy :: "int \<times> int"
  at_param :: "int \<times> int"
  at_guard :: "int \<times> nat"
  at_stack :: "int \<times> nat"

definition queried :: "string \<Rightarrow> int \<times> 'v \<Rightarrow> 'v \<Rightarrow> string list \<times> 'v" where
  "queried fn a v0 = (if fst a \<noteq> 0 then ([fn @ ''() failed.'' @ [LF]], v0) else ([], snd a))"

definition named :: "(int \<times> string) list \<Rightarrow> int \<Rightarrow> string" where
  "named names v = (case map_of names v of None \<Rightarrow> ''<unknown>'' | Some nm \<Rightarrow> nm)"

definition detach_names :: "(int \<times> string) list" where
  "detach_names = [(0, ''PTHREAD_CREATE_JOINABLE''), (1, ''PTHREAD_CREATE_DETACHED'')]"

definition scope_names :: "(int \<times> string) list" where
  "scope_names = [(0, ''PTHREAD_SCOPE_SYSTEM''), (1, ''PTHREAD_SCOPE_PROCESS'')]"

definition inherit_names :: "(int \<times> string) list" where
  "inherit_names = [(0, ''PTHREAD_INHERIT_SCHED''), (1, ''PTHREAD_EXPLICIT_SCHED'')]"

definition policy_names :: "(int \<times> string) list" where
  "policy_names = [(SCHED_FIFO, ''SCHED_FIFO''), (SCHED_RR, ''SCHED_RR''), (SCHED_OTHER, ''SCHED_OTHER'')]"

definition attr_shown :: "string \<Rightarrow> string list \<times> string \<Rightarrow> string list" where
  "attr_shown label q = fst q @ [label @ '': '' @ snd q @ [LF]]"

definition query_named :: "string \<Rightarrow> (int \<times> string) list \<Rightarrow> int \<times> int \<Rightarrow> string list \<times> string" where
  "query_named fn names a = (case queried fn a 0 of (w, v) \<Rightarrow> (w, named names v))"

definition query_size :: "string \<Rightarrow> int \<times> nat \<Rightarrow> string list \<times> string" where
  "query_size fn a = (case queried fn a 0 of (w, n) \<Rightarrow> (w, pad 9 (show_nat n) @ '' bytes''))"

definition display_thrd_attr :: "attr_answers \<Rightarrow> string list outcome" where
  "display_thrd_attr a =
     (let before =
            attr_shown ''Detach State '' (query_named ''pthread_attr_getdetachstate'' detach_names (at_detach a)) @
            [''Scheduling '' @ [LF]] @
            attr_shown '' Scope       '' (query_named ''pthread_attr_getscope'' scope_names (at_scope a)) @
            attr_shown '' Inheritance '' (query_named ''pthread_attr_getinheritsched'' inherit_names (at_inherit a)) @
            attr_shown '' Policy      '' (query_named ''pthread_attr_getschedpolicy'' policy_names (at_policy a)) in
      if fst (at_param a) \<noteq> 0 then Undefined Uninitialised
      else
        Value (before @ attr_shown '' Priority    '' ([], show_int (snd (at_param a))) @
               [''Thread Stack '' @ [LF]] @
               attr_shown ''  Guard Size '' (query_size ''pthread_attr_getguardsize'' (at_guard a)) @
               attr_shown ''  Stack Size '' (query_size ''pthread_attr_getstack'' (at_stack a))))"

definition disp_defattr_main :: "attr_answers \<Rightarrow> string list outcome" where
  "disp_defattr_main a =
     (if at_default a \<noteq> 0 then FATAL
      else andthen (display_thrd_attr a) (\<lambda>ls. Value ((''Linux Default Thread Attributes:'' @ [LF]) # ls)))"

text \<open>A query that fails is shown as the name that belongs to 0, as if it had answered so.\<close>

lemma failed_query_looks_joinable:
  "fst d \<noteq> 0 \<Longrightarrow> snd (query_named fn detach_names d) = ''PTHREAD_CREATE_JOINABLE''"
  by (simp add: query_named_def queried_def named_def detach_names_def split: prod.split)

lemma disp_defattr_all_answered:
  assumes "at_default a = 0" and "fst (at_param a) = 0"
  shows "\<exists>ls. disp_defattr_main a = Value ls \<and> 10 \<le> length ls"
  using assms by (simp add: disp_defattr_main_def display_thrd_attr_def attr_shown_def Let_def)

section \<open>Files and their permissions\<close>

text \<open>
  What the file system keeps of a file here: its permissions and its size. \<open>open_creat\<close> is \<open>open\<close> with \<open>O_CREAT\<close>: a file
  that exists stays as it is, a new one is empty and gets the permissions without the bits of the mask.
\<close>

record dfile =
  df_mode :: nat
  df_size :: nat

definition masked :: "nat \<Rightarrow> nat \<Rightarrow> nat" where
  "masked mode umask = nat (and (int mode) (not (int umask)))"

definition open_creat :: "nat \<Rightarrow> nat \<Rightarrow> string \<Rightarrow> (string \<rightharpoonup> dfile) \<Rightarrow> (string \<rightharpoonup> dfile)" where
  "open_creat mode umask path fs =
     (case fs path of
        Some f \<Rightarrow> fs
      | None \<Rightarrow> fs(path \<mapsto> \<lparr>df_mode = masked mode umask, df_size = 0\<rparr>))"

definition long_mult :: "int \<Rightarrow> int \<Rightarrow> int outcome" where
  "long_mult a b = (if LONG_MIN \<le> a * b \<and> a * b \<le> LONG_MAX then Value (a * b) else Undefined Int_Overflow)"

text \<open>
  \<open>diskspc.c\<close> reserves space. The result of \<open>unlink\<close> is not looked at; \<open>posix_fallocate\<close> makes the file at least \<open>sz\<close> bytes
  long, or fails. The mask is cleared before \<open>open\<close>.
\<close>

definition diskspc_main :: "bool \<Rightarrow> bool \<Rightarrow> bool \<Rightarrow> string list \<Rightarrow> (string \<rightharpoonup> dfile) \<Rightarrow> (string \<rightharpoonup> dfile) outcome" where
  "diskspc_main unlink_ok open_ok fallocate_ok argv fs =
     (if length argv \<noteq> 3 then Exit EXIT_FAILURE
      else
        andthen (andthen (long_mult (atol (argv ! 2)) 1024) (\<lambda>kb. long_mult kb 1024)) (\<lambda>sz.
        if sz \<le> 0 then FATAL
        else
          let path = argv ! 1;
              fs = (if unlink_ok then fs(path := None) else fs) in
          if \<not> open_ok then FATAL
          else
            let fs = open_creat 420 0 path fs in
            if \<not> fallocate_ok then FATAL
            else Value (fs(path \<mapsto> (the (fs path))\<lparr>df_size := max (df_size (the (fs path))) (nat sz)\<rparr>))))"

text \<open>\<open>mode_def.c\<close>: the mask is cleared, the file is opened, the position is that of a file just opened.\<close>

definition mode_def_main :: "bool \<Rightarrow> string list \<Rightarrow> (string \<rightharpoonup> dfile) \<Rightarrow> ((string \<rightharpoonup> dfile) \<times> string) outcome" where
  "mode_def_main open_ok argv fs =
     (if length argv \<noteq> 2 then Exit EXIT_FAILURE
      else if \<not> open_ok then FATAL
      else Value (open_creat 436 0 (argv ! 1) fs, ''Current seek position: '' @ show_nat 0 @ [LF]))"

text \<open>
  \<open>streamio1.c\<close>: only the first character of the mode is compared. A stream opened for reading starts at 0 and needs the
  file; one opened for appending starts at the end, and makes a missing file (of mode 0666 without the mask).
\<close>

definition fopen_pos :: "char \<Rightarrow> nat \<Rightarrow> string \<Rightarrow> (string \<rightharpoonup> dfile) \<Rightarrow> ((string \<rightharpoonup> dfile) \<times> nat) option" where
  "fopen_pos mode umask path fs =
     (if mode = CHR ''r'' then (case fs path of None \<Rightarrow> None | Some f \<Rightarrow> Some (fs, 0))
      else let fs = open_creat 438 umask path fs in Some (fs, df_size (the (fs path))))"

definition streamio1_main :: "bool \<Rightarrow> nat \<Rightarrow> string list \<Rightarrow> (string \<rightharpoonup> dfile) \<Rightarrow> ((string \<rightharpoonup> dfile) \<times> string) outcome" where
  "streamio1_main permitted umask argv fs =
     (if length argv \<noteq> 3 then Exit EXIT_FAILURE
      else
        let opened = (\<lambda>mode. if permitted then fopen_pos mode umask (argv ! 1) fs else None);
            rest = (\<lambda>fp. case fp of
                     None \<Rightarrow> FATAL
                   | Some (fs, n) \<Rightarrow> Value (fs, ''Current seek position: '' @ show_nat n @ [LF])) in
        if take 1 (argv ! 2) = ''b'' then rest (opened (CHR ''r''))
        else if take 1 (argv ! 2) = ''e'' then rest (opened (CHR ''a''))
        else Exit EXIT_FAILURE)"

lemma masked_none [simp]: "masked mode 0 = mode"
  by (simp add: masked_def)

lemma open_creat_there: "open_creat mode umask path fs path \<noteq> None"
  by (simp add: open_creat_def split: option.split)

text \<open>
  The space is reserved in a file with the permissions 0644, whatever there was before and whatever the mask, when the old file
  can be removed; from \<open>2 ^ 43\<close> megabytes on the size overflows.
\<close>

lemma diskspc_reserves:
  assumes "length argv = 3" and "atol (argv ! 2) = mb" and "0 < mb" and "mb < 2 ^ 43"
  shows "diskspc_main True True True argv fs = Value (fs(argv ! 1 \<mapsto> \<lparr>df_mode = 420, df_size = nat (1048576 * mb)\<rparr>))"
  using assms by (simp add: diskspc_main_def long_mult_def LONG_MIN_def LONG_MAX_def open_creat_def Let_def)

lemma diskspc_overflows:
  assumes "length argv = 3" and "2 ^ 43 \<le> atol (argv ! 2)"
  shows "diskspc_main unlink_ok open_ok fallocate_ok argv fs = Undefined Int_Overflow"
  using assms by (auto simp: diskspc_main_def long_mult_def LONG_MIN_def LONG_MAX_def)

text \<open>When it cannot be removed, the old permissions stay and the file can be longer than asked for.\<close>

lemma diskspc_keeps_old:
  assumes "length argv = 3" and "0 < atol (argv ! 2)" and "atol (argv ! 2) < 2 ^ 43" and "fs (argv ! 1) = Some f"
  shows "diskspc_main False True True argv fs =
           Value (fs(argv ! 1 \<mapsto> f\<lparr>df_size := max (df_size f) (nat (1048576 * atol (argv ! 2)))\<rparr>))"
  using assms by (simp add: diskspc_main_def long_mult_def LONG_MIN_def LONG_MAX_def open_creat_def Let_def)

lemma mode_def_new:
  "fs path = None \<Longrightarrow> mode_def_main True [me, path] fs =
     Value (fs(path \<mapsto> \<lparr>df_mode = 436, df_size = 0\<rparr>), ''Current seek position: '' @ show_nat 0 @ [LF])"
  by (simp add: mode_def_main_def open_creat_def)

lemma streamio1_positions:
  assumes "fs path = Some f"
  shows "streamio1_main True umask [me, path, ''b''] fs = Value (fs, ''Current seek position: '' @ show_nat 0 @ [LF])"
    and "streamio1_main True umask [me, path, ''e''] fs = Value (fs, ''Current seek position: '' @ show_nat (df_size f) @ [LF])"
  using assms by (simp_all add: streamio1_main_def fopen_pos_def open_creat_def Let_def)

lemma streamio1_missing:
  assumes "fs path = None"
  shows "streamio1_main True umask [me, path, ''b''] fs = FATAL"
    and "streamio1_main True umask [me, path, ''e''] fs =
           Value (fs(path \<mapsto> \<lparr>df_mode = masked 438 umask, df_size = 0\<rparr>), ''Current seek position: '' @ show_nat 0 @ [LF])"
  using assms by (simp_all add: streamio1_main_def fopen_pos_def open_creat_def Let_def)

section \<open>Feature test macros\<close>

text \<open>
  \<open>simple_feature_test_macros.c\<close>: for each macro, the text before its value when it is defined, the macro whose value is shown
  with what follows it (none for \<open>_GNU_SOURCE\<close>; for \<open>SIGSYS\<close> another one is tested), and the text when it is not defined.
  \<open>env\<close> are the macros that are defined when the program is compiled.
\<close>

record feature =
  ft_macro :: string
  ft_defined :: string
  ft_value :: "(string \<times> string) option"
  ft_undefined :: string

definition features :: "feature list" where
  "features =
     [\<lparr>ft_macro = ''_POSIX_C_SOURCE'', ft_defined = ''_POSIX_C_SOURCE is defined         : value = '', ft_value = Some (''_POSIX_C_SOURCE'', ''L''),
       ft_undefined = ''_POSIX_C_SOURCE is undefined''\<rparr>,
      \<lparr>ft_macro = ''_POSIX_SOURCE'', ft_defined = ''_POSIX_SOURCE is defined           : value = '', ft_value = Some (''_POSIX_SOURCE'', ''''),
       ft_undefined = ''_POSIX_SOURCE is undefined''\<rparr>,
      \<lparr>ft_macro = ''__STRICT_ANSI__'', ft_defined = ''__STRICT_ANSI__ is defined         : value = '', ft_value = Some (''__STRICT_ANSI__'', ''''),
       ft_undefined = ''__STRICT_ANSI__ is undefined''\<rparr>,
      \<lparr>ft_macro = ''_XOPEN_SOURCE'', ft_defined = ''_XOPEN_SOURCE is defined           : value = '', ft_value = Some (''_XOPEN_SOURCE'', ''''),
       ft_undefined = ''_XOPEN_SOURCE is undefined''\<rparr>,
      \<lparr>ft_macro = ''_XOPEN_SOURCE_EXTENDED'', ft_defined = ''_XOPEN_SOURCE_EXTENDED is defined  : value = '', ft_value = Some (''_XOPEN_SOURCE_EXTENDED'', ''''),
       ft_undefined = ''_XOPEN_SOURCE_EXTENDED is undefined''\<rparr>,
      \<lparr>ft_macro = ''_ISOC99_SOURCE'', ft_defined = ''_ISOC99_SOURCE is defined          : value = '', ft_value = Some (''_ISOC99_SOURCE'', ''''),
       ft_undefined = ''_ISOC99_SOURCE is undefined''\<rparr>,
      \<lparr>ft_macro = ''_ISOC11_SOURCE'', ft_defined = ''_ISOC11_SOURCE is defined          : value = '', ft_value = Some (''_ISOC11_SOURCE'', ''''),
       ft_undefined = ''_ISOC11_SOURCE is undefined''\<rparr>,
      \<lparr>ft_macro = ''_LARGEFILE64_SOURCE'', ft_defined = ''_LARGEFILE64_SOURCE is defined     : value = '', ft_value = Some (''_LARGEFILE64_SOURCE'', ''''),
       ft_undefined = ''_LARGEFILE64_SOURCE is undefined''\<rparr>,
      \<lparr>ft_macro = ''_LARGEFILE_SOURCE'', ft_defined = ''_LARGEFILE_SOURCE is defined       : value = '', ft_value = Some (''_LARGEFILE_SOURCE'', ''''),
       ft_undefined = ''_LARGEFILE_SOURCE is undefined''\<rparr>,
      \<lparr>ft_macro = ''_FILE_OFFSET_BITS'', ft_defined = ''_FILE_OFFSET_BITS is defined       : value = '', ft_value = Some (''_FILE_OFFSET_BITS'', ''''),
       ft_undefined = ''_FILE_OFFSET_BITS is undefined''\<rparr>,
      \<lparr>ft_macro = ''_BSD_SOURCE'', ft_defined = ''_BSD_SOURCE is defined             : value = '', ft_value = Some (''_BSD_SOURCE'', ''''),
       ft_undefined = ''_BSD_SOURCE is undefined''\<rparr>,
      \<lparr>ft_macro = ''_SVID_SOURCE'', ft_defined = ''_SVID_SOURCE is defined            : value = '', ft_value = Some (''_SVID_SOURCE'', ''''),
       ft_undefined = ''_SVID_SOURCE is undefined''\<rparr>,
      \<lparr>ft_macro = ''_DEFAULT_SOURCE'', ft_defined = ''_DEFAULT_SOURCE is defined         : value = '', ft_value = Some (''_DEFAULT_SOURCE'', ''''),
       ft_undefined = ''_DEFAULT_SOURCE is undefined''\<rparr>,
      \<lparr>ft_macro = ''_ATFILE_SOURCE'', ft_defined = ''_ATFILE_SOURCE is defined          : value = '', ft_value = Some (''_ATFILE_SOURCE'', ''''),
       ft_undefined = ''_ATFILE_SOURCE is undefined''\<rparr>,
      \<lparr>ft_macro = ''_GNU_SOURCE'', ft_defined = ''_GNU_SOURCE is defined'', ft_value = None,
       ft_undefined = ''_GNU_SOURCE is undefined''\<rparr>,
      \<lparr>ft_macro = ''_REENTRANT'', ft_defined = ''[Obsolete] _REENTRANT is defined   : value = '', ft_value = Some (''_REENTRANT'', ''''),
       ft_undefined = ''_REENTRANT is undefined''\<rparr>,
      \<lparr>ft_macro = ''_THREAD_SAFE'', ft_defined = ''[Deprecated] _THREAD_SAFE is defined : value = '', ft_value = Some (''_THREAD_SAFE'', ''''),
       ft_undefined = ''_THREAD_SAFE is undefined''\<rparr>,
      \<lparr>ft_macro = ''_FORTIFY_SOURCE'', ft_defined = ''_FORTIFY_SOURCE is defined         : value = '', ft_value = Some (''_FORTIFY_SOURCE'', ''''),
       ft_undefined = ''_FORTIFY_SOURCE is undefined''\<rparr>,
      \<lparr>ft_macro = ''__SI_HAVE_SIGSYS'', ft_defined = ''Signal SIGSYS is defined         : value = '', ft_value = Some (''SIGSYS'', ''''),
       ft_undefined = ''Signal SIGSYS is undefined''\<rparr>]"

definition feature_line :: "(string \<Rightarrow> int option) \<Rightarrow> feature \<Rightarrow> string" where
  "feature_line env f =
     (if env (ft_macro f) = None then ft_undefined f @ [LF]
      else ft_defined f @ (case ft_value f of None \<Rightarrow> [] | Some (m, suffix) \<Rightarrow> show_int (the (env m)) @ suffix) @ [LF])"

definition feature_macros_main :: "int \<Rightarrow> (string \<Rightarrow> int option) \<Rightarrow> string list" where
  "feature_macros_main stdc_version env =
     [''C STD = '' @ show_int stdc_version @ ''L'' @ [LF]] @
     (if stdc_version = 201112 then ['' C11 [latest ver as of date]'' @ [LF]] else []) @
     [''=========== Simple Feature Test Macros ==========='' @ [LF]] @
     map (feature_line env) features"

text \<open>There is one line for each of the nineteen macros, no macro is tested twice, and the value shown is that of the macro tested in all rows but one.\<close>

lemma features_distinct: "distinct (map ft_macro features)" "length features = 19"
  by (simp_all add: features_def)

lemma features_show_own_value:
  "\<forall>f \<in> set features. \<forall>m suffix. ft_value f = Some (m, suffix) \<longrightarrow> m = ft_macro f \<or> ft_macro f = ''__SI_HAVE_SIGSYS'' \<and> m = ''SIGSYS''"
  by (simp add: features_def)

lemma feature_macros_lines: "stdc_version \<noteq> 201112 \<Longrightarrow> length (feature_macros_main stdc_version env) = 21"
  by (simp add: feature_macros_main_def features_distinct)

end
