(* ===== verification/Thread_Joins.thy ===== *)
theory Thread_Joins
  imports Scheduling Thread_Signals
begin

text \<open>
  The last loop of \<open>main\<close> in the programs of chapters 15 to 17, in which it joins its threads, reports their statuses and frees
  what they were given: \<open>assgn2.c\<close>, \<open>mt_primes1.c\<close> and \<open>mt_primes2.c\<close> of the solutions, \<open>pthreads_app_template.c\<close>, \<open>tsig.c\<close> and
  \<open>pshared_mutex_demo.c\<close>; and the macros and helpers of the template.
\<close>

section \<open>Joining and reporting\<close>

text \<open>
  How a program reports: what it prints before it joins, what when it has joined or that has failed (without what
  \<open>WARN\<close> puts before it), what in addition when the thread was
  cancelled, and whether it then frees the structure of the thread. The status of a cancelled thread is -1.
\<close>

record join_style =
  js_before :: "nat \<Rightarrow> string list"
  js_joined :: "nat \<Rightarrow> int \<Rightarrow> string"
  js_failed :: "nat \<Rightarrow> int \<Rightarrow> string"
  js_canceled :: "string list"
  js_frees :: bool

definition PTHREAD_CANCELED :: int where "PTHREAD_CANCELED = -1"

text \<open>
  What \<open>pthread_join\<close> gives: its result and the status of the thread, or \<open>None\<close> when the thread never ends. A failed call is
  only warned about, and the structure is freed all the same.
\<close>

record join_state =
  j_lines :: "string list"
  j_freed :: "nat list"

datatype join_end = Joined_All | Waits_For nat

definition join_report :: "join_style \<Rightarrow> nat \<Rightarrow> int \<Rightarrow> int \<Rightarrow> string list" where
  "join_report st i ret stat =
     (if ret \<noteq> 0 then [js_failed st i ret]
      else js_joined st i stat # (if stat = PTHREAD_CANCELED then js_canceled st else []))"

fun join_loop :: "join_style \<Rightarrow> (nat \<Rightarrow> (int \<times> int) option) \<Rightarrow> nat list \<Rightarrow> join_state \<Rightarrow> join_state \<times> join_end" where
  "join_loop st join [] s = (s, Joined_All)"
| "join_loop st join (i # is) s =
     (let s = s\<lparr>j_lines := j_lines s @ js_before st i\<rparr> in
      case join i of
        None \<Rightarrow> (s, Waits_For i)
      | Some (ret, stat) \<Rightarrow>
          join_loop st join is (s\<lparr>j_lines := j_lines s @ join_report st i ret stat, j_freed := j_freed s @ (if js_frees st then [i] else [])\<rparr>))"

definition not_joined :: join_state where
  "not_joined = \<lparr>j_lines = [], j_freed = []\<rparr>"

text \<open>When every thread ends each one is reported exactly once, in order, and its structure freed once.\<close>

lemma join_loop_all:
  assumes "\<And>i. i \<in> set is \<Longrightarrow> join i = Some (ret i, stat i)"
  shows "join_loop st join is s =
     (s\<lparr>j_lines := j_lines s @ concat (map (\<lambda>i. js_before st i @ join_report st i (ret i) (stat i)) is),
        j_freed := j_freed s @ (if js_frees st then is else [])\<rparr>, Joined_All)"
  using assms by (induction "is" arbitrary: s) (simp_all add: Let_def)

text \<open>A thread that does not end keeps all that come after it from being joined and freed.\<close>

lemma join_loop_waits:
  assumes "\<And>i. i \<in> set is \<Longrightarrow> join i = Some (ret i, stat i)" and "join k = None"
  shows "snd (join_loop st join (is @ k # ks) s) = Waits_For k"
    and "j_freed (fst (join_loop st join (is @ k # ks) s)) = j_freed s @ (if js_frees st then is else [])"
  using assms by (induction "is" arbitrary: s) (simp_all add: Let_def)

section \<open>The programs\<close>

definition joined_line :: "string \<Rightarrow> nat \<Rightarrow> int \<Rightarrow> string" where
  "joined_line lead i stat =
     lead @ ''Thread #'' @ show_nat i @ '' successfully joined; it terminated with status='' @ show_int stat @ [LF]"

definition failed_line :: "nat \<Rightarrow> int \<Rightarrow> string" where
  "failed_line i ret = ''pthread_join() failed! ['' @ show_int ret @ '']'' @ [LF]"

definition numbered_failed_line :: "nat \<Rightarrow> int \<Rightarrow> string" where
  "numbered_failed_line i ret = ''['' @ show_nat i @ ''] '' @ failed_line i ret"

definition waiting_line :: "nat \<Rightarrow> string" where
  "waiting_line i = ''main: joining (waiting) upon thread #'' @ show_nat i @ '' ...'' @ [LF]"

definition app_style :: "(nat \<Rightarrow> int \<Rightarrow> string) \<Rightarrow> join_style" where
  "app_style failed = \<lparr>js_before = (\<lambda>i. []), js_joined = joined_line '' '', js_failed = failed, js_canceled = [''  : was CANCELED'' @ [LF]], js_frees = True\<rparr>"

definition assgn2_joins :: "(nat \<Rightarrow> (int \<times> int) option) \<Rightarrow> join_state \<times> join_end" where
  "assgn2_joins join = join_loop (app_style failed_line) join [0..<NTHREADS_3] not_joined"

text \<open>The prime generators join in the same way; the second one frees later.\<close>

definition mt_primes1_joins :: "(nat \<Rightarrow> (int \<times> int) option) \<Rightarrow> join_state \<times> join_end" where
  "mt_primes1_joins join = join_loop (app_style failed_line) join [0..<3] not_joined"

definition mt_primes2_joins :: "(nat \<Rightarrow> (int \<times> int) option) \<Rightarrow> join_state \<times> join_end" where
  "mt_primes2_joins join = join_loop ((app_style failed_line)\<lparr>js_frees := False\<rparr>) join [0..<3] not_joined"

text \<open>The template joins the workers, and then the thread that waits for signals, whose status it does not report.\<close>

definition template_joins :: "(nat \<Rightarrow> (int \<times> int) option) \<Rightarrow> join_state \<times> join_end" where
  "template_joins join =
     (case join_loop (app_style numbered_failed_line) join [1..<3] not_joined of
        (s, Joined_All) \<Rightarrow>
          (case join 0 of
             None \<Rightarrow> (s, Waits_For 0)
           | Some (ret, stat) \<Rightarrow>
               (if ret \<noteq> 0 then s\<lparr>j_lines := j_lines s @ [numbered_failed_line 0 ret]\<rparr> else s, Joined_All))
      | r \<Rightarrow> r)"

definition tsig_style :: join_style where
  "tsig_style =
     \<lparr>js_before = (\<lambda>i. [waiting_line i]), js_joined = joined_line [], js_failed = failed_line, js_canceled = [''   *** Was CANCELLED ***'' @ [LF]], js_frees = False\<rparr>"

text \<open>
  In \<open>tsig.c\<close> the loop comes after an endless one and is never reached; it would join the threads 0 and 1, one of them the thread
  that waits for signals, all of them detached.
\<close>

definition tsig_joins :: "(nat \<Rightarrow> (int \<times> int) option) \<Rightarrow> join_state \<times> join_end" where
  "tsig_joins join =
     (case join_loop tsig_style join [0..<2] not_joined of
        (s, Joined_All) \<Rightarrow> (s\<lparr>j_lines := j_lines s @ [[LF] @ ''main: now dying... <Dramatic!> Farewell!'' @ [LF]]\<rparr>, Joined_All)
      | r \<Rightarrow> r)"

text \<open>In \<open>pshared_mutex_demo.c\<close> the parent first waits for the child.\<close>

definition pshared_style :: join_style where
  "pshared_style = \<lparr>js_before = (\<lambda>i. [waiting_line i]), js_joined = joined_line [], js_failed = failed_line, js_canceled = [], js_frees = False\<rparr>"

definition pshared_joins :: "int \<Rightarrow> (nat \<Rightarrow> (int \<times> int) option) \<Rightarrow> join_state \<times> join_end" where
  "pshared_joins wait_ret join =
     join_loop pshared_style join [0..<1]
       (not_joined\<lparr>j_lines := if wait_ret < 0 then [''wait failed'' @ [LF]] else []\<rparr>)"

text \<open>
  The threads of \<open>assgn2\<close> end, so that all structures are freed; the structures are freed even when joining fails and a thread
  may still use its own. The template never gets past its last join, as that thread loops for ever.
\<close>

lemma assgn2_frees_all:
  assumes "\<And>i. i < 3 \<Longrightarrow> join i = Some (ret i, stat i)"
  shows "j_freed (fst (assgn2_joins join)) = [0, 1, 2] \<and> snd (assgn2_joins join) = Joined_All"
  using assms join_loop_all [of "[0..<3]" join ret stat "app_style failed_line" not_joined]
  by (simp add: assgn2_joins_def NTHREADS_3_def not_joined_def app_style_def upt_rec)

lemma template_waits_for_ever:
  assumes "\<And>i. i \<in> {1, 2} \<Longrightarrow> join i = Some (0, stat i)" and "join 0 = None"
  shows "snd (template_joins join) = Waits_For 0 \<and> j_freed (fst (template_joins join)) = [1, 2]"
  using assms join_loop_all [of "[1..<3]" join "\<lambda>i. 0" stat "app_style numbered_failed_line" not_joined]
  by (simp add: template_joins_def not_joined_def app_style_def upt_rec)

text \<open>When the third thread has been cancelled, its line is followed by the remark on it, and it is the last one.\<close>

lemma mt_primes2_cancelled:
  assumes "\<And>i. i < 2 \<Longrightarrow> join i = Some (0, 0)" and "join 2 = Some (0, PTHREAD_CANCELED)"
  shows "mt_primes2_joins join =
    (\<lparr>j_lines = [joined_line '' '' 0 0, joined_line '' '' 1 0, joined_line '' '' 2 PTHREAD_CANCELED, ''  : was CANCELED'' @ [LF]],
      j_freed = []\<rparr>, Joined_All)"
proof -
  have j: "join 0 = Some (0, 0)" "join 1 = Some (0, 0)" using assms(1) by simp_all
  have i: "[0..<3] = [0, 1, 2 :: nat]" by (simp add: upt_rec)
  show ?thesis unfolding mt_primes2_joins_def i
    by (simp add: j assms(2) not_joined_def app_style_def join_report_def PTHREAD_CANCELED_def del: One_nat_def)
qed

section \<open>Helpers of the template\<close>

text \<open>The macros that lock and unlock: a failure is reported, and ends the process when it is fatal.\<close>

definition mtx_call :: "string \<Rightarrow> (int \<Rightarrow> string) \<Rightarrow> int \<Rightarrow> bool \<Rightarrow> string list \<times> unit outcome" where
  "mtx_call fn strerror err fatal =
     (if err = 0 then ([], Value ())
      else if fatal then ([fn @ '' failed! : '' @ strerror err @ [LF], ''Aborting now...'' @ [LF]], Exit 1)
      else ([fn @ '' failed! : '' @ strerror err @ [LF], ''*WARNING* '' @ fn @ '' failed!'' @ [LF]], Value ()))"

definition MTX_LOCK :: "(int \<Rightarrow> string) \<Rightarrow> int \<Rightarrow> bool \<Rightarrow> string list \<times> unit outcome" where
  "MTX_LOCK = mtx_call ''pthread_mutex_lock''"

definition MTX_UNLOCK :: "(int \<Rightarrow> string) \<Rightarrow> int \<Rightarrow> bool \<Rightarrow> string list \<times> unit outcome" where
  "MTX_UNLOCK = mtx_call ''pthread_mutex_unlock''"

definition template_setup_altsigstack :: "nat \<Rightarrow> string option \<Rightarrow> int option \<Rightarrow> string list \<times> int" where
  "template_setup_altsigstack stack_sz sp errno =
     (let first = ''Alt signal stack size = '' @ show_nat stack_sz @ '' bytes'' @ [LF] in
      case sp of
        None \<Rightarrow> ([first, ''malloc('' @ show_nat stack_sz @ '') for alt sig stack failed'' @ [LF]], -12)
      | Some addr \<Rightarrow>
          (case errno of
             Some e \<Rightarrow> ([first, ''sigaltstack for size '' @ show_nat stack_sz @ '' failed!'' @ [LF]], - e)
           | None \<Rightarrow> ([first, ''Alt signal stack uva (user virt addr) = '' @ addr @ [LF]], 0)))"

text \<open>Its result is that of the function of \<open>handle_segv.c\<close>, and negative exactly when a call has failed.\<close>

lemma template_setup_result:
  "snd (template_setup_altsigstack n sp errno) = setup_altsigstack_of_segv (sp \<noteq> None) errno"
  by (auto simp: template_setup_altsigstack_def setup_altsigstack_of_segv_def Let_def split: option.split)

lemma mtx_call_fatal: "snd (mtx_call fn strerror err True) = Value () \<longleftrightarrow> err = 0"
  by (simp add: mtx_call_def)

end
