(* ===== verification/Spec2Isabelle.thy ===== *)
theory Spec2Isabelle
  imports Request_Server Proxy_Main Primes Advanced_IO System_Info Echo_Sockets Credentials
    Signal_Pair Locking_Demos Membugs Signal_Messages Timers Shell Shared_Buffers Shared_Memory Thread_Params Matrix_Mul
    Two_Children Shared_Offset Unit_Tests Thread_Cancellation Capabilities Alternate_Stack Scheduling Thread_Signals
    Daemon Memory_Programs Stdio_Buffers Simple_Forks Exec_Programs Timed_Signals Small_Programs Thread_Exit Killer
    System_Demos Thread_Joins
begin

text \<open>
  A verification development for a repository of C programs on systems programming: a multithreaded
  request server, an HTTP proxy, a number of lab programs, and the sample programs of a book
  (\<open>booksrc\<close>). Paths below are relative to the root of the repository.

  \<^bold>\<open>How programs are modelled.\<close> A C function is a HOL function. What it does besides returning is a
  value: \<open>Exit n\<close> for \<open>exit(n)\<close>, \<open>Undefined u\<close> for undefined behaviour (null or dangling pointers,
  accesses outside an array, overflow of \<open>int\<close>, reading what was never set). What the operating system
  answers (allocations, reads and writes, sockets, thread creation, random numbers) is an argument, so
  the theorems hold for every answer their hypotheses allow, and error paths are branches of the model.
  Threads are programs of small steps under an arbitrary schedule.

  \<^bold>\<open>The theories.\<close>
  \<^item> \<open>Prelude\<close>: outcomes, \<open>int\<close> ranges, conversions between integer types, list lemmas.
    \<open>C_Strings\<close>: the string functions of the C library that the programs call.
    \<open>Common\<close>: \<open>booksrc/common.c\<close> and \<open>common.h\<close>; the restarting sleep sleeps the whole time, the waiting loops overflow for
    negative counts.
  \<^item> \<open>Fifo_Contract\<close> states as a locale what a client may rely on when it uses a queue.
    \<open>Request_Queue\<close> models \<open>M9Lab/M9/queue.c\<close>, a linked list in a heap of nodes with explicit
    addresses, and interprets the locale: every sequence of calls returns what it returns on a plain
    list, no call on a well-formed queue is undefined, and no node leaks.
    \<open>Worker_Pool\<close> models the main thread and the workers of \<open>M9Lab/M9\<close> around that queue with its mutex
    and condition variable: mutual exclusion, no request lost or run twice, no deadlock, an explicit
    bound on the length of every schedule, completion.
    \<open>Request_Server\<close> models \<open>thread_pool.c\<close>, \<open>tasks.c\<close> and \<open>main.c\<close>: thread numbers and array bounds,
    random times within their range, the requests that the producer makes. The theorem below joins
    the three.
  \<^item> \<open>Http_Proxy\<close> and \<open>Proxy_Main\<close> model \<open>Final/proxy_server\<close>: parsing inverts printing, the request is
    forwarded in origin form and the response returned, a refused connection ends the whole process,
    long tokens overrun their arrays; the whole of \<open>main\<close> with its accept loop, \<open>SIGINT\<close> and the order in which it uses the
    queue and the pool of its library.
    \<open>Echo_Sockets\<close> models the client and server pairs of \<open>Testing_server\<close>.
  \<^item> \<open>Lab_Input\<close> models \<open>M4lab/input.c\<close> and \<open>m2/future_value.c\<close>, \<open>System_Info\<close> models
    \<open>M5/system_info.c\<close>. A \<open>double\<close> is a rational number with the rounding as an argument.
  \<^item> \<open>Credentials\<close> models \<open>M6/setuid_demo.c\<close> and the programs of chapters 7 and 8 on user ids: a
    permanent drop of privileges is permanent, by induction on the calls a process can make.
    \<open>Signal_Pair\<close> models \<open>M8/parent.c\<close> and \<open>child.c\<close> as a step relation with pending signals.
  \<^item> \<open>Primes\<close> models the three prime generators, \<open>File_Copy\<close> the three file copying programs with short
    reads and writes, \<open>Advanced_IO\<close> the scattered write and the dump of a mapped file of chapter 18.
  \<^item> \<open>Critical_Section\<close> proves once that threads which do all their work in one critical section of a
    shared mutex have the effect of running one after the other, and states as a locale what a program
    has to show for that. \<open>Locking_Demos\<close> interprets it for the bank account, the factorials and the
    counters of chapter 15, and models the condition variable of \<open>cv_simple.c\<close>.
  \<^item> \<open>Membugs\<close> models \<open>booksrc/ch5/membugs.c\<close> over a memory that checks every access, and shows which
    error each of its test cases commits and how much each of its leaks loses.

  \<^item> \<open>Unit_Tests\<close> runs the tests of \<open>M9Lab/M9/test_queue.c\<close> and \<open>M4lab/test_input.c\<close> on the models: all pass.
  \<^item> \<open>Signals\<close> is a process with signal masks, pending signals and handlers of small steps, with what holds of
    every program on it. \<open>Signal_Programs\<close>, \<open>Signal_Messages\<close> and \<open>Timers\<close> put the programs of chapters 11 to 13 on
    it: counting handlers, real-time signals, data sent with signals, waiting for signals, alarms, the reaction
    game, the run and walk timer. \<open>Alternate_Stack\<close> models handlers on a stack of their own and the report of a
    segmentation fault: the stack is never overrun, and the report is lost exactly when it is needed.
    \<open>Timed_Signals\<close> adds waiting with a time limit and interval timers.
  \<^item> \<open>Thread_Signals\<close> models programs in which one thread takes all signals: none is lost, and how the process ends.
    \<open>Thread_Cancellation\<close> models threads that are cancelled at any of their cancellation points: a critical part is
    never cut, and a cleanup handler frees the buffer exactly once.
  \<^item> \<open>Shared_Buffers\<close> (one buffer for all threads, a buffer for each, a thread-local one), \<open>Shared_Memory\<close> (a mutex
    between processes), \<open>Fork_Join\<close> with \<open>Thread_Params\<close> and \<open>Matrix_Mul\<close> (threads that are created and joined: a locale
    for it, parameters passed to threads, matrix multiplication) and \<open>Scheduling\<close> (real-time policies and
    priorities) model the programs of chapters 14 to 17. \<open>Thread_Exit\<close> is a process whose \<open>main\<close> leaves by \<open>exit\<close> or by
    \<open>pthread_exit\<close>, for the first programs with threads: with the second no line of a thread is lost, with the first
    exactly which outputs are possible, and threads that pause keep the process for ever. \<open>Thread_Joins\<close> models the loops in
    which \<open>main\<close> joins its threads and frees what they were given.
  \<^item> \<open>Processes\<close> is a table of processes that fork, wait, end and share an open file, under any schedule, with the
    invariant that the table is well formed and locales for the programs on it. \<open>Fork_Programs\<close>, \<open>Two_Children\<close>,
    \<open>Shared_Offset\<close> and \<open>Simple_Forks\<close> interpret them for the programs of chapter 10 and its solutions. \<open>Shell\<close> models
    the three versions of the small shell, \<open>Killer\<close> a parent that sends a signal to the child which has inherited its handler,
    \<open>Exec_Programs\<close> the programs that execute others, \<open>Daemon\<close> the traditional
    daemon.
  \<^item> \<open>Capabilities\<close> extends \<open>Credentials\<close> by capability sets: what is dropped can not be regained.
    \<open>Memory_Programs\<close> models the programs on allocation, protection and locking of memory and on thread stacks,
    \<open>Stdio_Buffers\<close> the buffers of streams, \<open>Small_Programs\<close> lab 3 and some small programs,
    \<open>System_Demos\<close> the demonstrations of single calls (order of bytes, \<open>exec\<close>, stores outside of a block, attributes of
    threads, permissions and sizes of files, feature test macros).

  \<^bold>\<open>Interfaces.\<close> Each is a locale that is interpreted on the definitions of the programs, whose properties rest on its
  lemmas: \<open>fifo_queue\<close> (the queue), \<open>order_free\<close> (programs with a mutex), \<open>fork_join\<close> (programs that join their
  threads), \<open>program_invariant\<close> and \<open>line_program\<close> (programs that fork), \<open>serial_handlers\<close> and \<open>caught_signals\<close> (programs
  that handle signals).

  \<^bold>\<open>Fuel and bounds.\<close> Two functions have fuel. The copy loop of \<open>simpcp2.c\<close> has one round more than the source has
  bytes, and the theorem on it proves that this is enough. Reading a string from memory in \<open>Membugs\<close> stops
  after more steps than the block has bytes, which would have left the block, an error of its own. Every other loop is a total
  function. Counters of signals are unbounded; they would overflow after \<open>2 ^ 31\<close> signals.

  \<^bold>\<open>What is not modelled.\<close> Shell scripts, build files, the Python target server, the binaries; the library
  \<open>Final/librequest\<close>, of which the repository has only headers (the proxy takes its functions as an argument);
  \<open>M9Lab/primes1.c\<close>, which does not compile; programs that only print a greeting or read registers with inline assembly; code
  between \<open>#if 0\<close> and its end.
  Printed text is modelled where it is the result of the program and left out where it is a trace. Interference
  of other processes with the files a program uses is left out.
\<close>

section \<open>The request server from its arguments to its log\<close>


definition zero_rand :: "nat \<Rightarrow> int" where
  "zero_rand k = 0"

definition ample_memory :: "nat \<Rightarrow> bool \<times> bool" where
  "ample_memory i = (True, True)"

definition logged_at :: "nat \<Rightarrow> Request_Server.request" where
  "logged_at a = Write_Log ''Log message 1''"

lemma one_request:
  "\<exists>sv. produce_all zero_rand ample_memory 1 = Value ([Some (logged_at 7)], sv)"
proof -
  have "show_int 1 = ''1''" by code_simp
  then show ?thesis
    by (simp add: produce_all_def produce_round_def create_request_def zero_rand_def ample_memory_def
        logged_at_def random_sleep_time_in_range_def smod_pos sdiv_pos int_range_defs c_int_def
        snprintf_def Let_def upt_rec)
qed


end
